(* ===== verification/Go_Prelude.thy ===== *)
theory Go_Prelude
  imports Main "HOL-Library.Word" "HOL-Library.Code_Target_Nat"
begin

text \<open>
  The part of the Go language and of its packages \<open>strings\<close>, \<open>bytes\<close>, \<open>strconv\<close> and
  \<open>encoding/base64\<close> that the program uses, with the generic lemmas the component theories
  share.  A Go string is a sequence of bytes, so it is a \<^typ>\<open>string\<close> whose \<^typ>\<open>char\<close>s are
  bytes; a fixed-width integer is a \<open>word\<close> of that width; a Go function that returns a value
  and an error returns a sum, with the error on the left.

  The collection \<open>go_simps\<close> holds the rewrite rules by which the proofs of the component
  theories compute with these functions on strings that are only partly known, and
  \<open>trim_intros\<close> the rules that show a string free of surrounding white space.
\<close>

named_theorems go_simps "rewrite rules for Go string operations on partly known strings"
named_theorems trim_intros "introduction rules for strings without surrounding white space"

type_synonym byte = "8 word"
type_synonym u16 = "16 word"
type_synonym u32 = "32 word"
type_synonym u64 = "64 word"

abbreviation code :: "char \<Rightarrow> nat" where
  "code c \<equiv> of_char c"

abbreviation chr :: "nat \<Rightarrow> char" where
  "chr n \<equiv> char_of n"

abbreviation newline :: char where
  "newline \<equiv> CHR 0x0A"

section \<open>Package strings\<close>

subsection \<open>Cut, Split and Join with a one-byte separator\<close>

text \<open>\<open>strings.Cut(s, sep)\<close>: what precedes the first separator, what follows it, and whether
  there is one.\<close>

fun strings_Cut :: "string \<Rightarrow> char \<Rightarrow> string \<times> string \<times> bool" where
  "strings_Cut [] sep = ([], [], False)"
| "strings_Cut (c # s) sep =
     (if c = sep then ([], s, True)
      else case strings_Cut s sep of (bef, aft, found) \<Rightarrow> (c # bef, aft, found))"

text \<open>\<open>strings.Split(s, sep)\<close>: the substrings between separators; always at least one.\<close>

fun strings_Split :: "string \<Rightarrow> char \<Rightarrow> string list" where
  "strings_Split [] sep = [[]]"
| "strings_Split (c # s) sep =
     (if c = sep then [] # strings_Split s sep
      else case strings_Split s sep of
             [] \<Rightarrow> [[c]]
           | part # parts \<Rightarrow> (c # part) # parts)"

fun strings_Join :: "string list \<Rightarrow> string \<Rightarrow> string" where
  "strings_Join [] sep = []"
| "strings_Join [x] sep = x"
| "strings_Join (x # y # xs) sep = x @ sep @ strings_Join (y # xs) sep"

lemma strings_Cut_notin [go_simps]:
  "sep \<notin> set s \<Longrightarrow> strings_Cut s sep = (s, [], False)"
  by (induction s) auto

lemma strings_Cut_append [go_simps]:
  "sep \<notin> set s \<Longrightarrow> strings_Cut (s @ sep # t) sep = (s, t, True)"
  by (induction s) auto

lemma strings_Cut_found:
  "strings_Cut s sep = (b, a, True) \<Longrightarrow> s = b @ sep # a \<and> sep \<notin> set b"
  by (induction s arbitrary: b) (auto split: if_splits prod.splits)

lemma strings_Cut_not_found:
  "strings_Cut s sep = (b, a, False) \<Longrightarrow> b = s \<and> a = [] \<and> sep \<notin> set s"
  by (induction s arbitrary: b) (auto split: if_splits prod.splits)

lemma strings_Split_nonempty [simp]: "strings_Split s sep \<noteq> []"
  by (induction s) (auto split: list.splits)

lemma strings_Split_notin [go_simps]:
  "sep \<notin> set s \<Longrightarrow> strings_Split s sep = [s]"
  by (induction s) auto

lemma strings_Split_append [go_simps]:
  "sep \<notin> set s \<Longrightarrow> strings_Split (s @ sep # t) sep = s # strings_Split t sep"
  by (induction s) auto

lemma strings_Split_parts:
  "p \<in> set (strings_Split s sep) \<Longrightarrow> sep \<notin> set p \<and> set p \<subseteq> set s"
proof (induction s arbitrary: p)
  case Nil
  then show ?case by simp
next
  case (Cons c s)
  obtain q qs where q: "strings_Split s sep = q # qs"
    by (cases "strings_Split s sep") auto
  with Cons.IH have "sep \<notin> set q \<and> set q \<subseteq> set s"
    and "\<And>p. p \<in> set qs \<Longrightarrow> sep \<notin> set p \<and> set p \<subseteq> set s"
    by auto
  with Cons.prems q show ?case
    by (fastforce split: if_splits)
qed

lemma strings_Join_Split: "strings_Join (strings_Split s sep) [sep] = s"
proof (induction s)
  case Nil
  then show ?case by simp
next
  case (Cons c s)
  obtain q qs where q: "strings_Split s sep = q # qs"
    by (cases "strings_Split s sep") auto
  with Cons.IH show ?case
    by (cases qs) auto
qed

text \<open>A text made of newline-terminated lines splits into these lines and a final empty one.\<close>

definition unlines :: "string list \<Rightarrow> string" where
  "unlines ls = concat (map (\<lambda>l. l @ [newline]) ls)"

lemma unlines_simps [simp]:
  "unlines [] = []" "unlines (l # ls) = l @ newline # unlines ls"
  "unlines (ls @ ms) = unlines ls @ unlines ms"
  by (simp_all add: unlines_def)

lemma Split_unlines:
  "(\<forall>l\<in>set ls. newline \<notin> set l) \<Longrightarrow> strings_Split (unlines ls) newline = ls @ [[]]"
  by (induction ls) (auto simp: strings_Split_append)

subsection \<open>White space\<close>

text \<open>
  \<open>strings.TrimSpace\<close> removes what \<open>unicode.IsSpace\<close> accepts: the six ASCII spaces and the code
  points U+0085, U+00A0, U+1680, U+2000..U+200A, U+2028, U+2029, U+202F, U+205F and U+3000,
  here as their UTF-8 encodings.  \<open>lead_space\<close> is the number of bytes of the white-space code
  point at the front of a string (0 when there is none), \<open>trail_space\<close> that of the one at the
  end, on the reversed string.
\<close>

definition ascii_space :: "char \<Rightarrow> bool" where
  "ascii_space c \<longleftrightarrow> code c = 32 \<or> 9 \<le> code c \<and> code c \<le> 13"

definition space2 :: "char \<Rightarrow> char \<Rightarrow> bool" where
  "space2 a b \<longleftrightarrow> code a = 0xC2 \<and> (code b = 0x85 \<or> code b = 0xA0)"

definition space3 :: "char \<Rightarrow> char \<Rightarrow> char \<Rightarrow> bool" where
  "space3 a b c \<longleftrightarrow>
     code a = 0xE1 \<and> code b = 0x9A \<and> code c = 0x80
   \<or> code a = 0xE2 \<and> code b = 0x80 \<and>
       (0x80 \<le> code c \<and> code c \<le> 0x8A \<or> code c = 0xA8 \<or> code c = 0xA9 \<or> code c = 0xAF)
   \<or> code a = 0xE2 \<and> code b = 0x81 \<and> code c = 0x9F
   \<or> code a = 0xE3 \<and> code b = 0x80 \<and> code c = 0x80"

fun lead_space :: "string \<Rightarrow> nat" where
  "lead_space (a # b # c # s) =
     (if ascii_space a then 1 else if space2 a b then 2 else if space3 a b c then 3 else 0)"
| "lead_space [a, b] = (if ascii_space a then 1 else if space2 a b then 2 else 0)"
| "lead_space [a] = (if ascii_space a then 1 else 0)"
| "lead_space [] = 0"

fun trail_space :: "string \<Rightarrow> nat" where
  "trail_space (c # b # a # s) =
     (if ascii_space c then 1 else if space2 b c then 2 else if space3 a b c then 3 else 0)"
| "trail_space [c, b] = (if ascii_space c then 1 else if space2 b c then 2 else 0)"
| "trail_space [c] = (if ascii_space c then 1 else 0)"
| "trail_space [] = 0"

lemma lead_space_le: "lead_space s \<le> length s"
  by (cases s rule: lead_space.cases) auto

lemma trail_space_le: "trail_space s \<le> length s"
  by (cases s rule: trail_space.cases) auto

function trim_lead :: "string \<Rightarrow> string" where
  "trim_lead s = (if lead_space s = 0 then s else trim_lead (drop (lead_space s) s))"
  by pat_completeness auto
termination
proof (relation "measure length")
  fix s assume "lead_space s \<noteq> 0"
  then show "(drop (lead_space s) s, s) \<in> measure length"
    using lead_space_le [of s] by (cases s) auto
qed simp

function trim_trail_rev :: "string \<Rightarrow> string" where
  "trim_trail_rev s = (if trail_space s = 0 then s else trim_trail_rev (drop (trail_space s) s))"
  by pat_completeness auto
termination
proof (relation "measure length")
  fix s assume "trail_space s \<noteq> 0"
  then show "(drop (trail_space s) s, s) \<in> measure length"
    using trail_space_le [of s] by (cases s) auto
qed simp

declare trim_lead.simps [simp del] trim_trail_rev.simps [simp del]

definition strings_TrimSpace :: "string \<Rightarrow> string" where
  "strings_TrimSpace s = rev (trim_trail_rev (rev (trim_lead s)))"

text \<open>A string without white space at either end, which \<open>TrimSpace\<close> leaves alone.\<close>

definition trimmed :: "string \<Rightarrow> bool" where
  "trimmed s \<longleftrightarrow> lead_space s = 0 \<and> trail_space (rev s) = 0"

lemma lead_space_trim_lead [simp]: "lead_space (trim_lead s) = 0"
  by (induction s rule: trim_lead.induct) (subst trim_lead.simps, simp)

lemma trail_space_trim_trail_rev [simp]: "trail_space (trim_trail_rev s) = 0"
  by (induction s rule: trim_trail_rev.induct) (subst trim_trail_rev.simps, simp)

lemma trim_lead_suffix: "\<exists>p. s = p @ trim_lead s"
proof (induction s rule: trim_lead.induct)
  case (1 s)
  show ?case
  proof (cases "lead_space s = 0")
    case True
    then show ?thesis by (subst trim_lead.simps) simp
  next
    case False
    with 1 obtain p where "drop (lead_space s) s = p @ trim_lead (drop (lead_space s) s)"
      by blast
    moreover have "trim_lead s = trim_lead (drop (lead_space s) s)"
      using False by (subst trim_lead.simps) simp
    ultimately have "s = (take (lead_space s) s @ p) @ trim_lead s"
      by (metis append.assoc append_take_drop_id)
    then show ?thesis ..
  qed
qed

lemma trim_trail_rev_suffix: "\<exists>p. s = p @ trim_trail_rev s"
proof (induction s rule: trim_trail_rev.induct)
  case (1 s)
  show ?case
  proof (cases "trail_space s = 0")
    case True
    then show ?thesis by (subst trim_trail_rev.simps) simp
  next
    case False
    with 1 obtain p where "drop (trail_space s) s = p @ trim_trail_rev (drop (trail_space s) s)"
      by blast
    moreover have "trim_trail_rev s = trim_trail_rev (drop (trail_space s) s)"
      using False by (subst trim_trail_rev.simps) simp
    ultimately have "s = (take (trail_space s) s @ p) @ trim_trail_rev s"
      by (metis append.assoc append_take_drop_id)
    then show ?thesis ..
  qed
qed

lemma lead_space_append: "lead_space (s @ t) = 0 \<Longrightarrow> lead_space s = 0"
  by (cases s rule: lead_space.cases; cases t rule: lead_space.cases) (auto split: if_splits)

lemma TrimSpace_trimmed: "trimmed (strings_TrimSpace s)"
proof -
  obtain p where p: "rev (trim_lead s) = p @ trim_trail_rev (rev (trim_lead s))"
    using trim_trail_rev_suffix by blast
  then have "trim_lead s = strings_TrimSpace s @ rev p"
    unfolding strings_TrimSpace_def by (metis rev_append rev_rev_ident)
  then have "lead_space (strings_TrimSpace s) = 0"
    by (metis lead_space_append lead_space_trim_lead)
  then show ?thesis
    by (simp add: trimmed_def strings_TrimSpace_def)
qed

lemma TrimSpace_id [go_simps]: "trimmed s \<Longrightarrow> strings_TrimSpace s = s"
  unfolding trimmed_def strings_TrimSpace_def
  by (simp add: trim_lead.simps [of s] trim_trail_rev.simps [of "rev s"])

lemma TrimSpace_subset: "set (strings_TrimSpace s) \<subseteq> set s"
proof -
  obtain p where "s = p @ trim_lead s"
    using trim_lead_suffix by blast
  then have lead: "set (trim_lead s) \<subseteq> set s"
    by (metis Un_iff set_append subsetI)
  obtain q where "rev (trim_lead s) = q @ trim_trail_rev (rev (trim_lead s))"
    using trim_trail_rev_suffix by blast
  then have "set (trim_trail_rev (rev (trim_lead s))) \<subseteq> set (rev (trim_lead s))"
    by (metis Un_iff set_append subsetI)
  with lead show ?thesis
    by (auto simp: strings_TrimSpace_def)
qed

lemma lead_space_ascii [go_simps]:
  "code c < 128 \<Longrightarrow> lead_space (c # s) = (if ascii_space c then 1 else 0)"
  by (cases "c # s" rule: lead_space.cases) (auto simp: space2_def space3_def)

lemma trail_space_ascii [go_simps]:
  "code c < 128 \<Longrightarrow> trail_space (c # s) = (if ascii_space c then 1 else 0)"
  by (cases "c # s" rule: trail_space.cases) (auto simp: space2_def space3_def)

lemma lead_space_append_ascii:
  "lead_space s = 0 \<Longrightarrow> s \<noteq> [] \<Longrightarrow> code c < 128 \<Longrightarrow> lead_space (s @ c # t) = 0"
  by (cases s rule: lead_space.cases; cases t rule: lead_space.cases)
    (auto simp: space2_def space3_def split: if_splits)

lemma trail_space_append_ascii:
  "trail_space s = 0 \<Longrightarrow> s \<noteq> [] \<Longrightarrow> code c < 128 \<Longrightarrow> trail_space (s @ c # t) = 0"
  by (cases s rule: trail_space.cases; cases t rule: trail_space.cases)
    (auto simp: space2_def space3_def split: if_splits)

lemma trimmed_Nil [simp, trim_intros]: "trimmed []"
  by (simp add: trimmed_def)

text \<open>A string that starts with an ASCII byte other than a space, contains another ASCII byte,
  and goes on with a non-empty trimmed string, is trimmed.\<close>

lemma trimmed_key_value [trim_intros]:
  assumes "code a < 128" "\<not> ascii_space a" "code c < 128" "v \<noteq> []" "trimmed v"
  shows "trimmed (a # s @ c # v)"
  using assms trail_space_append_ascii [of "rev v" c "rev s @ [a]"]
  by (simp add: trimmed_def lead_space_ascii)

lemma trimmed_ascii_ends:
  assumes "s \<noteq> []" "code (hd s) < 128" "\<not> ascii_space (hd s)"
    and "code (last s) < 128" "\<not> ascii_space (last s)"
  shows "trimmed s"
proof -
  obtain a t where s: "s = a # t"
    using assms(1) by (cases s) auto
  obtain u z where r: "rev s = z # u"
    using assms(1) by (cases "rev s") auto
  then have "last s = z"
    using assms(1) by (metis hd_rev list.sel(1))
  with assms(4,5) r have "trail_space (rev s) = 0"
    by (simp add: trail_space_ascii)
  moreover from assms(2,3) s have "lead_space s = 0"
    by (simp add: lead_space_ascii)
  ultimately show ?thesis by (simp add: trimmed_def)
qed

lemma TrimSpace_lead [go_simps]:
  "code c < 128 \<Longrightarrow> ascii_space c \<Longrightarrow> strings_TrimSpace (c # s) = strings_TrimSpace s"
  by (simp add: strings_TrimSpace_def trim_lead.simps [of "c # s"] lead_space_ascii)

lemma TrimSpace_trail [go_simps]:
  assumes "trimmed s" "code c < 128" "ascii_space c"
  shows "strings_TrimSpace (s @ [c]) = s"
proof (cases "s = []")
  case True
  with assms show ?thesis
    by (simp add: TrimSpace_lead TrimSpace_id)
next
  case False
  with assms have "lead_space (s @ [c]) = 0"
    by (simp add: trimmed_def lead_space_append_ascii)
  then have "trim_lead (s @ [c]) = s @ [c]"
    by (subst trim_lead.simps) simp
  then have "strings_TrimSpace (s @ [c]) = rev (trim_trail_rev (c # rev s))"
    by (simp add: strings_TrimSpace_def)
  also have "trim_trail_rev (c # rev s) = rev s"
    using assms by (simp add: trim_trail_rev.simps [of "c # rev s"] trail_space_ascii
        trim_trail_rev.simps [of "rev s"] trimmed_def)
  finally show ?thesis by simp
qed

text \<open>\<open>strings.TrimRight(s, cutset)\<close> and \<open>strings.Trim(s, cutset)\<close> with an ASCII cutset.\<close>

definition strings_TrimRight :: "string \<Rightarrow> string \<Rightarrow> string" where
  "strings_TrimRight s cutset = rev (dropWhile (\<lambda>c. c \<in> set cutset) (rev s))"

definition strings_Trim :: "string \<Rightarrow> string \<Rightarrow> string" where
  "strings_Trim s cutset = strings_TrimRight (dropWhile (\<lambda>c. c \<in> set cutset) s) cutset"

lemma TrimRight_subset: "set (strings_TrimRight s cutset) \<subseteq> set s"
  using set_dropWhileD unfolding strings_TrimRight_def by fastforce

lemma TrimRight_idem [simp]:
  "strings_TrimRight (strings_TrimRight s cutset) cutset = strings_TrimRight s cutset"
  by (simp add: strings_TrimRight_def dropWhile_idem)

subsection \<open>Case\<close>

text \<open>
  \<open>strings.ToLower\<close> on what the program compares with ASCII words: ASCII letters, and the two
  code points beyond ASCII whose lower case is an ASCII letter, U+0130 and U+212A.  Other code
  points are kept, since neither they nor their lower case equal an ASCII letter.
  \<open>strings.EqualFold\<close> likewise, with the two code points that fold to an ASCII letter, U+017F
  and U+212A; it is exact whenever one of the two strings is ASCII.
\<close>

definition lower_byte :: "char \<Rightarrow> char" where
  "lower_byte c = (if 65 \<le> code c \<and> code c \<le> 90 then chr (code c + 32) else c)"

fun strings_ToLower :: "string \<Rightarrow> string" where
  "strings_ToLower [] = []"
| "strings_ToLower (a # s) =
     (if code a < 128 then lower_byte a # strings_ToLower s
      else case s of
        b # s' \<Rightarrow>
          if code a = 0xC4 \<and> code b = 0xB0 then CHR ''i'' # strings_ToLower s'
          else (case s' of
            c # s'' \<Rightarrow>
              if code a = 0xE2 \<and> code b = 0x84 \<and> code c = 0xAA then CHR ''k'' # strings_ToLower s''
              else a # strings_ToLower s
          | [] \<Rightarrow> a # strings_ToLower s)
      | [] \<Rightarrow> [a])"

fun fold_case :: "string \<Rightarrow> string" where
  "fold_case [] = []"
| "fold_case (a # s) =
     (if code a < 128 then lower_byte a # fold_case s
      else case s of
        b # s' \<Rightarrow>
          if code a = 0xC5 \<and> code b = 0xBF then CHR ''s'' # fold_case s'
          else (case s' of
            c # s'' \<Rightarrow>
              if code a = 0xE2 \<and> code b = 0x84 \<and> code c = 0xAA then CHR ''k'' # fold_case s''
              else a # fold_case s
          | [] \<Rightarrow> a # fold_case s)
      | [] \<Rightarrow> [a])"

definition strings_EqualFold :: "string \<Rightarrow> string \<Rightarrow> bool" where
  "strings_EqualFold s t \<longleftrightarrow> fold_case s = fold_case t"

lemma ToLower_ascii [go_simps]:
  "(\<forall>c\<in>set s. code c < 128) \<Longrightarrow> strings_ToLower s = map lower_byte s"
  by (induction s) auto

lemma fold_case_ascii [go_simps]:
  "(\<forall>c\<in>set s. code c < 128) \<Longrightarrow> fold_case s = map lower_byte s"
  by (induction s) auto

subsection \<open>Prefixes, suffixes, positions\<close>

definition strings_HasPrefix :: "string \<Rightarrow> string \<Rightarrow> bool" where
  "strings_HasPrefix s p \<longleftrightarrow> take (length p) s = p"

definition strings_HasSuffix :: "string \<Rightarrow> string \<Rightarrow> bool" where
  "strings_HasSuffix s p \<longleftrightarrow> length p \<le> length s \<and> drop (length s - length p) s = p"

definition strings_TrimPrefix :: "string \<Rightarrow> string \<Rightarrow> string" where
  "strings_TrimPrefix s p = (if strings_HasPrefix s p then drop (length p) s else s)"

definition strings_TrimSuffix :: "string \<Rightarrow> string \<Rightarrow> string" where
  "strings_TrimSuffix s p =
     (if strings_HasSuffix s p then take (length s - length p) s else s)"

lemma HasPrefix_iff: "strings_HasPrefix s p \<longleftrightarrow> (\<exists>t. s = p @ t)"
  unfolding strings_HasPrefix_def by (metis append_eq_conv_conj append_take_drop_id)

lemma HasSuffix_iff: "strings_HasSuffix s p \<longleftrightarrow> (\<exists>t. s = t @ p)"
proof
  assume "strings_HasSuffix s p"
  then have "s = take (length s - length p) s @ p"
    unfolding strings_HasSuffix_def by (metis append_take_drop_id)
  then show "\<exists>t. s = t @ p" ..
qed (auto simp: strings_HasSuffix_def)

lemma HasSuffix_append [simp]: "strings_HasSuffix (s @ p) p"
  by (auto simp: HasSuffix_iff)

lemma TrimSuffix_append [simp]: "strings_TrimSuffix (s @ p) p = s"
  by (simp add: strings_TrimSuffix_def)

text \<open>\<open>strings.IndexByte\<close> and \<open>strings.LastIndexByte\<close>, with \<^const>\<open>None\<close> for the result -1.\<close>

fun strings_IndexByte :: "string \<Rightarrow> char \<Rightarrow> nat option" where
  "strings_IndexByte [] c = None"
| "strings_IndexByte (a # s) c =
     (if a = c then Some 0 else map_option Suc (strings_IndexByte s c))"

fun strings_LastIndexByte :: "string \<Rightarrow> char \<Rightarrow> nat option" where
  "strings_LastIndexByte [] c = None"
| "strings_LastIndexByte (a # s) c =
     (case strings_LastIndexByte s c of
        Some i \<Rightarrow> Some (Suc i)
      | None \<Rightarrow> if a = c then Some 0 else None)"

lemma IndexByte_None: "strings_IndexByte s c = None \<longleftrightarrow> c \<notin> set s"
  by (induction s) auto

lemma LastIndexByte_None: "strings_LastIndexByte s c = None \<longleftrightarrow> c \<notin> set s"
  by (induction s) (auto split: option.splits)

lemma LastIndexByte_append [go_simps]:
  "c \<notin> set t \<Longrightarrow> strings_LastIndexByte (s @ c # t) c = Some (length s)"
proof (induction s)
  case Nil
  then have "strings_LastIndexByte t c = None"
    by (simp add: LastIndexByte_None)
  then show ?case by simp
qed simp

lemma LastIndexByte_Some:
  "strings_LastIndexByte s c = Some i \<Longrightarrow>
     i < length s \<and> s = take i s @ c # drop (Suc i) s \<and> c \<notin> set (drop (Suc i) s)"
proof (induction s arbitrary: i)
  case (Cons a s)
  then show ?case
    by (cases i) (auto split: option.splits if_splits simp: LastIndexByte_None)
qed simp

lemma IndexByte_Some:
  "strings_IndexByte s c = Some i \<Longrightarrow>
     i < length s \<and> s ! i = c \<and> c \<notin> set (take i s)"
proof (induction s arbitrary: i)
  case (Cons a s)
  then show ?case
    by (cases i) (auto split: if_splits)
qed simp

section \<open>Package strconv\<close>

definition digit_char :: "nat \<Rightarrow> char" where
  "digit_char d = chr (48 + d)"

definition is_digit :: "char \<Rightarrow> bool" where
  "is_digit c \<longleftrightarrow> 48 \<le> code c \<and> code c \<le> 57"

text \<open>\<open>strconv.Itoa\<close>, and \<open>fmt.Sprint\<close> of an unsigned integer.\<close>

fun strconv_Itoa :: "nat \<Rightarrow> string" where
  "strconv_Itoa n =
     (if n < 10 then [digit_char n] else strconv_Itoa (n div 10) @ [digit_char (n mod 10)])"

declare strconv_Itoa.simps [simp del]

text \<open>The value of a string of decimal digits; \<^const>\<open>None\<close> when another byte occurs.\<close>

fun dec_value :: "nat \<Rightarrow> string \<Rightarrow> nat option" where
  "dec_value acc [] = Some acc"
| "dec_value acc (c # s) =
     (if is_digit c then dec_value (acc * 10 + (code c - 48)) s else None)"

text \<open>\<open>strconv.ParseUint(s, 10, bits)\<close>; \<^const>\<open>None\<close> is a syntax or a range error.\<close>

definition strconv_ParseUint :: "string \<Rightarrow> nat \<Rightarrow> nat option" where
  "strconv_ParseUint s bits =
     (if s = [] then None
      else case dec_value 0 s of
             None \<Rightarrow> None
           | Some n \<Rightarrow> if n < 2 ^ bits then Some n else None)"

text \<open>\<open>strconv.Atoi\<close>: an optional sign and decimal digits, within 64 signed bits.\<close>

definition strconv_Atoi :: "string \<Rightarrow> int option" where
  "strconv_Atoi s =
     (case s of
        [] \<Rightarrow> None
      | c # t \<Rightarrow>
          let neg = (c = CHR ''-''); ds = (if c = CHR ''-'' \<or> c = CHR ''+'' then t else s) in
          if ds = [] then None
          else case dec_value 0 ds of
                 None \<Rightarrow> None
               | Some n \<Rightarrow>
                   if neg then (if n \<le> 2 ^ 63 then Some (- int n) else None)
                   else if n < 2 ^ 63 then Some (int n) else None)"

lemma code_digit_char [simp]: "d < 10 \<Longrightarrow> code (digit_char d) = 48 + d"
  by (simp add: digit_char_def)

lemma is_digit_digit_char [simp]: "d < 10 \<Longrightarrow> is_digit (digit_char d)"
  by (simp add: is_digit_def)

lemma is_digit_ascii: "is_digit c \<Longrightarrow> code c < 128 \<and> \<not> ascii_space c"
  by (auto simp: is_digit_def ascii_space_def)

lemma dec_value_append:
  "dec_value acc (s @ t) = (case dec_value acc s of None \<Rightarrow> None | Some v \<Rightarrow> dec_value v t)"
  by (induction s arbitrary: acc) auto

lemma Itoa_nonempty [simp]: "strconv_Itoa n \<noteq> []"
  by (subst strconv_Itoa.simps) simp

lemma Itoa_digits: "c \<in> set (strconv_Itoa n) \<Longrightarrow> is_digit c"
proof (induction n arbitrary: c rule: strconv_Itoa.induct)
  case (1 n)
  then show ?case
    by (auto simp: strconv_Itoa.simps [of n] split: if_splits)
qed

lemma length_Itoa: "n < 10 ^ Suc k \<Longrightarrow> length (strconv_Itoa n) \<le> Suc k"
proof (induction k arbitrary: n)
  case 0
  then show ?case by (subst strconv_Itoa.simps) simp
next
  case (Suc k)
  show ?case
  proof (cases "n < 10")
    case False
    have "n div 10 < 10 ^ Suc k" using Suc.prems by (simp add: less_mult_imp_div_less)
    then show ?thesis using False Suc.IH [of "n div 10"] by (subst strconv_Itoa.simps) simp
  qed (subst strconv_Itoa.simps, simp)
qed

lemma Itoa_not_digit: "\<not> is_digit c \<Longrightarrow> c \<notin> set (strconv_Itoa n)"
  using Itoa_digits by blast

lemma dec_value_Itoa: "dec_value 0 (strconv_Itoa n) = Some n"
proof (induction n rule: strconv_Itoa.induct)
  case (1 n)
  then show ?case
    by (cases "n < 10") (auto simp: strconv_Itoa.simps [of n] dec_value_append)
qed

lemma Itoa_inject: "strconv_Itoa m = strconv_Itoa n \<Longrightarrow> m = n"
  by (metis dec_value_Itoa option.inject)

lemma Atoi_Itoa [go_simps]:
  assumes "n < 2 ^ 63"
  shows "strconv_Atoi (strconv_Itoa n) = Some (int n)"
proof -
  obtain c t where ct: "strconv_Itoa n = c # t"
    by (cases "strconv_Itoa n") auto
  then have "is_digit c"
    using Itoa_digits [of c n] by simp
  then have "c \<noteq> CHR ''-''" "c \<noteq> CHR ''+''"
    by (auto simp: is_digit_def)
  with assms dec_value_Itoa [of n] ct show ?thesis
    by (simp add: strconv_Atoi_def)
qed

lemma trimmed_Itoa [trim_intros]: "trimmed (strconv_Itoa n)"
proof -
  have "is_digit (hd (strconv_Itoa n))" and "is_digit (last (strconv_Itoa n))"
    using Itoa_digits [of _ n] by simp_all
  then show ?thesis
    by (simp add: trimmed_ascii_ends is_digit_ascii)
qed

section \<open>Package encoding/base64\<close>

text \<open>\<open>base64.StdEncoding\<close>: the standard alphabet, padded with \<open>=\<close>.  Decoding skips carriage
  returns and line feeds and, as Go's non-strict decoder, ignores the unused low bits of the
  last character.\<close>

definition base64_char :: "nat \<Rightarrow> char" where
  "base64_char n =
     (if n < 26 then chr (65 + n)
      else if n < 52 then chr (71 + n)
      else if n < 62 then chr (n - 4)
      else if n = 62 then CHR ''+'' else CHR ''/'')"

definition base64_value :: "char \<Rightarrow> nat option" where
  "base64_value c =
     (let n = code c in
      if 65 \<le> n \<and> n \<le> 90 then Some (n - 65)
      else if 97 \<le> n \<and> n \<le> 122 then Some (n - 71)
      else if 48 \<le> n \<and> n \<le> 57 then Some (n + 4)
      else if n = 43 then Some 62
      else if n = 47 then Some 63
      else None)"

fun base64_Encode :: "byte list \<Rightarrow> string" where
  "base64_Encode [] = []"
| "base64_Encode [a] =
     [base64_char (unat a div 4), base64_char (unat a mod 4 * 16), CHR ''='', CHR ''='']"
| "base64_Encode [a, b] =
     [base64_char (unat a div 4), base64_char (unat a mod 4 * 16 + unat b div 16),
      base64_char (unat b mod 16 * 4), CHR ''='']"
| "base64_Encode (a # b # c # bs) =
     base64_char (unat a div 4) # base64_char (unat a mod 4 * 16 + unat b div 16) #
     base64_char (unat b mod 16 * 4 + unat c div 64) # base64_char (unat c mod 64) #
     base64_Encode bs"

fun base64_groups :: "string \<Rightarrow> byte list option" where
  "base64_groups [] = Some []"
| "base64_groups (p # q # r # s # t) =
     (case (base64_value p, base64_value q) of
        (Some w, Some x) \<Rightarrow>
          if r = CHR ''='' then
            (if s = CHR ''='' \<and> t = [] then Some [of_nat (w * 4 + x div 16)] else None)
          else (case base64_value r of
            None \<Rightarrow> None
          | Some y \<Rightarrow>
              if s = CHR ''='' then
                (if t = [] then
                   Some [of_nat (w * 4 + x div 16), of_nat (x mod 16 * 16 + y div 4)]
                 else None)
              else (case (base64_value s, base64_groups t) of
                (Some z, Some bs) \<Rightarrow>
                  Some (of_nat (w * 4 + x div 16) # of_nat (x mod 16 * 16 + y div 4) #
                        of_nat (y mod 4 * 64 + z) # bs)
              | _ \<Rightarrow> None))
      | _ \<Rightarrow> None)"
| "base64_groups _ = None"

definition base64_Decode :: "string \<Rightarrow> byte list option" where
  "base64_Decode s = base64_groups (filter (\<lambda>c. c \<noteq> CHR 0x0D \<and> c \<noteq> newline) s)"

lemma base64_value_char [simp]: "n < 64 \<Longrightarrow> base64_value (base64_char n) = Some n"
  by (auto simp: base64_value_def base64_char_def Let_def)

lemma base64_char_code:
  "n < 64 \<Longrightarrow> 43 \<le> code (base64_char n) \<and> code (base64_char n) \<le> 122 \<and>
     code (base64_char n) \<noteq> 61"
  by (auto simp: base64_char_def)

lemma base64_char_plain [simp]:
  assumes "n < 64"
  shows "base64_char n \<noteq> CHR ''=''" "base64_char n \<noteq> newline" "base64_char n \<noteq> CHR 0x0D"
    "base64_char n \<noteq> CHR ''#''" "\<not> ascii_space (base64_char n)"
  using base64_char_code [OF assms] by (auto simp: ascii_space_def)

lemma unat_byte_less [simp]: "unat (b :: byte) < 256"
  using unsigned_less [of b] by simp

text \<open>The sextets of bytes are below 64, and the bytes are recovered from them.\<close>

lemma sextets_less [simp]:
  fixes a b c :: byte
  shows "unat a div 4 < 64" "unat a mod 4 * 16 + unat b div 16 < 64"
    "unat b mod 16 * 4 + unat c div 64 < 64" "unat a mod 4 * 16 < 64" "unat b mod 16 * 4 < 64"
  using unat_byte_less [of a] unat_byte_less [of b] unat_byte_less [of c] by linarith+

lemma sextets_bytes:
  fixes b :: byte
  shows "unat b div 16 div 16 = 0" "unat b div 16 mod 16 = unat b div 16"
    "unat b div 64 div 4 = 0" "unat b div 64 mod 4 = unat b div 64"
proof -
  have "unat b div 16 < 16" and "unat b div 64 < 4"
    using unat_byte_less [of b] by linarith+
  then show "unat b div 16 div 16 = 0" "unat b div 16 mod 16 = unat b div 16"
    "unat b div 64 div 4 = 0" "unat b div 64 mod 4 = unat b div 64"
    by (simp_all del: div_less_dividend)
qed

lemma base64_roundtrip_groups: "base64_groups (base64_Encode bs) = Some bs"
  by (induction bs rule: base64_Encode.induct)
    (simp_all add: sextets_bytes del: of_nat_add of_nat_mult)

definition base64_chars :: "char set" where
  "base64_chars = base64_char ` {..<64}"

lemma base64_char_in [simp]: "n < 64 \<Longrightarrow> base64_char n \<in> base64_chars"
  by (simp add: base64_chars_def)

lemma base64_Encode_chars: "set (base64_Encode bs) \<subseteq> insert (CHR ''='') base64_chars"
  by (induction bs rule: base64_Encode.induct) simp_all

lemma base64_Encode_plain:
  assumes "c \<in> set (base64_Encode bs)"
  shows "c \<noteq> newline \<and> c \<noteq> CHR 0x0D \<and> c \<noteq> CHR ''#'' \<and> code c < 128 \<and> \<not> ascii_space c"
proof (cases "c = CHR ''=''")
  case False
  then obtain n where "n < 64" "c = base64_char n"
    using base64_Encode_chars assms by (auto simp: base64_chars_def)
  then show ?thesis
    using base64_char_code [of n] base64_char_plain [of n] by simp
qed (simp add: ascii_space_def)

theorem base64_Decode_Encode: "base64_Decode (base64_Encode bs) = Some bs"
proof -
  have "filter (\<lambda>c. c \<noteq> CHR 0x0D \<and> c \<noteq> newline) (base64_Encode bs) = base64_Encode bs"
    using base64_Encode_plain by (auto simp: filter_id_conv)
  then show ?thesis
    by (simp add: base64_Decode_def base64_roundtrip_groups)
qed

lemma base64_Encode_nonempty [simp]: "base64_Encode bs = [] \<longleftrightarrow> bs = []"
  by (cases bs rule: base64_Encode.cases) simp_all

lemma trimmed_base64 [trim_intros]: "trimmed (base64_Encode bs)"
proof (cases "bs = []")
  case False
  then have "base64_Encode bs \<noteq> []" by simp
  then show ?thesis
    using base64_Encode_plain [of "hd (base64_Encode bs)" bs]
      base64_Encode_plain [of "last (base64_Encode bs)" bs]
    by (intro trimmed_ascii_ends) auto
qed simp

end
