(* ===== verification/Conf_Name.thy ===== *)
theory Conf_Name
  imports Go_Prelude
begin

text \<open>
  \<open>conf/name.go\<close>: which tunnel names are valid, the natural order in which tunnels are listed,
  and the name of the service of a tunnel.  The lemmas show that a valid name is safe as a file
  name and as a service name on Windows, that the order is a strict weak order, as the sorting
  of the tunnel list requires, and that distinct tunnels have distinct services.
\<close>

section \<open>Valid names\<close>

definition reservedNames :: "string list" where
  "reservedNames =
     [''CON'', ''PRN'', ''AUX'', ''NUL'',
      ''COM1'', ''COM2'', ''COM3'', ''COM4'', ''COM5'', ''COM6'', ''COM7'', ''COM8'', ''COM9'',
      ''LPT1'', ''LPT2'', ''LPT3'', ''LPT4'', ''LPT5'', ''LPT6'', ''LPT7'', ''LPT8'', ''LPT9'']"

definition serviceNameForbidden :: string where
  "serviceNameForbidden = ''$''"

definition netshellDllForbidden :: string where
  "netshellDllForbidden =
     [CHR 0x5C, CHR ''/'', CHR '':'', CHR ''*'', CHR ''?'', CHR 0x22, CHR ''<'', CHR ''>'',
      CHR ''|'', CHR 0x09]"

definition specialChars :: string where
  "specialChars =
     [CHR ''/'', CHR 0x5C, CHR ''<'', CHR ''>'', CHR '':'', CHR 0x22, CHR ''|'', CHR ''?'',
      CHR ''*''] @ map chr [1..<32] @ [CHR 0x00]"

text \<open>\<open>strings.ContainsAny\<close> with an ASCII set of characters.\<close>

definition strings_ContainsAny :: "string \<Rightarrow> string \<Rightarrow> bool" where
  "strings_ContainsAny s chars \<longleftrightarrow> list_ex (\<lambda>c. List.member chars c) s"

definition isReserved :: "string \<Rightarrow> bool" where
  "isReserved name =
     (case strings_Cut name (CHR ''.'') of (name', _, _) \<Rightarrow>
        list_ex (\<lambda>reserved. strings_EqualFold name' reserved) reservedNames)"

definition hasSpecialChars :: "string \<Rightarrow> bool" where
  "hasSpecialChars name \<longleftrightarrow>
     strings_ContainsAny name specialChars \<or> strings_ContainsAny name netshellDllForbidden \<or>
     strings_ContainsAny name serviceNameForbidden \<or>
     strings_HasPrefix name ''.'' \<or> strings_HasSuffix name ''.''"

text \<open>The regular expression \<open>allowedNameFormat\<close>: one to 32 characters of its class.\<close>

definition allowed_name_char :: "char \<Rightarrow> bool" where
  "allowed_name_char c \<longleftrightarrow>
     97 \<le> code c \<and> code c \<le> 122 \<or> 65 \<le> code c \<and> code c \<le> 90 \<or> 48 \<le> code c \<and> code c \<le> 57 \<or>
     c = CHR ''_'' \<or> c = CHR ''='' \<or> c = CHR ''+'' \<or> c = CHR ''.'' \<or> c = CHR ''-''"

definition allowedNameFormat :: "string \<Rightarrow> bool" where
  "allowedNameFormat s \<longleftrightarrow> 1 \<le> length s \<and> length s \<le> 32 \<and> list_all allowed_name_char s"

definition TunnelNameIsValid :: "string \<Rightarrow> bool" where
  "TunnelNameIsValid name =
     (if isReserved name \<or> hasSpecialChars name then False else allowedNameFormat name)"

section \<open>The natural order of tunnel names\<close>

record naturalSortToken =
  maybeString :: string
  maybeNumber :: int

record naturalSortString =
  originalString :: string
  tokens :: "naturalSortToken list"

text \<open>\<open>strings.Fields\<close>: the maximal runs without white space.\<close>

function fields_from :: "string \<Rightarrow> string \<Rightarrow> string list" where
  "fields_from cur s =
     (case s of
        [] \<Rightarrow> (if cur = [] then [] else [cur])
      | c # t \<Rightarrow>
          if lead_space s = 0 then fields_from (cur @ [c]) t
          else (if cur = [] then [] else [cur]) @ fields_from [] (drop (lead_space s) s))"
  by pat_completeness auto
termination
  by (relation "measure (\<lambda>(cur, s). length s)") auto

declare fields_from.simps [simp del]

definition strings_Fields :: "string \<Rightarrow> string list" where
  "strings_Fields s = fields_from [] s"

text \<open>\<open>FindAllString\<close> of the expression \<open>\d+|\D+\<close>: the maximal runs of digits and of other
  bytes.\<close>

fun digit_runs :: "string \<Rightarrow> string list" where
  "digit_runs [] = []"
| "digit_runs (c # s) =
     (case digit_runs s of
        [] \<Rightarrow> [[c]]
      | [] # runs \<Rightarrow> [c] # runs
      | (d # run) # runs \<Rightarrow>
          if is_digit c = is_digit d then (c # d # run) # runs else [c] # (d # run) # runs)"

definition token_of :: "string \<Rightarrow> naturalSortToken" where
  "token_of s =
     (case strconv_Atoi s of
        Some n \<Rightarrow> \<lparr>maybeString = [], maybeNumber = n\<rparr>
      | None \<Rightarrow> \<lparr>maybeString = s, maybeNumber = 0\<rparr>)"

definition newNaturalSortString :: "string \<Rightarrow> naturalSortString" where
  "newNaturalSortString s =
     (let s' = strings_ToLower (strings_Join (strings_Fields s) '' '')
      in \<lparr>originalString = s, tokens = map token_of (digit_runs s')\<rparr>)"

text \<open>Go compares strings by their bytes.\<close>

fun string_less :: "string \<Rightarrow> string \<Rightarrow> bool" where
  "string_less [] [] = False"
| "string_less [] (b # t) = True"
| "string_less (a # s) [] = False"
| "string_less (a # s) (b # t) = (code a < code b \<or> a = b \<and> string_less s t)"

definition Cmp :: "naturalSortToken \<Rightarrow> naturalSortToken \<Rightarrow> int" where
  "Cmp f1 f2 =
     (if length (maybeString f1) = 0 then
        (if length (maybeString f2) > 0 \<or> maybeNumber f1 < maybeNumber f2 then -1
         else if maybeNumber f1 > maybeNumber f2 then 1 else 0)
      else if length (maybeString f2) = 0 \<or> string_less (maybeString f2) (maybeString f1) then 1
      else if string_less (maybeString f1) (maybeString f2) then -1
      else 0)"

text \<open>The loop of \<open>TunnelNameIsLess\<close> over the tokens of the second name.\<close>

fun tokens_less :: "naturalSortToken list \<Rightarrow> naturalSortToken list \<Rightarrow> bool" where
  "tokens_less ts [] = False"
| "tokens_less [] (t # us) = True"
| "tokens_less (f # ts) (t # us) =
     (if Cmp f t = -1 then True else if Cmp f t = 1 then False else tokens_less ts us)"

definition TunnelNameIsLess :: "string \<Rightarrow> string \<Rightarrow> bool" where
  "TunnelNameIsLess a b =
     (if a = b then False
      else tokens_less (tokens (newNaturalSortString a)) (tokens (newNaturalSortString b)))"

section \<open>Services\<close>

datatype name_error = Tunnel_name_is_not_valid

definition servicePrefix :: string where
  "servicePrefix = ''WireGuardTunnel$''"

definition ServiceNameOfTunnel :: "string \<Rightarrow> name_error + string" where
  "ServiceNameOfTunnel tunnelName =
     (if \<not> TunnelNameIsValid tunnelName then Inl Tunnel_name_is_not_valid
      else Inr (servicePrefix @ tunnelName))"

section \<open>Lemmas on valid names\<close>

lemma valid_name_chars:
  "TunnelNameIsValid n \<Longrightarrow> c \<in> set n \<Longrightarrow> allowed_name_char c"
  by (auto simp: TunnelNameIsValid_def allowedNameFormat_def list_all_iff split: if_splits)

lemma valid_name_length: "TunnelNameIsValid n \<Longrightarrow> 0 < length n \<and> length n \<le> 32"
  by (auto simp: TunnelNameIsValid_def allowedNameFormat_def split: if_splits)

lemma allowed_name_char_plain:
  assumes "allowed_name_char c"
  shows "32 < code c" "code c < 127" "c \<noteq> CHR ''/''" "c \<noteq> CHR 0x5C" "c \<noteq> CHR '':''"
    "c \<noteq> CHR ''$''" "c \<noteq> newline" "c \<noteq> CHR ''*''" "c \<noteq> CHR ''?''" "c \<noteq> CHR 0x22"
    "c \<noteq> CHR ''<''" "c \<noteq> CHR ''>''" "c \<noteq> CHR ''|''"
  using assms by (auto simp: allowed_name_char_def)

lemma allowed_not_special:
  assumes "allowed_name_char c"
  shows "c \<notin> set specialChars" "c \<notin> set netshellDllForbidden" "c \<notin> set serviceNameForbidden"
proof -
  have "c \<notin> chr ` set [1..<32]"
  proof
    assume "c \<in> chr ` set [1..<32]"
    then obtain n where "c = chr n" "n \<in> set [1..<32]" by (rule imageE)
    then have "n < 32" by (simp only: set_upt atLeastLessThan_iff)
    then show False
      using \<open>c = chr n\<close> allowed_name_char_plain(1) [OF assms] by simp
  qed
  moreover have "c \<noteq> CHR 0x00"
    using allowed_name_char_plain(1) [OF assms] by auto
  ultimately show "c \<notin> set specialChars"
    using allowed_name_char_plain(3-) [OF assms]
    by (simp only: specialChars_def set_append set_map list.set Un_iff insert_iff empty_iff
        simp_thms)
  show "c \<notin> set netshellDllForbidden" "c \<notin> set serviceNameForbidden"
    using assms
    by (auto simp: netshellDllForbidden_def serviceNameForbidden_def allowed_name_char_def)
qed

lemma valid_name_ends:
  assumes "TunnelNameIsValid n"
  shows "hd n \<noteq> CHR ''.'' \<and> last n \<noteq> CHR ''.''"
proof -
  have ne: "n \<noteq> []" using valid_name_length [OF assms] by auto
  have "\<not> strings_HasPrefix n ''.''" "\<not> strings_HasSuffix n ''.''"
    using assms by (auto simp: TunnelNameIsValid_def hasSpecialChars_def split: if_splits)
  with ne show ?thesis
    by (metis HasPrefix_iff HasSuffix_iff append_Cons append_Nil append_butlast_last_id
        list.collapse)
qed

section \<open>Lemmas on the natural order\<close>

lemma string_less_irrefl [simp]: "\<not> string_less s s"
  by (induction s) auto

lemma string_less_trans: "string_less s t \<Longrightarrow> string_less t u \<Longrightarrow> string_less s u"
proof (induction s t arbitrary: u rule: string_less.induct)
  case (2 b t)
  then show ?case by (cases u) auto
next
  case (4 a s b t)
  then show ?case by (cases u) auto
qed simp_all

lemma string_less_linear: "string_less s t \<or> s = t \<or> string_less t s"
  by (induction s t rule: string_less.induct) auto

text \<open>A token as the program reads it: the number counts only when there is no string.\<close>

definition same_token :: "naturalSortToken \<Rightarrow> naturalSortToken \<Rightarrow> bool" where
  "same_token f g \<longleftrightarrow>
     maybeString f = maybeString g \<and> (maybeString f = [] \<longrightarrow> maybeNumber f = maybeNumber g)"

lemma Cmp_range: "Cmp f g = -1 \<or> Cmp f g = 0 \<or> Cmp f g = 1"
  by (simp add: Cmp_def)

lemma Cmp_zero: "Cmp f g = 0 \<longleftrightarrow> same_token f g"
  using string_less_linear [of "maybeString f" "maybeString g"]
  by (auto simp: Cmp_def same_token_def)

lemma Cmp_minus: "Cmp f g = -1 \<longleftrightarrow> Cmp g f = 1"
  using string_less_trans [of "maybeString f" "maybeString g" "maybeString f"]
  by (auto simp: Cmp_def)

lemma Cmp_trans: "Cmp f g = -1 \<Longrightarrow> Cmp g h = -1 \<Longrightarrow> Cmp f h = -1"
  using string_less_trans [of "maybeString f" "maybeString g" "maybeString h"]
    string_less_trans [of "maybeString h" "maybeString f" "maybeString g"]
    string_less_trans [of "maybeString f" "maybeString g" "maybeString f"]
    string_less_trans [of "maybeString g" "maybeString h" "maybeString g"]
  by (auto simp: Cmp_def split: if_splits)

lemma same_token_Cmp: "same_token f g \<Longrightarrow> Cmp f h = Cmp g h"
  "same_token f g \<Longrightarrow> Cmp h f = Cmp h g"
  by (auto simp: same_token_def Cmp_def)

lemma same_token_equiv: "same_token f f" "same_token f g \<Longrightarrow> same_token g f"
  "same_token f g \<Longrightarrow> same_token g h \<Longrightarrow> same_token f h"
  by (auto simp: same_token_def)

lemma tokens_less_irrefl: "\<not> tokens_less ts ts"
  by (induction ts) (auto simp: Cmp_zero [THEN iffD2] same_token_equiv)

lemma tokens_less_trans:
  "tokens_less ts us \<Longrightarrow> tokens_less us vs \<Longrightarrow> tokens_less ts vs"
proof (induction ts us arbitrary: vs rule: tokens_less.induct)
  case (2 t us)
  then show ?case by (cases vs) auto
next
  case (3 f ts t us)
  from "3.prems"(2) obtain v vs' where v: "vs = v # vs'" by (cases vs) auto
  show ?case
    using "3.prems" "3.IH" [of vs'] Cmp_range [of f t] Cmp_range [of t v] Cmp_trans [of f t v]
      same_token_Cmp [of f t] same_token_Cmp [of t v] v
    by (auto simp: Cmp_zero split: if_splits)
qed simp

lemma tokens_incomparable:
  "\<not> tokens_less ts us \<and> \<not> tokens_less us ts \<longleftrightarrow> list_all2 same_token ts us"
proof (induction ts us rule: tokens_less.induct)
  case (1 ts)
  then show ?case by (cases ts) auto
next
  case (3 f ts t us)
  then show ?case
    using Cmp_range [of f t] Cmp_minus [of f t] Cmp_minus [of t f] Cmp_zero [of f t]
      Cmp_zero [of t f] same_token_equiv(2) [of f t] same_token_equiv(2) [of t f]
    by auto
qed simp

lemma same_tokens_trans:
  "list_all2 same_token ts us \<Longrightarrow> list_all2 same_token us vs \<Longrightarrow> list_all2 same_token ts vs"
  using list_all2_trans same_token_equiv(3) by blast

lemma tokens_of_less: "TunnelNameIsLess a b \<longleftrightarrow>
    tokens_less (tokens (newNaturalSortString a)) (tokens (newNaturalSortString b))"
  by (simp add: TunnelNameIsLess_def tokens_less_irrefl)

section \<open>Natural order of numbered names\<close>

lemma allowed_not_space: "allowed_name_char c \<Longrightarrow> code c < 128 \<and> \<not> ascii_space c"
  by (auto simp: allowed_name_char_def ascii_space_def)

lemma fields_from_plain:
  "(\<forall>c\<in>set s. allowed_name_char c) \<Longrightarrow>
     fields_from cur s = (if cur @ s = [] then [] else [cur @ s])"
proof (induction s arbitrary: cur)
  case Nil
  then show ?case by (simp add: fields_from.simps)
next
  case (Cons c s)
  then have "lead_space (c # s) = 0"
    using allowed_not_space [of c] by (simp add: lead_space_ascii)
  with Cons show ?case by (simp add: fields_from.simps [of cur "c # s"])
qed

lemma digit_runs_uniform:
  "s \<noteq> [] \<Longrightarrow> (\<forall>c\<in>set s. is_digit c = b) \<Longrightarrow> digit_runs s = [s]"
  by (induction s rule: list_nonempty_induct) (auto split: list.splits)

lemma digit_runs_append:
  assumes "p \<noteq> []" "\<forall>c\<in>set p. \<not> is_digit c" "d \<noteq> []" "\<forall>c\<in>set d. is_digit c"
  shows "digit_runs (p @ d) = [p, d]"
  using assms(1,2)
proof (induction p rule: list_nonempty_induct)
  case (single x)
  then show ?case
    using assms(3,4) digit_runs_uniform [of d True] by (cases d) auto
next
  case (cons x xs)
  then show ?case by (cases xs) auto
qed

lemma is_digit_lower_byte [simp]: "is_digit (lower_byte c) = is_digit c"
  by (auto simp: is_digit_def lower_byte_def)

lemma lower_byte_digit [simp]: "is_digit c \<Longrightarrow> lower_byte c = c"
  by (auto simp: is_digit_def lower_byte_def)

lemma dec_value_digits: "dec_value acc s = Some n \<Longrightarrow> c \<in> set s \<Longrightarrow> is_digit c"
  by (induction s arbitrary: acc) (auto split: if_splits)

lemma Atoi_not_digits:
  assumes "\<forall>c\<in>set s. \<not> is_digit c"
  shows "strconv_Atoi s = None"
proof -
  have "dec_value 0 t = None" if "t \<noteq> []" "set t \<subseteq> set s" for t
    using dec_value_digits [of 0 t _ "hd t"] assms that
    by (cases "dec_value 0 t") (auto dest: hd_in_set)
  then show ?thesis
    by (cases s) (auto simp: strconv_Atoi_def Let_def subset_insertI simp del: dec_value.simps)
qed

lemma tokens_numbered:
  assumes "\<forall>c\<in>set p. allowed_name_char c \<and> \<not> is_digit c" "n < 2 ^ 63"
  shows "tokens (newNaturalSortString (p @ strconv_Itoa n)) =
    (if p = [] then [] else [\<lparr>maybeString = map lower_byte p, maybeNumber = 0\<rparr>]) @
    [\<lparr>maybeString = [], maybeNumber = int n\<rparr>]"
proof -
  let ?s = "p @ strconv_Itoa n"
  have d: "\<forall>c\<in>set (strconv_Itoa n). is_digit c" using Itoa_digits by blast
  then have a: "\<forall>c\<in>set ?s. allowed_name_char c"
    using assms(1) by (auto simp: is_digit_def allowed_name_char_def)
  have "strings_Join (strings_Fields ?s) '' '' = ?s"
    using fields_from_plain [OF a] by (simp add: strings_Fields_def)
  moreover have "strings_ToLower ?s = map lower_byte p @ strconv_Itoa n"
    using a d allowed_not_space by (simp add: ToLower_ascii map_idI)
  moreover have "digit_runs (map lower_byte p @ strconv_Itoa n) =
      (if p = [] then [strconv_Itoa n] else [map lower_byte p, strconv_Itoa n])"
    using assms(1) d digit_runs_append [of "map lower_byte p" "strconv_Itoa n"]
      digit_runs_uniform [of "strconv_Itoa n" True] by auto
  moreover have "strconv_Atoi (map lower_byte p) = None"
    using assms(1) by (intro Atoi_not_digits) auto
  ultimately show ?thesis
    using assms(2) by (simp add: newNaturalSortString_def token_of_def Atoi_Itoa)
qed

section \<open>Properties\<close>

text \<open>C29: \<open>TunnelNameIsLess\<close> is a strict weak order on all strings: irreflexive, transitive, and
  with a transitive incomparability, which is what \<open>sort.SliceStable\<close> and the binary insertion of
  the tunnel list rely on.\<close>

theorem TunnelNameIsLess_strict_weak_order:
  "\<not> TunnelNameIsLess a a \<and>
   (TunnelNameIsLess a b \<and> TunnelNameIsLess b c \<longrightarrow> TunnelNameIsLess a c) \<and>
   (\<not> TunnelNameIsLess a b \<and> \<not> TunnelNameIsLess b a \<and>
    \<not> TunnelNameIsLess b c \<and> \<not> TunnelNameIsLess c b \<longrightarrow>
    \<not> TunnelNameIsLess a c \<and> \<not> TunnelNameIsLess c a)"
  unfolding tokens_of_less
  by (intro conjI impI tokens_less_irrefl)
    (blast intro: tokens_less_trans, metis tokens_incomparable same_tokens_trans,
     metis tokens_incomparable same_tokens_trans)

theorem TunnelNameIsLess_strict_weak_order_witness:
  "TunnelNameIsLess ''wg2'' ''wg10'' \<and> TunnelNameIsLess ''wg10'' ''wgx'' \<and>
   TunnelNameIsLess ''wg2'' ''wgx'' \<and>
   \<not> TunnelNameIsLess ''WG'' ''wg'' \<and> \<not> TunnelNameIsLess ''wg'' ''WG''"
proof -
  have "TunnelNameIsLess ''wg2'' ''wg10''" "TunnelNameIsLess ''wg10'' ''wgx''"
    "\<not> TunnelNameIsLess ''WG'' ''wG''" "\<not> TunnelNameIsLess ''wG'' ''WG''"
    "\<not> TunnelNameIsLess ''wG'' ''wg''" "\<not> TunnelNameIsLess ''wg'' ''wG''"
    by code_simp+
  then show ?thesis
    using TunnelNameIsLess_strict_weak_order [of "''wg2''" "''wg10''" "''wgx''"]
      TunnelNameIsLess_strict_weak_order [of "''WG''" "''wG''" "''wg''"] by blast
qed

text \<open>Numbered names are ordered by their number: with the same prefix of letters and
  punctuation, the name with the smaller number comes first, whatever the number of digits.\<close>

theorem TunnelNameIsLess_numbered:
  assumes "\<forall>c\<in>set p. allowed_name_char c \<and> \<not> is_digit c" "m < 2 ^ 63" "n < 2 ^ 63"
  shows "TunnelNameIsLess (p @ strconv_Itoa m) (p @ strconv_Itoa n) \<longleftrightarrow> m < n"
  using assms by (auto simp: tokens_of_less tokens_numbered Cmp_def)

theorem TunnelNameIsLess_numbered_witness:
  "TunnelNameIsLess (''wg'' @ strconv_Itoa 9) (''wg'' @ strconv_Itoa 10)"
  by (subst TunnelNameIsLess_numbered) (simp_all add: allowed_name_char_def is_digit_def)

lemma valid_name_iff:
  "TunnelNameIsValid n \<longleftrightarrow>
     n \<noteq> [] \<and> length n \<le> 32 \<and> list_all allowed_name_char n \<and>
     hd n \<noteq> CHR ''.'' \<and> last n \<noteq> CHR ''.'' \<and>
     map lower_byte (takeWhile (\<lambda>c. c \<noteq> CHR ''.'') n) \<notin> set (map (map lower_byte) reservedNames)"
proof (cases "n \<noteq> [] \<and> (\<forall>c\<in>set n. allowed_name_char c)")
  case True
  have cut: "fst (strings_Cut s d) = takeWhile (\<lambda>c. c \<noteq> d) s" for s d
    by (induction s) (auto split: prod.splits)
  have res: "isReserved n \<longleftrightarrow>
      map lower_byte (takeWhile (\<lambda>c. c \<noteq> CHR ''.'') n) \<in> set (map (map lower_byte) reservedNames)"
  proof -
    have r: "\<forall>r\<in>set reservedNames. \<forall>c\<in>set r. code c < 128" by (simp add: reservedNames_def)
    have "\<forall>c\<in>set (takeWhile (\<lambda>c. c \<noteq> CHR ''.'') n). code c < 128"
      using True allowed_not_space set_takeWhileD by metis
    then have "fold_case (takeWhile (\<lambda>c. c \<noteq> CHR ''.'') n) =
        map lower_byte (takeWhile (\<lambda>c. c \<noteq> CHR ''.'') n)"
      by (rule fold_case_ascii)
    moreover have "\<forall>r\<in>set reservedNames. fold_case r = map lower_byte r"
      using r fold_case_ascii by blast
    ultimately show ?thesis
      using cut [of n "CHR ''.''"]
      by (auto simp: isReserved_def strings_EqualFold_def list_ex_iff split: prod.splits)
  qed
  have "hasSpecialChars n \<longleftrightarrow> hd n = CHR ''.'' \<or> last n = CHR ''.''"
  proof -
    have "\<forall>c\<in>set n. c \<notin> set specialChars \<and> c \<notin> set netshellDllForbidden \<and>
        c \<notin> set serviceNameForbidden"
      using True allowed_not_special by blast
    moreover have "strings_HasPrefix n ''.'' \<longleftrightarrow> hd n = CHR ''.''"
      using True by (cases n) (auto simp: strings_HasPrefix_def)
    moreover have "strings_HasSuffix n ''.'' \<longleftrightarrow> last n = CHR ''.''"
      using True by (cases n rule: rev_cases) (auto simp: strings_HasSuffix_def)
    ultimately show ?thesis
      by (auto simp: hasSpecialChars_def strings_ContainsAny_def list_ex_iff)
  qed
  with res True show ?thesis
    by (auto simp: TunnelNameIsValid_def allowedNameFormat_def list_all_iff Suc_le_eq)
next
  case False
  then show ?thesis using valid_name_chars valid_name_length by (fastforce simp: list_all_iff)
qed

text \<open>A tunnel name is valid exactly when it has 1 to 32 characters, all of them letters,
  digits or one of \<open>_=+.-\<close>, neither starts nor ends with a dot, and its part before the first dot
  is no reserved device name in any case.  So no character that Windows forbids in file or service
  names, in particular no path separator and no \<open>$\<close>, occurs in a valid name.\<close>

theorem TunnelNameIsValid_iff:
  "TunnelNameIsValid n \<longleftrightarrow>
     n \<noteq> [] \<and> length n \<le> 32 \<and> list_all allowed_name_char n \<and>
     hd n \<noteq> CHR ''.'' \<and> last n \<noteq> CHR ''.'' \<and>
     map lower_byte (takeWhile (\<lambda>c. c \<noteq> CHR ''.'') n) \<notin> set (map (map lower_byte) reservedNames)"
  by (rule valid_name_iff)

end
