(* ===== verification/Go_Netip.thy ===== *)
theory Go_Netip
  imports Go_Prelude
begin

text \<open>
  Package \<open>net/netip\<close> as the program uses it: addresses with an optional IPv6 zone, prefixes,
  their parsers and their canonical text.  \<open>ParseAddr_String\<close> and \<open>ParsePrefix_String\<close> show
  that the parsers invert the printers on every valid value; the configuration parser and
  writer rest on them.
\<close>

unbundle bit_operations_syntax

section \<open>Addresses\<close>

text \<open>\<open>netip.Addr\<close>: the zero address, an IPv4 address, or an IPv6 address with its zone (empty
  for none).\<close>

datatype addr = AddrZero | Addr4 u32 | Addr6 "128 word" string

fun Is4 :: "addr \<Rightarrow> bool" where
  "Is4 (Addr4 _) = True"
| "Is4 _ = False"

fun Is6 :: "addr \<Rightarrow> bool" where
  "Is6 (Addr6 _ _) = True"
| "Is6 _ = False"

fun BitLen :: "addr \<Rightarrow> nat" where
  "BitLen AddrZero = 0"
| "BitLen (Addr4 _) = 32"
| "BitLen (Addr6 _ _) = 128"

fun withoutZone :: "addr \<Rightarrow> addr" where
  "withoutZone (Addr6 w _) = Addr6 w []"
| "withoutZone a = a"

fun hasZone :: "addr \<Rightarrow> bool" where
  "hasZone (Addr6 _ z) = (z \<noteq> [])"
| "hasZone _ = False"

subsection \<open>Octets and 16-bit groups\<close>

definition octets4 :: "u32 \<Rightarrow> byte list" where
  "octets4 w = [ucast (drop_bit 24 w), ucast (drop_bit 16 w), ucast (drop_bit 8 w), ucast w]"

definition of_octets4 :: "byte list \<Rightarrow> u32" where
  "of_octets4 bs = foldl (\<lambda>acc b. push_bit 8 acc OR ucast b) 0 bs"

definition groups6 :: "128 word \<Rightarrow> u16 list" where
  "groups6 w =
     [ucast (drop_bit 112 w), ucast (drop_bit 96 w), ucast (drop_bit 80 w), ucast (drop_bit 64 w),
      ucast (drop_bit 48 w), ucast (drop_bit 32 w), ucast (drop_bit 16 w), ucast w]"

definition of_groups6 :: "u16 list \<Rightarrow> 128 word" where
  "of_groups6 gs = foldl (\<lambda>acc g. push_bit 16 acc OR ucast g) 0 gs"

definition join16 :: "byte \<Rightarrow> byte \<Rightarrow> u16" where
  "join16 a b = push_bit 8 (ucast a) OR ucast b"

text \<open>The sixteen bytes of an IPv6 address (\<open>As16\<close>), and the address of sixteen bytes
  (\<open>AddrFrom16\<close>).\<close>

definition As16 :: "128 word \<Rightarrow> byte list" where
  "As16 a = concat (map (\<lambda>g. [ucast (drop_bit 8 g), ucast g]) (groups6 a))"

definition of_bytes16 :: "byte list \<Rightarrow> 128 word" where
  "of_bytes16 bs = of_groups6 (map (\<lambda>i. join16 (bs ! (2 * i)) (bs ! (2 * i + 1))) [0..<8])"

subsection \<open>Parsing\<close>

text \<open>\<open>parseIPv4Fields\<close>: \<open>start\<close> says that the current byte is the first or follows a dot,
  \<open>val\<close> and \<open>digLen\<close> are the value and the length of the current octet, \<open>fields\<close> the finished
  ones.\<close>

fun parseIPv4Fields :: "string \<Rightarrow> bool \<Rightarrow> nat \<Rightarrow> nat \<Rightarrow> byte list \<Rightarrow> byte list option" where
  "parseIPv4Fields [] start val digLen fields =
     (if length fields < 3 then None else Some (fields @ [of_nat val]))"
| "parseIPv4Fields (c # s) start val digLen fields =
     (if is_digit c then
        (if digLen = 1 \<and> val = 0 then None
         else let v = val * 10 + (code c - 48) in
              if v > 255 then None else parseIPv4Fields s False v (Suc digLen) fields)
      else if c = CHR ''.'' then
        (if start \<or> s = [] then None
         else if length fields = 3 then None
         else parseIPv4Fields s True 0 0 (fields @ [of_nat val]))
      else None)"

definition parseIPv4 :: "string \<Rightarrow> addr option" where
  "parseIPv4 s = map_option (\<lambda>fs. Addr4 (of_octets4 fs)) (parseIPv4Fields s True 0 0 [])"

definition hex_value :: "char \<Rightarrow> nat option" where
  "hex_value c =
     (let n = code c in
      if 48 \<le> n \<and> n \<le> 57 then Some (n - 48)
      else if 97 \<le> n \<and> n \<le> 102 then Some (n - 87)
      else if 65 \<le> n \<and> n \<le> 70 then Some (n - 55)
      else None)"

text \<open>The inner loop of \<open>parseIPv6\<close>: at most four hexadecimal digits, their value, their number
  and the rest of the string.\<close>

fun hex_run :: "string \<Rightarrow> nat \<Rightarrow> nat \<Rightarrow> (nat \<times> nat \<times> string) option" where
  "hex_run [] acc off = Some (acc, off, [])"
| "hex_run (c # s) acc off =
     (case hex_value c of
        None \<Rightarrow> Some (acc, off, c # s)
      | Some d \<Rightarrow>
          if off > 3 then None
          else if acc * 16 + d > 65535 then None
          else hex_run s (acc * 16 + d) (Suc off))"

lemma hex_run_length:
  "hex_run s acc off = Some (acc', off', r) \<Longrightarrow> length r + off' = length s + off"
  by (induction s acc off rule: hex_run.induct) (auto split: option.splits if_splits)

text \<open>The outer loop of \<open>parseIPv6\<close>: the groups so far, the position of the ellipsis, the rest.\<close>

function parse_groups :: "string \<Rightarrow> u16 list \<Rightarrow> nat option \<Rightarrow>
    (u16 list \<times> nat option \<times> string) option" where
  "parse_groups s gs ellipsis =
     (if 8 \<le> length gs then Some (gs, ellipsis, s)
      else case hex_run s 0 0 of
        None \<Rightarrow> None
      | Some (acc, off, r) \<Rightarrow>
          if off = 0 then None
          else if r \<noteq> [] \<and> hd r = CHR ''.'' then
            (if ellipsis = None \<and> length gs \<noteq> 6 then None
             else if length gs + 2 > 8 then None
             else case parseIPv4Fields s True 0 0 [] of
               Some [a, b, c, d] \<Rightarrow> Some (gs @ [join16 a b, join16 c d], ellipsis, [])
             | _ \<Rightarrow> None)
          else (case r of
            [] \<Rightarrow> Some (gs @ [of_nat acc], ellipsis, [])
          | c # r1 \<Rightarrow>
              if c \<noteq> CHR '':'' then None
              else if r1 = [] then None
              else if hd r1 = CHR '':'' then
                (if ellipsis \<noteq> None then None
                 else if tl r1 = [] then Some (gs @ [of_nat acc], Some (Suc (length gs)), [])
                 else parse_groups (tl r1) (gs @ [of_nat acc]) (Some (Suc (length gs))))
              else parse_groups r1 (gs @ [of_nat acc]) ellipsis))"
  by pat_completeness auto
termination
proof (relation "measure (\<lambda>(s, gs, e). length s)", goal_cases)
  case 1
  show ?case by simp
next
  case (2 s gs ellipsis x2 acc y off r x21 x22)
  then show ?case
    using hex_run_length [of s 0 0 acc off r] by (cases x22) auto
next
  case (3 s gs ellipsis x2 acc y off r x21 x22)
  then show ?case
    using hex_run_length [of s 0 0 acc off r] by auto
qed

declare parse_groups.simps [simp del]

definition parseIPv6 :: "string \<Rightarrow> addr option" where
  "parseIPv6 input =
     (case strings_Cut input (CHR ''%'') of (s, zone, found) \<Rightarrow>
        if found \<and> zone = [] then None
        else
          let (ell, s') =
            (if take 2 s = ''::'' then (Some 0, drop 2 s) else (None, s))
          in if ell = Some 0 \<and> s' = [] then Some (Addr6 0 zone)
             else case parse_groups s' [] ell of
               None \<Rightarrow> None
             | Some (gs, e, r) \<Rightarrow>
                 if r \<noteq> [] then None
                 else if length gs < 8 then
                   (case e of
                      None \<Rightarrow> None
                    | Some k \<Rightarrow>
                        Some (Addr6 (of_groups6
                          (take k gs @ replicate (8 - length gs) 0 @ drop k gs)) zone))
                 else if e \<noteq> None then None
                 else Some (Addr6 (of_groups6 gs) zone))"

fun ParseAddr_scan :: "string \<Rightarrow> string \<Rightarrow> addr option" where
  "ParseAddr_scan [] s = None"
| "ParseAddr_scan (c # t) s =
     (if c = CHR ''.'' then parseIPv4 s
      else if c = CHR '':'' then parseIPv6 s
      else if c = CHR ''%'' then None
      else ParseAddr_scan t s)"

definition ParseAddr :: "string \<Rightarrow> addr option" where
  "ParseAddr s = ParseAddr_scan s s"

subsection \<open>Canonical text\<close>

definition string4 :: "u32 \<Rightarrow> string" where
  "string4 w = strings_Join (map (\<lambda>b. strconv_Itoa (unat b)) (octets4 w)) ''.''"

definition hex_digit :: "nat \<Rightarrow> char" where
  "hex_digit d = (if d < 10 then chr (48 + d) else chr (87 + d))"

definition hex_string :: "nat \<Rightarrow> string" where
  "hex_string n =
     (if 4096 \<le> n then [hex_digit (n div 4096)] else []) @
     (if 256 \<le> n then [hex_digit (n div 256 mod 16)] else []) @
     (if 16 \<le> n then [hex_digit (n div 16 mod 16)] else []) @
     [hex_digit (n mod 16)]"

text \<open>The longest run of at least two zero groups, the first of these; \<open>(255, 255)\<close> for none.\<close>

definition zero_run :: "u16 list \<Rightarrow> nat" where
  "zero_run gs = length (takeWhile (\<lambda>g. g = 0) gs)"

definition find_zeros :: "u16 list \<Rightarrow> nat \<times> nat" where
  "find_zeros gs =
     foldl (\<lambda>(zs, ze) i.
       let l = zero_run (drop i gs)
       in if 2 \<le> l \<and> ze - zs < l then (i, i + l) else (zs, ze)) (255, 255) [0..<8]"

definition hex_groups :: "u16 list \<Rightarrow> string" where
  "hex_groups gs = strings_Join (map (\<lambda>g. hex_string (unat g)) gs) '':''"

definition string6 :: "u16 list \<Rightarrow> string" where
  "string6 gs =
     (case find_zeros gs of (zs, ze) \<Rightarrow>
        if 8 \<le> zs then hex_groups gs
        else hex_groups (take zs gs) @ ''::'' @ hex_groups (drop ze gs))"

fun addr_String :: "addr \<Rightarrow> string" where
  "addr_String AddrZero = ''invalid IP''"
| "addr_String (Addr4 w) = string4 w"
| "addr_String (Addr6 w zone) =
     (if drop_bit 32 w = 0xffff then ''::ffff:'' @ string4 (ucast w) else string6 (groups6 w)) @
     (if zone = [] then [] else CHR ''%'' # zone)"

section \<open>Prefixes\<close>

text \<open>\<open>netip.Prefix\<close>: an address and a prefix length, \<^const>\<open>None\<close> when invalid.\<close>

datatype prefix = Prefix (prefix_Addr: addr) (prefix_bits: "nat option")

definition prefix_IsValid :: "prefix \<Rightarrow> bool" where
  "prefix_IsValid p \<longleftrightarrow> prefix_bits p \<noteq> None"

definition Bits :: "prefix \<Rightarrow> int" where
  "Bits p = (case prefix_bits p of None \<Rightarrow> -1 | Some n \<Rightarrow> int n)"

definition PrefixFrom :: "addr \<Rightarrow> nat \<Rightarrow> prefix" where
  "PrefixFrom a n =
     Prefix (withoutZone a) (if a \<noteq> AddrZero \<and> n \<le> BitLen a then Some n else None)"

definition prefix_String :: "prefix \<Rightarrow> string" where
  "prefix_String p =
     (case prefix_bits p of
        None \<Rightarrow> ''invalid Prefix''
      | Some n \<Rightarrow> addr_String (prefix_Addr p) @ ''/'' @ strconv_Itoa n)"

definition ParsePrefix :: "string \<Rightarrow> prefix option" where
  "ParsePrefix s =
     (case strings_LastIndexByte s (CHR ''/'') of
        None \<Rightarrow> None
      | Some i \<Rightarrow>
          (case ParseAddr (take i s) of
             None \<Rightarrow> None
           | Some ip \<Rightarrow>
               if hasZone ip then None
               else let bitsStr = drop (Suc i) s in
                 if 1 < length bitsStr \<and> \<not> (49 \<le> code (hd bitsStr) \<and> code (hd bitsStr) \<le> 57)
                 then None
                 else (case strconv_Atoi bitsStr of
                   None \<Rightarrow> None
                 | Some b \<Rightarrow>
                     if b < 0 \<or> b > int (if Is6 ip then 128 else 32) then None
                     else Some (PrefixFrom ip (nat b)))))"

fun mask_addr :: "addr \<Rightarrow> nat \<Rightarrow> addr" where
  "mask_addr AddrZero n = AddrZero"
| "mask_addr (Addr4 w) n = Addr4 (push_bit (32 - n) (drop_bit (32 - n) w))"
| "mask_addr (Addr6 w z) n = Addr6 (push_bit (128 - n) (drop_bit (128 - n) w)) z"

definition Masked :: "prefix \<Rightarrow> prefix" where
  "Masked p =
     (case prefix_bits p of
        None \<Rightarrow> Prefix AddrZero None
      | Some n \<Rightarrow> PrefixFrom (mask_addr (prefix_Addr p) n) n)"

fun prefix_Contains :: "prefix \<Rightarrow> addr \<Rightarrow> bool" where
  "prefix_Contains (Prefix (Addr4 v) (Some n)) (Addr4 w) = (drop_bit (32 - n) (w XOR v) = 0)"
| "prefix_Contains (Prefix (Addr6 v _) (Some n)) (Addr6 w z) =
     (z = [] \<and> drop_bit (128 - n) (w XOR v) = 0)"
| "prefix_Contains _ _ = False"

text \<open>What \<open>PrefixFrom\<close> and \<open>ParsePrefix\<close> return when they succeed.\<close>

definition valid_prefix :: "prefix \<Rightarrow> bool" where
  "valid_prefix p \<longleftrightarrow>
     prefix_Addr p \<noteq> AddrZero \<and> \<not> hasZone (prefix_Addr p) \<and>
     (case prefix_bits p of None \<Rightarrow> False | Some n \<Rightarrow> n \<le> BitLen (prefix_Addr p))"

section \<open>The IPv4 parser inverts the printer\<close>

lemma of_octets4_step:
  "drop_bit n (w :: u32) = push_bit 8 (drop_bit (n + 8) w) OR ucast (ucast (drop_bit n w) :: byte)"
  by (rule bit_word_eqI) (auto simp: bit_simps dest: bit_imp_le_length)

lemma of_octets4_octets4 [simp]: "of_octets4 (octets4 w) = w"
proof -
  have "drop_bit 32 w = 0"
    by (rule bit_word_eqI) (auto simp: bit_simps dest: bit_imp_le_length)
  then show ?thesis
    using of_octets4_step [of 24 w] of_octets4_step [of 16 w] of_octets4_step [of 8 w]
      of_octets4_step [of 0 w]
    by (simp add: of_octets4_def octets4_def)
qed

lemma of_groups6_step:
  "drop_bit n (w :: 128 word) =
     push_bit 16 (drop_bit (n + 16) w) OR ucast (ucast (drop_bit n w) :: u16)"
  by (rule bit_word_eqI) (auto simp: bit_simps dest: bit_imp_le_length)

lemma of_groups6_groups6 [simp]: "of_groups6 (groups6 w) = w"
proof -
  have "drop_bit 128 w = 0"
    by (rule bit_word_eqI) (auto simp: bit_simps dest: bit_imp_le_length)
  then show ?thesis
    using of_groups6_step [of 112 w] of_groups6_step [of 96 w] of_groups6_step [of 80 w]
      of_groups6_step [of 64 w] of_groups6_step [of 48 w] of_groups6_step [of 32 w]
      of_groups6_step [of 16 w] of_groups6_step [of 0 w]
    by (simp add: of_groups6_def groups6_def)
qed

lemma parseIPv4Fields_digit:
  assumes "d < 10" "val * 10 + d < 256" "digLen = 1 \<longrightarrow> val \<noteq> 0"
  shows "parseIPv4Fields (digit_char d # s) start val digLen fs =
    parseIPv4Fields s False (val * 10 + d) (Suc digLen) fs"
  using assms by (auto simp: Let_def)

lemma Itoa_1: "n < 10 \<Longrightarrow> strconv_Itoa n = [digit_char n]"
  by (simp add: strconv_Itoa.simps [of n])
lemma Itoa_2: "10 \<le> n \<Longrightarrow> n < 100 \<Longrightarrow> strconv_Itoa n = [digit_char (n div 10), digit_char (n mod 10)]"
  by (simp add: strconv_Itoa.simps [of n] Itoa_1)
lemma Itoa_3: "100 \<le> n \<Longrightarrow> n < 1000 \<Longrightarrow> strconv_Itoa n =
   [digit_char (n div 100), digit_char (n div 10 mod 10), digit_char (n mod 10)]"
  by (simp add: strconv_Itoa.simps [of n] Itoa_2 div_mult2_eq [symmetric])

lemma parseIPv4Fields_Itoa:
  assumes "n < 256"
  shows "\<exists>k>0. parseIPv4Fields (strconv_Itoa n @ s) start 0 0 fs = parseIPv4Fields s False n k fs"
proof -
  consider "n < 10" | "10 \<le> n" "n < 100" | "100 \<le> n" "n < 1000"
    using assms by linarith
  then show ?thesis
  proof cases
    case 1
    then show ?thesis by (auto simp: Itoa_1 Let_def)
  next
    case 2
    then have "n div 10 * 10 + n mod 10 < 256" "n div 10 < 10" "n div 10 \<noteq> 0"
      by auto
    with 2 show ?thesis by (auto simp: Itoa_2 parseIPv4Fields_digit simp del: parseIPv4Fields.simps)
  next
    case 3
    have "n div 100 < 10" "n div 100 \<noteq> 0" "n div 100 * 10 + n div 10 mod 10 < 256"
      using assms 3 by linarith+
    moreover have "n div 100 = n div 10 div 10"
      by (simp add: div_mult2_eq [symmetric])
    then have "(n div 100 * 10 + n div 10 mod 10) * 10 + n mod 10 = n"
      by simp
    ultimately show ?thesis using 3 assms
      by (auto simp: Itoa_3 parseIPv4Fields_digit simp del: parseIPv4Fields.simps)
  qed
qed

lemma parseIPv4Fields_dot:
  "s \<noteq> [] \<Longrightarrow> length fs < 3 \<Longrightarrow>
   parseIPv4Fields (CHR ''.'' # s) False v k fs = parseIPv4Fields s True 0 0 (fs @ [of_nat v])"
  by (simp add: is_digit_def)

lemma parseIPv4Fields_string4: "parseIPv4Fields (string4 w) True 0 0 [] = Some (octets4 w)"
proof -
  obtain a b c d where o: "octets4 w = [a, b, c, d]" by (simp add: octets4_def)
  have *: "parseIPv4Fields (strconv_Itoa (unat x) @ CHR ''.'' # s) True 0 0 fs =
     parseIPv4Fields s True 0 0 (fs @ [x])" if "s \<noteq> []" "length fs < 3" for x :: byte and s fs
    using parseIPv4Fields_Itoa [of "unat x" "CHR ''.'' # s" True fs] that
    by (auto simp: parseIPv4Fields_dot simp del: parseIPv4Fields.simps)
  have "parseIPv4Fields (strconv_Itoa (unat x)) True 0 0 fs = Some (fs @ [x])" if "length fs = 3" for x :: byte and fs
    using parseIPv4Fields_Itoa [of "unat x" "[]" True fs] that by auto
  then show ?thesis by (simp add: string4_def o * del: parseIPv4Fields.simps)
qed
lemma hex_value_digit [simp]: "d < 16 \<Longrightarrow> hex_value (hex_digit d) = Some d"
  by (auto simp: hex_value_def hex_digit_def Let_def)

lemma hex_run_digit:
  "d < 16 \<Longrightarrow> off \<le> 3 \<Longrightarrow> acc * 16 + d < 65536 \<Longrightarrow>
   hex_run (hex_digit d # s) acc off = hex_run s (acc * 16 + d) (Suc off)"
  by simp

definition hex_stop :: "string \<Rightarrow> bool" where
  "hex_stop r \<longleftrightarrow> r = [] \<or> hex_value (hd r) = None"

lemma hex_run_stop: "hex_stop r \<Longrightarrow> hex_run r acc off = Some (acc, off, r)"
  by (cases r) (auto simp: hex_stop_def)

lemma hex_run_string:
  assumes "n < 65536" "hex_stop r"
  shows "\<exists>k>0. hex_run (hex_string n @ r) 0 0 = Some (n, k, r)"
proof -
  have d: "n div 256 = n div 4096 * 16 + n div 256 mod 16" "n div 16 = n div 256 * 16 + n div 16 mod 16"
    "n = n div 16 * 16 + n mod 16"
    using div_mult2_eq [of n 256 16] div_mult2_eq [of n 16 16] by simp_all
  have lt: "n div 4096 < 16" "n div 256 < 256" "n div 16 < 4096" using assms by linarith+
  have z: "n < 16 \<Longrightarrow> n div 16 = 0" "n < 256 \<Longrightarrow> n div 256 = 0" "n < 4096 \<Longrightarrow> n div 4096 = 0" by simp_all
  show ?thesis
    using assms d lt z
    by (auto simp: hex_string_def hex_run_digit hex_run_stop simp del: hex_run.simps)
qed

section \<open>Zero runs and groups of the IPv6 text\<close>

lemma zero_run_zeros:
  "i + zero_run (drop i gs) \<le> max i (length gs) \<and>
   (\<forall>k. i \<le> k \<and> k < i + zero_run (drop i gs) \<longrightarrow> gs ! k = 0)"
proof -
  have "zero_run (drop i gs) \<le> length (drop i gs)"
    unfolding zero_run_def by (rule length_takeWhile_le)
  moreover have "gs ! k = 0" if "i \<le> k" "k < i + zero_run (drop i gs)" for k
  proof -
    have "takeWhile (\<lambda>g. g = 0) (drop i gs) ! (k - i) = 0"
      using that nth_mem [of "k - i" "takeWhile (\<lambda>g. g = 0) (drop i gs)"]
        set_takeWhileD zero_run_def by fastforce
    moreover have "takeWhile (\<lambda>g. g = 0) (drop i gs) ! (k - i) = drop i gs ! (k - i)"
      using that by (intro takeWhile_nth) (simp add: zero_run_def)
    ultimately show ?thesis
      using that \<open>zero_run (drop i gs) \<le> length (drop i gs)\<close> by simp
  qed
  ultimately show ?thesis by auto
qed

definition zeros_ok :: "u16 list \<Rightarrow> nat \<times> nat \<Rightarrow> bool" where
  "zeros_ok gs z \<longleftrightarrow> z = (255, 255) \<or>
     (case z of (zs, ze) \<Rightarrow> zs + 2 \<le> ze \<and> ze \<le> length gs \<and> (\<forall>k. zs \<le> k \<and> k < ze \<longrightarrow> gs ! k = 0))"

lemma find_zeros_ok: "zeros_ok gs (find_zeros gs)"
proof -
  have "zeros_ok gs (foldl (\<lambda>(zs, ze) i.
       let l = zero_run (drop i gs)
       in if 2 \<le> l \<and> ze - zs < l then (i, i + l) else (zs, ze)) z is)" if "zeros_ok gs z" for z "is"
    using that
  proof (induction "is" arbitrary: z)
    case (Cons i "is")
    have "zeros_ok gs (i, i + zero_run (drop i gs))" if "2 \<le> zero_run (drop i gs)"
    proof -
      have "i < length gs" using that by (cases "i < length gs") (auto simp: zero_run_def)
      then show ?thesis using that zero_run_zeros [of i gs] by (auto simp: zeros_ok_def)
    qed
    with Cons show ?case by (auto simp: Let_def split: prod.splits)
  qed simp
  then show ?thesis by (simp add: find_zeros_def zeros_ok_def)
qed

lemma zeros_expand:
  assumes "zs \<le> ze" "ze \<le> length gs" "\<forall>k. zs \<le> k \<and> k < ze \<longrightarrow> gs ! k = (0 :: u16)"
  shows "take zs gs @ replicate (ze - zs) 0 @ drop ze gs = gs"
proof (rule nth_equalityI)
  show "length (take zs gs @ replicate (ze - zs) 0 @ drop ze gs) = length gs"
    using assms by simp
  fix i assume "i < length (take zs gs @ replicate (ze - zs) 0 @ drop ze gs)"
  with assms show "(take zs gs @ replicate (ze - zs) 0 @ drop ze gs) ! i = gs ! i"
    by (auto simp: nth_append)
qed

lemma code_hex_digit:
  "d < 16 \<Longrightarrow> 48 \<le> code (hex_digit d) \<and> code (hex_digit d) \<le> 57 \<or>
     97 \<le> code (hex_digit d) \<and> code (hex_digit d) \<le> 102"
  by (auto simp: hex_digit_def)

lemma hex_digit_chars [simp]:
  assumes "d < 16"
  shows "hex_digit d \<noteq> CHR ''.''" "hex_digit d \<noteq> CHR '':''" "hex_digit d \<noteq> CHR ''%''"
    "hex_digit d \<noteq> CHR '',''" "hex_digit d \<noteq> CHR ''#''" "hex_digit d \<noteq> CHR ''/''"
    "hex_digit d \<noteq> newline" "\<not> ascii_space (hex_digit d)" "code (hex_digit d) < 128"
  using code_hex_digit [OF assms] by (auto simp: ascii_space_def)

lemma u16_less [simp]: "unat (g :: u16) < 65536"
  using unsigned_less [of g] by simp

lemma hex_stop_colon [simp]: "hex_stop (CHR '':'' # s)" "hex_stop []" "hex_stop (CHR ''.'' # s)"
  by (simp_all add: hex_stop_def hex_value_def)

lemma hex_string_nonempty [simp]: "hex_string n \<noteq> []"
  by (simp add: hex_string_def)

lemma hex_groups_Cons: "gs \<noteq> [] \<Longrightarrow> hex_groups (g # gs) = hex_string (unat g) @ CHR '':'' # hex_groups gs"
  by (cases gs) (simp_all add: hex_groups_def)

lemma hex_groups_single [simp]: "hex_groups [g] = hex_string (unat g)" "hex_groups [] = []"
  by (simp_all add: hex_groups_def)

lemma hex_groups_hd: "gs \<noteq> [] \<Longrightarrow> hex_groups gs \<noteq> [] \<and> hd (hex_groups gs) \<noteq> CHR '':''"
proof -
  assume "gs \<noteq> []"
  then obtain g gs' where "gs = g # gs'" by (cases gs) auto
  moreover have "hd (hex_string n) \<noteq> CHR '':''" if "n < 65536" for n
    using that by (auto simp: hex_string_def)
  ultimately show ?thesis
    by (cases "gs' = []") (auto simp: hex_groups_Cons)
qed

lemma parse_groups_all:
  assumes "gs \<noteq> []" "length gs0 + length gs \<le> 8"
  shows "parse_groups (hex_groups gs) gs0 e = Some (gs0 @ gs, e, [])"
  using assms
proof (induction gs arbitrary: gs0)
  case (Cons g gs)
  show ?case
  proof (cases "gs = []")
    case True
    obtain k where "k > 0" "hex_run (hex_string (unat g)) 0 0 = Some (unat g, k, [])"
      using hex_run_string [of "unat g" "[]"] by auto
    with True Cons.prems show ?thesis
      by (simp add: parse_groups.simps [of "hex_string (unat g)"])
  next
    case False
    let ?r = "CHR '':'' # hex_groups gs"
    obtain k where "k > 0" "hex_run (hex_string (unat g) @ ?r) 0 0 = Some (unat g, k, ?r)"
      using hex_run_string [of "unat g" ?r] by auto
    moreover have "parse_groups (hex_groups gs) (gs0 @ [g]) e = Some ((gs0 @ [g]) @ gs, e, [])"
      using Cons.prems False by (intro Cons.IH) auto
    ultimately show ?thesis
      using False Cons.prems hex_groups_hd [of gs]
      by (simp add: hex_groups_Cons parse_groups.simps [of "hex_string (unat g) @ ?r"])
  qed
qed simp

lemma parse_groups_ellipsis:
  assumes "gs \<noteq> []" "length gs0 + length gs \<le> 8"
  shows "parse_groups (hex_groups gs @ ''::'' @ t) gs0 None =
    (if t = [] then Some (gs0 @ gs, Some (length gs0 + length gs), [])
     else parse_groups t (gs0 @ gs) (Some (length gs0 + length gs)))"
  using assms
proof (induction gs arbitrary: gs0)
  case (Cons g gs)
  show ?case
  proof (cases "gs = []")
    case True
    let ?r = "CHR '':'' # CHR '':'' # t"
    obtain k where "k > 0" "hex_run (hex_string (unat g) @ ?r) 0 0 = Some (unat g, k, ?r)"
      using hex_run_string [of "unat g" ?r] by auto
    with True Cons.prems show ?thesis
      by (simp add: parse_groups.simps [of "hex_string (unat g) @ ?r"])
  next
    case False
    let ?r = "CHR '':'' # hex_groups gs @ CHR '':'' # CHR '':'' # t"
    obtain k where "k > 0" "hex_run (hex_string (unat g) @ ?r) 0 0 = Some (unat g, k, ?r)"
      using hex_run_string [of "unat g" ?r] by auto
    moreover note Cons.IH [of "gs0 @ [g]"]
    ultimately show ?thesis
      using False Cons.prems hex_groups_hd [of gs]
      by (simp add: hex_groups_Cons parse_groups.simps [of "hex_string (unat g) @ ?r"])
  qed
qed simp

section \<open>Round trips\<close>

text \<open>The bytes of printed addresses without a zone.\<close>

definition addr_char :: "char \<Rightarrow> bool" where
  "addr_char c \<longleftrightarrow> is_digit c \<or> 97 \<le> code c \<and> code c \<le> 102 \<or> c = CHR ''.'' \<or> c = CHR '':''"

lemma addr_char_plain:
  assumes "addr_char c"
  shows "c \<noteq> CHR ''%''" "c \<noteq> CHR '',''" "c \<noteq> CHR ''#''" "c \<noteq> CHR ''/''" "c \<noteq> newline"
    "c \<noteq> CHR 0x0D" "c \<noteq> CHR ''[''" "c \<noteq> CHR '']''" "\<not> ascii_space c" "code c < 128"
  using assms by (auto simp: addr_char_def is_digit_def ascii_space_def)

lemma addr_char_simps [simp]: "addr_char (CHR ''.'')" "addr_char (CHR '':'')"
  "is_digit c \<Longrightarrow> addr_char c" "d < 16 \<Longrightarrow> addr_char (hex_digit d)"
  using code_hex_digit [of d] by (auto simp: addr_char_def is_digit_def)

lemma Join_set: "c \<in> set (strings_Join ps sep) \<Longrightarrow> c \<in> set sep \<or> (\<exists>p\<in>set ps. c \<in> set p)"
  by (induction ps sep rule: strings_Join.induct) auto

lemma string4_chars: "c \<in> set (string4 w) \<Longrightarrow> is_digit c \<or> c = CHR ''.''"
  using Itoa_digits by (auto simp: string4_def dest!: Join_set)

lemma hex_string_chars: "n < 65536 \<Longrightarrow> c \<in> set (hex_string n) \<Longrightarrow> \<exists>d<16. c = hex_digit d"
  by (auto simp: hex_string_def split: if_splits intro: exI [of _ "n div 4096"]
      exI [of _ "n mod 16"] exI [of _ "n div 256 mod 16"] exI [of _ "n div 16 mod 16"])

lemma hex_groups_chars: "c \<in> set (hex_groups gs) \<Longrightarrow> (\<exists>d<16. c = hex_digit d) \<or> c = CHR '':''"
  using hex_string_chars [OF u16_less] by (auto simp: hex_groups_def dest!: Join_set)

lemma string6_chars: "c \<in> set (string6 gs) \<Longrightarrow> (\<exists>d<16. c = hex_digit d) \<or> c = CHR '':''"
  by (auto simp: string6_def split: prod.splits if_splits dest: hex_groups_chars)

lemma printed_addr_char:
  "c \<in> set (string4 w) \<Longrightarrow> addr_char c" "c \<in> set (string6 gs) \<Longrightarrow> addr_char c"
  by (auto dest!: string4_chars string6_chars)

lemma ParseAddr_scan_skip:
  "(\<forall>c\<in>set p. c \<noteq> CHR ''.'' \<and> c \<noteq> CHR '':'' \<and> c \<noteq> CHR ''%'') \<Longrightarrow>
   ParseAddr_scan (p @ t) s = ParseAddr_scan t s"
  by (induction p) auto

lemma ParseAddr_scan_colon:
  assumes "CHR '':'' \<in> set s" "\<forall>c\<in>set s. (\<exists>d<16. c = hex_digit d) \<or> c = CHR '':''"
  shows "ParseAddr_scan (s @ t) u = parseIPv6 u"
proof -
  obtain p q where "s = p @ CHR '':'' # q" "CHR '':'' \<notin> set p"
    using split_list_first [OF assms(1)] by blast
  moreover from this have "\<forall>c\<in>set p. \<exists>d<16. c = hex_digit d"
    using assms(2) by auto
  then have "\<forall>c\<in>set p. c \<noteq> CHR ''.'' \<and> c \<noteq> CHR '':'' \<and> c \<noteq> CHR ''%''"
    using hex_digit_chars by metis
  ultimately show ?thesis
    by (simp add: ParseAddr_scan_skip)
qed

lemma ParseAddr_scan_string4: "ParseAddr_scan (string4 w) u = parseIPv4 u"
proof -
  obtain a b c d where o: "octets4 w = [a, b, c, d]" by (simp add: octets4_def)
  have "x \<noteq> CHR ''.'' \<and> x \<noteq> CHR '':'' \<and> x \<noteq> CHR ''%''" if "x \<in> set (strconv_Itoa (unat a))" for x
    using Itoa_digits [OF that] by (auto simp: is_digit_def)
  then show ?thesis by (simp add: string4_def o ParseAddr_scan_skip)
qed

lemma length_groups6 [simp]: "length (groups6 w) = 8"
  by (simp add: groups6_def)

lemma string6_colon:
  assumes "length gs = 8"
  shows "CHR '':'' \<in> set (string6 gs)"
proof -
  obtain g h hs where "gs = g # h # hs" 
    using assms by (cases gs; cases "tl gs") auto
  then show ?thesis
    by (cases "find_zeros gs") (simp add: string6_def hex_groups_def)
qed

definition parse_expand :: "u16 list \<Rightarrow> string \<Rightarrow> bool" where
  "parse_expand gs s \<longleftrightarrow>
     (let (ell, s') = (if take 2 s = ''::'' then (Some 0, drop 2 s) else (None, s))
      in if ell = Some 0 \<and> s' = [] then gs = replicate 8 0
         else \<exists>hs e. parse_groups s' [] ell = Some (hs, e, []) \<and>
           (case e of None \<Rightarrow> hs = gs | Some k \<Rightarrow> length hs < 8 \<and>
               take k hs @ replicate (8 - length hs) 0 @ drop k hs = gs))"

lemma of_groups6_zero [simp]: "of_groups6 [0,0,0,0,0,0,0,0] = 0"
  by (simp add: of_groups6_def)

lemma parseIPv6_expand:
  assumes "parse_expand gs s" "length gs = 8" "CHR ''%'' \<notin> set s"
  shows "parseIPv6 (s @ (if zone = [] then [] else CHR ''%'' # zone)) =
           Some (Addr6 (of_groups6 gs) zone)"
proof -
  have "strings_Cut (s @ (if zone = [] then [] else CHR ''%'' # zone)) (CHR ''%'') =
      (s, zone, zone \<noteq> [])"
    using assms(3) by (simp add: go_simps)
  then show ?thesis
    using assms(1,2)
    by (auto simp: parseIPv6_def parse_expand_def Let_def numeral_eq_Suc split: if_splits option.splits)
qed

lemma no_leading_ellipsis:
  assumes "gs \<noteq> []"
  shows "take 2 (hex_groups gs @ t) \<noteq> ''::''"
  using hex_groups_hd [OF assms] by (cases "hex_groups gs") auto

lemma parse_expand_string6:
  assumes "length gs = 8"
  shows "parse_expand gs (string6 gs)"
proof (cases "find_zeros gs")
  case (Pair zs ze)
  show ?thesis
  proof (cases "8 \<le> zs")
    case True
    moreover have "gs \<noteq> []" using assms by auto
    ultimately show ?thesis
      using Pair assms no_leading_ellipsis [of gs "[]"] parse_groups_all [of gs "[]" None]
      by (simp add: string6_def parse_expand_def)
  next
    case False
    have ok: "zs + 2 \<le> ze" "ze \<le> 8" "\<forall>k. zs \<le> k \<and> k < ze \<longrightarrow> gs ! k = 0"
      using find_zeros_ok [of gs] Pair False assms by (auto simp: zeros_ok_def)
    have ex: "take zs gs @ replicate (ze - zs) 0 @ drop ze gs = gs"
      using ok assms by (intro zeros_expand) auto
    have pd: "parse_groups (hex_groups (drop ze gs)) hs e = Some (hs @ drop ze gs, e, [])"
      if "drop ze gs \<noteq> []" "length hs \<le> ze" for hs e
      using that ok assms by (intro parse_groups_all) auto
    have ne: "hex_groups (drop ze gs) = [] \<longleftrightarrow> drop ze gs = []"
      using hex_groups_hd [of "drop ze gs"] by auto
    show ?thesis
    proof (cases "zs = 0")
      case True
      with pd [of "[]" "Some 0"] ex ok assms show ?thesis
        by (auto simp: string6_def Pair parse_expand_def ne Let_def)
    next
      case zs: False
      then have t: "take zs gs \<noteq> []" using assms by auto
      note pe = parse_groups_ellipsis [OF t, of "[]" "hex_groups (drop ze gs)"]
      have "parse_groups (string6 gs) [] None = Some (take zs gs @ drop ze gs, Some zs, [])"
        using pe pd [of "take zs gs" "Some zs"] ok False assms
        by (auto simp: string6_def Pair ne)
      moreover have "take 2 (string6 gs) \<noteq> ''::''"
        using no_leading_ellipsis [OF t, of "''::'' @ hex_groups (drop ze gs)"] False
        by (simp add: string6_def Pair)
      ultimately show ?thesis
        using ex ok assms False by (auto simp: parse_expand_def Let_def)
    qed
  qed
qed

lemma hex_run_string4: "\<exists>v k r. k > 0 \<and> hex_run (string4 w) 0 0 = Some (v, k, CHR ''.'' # r)"
proof -
  obtain a b c d where o: "octets4 w = [a, b, c, d]" by (simp add: octets4_def)
  have h: "hex_value (digit_char x) = Some x" if "x < 10" for x
    using that by (simp add: hex_value_def Let_def)
  have *: "\<exists>v k. k > 0 \<and> hex_run (strconv_Itoa n @ CHR ''.'' # r) 0 0 = Some (v, k, CHR ''.'' # r)"
    if "n < 256" for n r
  proof -
    have n: "n < 1000" "n div 100 < 10" using that by linarith+
    consider "n < 10" | "10 \<le> n" "n < 100" | "100 \<le> n" "n < 1000"
      using n by linarith
    then show ?thesis using n
      by cases (auto simp: Itoa_1 Itoa_2 Itoa_3 h hex_value_def [of "CHR ''.''"])
  qed
  show ?thesis
    using * [of "unat a"] by (simp add: string4_def o) blast
qed

lemma parse_expand_mapped:
  assumes "drop_bit 32 w = 0xffff"
  shows "parse_expand (groups6 w) (''::ffff:'' @ string4 (ucast w))"
proof -
  let ?v = "ucast w :: u32"
  obtain a b c d where o: "octets4 ?v = [a, b, c, d]" by (simp add: octets4_def)
  have hi: "drop_bit n w = drop_bit (n - 32) 0xffff" if "32 \<le> n" for n
    using that by (simp add: assms [symmetric])
  have lo: "join16 a b = ucast (drop_bit 16 w)" "join16 c d = ucast w"
    using o by (auto simp: octets4_def join16_def bit_simps intro!: bit_word_eqI)
  have g: "groups6 w = [0, 0, 0, 0, 0, 0xffff, join16 a b, join16 c d]"
    by (simp add: groups6_def hi lo)
  have ne: "string4 ?v \<noteq> [] \<and> hd (string4 ?v) \<noteq> CHR '':''"
    using hex_run_string4 [of ?v] by (cases "string4 ?v") (auto simp: hex_value_def split: if_splits)
  have "parse_groups (string4 ?v) [0xffff] (Some 0) =
      Some ([0xffff, join16 a b, join16 c d], Some 0, [])"
    using hex_run_string4 [of ?v] parseIPv4Fields_string4 [of ?v]
    by (auto simp: o parse_groups.simps [of "string4 ?v"])
  moreover have "hex_run (''ffff:'' @ string4 ?v) 0 0 = Some (0xffff, 4, '':'' @ string4 ?v)"
    by (simp add: hex_value_def)
  moreover have "(of_nat 0xffff :: u16) = 0xffff" by simp
  ultimately have "parse_groups (''ffff:'' @ string4 ?v) [] (Some 0) =
      Some ([0xffff, join16 a b, join16 c d], Some 0, [])"
    using ne by (subst parse_groups.simps) (simp del: hex_run.simps of_nat_numeral)
  then show ?thesis
    by (simp add: parse_expand_def g numeral_eq_Suc)
qed

theorem ParseAddr_String: "a \<noteq> AddrZero \<Longrightarrow> ParseAddr (addr_String a) = Some a"
proof (cases a)
  case (Addr4 w)
  then show ?thesis
    by (simp add: ParseAddr_def ParseAddr_scan_string4 parseIPv4_def parseIPv4Fields_string4)
next
  case (Addr6 w zone)
  let ?s = "if drop_bit 32 w = 0xffff then ''::ffff:'' @ string4 (ucast w) else string6 (groups6 w)"
  have "parse_expand (groups6 w) ?s"
    using parse_expand_mapped parse_expand_string6 by simp
  moreover have "CHR ''%'' \<notin> set ?s"
    using printed_addr_char [THEN addr_char_plain(1)] by auto
  moreover have "ParseAddr_scan (?s @ t) u = parseIPv6 u" for t u
    using ParseAddr_scan_colon [OF string6_colon [of "groups6 w"]] string6_chars by simp
  ultimately show ?thesis
    using parseIPv6_expand [of "groups6 w" ?s zone] Addr6 by (simp add: ParseAddr_def)
qed simp

lemma ParseAddr_not_zero: "ParseAddr s = Some a \<Longrightarrow> a \<noteq> AddrZero"
proof -
  have "ParseAddr_scan t s = Some a \<Longrightarrow> a \<noteq> AddrZero" for t
    by (induction t s rule: ParseAddr_scan.induct)
      (auto simp: parseIPv4_def parseIPv6_def Let_def split: if_splits prod.splits option.splits)
  then show "ParseAddr s = Some a \<Longrightarrow> a \<noteq> AddrZero" by (simp add: ParseAddr_def)
qed

lemma addr_String_chars:
  assumes "a \<noteq> AddrZero" "\<not> hasZone a" "c \<in> set (addr_String a)"
  shows "addr_char c"
  using assms
  by (cases a) (auto split: if_splits dest: printed_addr_char simp: addr_char_def [of "CHR ''f''"])

lemma addr_String_nonempty [simp]: "a \<noteq> AddrZero \<Longrightarrow> addr_String a \<noteq> []"
  using ParseAddr_String [of a] by (auto simp: ParseAddr_def)

theorem ParsePrefix_String:
  assumes "valid_prefix p"
  shows "ParsePrefix (prefix_String p) = Some p"
proof -
  obtain a n where p: "p = Prefix a (Some n)" "a \<noteq> AddrZero" "\<not> hasZone a" "n \<le> BitLen a"
    using assms by (cases p) (auto simp: valid_prefix_def split: option.splits)
  have n: "n \<le> 128" using p(4) by (cases a) auto
  let ?b = "strconv_Itoa n"
  have i: "strings_LastIndexByte (addr_String a @ CHR ''/'' # ?b) (CHR ''/'') = Some (length (addr_String a))"
    by (intro LastIndexByte_append Itoa_not_digit) (simp add: is_digit_def)
  have d: "\<not> (1 < length ?b \<and> \<not> (49 \<le> code (hd ?b) \<and> code (hd ?b) \<le> 57))"
  proof (cases "n < 10")
    case False
    consider "n < 100" | "100 \<le> n" "n < 1000" using n by linarith
    then show ?thesis
    proof cases
      case 1
      then have "n div 10 < 10" "0 < n div 10" using False by simp_all
      then show ?thesis using Itoa_2 [of n] 1 False by simp
    next
      case 2
      then have "n div 100 < 10" "0 < n div 100" by (simp_all add: div_greater_zero_iff)
      then show ?thesis using Itoa_3 [of n] 2 by simp
    qed
  qed (simp add: Itoa_1)
  have "strconv_Atoi ?b = Some (int n)" using n by (intro Atoi_Itoa) simp
  moreover have "withoutZone a = a" using p by (cases a) auto
  moreover have "int n \<le> (if Is6 a then 128 else 32)" using p by (cases a) auto
  ultimately show ?thesis
    using p i d ParseAddr_String [of a]
    by (auto simp: ParsePrefix_def prefix_String_def PrefixFrom_def Let_def)
qed

lemma valid_prefix_PrefixFrom: "a \<noteq> AddrZero \<Longrightarrow> n \<le> BitLen a \<Longrightarrow> valid_prefix (PrefixFrom a n)"
  by (cases a) (auto simp: PrefixFrom_def valid_prefix_def)

lemma ParsePrefix_valid: "ParsePrefix s = Some p \<Longrightarrow> valid_prefix p"
  by (auto simp: ParsePrefix_def Let_def split: option.splits if_splits
      dest!: ParseAddr_not_zero intro!: valid_prefix_PrefixFrom elim!: Is6.elims BitLen.elims)

lemma prefix_String_chars:
  assumes "valid_prefix p" "c \<in> set (prefix_String p)"
  shows "addr_char c \<or> c = CHR ''/''"
  using assms addr_String_chars Itoa_digits
  by (auto simp: valid_prefix_def prefix_String_def split: option.splits)

lemma prefix_String_nonempty [simp]: "prefix_String p \<noteq> []"
  by (simp add: prefix_String_def split: option.splits)

end
