(* ===== verification/Conf_Config.thy ===== *)
theory Conf_Config
  imports Conf_Name Go_Netip "HOL-Library.Sublist"
begin

text \<open>
  \<open>conf/config.go\<close>: the configuration of a tunnel and its operations.  A \<open>Key\<close> is a byte list,
  of length \<open>KeyLength\<close> in every configuration the program builds; a Go \<open>map[string]Comments\<close> is
  a partial function, so the nil map and the empty map are the same.  The counters and the last
  handshake of a peer keep their 64-bit widths.

  The lemmas show what de-duplication and redaction keep and remove, that the intersection test
  of two configurations is symmetric and decides whether they share a route, and that the
  handshake age is split into units without loss.
\<close>

unbundle bit_operations_syntax

section \<open>Data\<close>

definition KeyLength :: nat where
  "KeyLength = 32"

type_synonym Key = "byte list"

record Endpoint =
  Host :: string
  Port :: u16

record Comments =
  Before :: "string list"
  Suffix :: string

record SectionComments =
  Header :: Comments
  Lines :: "string \<rightharpoonup> Comments"

record Interface =
  PrivateKey :: Key
  Addresses :: "prefix list"
  ListenPort :: u16
  MTU :: u16
  DNS :: "addr list"
  DNSSearch :: "string list"
  PreUp :: string
  PostUp :: string
  PreDown :: string
  PostDown :: string
  TableOff :: bool
  if_Comments :: SectionComments

record Peer =
  PublicKey :: Key
  PresharedKey :: Key
  AllowedIPs :: "prefix list"
  peer_Endpoint :: Endpoint
  PersistentKeepalive :: u16
  RxBytes :: u64
  TxBytes :: u64
  LastHandshakeTime :: int
  peer_Comments :: SectionComments

record Config =
  Name :: string
  config_Interface :: Interface
  Peers :: "Peer list"
  TrailingComments :: "string list"

text \<open>The zero values of these types.\<close>

definition zero_Key :: Key where
  "zero_Key = replicate KeyLength 0"

definition zero_Endpoint :: Endpoint where
  "zero_Endpoint = \<lparr>Host = [], Port = 0\<rparr>"

definition zero_Comments :: Comments where
  "zero_Comments = \<lparr>Before = [], Suffix = []\<rparr>"

definition zero_SectionComments :: SectionComments where
  "zero_SectionComments = \<lparr>Header = zero_Comments, Lines = Map.empty\<rparr>"

definition zero_Interface :: Interface where
  "zero_Interface =
     \<lparr>PrivateKey = zero_Key, Addresses = [], ListenPort = 0, MTU = 0, DNS = [], DNSSearch = [],
      PreUp = [], PostUp = [], PreDown = [], PostDown = [], TableOff = False,
      if_Comments = zero_SectionComments\<rparr>"

definition zero_Peer :: Peer where
  "zero_Peer =
     \<lparr>PublicKey = zero_Key, PresharedKey = zero_Key, AllowedIPs = [],
      peer_Endpoint = zero_Endpoint, PersistentKeepalive = 0, RxBytes = 0, TxBytes = 0,
      LastHandshakeTime = 0, peer_Comments = zero_SectionComments\<rparr>"

lemmas zero_defs = zero_Key_def zero_Endpoint_def zero_Comments_def zero_SectionComments_def
  zero_Interface_def zero_Peer_def

section \<open>Routes of two configurations\<close>

definition hostPrefix :: "prefix \<Rightarrow> prefix" where
  "hostPrefix a = PrefixFrom (prefix_Addr a) (BitLen (prefix_Addr a))"

text \<open>The map \<open>allRoutes\<close> of the receiver, as the set of its keys.\<close>

definition allRoutes :: "Config \<Rightarrow> prefix set" where
  "allRoutes conf =
     (let m = foldl (\<lambda>m a. insert (Masked a) (insert (hostPrefix a) m)) {}
                (Addresses (config_Interface conf))
      in foldl (\<lambda>m p. foldl (\<lambda>m a. insert (Masked a) m) m (AllowedIPs p)) m (Peers conf))"

text \<open>The two search loops over the other configuration, with their early returns.\<close>

fun intersects_addresses :: "prefix set \<Rightarrow> prefix list \<Rightarrow> bool" where
  "intersects_addresses m [] = False"
| "intersects_addresses m (a # as) =
     (if hostPrefix a \<in> m then True
      else if Masked a \<in> m then True
      else intersects_addresses m as)"

fun intersects_allowed :: "prefix set \<Rightarrow> prefix list \<Rightarrow> bool" where
  "intersects_allowed m [] = False"
| "intersects_allowed m (a # as) = (if Masked a \<in> m then True else intersects_allowed m as)"

fun intersects_peers :: "prefix set \<Rightarrow> Peer list \<Rightarrow> bool" where
  "intersects_peers m [] = False"
| "intersects_peers m (p # ps) =
     (if intersects_allowed m (AllowedIPs p) then True else intersects_peers m ps)"

definition IntersectsWith :: "Config \<Rightarrow> Config \<Rightarrow> bool" where
  "IntersectsWith conf other =
     (let m = allRoutes conf in
      if intersects_addresses m (Addresses (config_Interface other)) then True
      else if intersects_peers m (Peers other) then True
      else False)"

section \<open>Endpoints and keys\<close>

definition Endpoint_String :: "Endpoint \<Rightarrow> string" where
  "Endpoint_String e =
     (if strings_IndexByte (Host e) (CHR '':'') \<noteq> None
      then ''['' @ Host e @ '']:'' @ strconv_Itoa (unat (Port e))
      else Host e @ '':'' @ strconv_Itoa (unat (Port e)))"

definition Endpoint_IsEmpty :: "Endpoint \<Rightarrow> bool" where
  "Endpoint_IsEmpty e \<longleftrightarrow> length (Host e) = 0"

definition Key_String :: "Key \<Rightarrow> string" where
  "Key_String k = base64_Encode k"

text \<open>\<open>subtle.ConstantTimeCompare\<close>: 1 exactly when the lengths agree and no byte differs.\<close>

definition ConstantTimeCompare :: "byte list \<Rightarrow> byte list \<Rightarrow> int" where
  "ConstantTimeCompare x y =
     (if length x \<noteq> length y then 0
      else if foldl (\<lambda>v (a, b). v OR (a XOR b)) 0 (zip x y) = 0 then 1 else 0)"

definition IsZero :: "Key \<Rightarrow> bool" where
  "IsZero k \<longleftrightarrow> ConstantTimeCompare zero_Key k = 1"

text \<open>\<open>NewPresharedKey\<close> and \<open>NewPrivateKey\<close>: the argument is what \<open>rand.Read\<close> gives, its error or
  the random bytes.\<close>

definition NewPresharedKey :: "'e + Key \<Rightarrow> 'e + Key" where
  "NewPresharedKey random = random"

definition NewPrivateKey :: "'e + Key \<Rightarrow> 'e + Key" where
  "NewPrivateKey random =
     (case NewPresharedKey random of
        Inl err \<Rightarrow> Inl err
      | Inr k \<Rightarrow>
          let k = k[0 := k ! 0 AND 248] in
          Inr (k[31 := (k ! 31 AND 127) OR 64]))"

section \<open>The age of a handshake\<close>

datatype time_unit = Years | Days | Hours | Minutes | Seconds

datatype handshake_text = Now | Clock_wound_backward | Ago "(int \<times> time_unit) list"

definition HandshakeTime_IsEmpty :: "int \<Rightarrow> bool" where
  "HandshakeTime_IsEmpty t \<longleftrightarrow> t = 0"

text \<open>\<open>HandshakeTime.String\<close>, with the current Unix time \<open>n\<close> as an argument and the localised
  text replaced by its constructor.  \<open>Unix()\<close> of a time rounds down to seconds.\<close>

definition HandshakeTime_String :: "int \<Rightarrow> int \<Rightarrow> handshake_text" where
  "HandshakeTime_String n t =
     (let u = t div 1000000000 in
      if u = n then Now
      else if u > n then Clock_wound_backward
      else
        let left = n - u;
            years = left div (365 * 24 * 60 * 60);
            left = left mod (365 * 24 * 60 * 60);
            days = left div (24 * 60 * 60);
            left = left mod (24 * 60 * 60);
            hours = left div (60 * 60);
            left = left mod (60 * 60);
            minutes = left div 60;
            seconds = left mod 60;
            s = [];
            s = (if years > 0 then s @ [(years, Years)] else s);
            s = (if days > 0 then s @ [(days, Days)] else s);
            s = (if hours > 0 then s @ [(hours, Hours)] else s);
            s = (if minutes > 0 then s @ [(minutes, Minutes)] else s);
            s = (if seconds > 0 then s @ [(seconds, Seconds)] else s)
        in Ago s)"

section \<open>De-duplication\<close>

text \<open>The loop that compacts a slice in place: \<open>m\<close> the texts seen, \<open>i\<close> the length of the result
  so far, \<open>j\<close> the index the range has reached.\<close>

function dedup_loop :: "('a \<Rightarrow> string) \<Rightarrow> 'a list \<Rightarrow> string set \<Rightarrow> nat \<Rightarrow> nat \<Rightarrow> 'a list" where
  "dedup_loop str xs m i j =
     (if j < length xs then
        let addr = xs ! j; s = str addr in
        if s \<in> m then dedup_loop str xs m i (Suc j)
        else dedup_loop str (xs[i := addr]) (insert s m) (Suc i) (Suc j)
      else take i xs)"
  by pat_completeness auto
termination
  by (relation "measure (\<lambda>(str, xs, m, i, j). length xs - j)") auto

declare dedup_loop.simps [simp del]

definition dedup :: "('a \<Rightarrow> string) \<Rightarrow> 'a list \<Rightarrow> 'a list" where
  "dedup str xs = dedup_loop str xs {} 0 0"

definition DeduplicateNetworkEntries :: "Config \<Rightarrow> Config" where
  "DeduplicateNetworkEntries conf =
     (let i = config_Interface conf;
          i = i\<lparr>Addresses := dedup prefix_String (Addresses i)\<rparr>;
          i = i\<lparr>DNS := dedup addr_String (DNS i)\<rparr>
      in conf\<lparr>config_Interface := i,
          Peers := map (\<lambda>p. p\<lparr>AllowedIPs := dedup prefix_String (AllowedIPs p)\<rparr>) (Peers conf)\<rparr>)"

section \<open>Redaction\<close>

text \<open>\<open>binary.LittleEndian.PutUint64\<close>.\<close>

definition put_uint64_le :: "u64 \<Rightarrow> byte list" where
  "put_uint64_le v = map (\<lambda>i. ucast (drop_bit (8 * i) v)) [0..<8]"

definition redact_peer :: "nat \<Rightarrow> Peer \<Rightarrow> Peer" where
  "redact_peer i p =
     p\<lparr>PublicKey := put_uint64_le (of_nat i) @ drop 8 zero_Key,
       PresharedKey := zero_Key,
       peer_Comments := zero_SectionComments\<rparr>"

definition Redact :: "Config \<Rightarrow> Config" where
  "Redact conf =
     conf\<lparr>config_Interface :=
            (config_Interface conf)\<lparr>PrivateKey := zero_Key, PreUp := [], PostUp := [],
               PreDown := [], PostDown := [], if_Comments := zero_SectionComments\<rparr>,
          Peers := map (\<lambda>(i, p). redact_peer i p) (enumerate 0 (Peers conf)),
          TrailingComments := []\<rparr>"

section \<open>Lemmas\<close>

subsection \<open>Keys\<close>

lemma foldl_xor_zero:
  "length x = length y \<Longrightarrow>
   foldl (\<lambda>v (a, b). v OR (a XOR b)) (v :: byte) (zip x y) = 0 \<longleftrightarrow> v = 0 \<and> x = y"
proof (induction x y arbitrary: v rule: list_induct2)
  case (Cons a x b y)
  have "v OR (a XOR b) = 0 \<longleftrightarrow> v = 0 \<and> a = b"
    by (metis (no_types) or_eq_0_iff xor.right_neutral xor_self_eq xor.left_commute xor.assoc)
  with Cons show ?case by simp
qed simp

lemma IsZero_iff [simp]: "IsZero k \<longleftrightarrow> k = zero_Key"
  using foldl_xor_zero [of zero_Key k 0] by (auto simp: IsZero_def ConstantTimeCompare_def)

lemma length_zero_Key [simp]: "length zero_Key = 32"
  by (simp add: zero_Key_def KeyLength_def)

subsection \<open>Routes\<close>

definition address_routes :: "prefix list \<Rightarrow> prefix set" where
  "address_routes as = hostPrefix ` set as \<union> Masked ` set as"

definition peer_routes :: "Peer list \<Rightarrow> prefix set" where
  "peer_routes ps = (\<Union>p\<in>set ps. Masked ` set (AllowedIPs p))"

lemma foldl_insert_Masked:
  "foldl (\<lambda>m a. insert (Masked a) m) m as = m \<union> Masked ` set as"
  by (induction as arbitrary: m) auto

lemma allRoutes_eq:
  "allRoutes conf = address_routes (Addresses (config_Interface conf)) \<union> peer_routes (Peers conf)"
proof -
  have "foldl (\<lambda>m a. insert (Masked a) (insert (hostPrefix a) m)) m as = m \<union> address_routes as" for m as
    by (induction as arbitrary: m) (auto simp: address_routes_def)
  moreover have "foldl (\<lambda>m p. foldl (\<lambda>m a. insert (Masked a) m) m (AllowedIPs p)) m ps =
      m \<union> peer_routes ps" for m ps
    by (induction ps arbitrary: m) (auto simp: peer_routes_def foldl_insert_Masked)
  ultimately show ?thesis by (simp add: allRoutes_def)
qed

lemma intersects_addresses_iff: "intersects_addresses m as \<longleftrightarrow> m \<inter> address_routes as \<noteq> {}"
  by (induction as) (auto simp: address_routes_def)

lemma intersects_allowed_iff: "intersects_allowed m as \<longleftrightarrow> m \<inter> Masked ` set as \<noteq> {}"
  by (induction as) auto

lemma intersects_peers_iff: "intersects_peers m ps \<longleftrightarrow> m \<inter> peer_routes ps \<noteq> {}"
  by (induction ps) (simp_all add: peer_routes_def intersects_allowed_iff Int_Un_distrib)

subsection \<open>De-duplication\<close>

text \<open>The specification of the loop: keep each element whose text was not seen before.\<close>

fun nub_by :: "('a \<Rightarrow> string) \<Rightarrow> string set \<Rightarrow> 'a list \<Rightarrow> 'a list" where
  "nub_by str m [] = []"
| "nub_by str m (x # xs) =
     (if str x \<in> m then nub_by str m xs else x # nub_by str (insert (str x) m) xs)"

lemma dedup_loop_nub_by:
  "i \<le> j \<Longrightarrow> j \<le> length xs \<Longrightarrow> dedup_loop str xs m i j = take i xs @ nub_by str m (drop j xs)"
proof (induction str xs m i j rule: dedup_loop.induct)
  case (1 str xs m i j)
  show ?case
  proof (cases "j < length xs")
    case True
    then have d: "drop j xs = xs ! j # drop (Suc j) xs"
      by (rule Cons_nth_drop_Suc [symmetric])
    have "take (Suc i) (xs[i := xs ! j]) = take i xs @ [xs ! j]"
      using True "1.prems" by (simp add: take_Suc_conv_app_nth)
    then show ?thesis
      using True "1.prems" "1.IH" d by (simp add: dedup_loop.simps [of str xs] Let_def)
  next
    case False
    then show ?thesis using "1.prems" by (simp add: dedup_loop.simps)
  qed
qed

lemma dedup_nub_by: "dedup str xs = nub_by str {} xs"
  by (simp add: dedup_def dedup_loop_nub_by)

lemma nub_by_spec:
  assumes "inj_on str (set xs)"
  shows "set (nub_by str m xs) = {x \<in> set xs. str x \<notin> m}" "distinct (nub_by str m xs)"
    "subseq (nub_by str m xs) xs"
proof -
  show s: "set (nub_by str m xs) = {x \<in> set xs. str x \<notin> m}"
    using assms
  proof (induction xs arbitrary: m)
    case (Cons a xs)
    have "x = a" if "x \<in> set xs" "str x = str a" for x
      using inj_onD [OF Cons.prems that(2)] that(1) by simp
    moreover have "inj_on str (set xs)"
      using Cons.prems by (rule inj_on_subset) auto
    ultimately show ?case using Cons.IH by auto
  qed simp
  show "distinct (nub_by str m xs)"
  proof -
    have "distinct (map str (nub_by str m xs)) \<and> str ` set (nub_by str m xs) \<inter> m = {}"
      by (induction xs arbitrary: m) auto
    then show ?thesis by (simp add: distinct_map)
  qed
  show "subseq (nub_by str m xs) xs"
    by (induction xs arbitrary: m) auto
qed

lemma prefix_String_inj: "inj_on prefix_String (Collect valid_prefix)"
  by (rule inj_onI) (metis ParsePrefix_String mem_Collect_eq option.inject)

lemma addr_String_inj: "inj addr_String"
proof (rule injI)
  fix a b :: addr
  have z: "ParseAddr ''invalid IP'' = None" by (simp add: ParseAddr_def)
  assume e: "addr_String a = addr_String b"
  have "a = AddrZero \<longleftrightarrow> b = AddrZero"
    using e ParseAddr_String [of a] ParseAddr_String [of b] z by (metis addr_String.simps(1) option.simps(3))
  then show "a = b"
    using e ParseAddr_String [of a] ParseAddr_String [of b] by (metis option.inject)
qed

text \<open>\<open>ys\<close> is \<open>xs\<close> without repetitions: the same elements, each once, in the order of \<open>xs\<close>.\<close>

definition deduplicated :: "'a list \<Rightarrow> 'a list \<Rightarrow> bool" where
  "deduplicated xs ys \<longleftrightarrow> set ys = set xs \<and> distinct ys \<and> subseq ys xs"

lemma dedup_prefixes: "\<forall>p\<in>set ps. valid_prefix p \<Longrightarrow> deduplicated ps (dedup prefix_String ps)"
  using nub_by_spec [of prefix_String ps "{}"] inj_on_subset [OF prefix_String_inj, of "set ps"]
  by (auto simp: deduplicated_def dedup_nub_by)

lemma dedup_addrs: "deduplicated as (dedup addr_String as)"
  using nub_by_spec [of addr_String as "{}"] inj_on_subset [OF addr_String_inj, of "set as"]
  by (auto simp: deduplicated_def dedup_nub_by)

subsection \<open>Handshakes\<close>

primrec unit_seconds :: "time_unit \<Rightarrow> int" where
  "unit_seconds Years = 31536000"
| "unit_seconds Days = 86400"
| "unit_seconds Hours = 3600"
| "unit_seconds Minutes = 60"
| "unit_seconds Seconds = 1"

text \<open>How many of a unit make up the next larger one.\<close>

primrec unit_limit :: "time_unit \<Rightarrow> int \<Rightarrow> bool" where
  "unit_limit Years k = True"
| "unit_limit Days k = (k < 365)"
| "unit_limit Hours k = (k < 24)"
| "unit_limit Minutes k = (k < 60)"
| "unit_limit Seconds k = (k < 60)"

section \<open>Properties\<close>

text \<open>\<open>IntersectsWith\<close> decides whether two configurations share a route, a host route or a
  masked network of an interface address or the masked network of an allowed IP; it is therefore
  symmetric in the two configurations.\<close>

theorem IntersectsWith_iff:
  "IntersectsWith conf other \<longleftrightarrow>
     (address_routes (Addresses (config_Interface conf)) \<union> peer_routes (Peers conf)) \<inter>
     (address_routes (Addresses (config_Interface other)) \<union> peer_routes (Peers other)) \<noteq> {}"
  by (auto simp: IntersectsWith_def intersects_addresses_iff intersects_peers_iff allRoutes_eq
      Let_def)

text \<open>\<open>DeduplicateNetworkEntries\<close>, which compacts slices in place and compares the printed
  form of their entries, leaves in each list the same entries, each once and in the old order,
  and changes nothing else.\<close>

theorem DeduplicateNetworkEntries_spec:
  assumes "\<forall>a\<in>set (Addresses (config_Interface conf)). valid_prefix a"
    and "\<forall>p\<in>set (Peers conf). \<forall>a\<in>set (AllowedIPs p). valid_prefix a"
  shows "\<exists>as ds ips.
    DeduplicateNetworkEntries conf =
      conf\<lparr>config_Interface := (config_Interface conf)\<lparr>Addresses := as, DNS := ds\<rparr>,
           Peers := map2 (\<lambda>p ip. p\<lparr>AllowedIPs := ip\<rparr>) (Peers conf) ips\<rparr> \<and>
    deduplicated (Addresses (config_Interface conf)) as \<and>
    deduplicated (DNS (config_Interface conf)) ds \<and>
    list_all2 (\<lambda>p ip. deduplicated (AllowedIPs p) ip) (Peers conf) ips"
proof (intro exI conjI)
  let ?ips = "map (\<lambda>p. dedup prefix_String (AllowedIPs p)) (Peers conf)"
  show "DeduplicateNetworkEntries conf =
      conf\<lparr>config_Interface := (config_Interface conf)
             \<lparr>Addresses := dedup prefix_String (Addresses (config_Interface conf)),
              DNS := dedup addr_String (DNS (config_Interface conf))\<rparr>,
           Peers := map2 (\<lambda>p ip. p\<lparr>AllowedIPs := ip\<rparr>) (Peers conf) ?ips\<rparr>"
    by (simp add: DeduplicateNetworkEntries_def Let_def map2_map_map [of _ id, simplified])
  show "deduplicated (Addresses (config_Interface conf))
      (dedup prefix_String (Addresses (config_Interface conf)))"
    using assms(1) by (rule dedup_prefixes)
  show "deduplicated (DNS (config_Interface conf)) (dedup addr_String (DNS (config_Interface conf)))"
    by (rule dedup_addrs)
  show "list_all2 (\<lambda>p ip. deduplicated (AllowedIPs p) ip) (Peers conf) ?ips"
    using assms(2) by (auto simp: list_all2_conv_all_nth intro!: dedup_prefixes)
qed

definition sample_config :: Config where
  "sample_config =
     \<lparr>Name = ''wg0'',
      config_Interface = zero_Interface
        \<lparr>Addresses := [Prefix (Addr4 1) (Some 24), Prefix (Addr4 2) (Some 8), Prefix (Addr4 1) (Some 24)],
         PrivateKey := replicate 32 1, PreUp := ''cmd''\<rparr>,
      Peers = [zero_Peer\<lparr>PublicKey := replicate 32 3\<rparr>], TrailingComments = []\<rparr>"

theorem DeduplicateNetworkEntries_spec_witness:
  "deduplicated [Prefix (Addr4 1) (Some 24), Prefix (Addr4 2) (Some 8), Prefix (Addr4 1) (Some 24)]
     (Addresses (config_Interface (DeduplicateNetworkEntries sample_config)))"
proof -
  have "\<forall>a\<in>set (Addresses (config_Interface sample_config)). valid_prefix a"
    "\<forall>p\<in>set (Peers sample_config). \<forall>a\<in>set (AllowedIPs p). valid_prefix a"
    by (simp_all add: sample_config_def valid_prefix_def zero_Peer_def)
  from DeduplicateNetworkEntries_spec [OF this] show ?thesis
    by (auto simp: sample_config_def)
qed

text \<open>C31: redaction leaves no secret: two configurations that agree on the name, the public
  interface settings and, peer by peer, on the allowed IPs, endpoint, keepalive and statistics are
  redacted to the same configuration, whatever their keys, scripts and comments.\<close>

theorem Redact_noninterference:
  assumes "Name c = Name d"
    and "let i = config_Interface c; j = config_Interface d in
      Addresses i = Addresses j \<and> ListenPort i = ListenPort j \<and> MTU i = MTU j \<and>
      DNS i = DNS j \<and> DNSSearch i = DNSSearch j \<and> TableOff i = TableOff j"
    and "list_all2 (\<lambda>p q. AllowedIPs p = AllowedIPs q \<and> peer_Endpoint p = peer_Endpoint q \<and>
      PersistentKeepalive p = PersistentKeepalive q \<and> RxBytes p = RxBytes q \<and>
      TxBytes p = TxBytes q \<and> LastHandshakeTime p = LastHandshakeTime q) (Peers c) (Peers d)"
  shows "Redact (c :: Config) = Redact d"
proof -
  have "redact_peer i p = redact_peer i q"
    if "AllowedIPs p = AllowedIPs q" "peer_Endpoint p = peer_Endpoint q"
      "PersistentKeepalive p = PersistentKeepalive q" "RxBytes p = RxBytes q"
      "TxBytes p = TxBytes q" "LastHandshakeTime p = LastHandshakeTime q" for i and p q :: Peer
    using that by (intro Peer.equality) (simp_all add: redact_peer_def)
  then have "redact_peer i (Peers c ! i) = redact_peer i (Peers d ! i)"
    if "i < length (Peers c)" for i
    using list_all2_nthD [OF assms(3) that] by blast
  then have "map (\<lambda>(i, p). redact_peer i p) (enumerate 0 (Peers c)) =
      map (\<lambda>(i, p). redact_peer i p) (enumerate 0 (Peers d))"
    using list_all2_lengthD [OF assms(3)]
    by (intro nth_equalityI) (simp_all add: nth_enumerate_eq)
  then show ?thesis
    using assms(1,2)
    by (intro Config.equality Interface.equality) (simp_all add: Redact_def Let_def)
qed

theorem Redact_noninterference_witness:
  "Redact sample_config = Redact (sample_config\<lparr>config_Interface :=
     (config_Interface sample_config)\<lparr>PrivateKey := replicate 32 2, PreUp := ''other''\<rparr>,
     Peers := map (\<lambda>p. p\<lparr>PresharedKey := replicate 32 9\<rparr>) (Peers sample_config)\<rparr>)"
  by (rule Redact_noninterference) (simp_all add: sample_config_def)

text \<open>The age of a past handshake is split without loss: the units are positive, each below
  the next larger unit, largest first, and add up to the seconds since the handshake.\<close>

theorem HandshakeTime_String_spec:
  assumes "t div 1000000000 < n"
  shows "\<exists>s. HandshakeTime_String n t = Ago s \<and> s \<noteq> [] \<and>
    (\<Sum>(k, u)\<leftarrow>s. k * unit_seconds u) = n - t div 1000000000 \<and>
    (\<forall>(k, u)\<in>set s. 0 < k \<and> unit_limit u k) \<and>
    sorted_wrt (\<lambda>(_, u) (_, v). unit_seconds v < unit_seconds u) s"
proof -
  define l where "l = n - t div 1000000000"
  define y r1 where y: "y = l div (365 * 24 * 60 * 60)" "r1 = l mod (365 * 24 * 60 * 60)"
  define d r2 where d: "d = r1 div (24 * 60 * 60)" "r2 = r1 mod (24 * 60 * 60)"
  define h r3 where h: "h = r2 div (60 * 60)" "r3 = r2 mod (60 * 60)"
  define m s where m: "m = r3 div 60" "s = r3 mod 60"
  have l: "0 < l" using assms by (simp add: l_def)
  have sum: "y * 31536000 + d * 86400 + h * 3600 + m * 60 + s = l"
    unfolding y d h m by simp
  have ge: "0 \<le> y" "0 \<le> d" "0 \<le> h" "0 \<le> m" "0 \<le> s" and lt: "d < 365" "h < 24" "m < 60" "s < 60"
    using l unfolding y d h m by (auto simp: pos_imp_zdiv_nonneg_iff div_less_iff_less_mult)
  have "HandshakeTime_String n t = Ago
      ((if y > 0 then [(y, Years)] else []) @ (if d > 0 then [(d, Days)] else []) @
       (if h > 0 then [(h, Hours)] else []) @ (if m > 0 then [(m, Minutes)] else []) @
       (if s > 0 then [(s, Seconds)] else []))"
    using assms unfolding HandshakeTime_String_def Let_def l_def [symmetric] y [symmetric]
      d [symmetric] h [symmetric] m [symmetric]
    by simp
  moreover have "y > 0 \<or> d > 0 \<or> h > 0 \<or> m > 0 \<or> s > 0"
    using sum l ge by linarith
  ultimately show ?thesis
    unfolding l_def [symmetric] using sum ge lt
    by (cases "y > 0"; cases "d > 0"; cases "h > 0"; cases "m > 0"; cases "s > 0") simp_all
qed

theorem HandshakeTime_String_spec_witness:
  "HandshakeTime_String 100000 0 = Ago [(1, Days), (3, Hours), (46, Minutes), (40, Seconds)] \<and>
   (\<exists>s. HandshakeTime_String 100000 0 = Ago s \<and>
     (\<Sum>(k, u)\<leftarrow>s. k * unit_seconds u) = 100000)"
proof -
  have "HandshakeTime_String 100000 0 = Ago [(1, Days), (3, Hours), (46, Minutes), (40, Seconds)]"
    by code_simp
  with HandshakeTime_String_spec [of 0 100000] show ?thesis by auto
qed

text \<open>A new private key is clamped for Curve25519: whatever 32 random bytes it is made of, its
  three lowest bits and its highest bit are clear, the second highest is set, and no other bit is
  changed.\<close>

theorem NewPrivateKey_clamped:
  assumes "length k = KeyLength"
  shows "\<exists>k'. NewPrivateKey (Inr k) = Inr k' \<and> length k' = KeyLength \<and>
    (\<forall>n. bit (k' ! 0) n \<longleftrightarrow> bit (k ! 0) n \<and> 3 \<le> n) \<and>
    (\<forall>n. bit (k' ! 31) n \<longleftrightarrow> n = 6 \<or> n < 6 \<and> bit (k ! 31) n) \<and>
    (\<forall>i. 0 < i \<and> i < 31 \<longrightarrow> k' ! i = k ! i)"
proof -
  let ?k = "k[0 := k ! 0 AND 248, 31 := (k ! 31 AND 127) OR 64]"
  have l: "length k = 32" using assms by (simp add: KeyLength_def)
  have n: "NewPrivateKey (Inr k) = Inr ?k"
    by (simp add: NewPrivateKey_def NewPresharedKey_def)
  have m: "bit (248 :: byte) n \<longleftrightarrow> 3 \<le> n \<and> n < 8" "bit (127 :: byte) n \<longleftrightarrow> n < 7"
    "bit (64 :: byte) n \<longleftrightarrow> n = 6" for n
  proof -
    have "n \<in> {0, 1, 2, 3, 4, 5, 6, 7} \<or> 8 \<le> n" by auto
    then show "bit (248 :: byte) n \<longleftrightarrow> 3 \<le> n \<and> n < 8" "bit (127 :: byte) n \<longleftrightarrow> n < 7"
      "bit (64 :: byte) n \<longleftrightarrow> n = 6"
      by (auto dest: bit_imp_le_length)
  qed
  have "bit (?k ! 0) n \<longleftrightarrow> bit (k ! 0) n \<and> 3 \<le> n" for n
    using l bit_imp_le_length [of "k ! 0" n] m(1) [of n] by (auto simp: bit_and_iff)
  moreover have "bit (?k ! 31) n \<longleftrightarrow> n = 6 \<or> n < 6 \<and> bit (k ! 31) n" for n
    using l m(2) [of n] m(3) [of n] by (auto simp: bit_and_iff bit_or_iff)
  ultimately show ?thesis using n l by (intro exI [of _ ?k]) (simp add: KeyLength_def)
qed

theorem NewPrivateKey_clamped_witness:
  "\<exists>k'. NewPrivateKey (Inr (replicate 32 255)) = Inr k' \<and> (\<forall>n. bit (k' ! 31) n \<longleftrightarrow> n \<le> 6)"
proof -
  have "bit (255 :: byte) n" if "n < 6" for n
    using that by (auto simp: less_Suc_eq numeral_eq_Suc)
  then show ?thesis
    using NewPrivateKey_clamped [of "replicate 32 255"]
    by (auto simp: KeyLength_def le_less)
qed

end
