(* ===== verification/Conf_Parser.thy ===== *)
theory Conf_Parser
  imports Conf_Config
begin

text \<open>
  \<open>conf/parser.go\<close>: the parser of wg-quick configuration files.  A \<open>ParseError\<close> is its localised
  reason, here a constructor of \<open>parse_why\<close>, and the offending text; an error of \<open>strconv\<close> is a
  \<open>NumError\<close>.  The loop over the lines is a fold of \<open>parse_line\<close> over the parser's local
  variables, the record \<open>parser\<close>; the slices and maps it appends to are not shared with another
  value that is changed later, so they are values here.  A dereference of the nil peer would be
  \<open>NilDereference\<close>.
\<close>

section \<open>Errors\<close>

datatype parse_why =
    InvalidIPAddress | MissingPortFromEndpoint | InvalidEndpointHost | BracketsMustContainIPv6
  | InvalidMTU | InvalidPort | InvalidPersistentKeepalive | InvalidKey | KeysMustBe32Bytes
  | TwoCommasInARow | TunnelNameIsNotValid | LineMustOccurInASection | MissingEqualsSeparator
  | KeyMustHaveAValue | InvalidKeyForInterface | InvalidKeyForPeer | MustHavePrivateKey
  | MustHavePublicKeys

datatype parse_error =
    ParseError (why: parse_why) (offender: string)
  | NumError string
  | NilDereference

section \<open>Values\<close>

definition parseIPCidr :: "string \<Rightarrow> parse_error + prefix" where
  "parseIPCidr s =
     (case ParsePrefix s of
        Some ipcidr \<Rightarrow> Inr ipcidr
      | None \<Rightarrow>
          (case ParseAddr s of
             None \<Rightarrow> Inl (ParseError InvalidIPAddress s)
           | Some addr \<Rightarrow> Inr (PrefixFrom addr (BitLen addr))))"

definition parseMTU :: "string \<Rightarrow> parse_error + u16" where
  "parseMTU s =
     (case strconv_Atoi s of
        None \<Rightarrow> Inl (NumError s)
      | Some m \<Rightarrow>
          if m < 576 \<or> m > 65535 then Inl (ParseError InvalidMTU s) else Inr (of_int m))"

definition parsePort :: "string \<Rightarrow> parse_error + u16" where
  "parsePort s =
     (case strconv_Atoi s of
        None \<Rightarrow> Inl (NumError s)
      | Some m \<Rightarrow>
          if m < 0 \<or> m > 65535 then Inl (ParseError InvalidPort s) else Inr (of_int m))"

definition parsePersistentKeepalive :: "string \<Rightarrow> parse_error + u16" where
  "parsePersistentKeepalive s =
     (if s = ''off'' then Inr 0
      else case strconv_Atoi s of
        None \<Rightarrow> Inl (NumError s)
      | Some m \<Rightarrow>
          if m < 0 \<or> m > 65535 then Inl (ParseError InvalidPersistentKeepalive s)
          else Inr (of_int m))"

definition parseTableOff :: "string \<Rightarrow> parse_error + bool" where
  "parseTableOff s =
     (if s = ''off'' then Inr True
      else if s = ''auto'' \<or> s = ''main'' then Inr False
      else case strconv_ParseUint s 32 of
        None \<Rightarrow> Inl (NumError s)
      | Some _ \<Rightarrow> Inr False)"

text \<open>The host of an endpoint: an IPv6 address is in brackets, which are removed, and a zone after
  a percent sign is not part of the address that is checked.\<close>

definition parse_host :: "string \<Rightarrow> u16 \<Rightarrow> parse_error + Endpoint" where
  "parse_host host port =
     (let hostColon = strings_IndexByte host (CHR '':'') in
      if host ! 0 = CHR ''['' \<or> host ! (length host - 1) = CHR '']'' \<or> hostColon \<noteq> None
      then
        let err = ParseError BracketsMustContainIPv6 host in
        if length host > 3 \<and> host ! 0 = CHR ''['' \<and> host ! (length host - 1) = CHR '']'' \<and>
           (case hostColon of None \<Rightarrow> False | Some c \<Rightarrow> c > 0)
        then
          let stop = (case strings_LastIndexByte host (CHR ''%'') of
                        None \<Rightarrow> length host - 1
                      | Some i \<Rightarrow> if i > 1 then i else length host - 1)
          in case ParseAddr (take (stop - 1) (drop 1 host)) of
               None \<Rightarrow> Inl err
             | Some maybeV6 \<Rightarrow>
                 if \<not> Is6 maybeV6 then Inl err
                 else Inr \<lparr>Host = take (length host - 2) (drop 1 host), Port = port\<rparr>
        else Inl err
      else Inr \<lparr>Host = host, Port = port\<rparr>)"

definition parseEndpoint :: "string \<Rightarrow> parse_error + Endpoint" where
  "parseEndpoint s =
     (case strings_LastIndexByte s (CHR '':'') of
        None \<Rightarrow> Inl (ParseError MissingPortFromEndpoint s)
      | Some i \<Rightarrow>
          let host = take i s; portStr = drop (Suc i) s in
          if length host < 1 then Inl (ParseError InvalidEndpointHost host)
          else case parsePort portStr of
            Inl err \<Rightarrow> Inl err
          | Inr port \<Rightarrow> parse_host host port)"

definition parseKeyBase64 :: "string \<Rightarrow> parse_error + Key" where
  "parseKeyBase64 s =
     (case base64_Decode s of
        None \<Rightarrow> Inl (ParseError InvalidKey s)
      | Some k \<Rightarrow>
          if length k \<noteq> KeyLength then Inl (ParseError KeysMustBe32Bytes s) else Inr k)"

text \<open>A loop that stops at the first error.\<close>

fun try_map :: "('a \<Rightarrow> 'e + 'b) \<Rightarrow> 'a list \<Rightarrow> 'e + 'b list" where
  "try_map f [] = Inr []"
| "try_map f (x # xs) =
     (case f x of
        Inl e \<Rightarrow> Inl e
      | Inr y \<Rightarrow> (case try_map f xs of Inl e \<Rightarrow> Inl e | Inr ys \<Rightarrow> Inr (y # ys)))"

definition splitList :: "string \<Rightarrow> parse_error + string list" where
  "splitList s =
     try_map (\<lambda>split.
       let trim = strings_TrimSpace split in
       if length trim = 0 then Inl (ParseError TwoCommasInARow s) else Inr trim)
       (strings_Split s (CHR '',''))"

section \<open>The parser\<close>

datatype parserState = inInterfaceSection | inPeerSection | notInASection

record parser =
  p_state :: parserState
  p_conf :: Config
  sawPrivateKey :: bool
  cur_peer :: "Peer option"
  pendingComments :: "string list"

definition maybeAddPeer :: "Peer option \<Rightarrow> Config \<Rightarrow> Config" where
  "maybeAddPeer p c =
     (case p of None \<Rightarrow> c | Some peer \<Rightarrow> c\<lparr>Peers := Peers c @ [peer]\<rparr>)"

text \<open>Adding the pending comments and the comment of a line to those of a section header or of a
  key.\<close>

definition add_comments :: "string list \<Rightarrow> string \<Rightarrow> Comments \<Rightarrow> Comments" where
  "add_comments pending comment c =
     c\<lparr>Before := Before c @ pending,
       Suffix := (if length comment \<noteq> 0 then
                    (if length (Suffix c) = 0 then comment else Suffix c @ '' '' @ comment)
                  else Suffix c)\<rparr>"

definition record_comments ::
  "string list \<Rightarrow> string \<Rightarrow> string \<Rightarrow> SectionComments \<Rightarrow> SectionComments" where
  "record_comments pending comment key sc =
     (if length pending \<noteq> 0 \<or> length comment \<noteq> 0 then
        let c = (case Lines sc key of None \<Rightarrow> zero_Comments | Some c \<Rightarrow> c)
        in sc\<lparr>Lines := (Lines sc)(key \<mapsto> add_comments pending comment c)\<rparr>
      else sc)"

text \<open>The switch over the keys of the interface section; the Boolean is \<open>sawPrivateKey\<close>.\<close>

definition parse_interface_key ::
  "string \<Rightarrow> string \<Rightarrow> Interface \<times> bool \<Rightarrow> parse_error + (Interface \<times> bool)" where
  "parse_interface_key key val = (\<lambda>(i, saw).
     if key = ''privatekey'' then
       (case parseKeyBase64 val of Inl err \<Rightarrow> Inl err | Inr k \<Rightarrow> Inr (i\<lparr>PrivateKey := k\<rparr>, True))
     else if key = ''listenport'' then
       (case parsePort val of Inl err \<Rightarrow> Inl err | Inr p \<Rightarrow> Inr (i\<lparr>ListenPort := p\<rparr>, saw))
     else if key = ''mtu'' then
       (case parseMTU val of Inl err \<Rightarrow> Inl err | Inr m \<Rightarrow> Inr (i\<lparr>MTU := m\<rparr>, saw))
     else if key = ''address'' then
       (case splitList val of
          Inl err \<Rightarrow> Inl err
        | Inr addresses \<Rightarrow>
            (case try_map parseIPCidr addresses of
               Inl err \<Rightarrow> Inl err
             | Inr as \<Rightarrow> Inr (i\<lparr>Addresses := Addresses i @ as\<rparr>, saw)))
     else if key = ''dns'' then
       (case splitList val of
          Inl err \<Rightarrow> Inl err
        | Inr addresses \<Rightarrow>
            Inr (foldl (\<lambda>i address.
                   case ParseAddr address of
                     None \<Rightarrow> i\<lparr>DNSSearch := DNSSearch i @ [address]\<rparr>
                   | Some a \<Rightarrow> i\<lparr>DNS := DNS i @ [a]\<rparr>) i addresses, saw))
     else if key = ''preup'' then Inr (i\<lparr>PreUp := val\<rparr>, saw)
     else if key = ''postup'' then Inr (i\<lparr>PostUp := val\<rparr>, saw)
     else if key = ''predown'' then Inr (i\<lparr>PreDown := val\<rparr>, saw)
     else if key = ''postdown'' then Inr (i\<lparr>PostDown := val\<rparr>, saw)
     else if key = ''table'' then
       (case parseTableOff val of Inl err \<Rightarrow> Inl err | Inr b \<Rightarrow> Inr (i\<lparr>TableOff := b\<rparr>, saw))
     else Inl (ParseError InvalidKeyForInterface key))"

definition parse_peer_key :: "string \<Rightarrow> string \<Rightarrow> Peer \<Rightarrow> parse_error + Peer" where
  "parse_peer_key key val p =
     (if key = ''publickey'' then
        (case parseKeyBase64 val of Inl err \<Rightarrow> Inl err | Inr k \<Rightarrow> Inr (p\<lparr>PublicKey := k\<rparr>))
      else if key = ''presharedkey'' then
        (case parseKeyBase64 val of Inl err \<Rightarrow> Inl err | Inr k \<Rightarrow> Inr (p\<lparr>PresharedKey := k\<rparr>))
      else if key = ''allowedips'' then
        (case splitList val of
           Inl err \<Rightarrow> Inl err
         | Inr addresses \<Rightarrow>
             (case try_map parseIPCidr addresses of
                Inl err \<Rightarrow> Inl err
              | Inr as \<Rightarrow> Inr (p\<lparr>AllowedIPs := AllowedIPs p @ as\<rparr>)))
      else if key = ''persistentkeepalive'' then
        (case parsePersistentKeepalive val of
           Inl err \<Rightarrow> Inl err
         | Inr k \<Rightarrow> Inr (p\<lparr>PersistentKeepalive := k\<rparr>))
      else if key = ''endpoint'' then
        (case parseEndpoint val of
           Inl err \<Rightarrow> Inl err
         | Inr e \<Rightarrow> Inr (p\<lparr>peer_Endpoint := e\<rparr>))
      else Inl (ParseError InvalidKeyForPeer key))"

definition isScriptKey :: "string \<Rightarrow> bool" where
  "isScriptKey key \<longleftrightarrow>
     key = ''preup'' \<or> key = ''postup'' \<or> key = ''predown'' \<or> key = ''postdown''"

text \<open>A line whose text is neither empty nor a section header: its value, its comments, its
  key.\<close>

definition parse_setting ::
  "string \<Rightarrow> string \<Rightarrow> string \<Rightarrow> string \<Rightarrow> string \<Rightarrow> parser \<Rightarrow> parse_error + parser" where
  "parse_setting line stripped comment key val p =
     (let (val, comment) =
        (if isScriptKey key
         then (case strings_Cut line (CHR ''='') of (_, v, _) \<Rightarrow> (v, [])) else (val, comment));
          val = strings_TrimSpace val
      in if length val = 0 then Inl (ParseError KeyMustHaveAValue stripped)
         else case p_state p of
           inInterfaceSection \<Rightarrow>
             let i = config_Interface (p_conf p);
                 i = i\<lparr>if_Comments :=
                        record_comments (pendingComments p) comment key (if_Comments i)\<rparr>
             in (case parse_interface_key key val (i, sawPrivateKey p) of
                   Inl err \<Rightarrow> Inl err
                 | Inr (i, saw) \<Rightarrow>
                     Inr (p\<lparr>p_conf := (p_conf p)\<lparr>config_Interface := i\<rparr>, sawPrivateKey := saw,
                            pendingComments := []\<rparr>))
         | _ \<Rightarrow>
             (case cur_peer p of
                None \<Rightarrow> Inl NilDereference
              | Some peer \<Rightarrow>
                  let peer = peer\<lparr>peer_Comments :=
                        record_comments (pendingComments p) comment key (peer_Comments peer)\<rparr>
                  in (case parse_peer_key key val peer of
                        Inl err \<Rightarrow> Inl err
                      | Inr peer \<Rightarrow> Inr (p\<lparr>cur_peer := Some peer, pendingComments := []\<rparr>))))"

text \<open>The headers of the two sections.  The interface header adds the peer read so far without
  forgetting it; the peer header starts a new one.\<close>

definition interface_header :: "string \<Rightarrow> parser \<Rightarrow> parser" where
  "interface_header comment p =
     (let c = maybeAddPeer (cur_peer p) (p_conf p);
          i = config_Interface c;
          sc = if_Comments i;
          sc = sc\<lparr>Header := add_comments (pendingComments p) comment (Header sc)\<rparr>
      in p\<lparr>p_state := inInterfaceSection,
           p_conf := c\<lparr>config_Interface := i\<lparr>if_Comments := sc\<rparr>\<rparr>,
           pendingComments := []\<rparr>)"

definition peer_header :: "string \<Rightarrow> parser \<Rightarrow> parser" where
  "peer_header comment p =
     p\<lparr>p_conf := maybeAddPeer (cur_peer p) (p_conf p),
       cur_peer := Some (zero_Peer\<lparr>peer_Comments := zero_SectionComments
         \<lparr>Header := \<lparr>Before = pendingComments p, Suffix = comment\<rparr>\<rparr>\<rparr>),
       pendingComments := [],
       p_state := inPeerSection\<rparr>"

text \<open>A line with text before its comment.\<close>

definition parse_text :: "string \<Rightarrow> string \<Rightarrow> string \<Rightarrow> parser \<Rightarrow> parse_error + parser" where
  "parse_text line stripped comment p =
     (case strings_Cut stripped (CHR ''='') of (key, val, hasValue) \<Rightarrow>
        let key = strings_ToLower (strings_TrimSpace key) in
        if key = ''[interface]'' \<and> \<not> hasValue then Inr (interface_header comment p)
        else if key = ''[peer]'' \<and> \<not> hasValue then Inr (peer_header comment p)
        else if p_state p = notInASection then Inl (ParseError LineMustOccurInASection stripped)
        else if \<not> hasValue then Inl (ParseError MissingEqualsSeparator stripped)
        else parse_setting line stripped comment key val p)"

definition parse_line :: "string \<Rightarrow> parser \<Rightarrow> parse_error + parser" where
  "parse_line line p =
     (case strings_Cut line (CHR ''#'') of (code', after, hasComment) \<Rightarrow>
      let comment =
            (if hasComment
             then CHR ''#'' # strings_TrimRight after [CHR '' '', CHR 0x09, CHR 0x0D] else []);
          stripped = strings_TrimSpace code'
      in if length stripped = 0 then
           Inr (p\<lparr>pendingComments := pendingComments p @ [comment]\<rparr>)
         else parse_text line stripped comment p)"

fun parse_lines :: "string list \<Rightarrow> parser \<Rightarrow> parse_error + parser" where
  "parse_lines [] p = Inr p"
| "parse_lines (line # lines) p =
     (case parse_line line p of Inl err \<Rightarrow> Inl err | Inr p' \<Rightarrow> parse_lines lines p')"

section \<open>Pruning comments\<close>

text \<open>The first loop of \<open>pruneComments\<close>: an empty line is dropped after an empty one.\<close>

definition collapse_blank :: "string list \<Rightarrow> string list" where
  "collapse_blank run =
     foldl (\<lambda>out line. if line = [] \<and> length out \<noteq> 0 \<and> last out = [] then out
                       else out @ [line]) [] run"

definition drop_blank_head :: "bool \<Rightarrow> string list \<Rightarrow> string list" where
  "drop_blank_head dropLeading out =
     (if dropLeading \<and> length out \<noteq> 0 \<and> hd out = [] then tl out else out)"

definition drop_blank_last :: "bool \<Rightarrow> string list \<Rightarrow> string list" where
  "drop_blank_last dropTrailing out =
     (if dropTrailing \<and> length out \<noteq> 0 \<and> last out = [] then butlast out else out)"

definition pruneComments :: "string list \<Rightarrow> bool \<Rightarrow> bool \<Rightarrow> string list" where
  "pruneComments run dropLeading dropTrailing =
     (let out = drop_blank_last dropTrailing (drop_blank_head dropLeading (collapse_blank run))
      in if length out = 0 \<or> length out = 1 \<and> hd out = [] then [] else out)"

definition prune_line :: "Comments \<Rightarrow> Comments option" where
  "prune_line c =
     (let b = pruneComments (Before c) False False in
      if length b = 0 \<and> length (Suffix c) = 0 then None else Some (c\<lparr>Before := b\<rparr>))"

definition pruneSectionComments :: "SectionComments \<Rightarrow> SectionComments" where
  "pruneSectionComments s =
     s\<lparr>Header := (Header s)\<lparr>Before := pruneComments (Before (Header s)) True False\<rparr>,
       Lines := (\<lambda>key. case Lines s key of None \<Rightarrow> None | Some c \<Rightarrow> prune_line c)\<rparr>"

section \<open>The whole file\<close>

definition prune_config :: "string list \<Rightarrow> Config \<Rightarrow> Config" where
  "prune_config pending c =
     c\<lparr>TrailingComments := pruneComments pending False True,
       config_Interface := (config_Interface c)
         \<lparr>if_Comments := pruneSectionComments (if_Comments (config_Interface c))\<rparr>,
       Peers := map (\<lambda>p. p\<lparr>peer_Comments := pruneSectionComments (peer_Comments p)\<rparr>) (Peers c)\<rparr>"

definition finish_parse :: "parser \<Rightarrow> parse_error + Config" where
  "finish_parse p =
     (let c = prune_config (pendingComments p) (maybeAddPeer (cur_peer p) (p_conf p)) in
      if \<not> sawPrivateKey p then Inl (ParseError MustHavePrivateKey ''[none specified]'')
      else if list_ex (\<lambda>p. IsZero (PublicKey p)) (Peers c)
      then Inl (ParseError MustHavePublicKeys ''[none specified]'')
      else Inr c)"

definition start_parse :: "string \<Rightarrow> parser" where
  "start_parse name =
     \<lparr>p_state = notInASection,
      p_conf = \<lparr>Name = name, config_Interface = zero_Interface, Peers = [], TrailingComments = []\<rparr>,
      sawPrivateKey = False, cur_peer = None, pendingComments = []\<rparr>"

definition FromWgQuick :: "string \<Rightarrow> string \<Rightarrow> parse_error + Config" where
  "FromWgQuick s name =
     (if \<not> TunnelNameIsValid name then Inl (ParseError TunnelNameIsNotValid name)
      else case parse_lines (strings_Split s newline) (start_parse name) of
        Inl err \<Rightarrow> Inl err
      | Inr p \<Rightarrow> finish_parse p)"

text \<open>\<open>FromWgQuickWithUnknownEncoding\<close>: the decoders of \<open>unicode.All\<close> are an argument.\<close>

fun try_encodings :: "(string \<Rightarrow> string option) list \<Rightarrow> string \<Rightarrow> string \<Rightarrow> Config option" where
  "try_encodings [] s name = None"
| "try_encodings (decode # encodings) s name =
     (case decode s of
        None \<Rightarrow> try_encodings encodings s name
      | Some decoded \<Rightarrow>
          (case FromWgQuick decoded name of
             Inr c \<Rightarrow> Some c
           | Inl _ \<Rightarrow> try_encodings encodings s name))"

definition FromWgQuickWithUnknownEncoding ::
  "(string \<Rightarrow> string option) list \<Rightarrow> string \<Rightarrow> string \<Rightarrow> parse_error + Config" where
  "FromWgQuickWithUnknownEncoding encodings s name =
     (case FromWgQuick s name of
        Inr c \<Rightarrow> Inr c
      | Inl firstErr \<Rightarrow>
          (case try_encodings encodings s name of
             Some c \<Rightarrow> Inr c
           | None \<Rightarrow> Inl firstErr))"

end
