(* ===== verification/Conf_Print.thy ===== *)
theory Conf_Print
  imports Conf_Writer
begin

text \<open>
  The parser reads back what \<open>ToWgQuick\<close> writes.  \<open>wf_config\<close> describes the configurations the
  parser produces: valid addresses, keys of 32 bytes, values that fit on a line, comments that are
  pruned and belong to settings that are written.  For these, \<open>FromWgQuick_ToWgQuick_wf\<close> shows
  that parsing the written text gives the configuration back, comments included.  The proof
  follows the file: each written field takes the parser from one \<open>stage\<close> of the interface or of a
  peer to the next.
\<close>

section \<open>Values\<close>

lemma of_int_unat [simp]: "(of_int (int (unat (n :: u16))) :: u16) = n"
  by simp

lemma Atoi_uint: "strconv_Atoi (strconv_Itoa (unat (n :: u16))) = Some (int (unat n))"
  by (intro Atoi_Itoa less_le_trans [OF u16_less]) simp

lemma u16_uint [simp]: "uint (n :: u16) \<le> 65535"
proof -
  have "int (unat n) \<le> 65535" using u16_less [of n] by linarith
  then show ?thesis by simp
qed

lemma u16_uint_ge: "k \<le> unat (n :: u16) \<Longrightarrow> int k \<le> uint n"
  by (metis of_nat_le_iff uint_nat)

lemma parsePort_String: "parsePort (uint_String n) = Inr n"
  by (simp add: parsePort_def uint_String_def Atoi_uint not_less)

lemma parseMTU_String: "576 \<le> unat n \<Longrightarrow> parseMTU (uint_String n) = Inr n"
  using u16_uint_ge [of 576 n] by (simp add: parseMTU_def uint_String_def Atoi_uint not_less)

lemma Itoa_not_off: "strconv_Itoa n \<noteq> ''off''"
  using Itoa_digits [of "CHR ''o''" n] by (auto simp: is_digit_def)

lemma parsePersistentKeepalive_String: "parsePersistentKeepalive (uint_String n) = Inr n"
  by (simp add: parsePersistentKeepalive_def uint_String_def Atoi_uint Itoa_not_off not_less)

lemma parseTableOff_String: "parseTableOff (if b then ''off'' else ''auto'') = Inr b"
  by (simp add: parseTableOff_def)

lemma parseKeyBase64_String: "length k = 32 \<Longrightarrow> parseKeyBase64 (Key_String k) = Inr k"
  by (simp add: parseKeyBase64_def Key_String_def base64_Decode_Encode KeyLength_def)

lemma parseIPCidr_String: "valid_prefix p \<Longrightarrow> parseIPCidr (prefix_String p) = Inr p"
  by (simp add: parseIPCidr_def ParsePrefix_String)

text \<open>A value that fits in one line before a comment, and an item of a comma-separated list.\<close>

definition line_value :: "string \<Rightarrow> bool" where
  "line_value v \<longleftrightarrow> v \<noteq> [] \<and> trimmed v \<and> newline \<notin> set v \<and> CHR ''#'' \<notin> set v"

definition list_item :: "string \<Rightarrow> bool" where
  "list_item s \<longleftrightarrow> line_value s \<and> CHR '','' \<notin> set s"

lemma line_valueI:
  assumes "v \<noteq> []" "\<forall>c\<in>set v. \<not> ascii_space c \<and> code c < 128 \<and> c \<noteq> CHR ''#''"
  shows "line_value v"
proof -
  have "hd v \<in> set v" "last v \<in> set v" using assms(1) by simp_all
  then have "trimmed v" using assms by (intro trimmed_ascii_ends) blast+
  moreover have "ascii_space newline" by (simp add: ascii_space_def)
  ultimately show ?thesis using assms by (auto simp: line_value_def)
qed

lemma list_item_prefix:
  assumes "valid_prefix p"
  shows "list_item (prefix_String p)"
proof -
  have *: "\<not> ascii_space c \<and> code c < 128 \<and> c \<noteq> CHR ''#'' \<and> c \<noteq> CHR '',''"
    if "c \<in> set (prefix_String p)" for c
  proof (cases "c = CHR ''/''")
    case False
    then have "addr_char c" using prefix_String_chars [OF assms that] by blast
    from addr_char_plain [OF this] show ?thesis by blast
  qed (simp add: ascii_space_def)
  then have "line_value (prefix_String p)"
    by (intro line_valueI prefix_String_nonempty) blast
  with * show ?thesis
    unfolding list_item_def by blast
qed

lemma line_value_uint: "line_value (uint_String n)"
  by (intro line_valueI) (auto simp: uint_String_def is_digit_def ascii_space_def dest!: Itoa_digits)

lemma line_value_Key: "k \<noteq> [] \<Longrightarrow> line_value (Key_String k)"
  by (intro line_valueI) (auto simp: Key_String_def dest!: base64_Encode_plain)

lemma Join_nonempty: "xs \<noteq> [] \<Longrightarrow> \<forall>x\<in>set xs. x \<noteq> [] \<Longrightarrow> strings_Join xs sep \<noteq> []"
  by (cases xs; cases "tl xs") auto

lemma trimmed_append_ascii:
  assumes "trimmed s" "s \<noteq> []" "trimmed t" "t \<noteq> []" "code c < 128" "code d < 128"
  shows "trimmed (s @ c # d # t)"
  using assms lead_space_append_ascii [of s c "d # t"]
    trail_space_append_ascii [of "rev t" d "c # rev s"]
  by (simp add: trimmed_def)

lemma line_value_Join:
  assumes "xs \<noteq> []" "\<forall>x\<in>set xs. line_value x"
  shows "line_value (strings_Join xs '', '')"
  using assms
proof (induction xs "'', ''" rule: strings_Join.induct)
  case (3 x y xs)
  then show ?case
    using trimmed_append_ascii [of x "strings_Join (y # xs) '', ''" "CHR '',''" "CHR '' ''"]
    by (simp add: line_value_def)
qed simp_all

lemma Split_Join:
  assumes "\<forall>x\<in>set (x # xs). CHR '','' \<notin> set x"
  shows "strings_Split (strings_Join (x # xs) '', '') (CHR '','') = x # map ((#) (CHR '' '')) xs"
  using assms
proof (induction xs arbitrary: x)
  case Nil
  then show ?case by (simp add: strings_Split_notin)
next
  case (Cons y ys)
  have "strings_Split (CHR '' '' # strings_Join (y # ys) '', '') (CHR '','') =
      (CHR '' '' # y) # map ((#) (CHR '' '')) ys"
    using Cons by simp
  then show ?case using Cons.prems by (simp add: strings_Split_append)
qed

lemma try_map_ok: "(\<And>x. x \<in> set xs \<Longrightarrow> f x = Inr (g x)) \<Longrightarrow> try_map f xs = Inr (map g xs)"
  by (induction xs) simp_all

lemma TrimSpace_blank: "strings_TrimSpace (CHR '' '' # s) = strings_TrimSpace s"
  by (simp add: TrimSpace_lead ascii_space_def)

lemma splitList_Join:
  assumes "xs \<noteq> []" "\<forall>x\<in>set xs. list_item x"
  shows "splitList (strings_Join xs '', '') = Inr xs"
proof -
  obtain x ys where xs: "xs = x # ys" using assms(1) by (cases xs) auto
  let ?f = "\<lambda>split. let trim = strings_TrimSpace split in
       if length trim = 0 then Inl (ParseError TwoCommasInARow (strings_Join xs '', '')) else Inr trim"
  have t: "strings_TrimSpace y = y \<and> y \<noteq> []" if "y \<in> set xs" for y
    using that assms(2) by (auto simp: list_item_def line_value_def TrimSpace_id)
  then have tx: "strings_TrimSpace x = x" "x \<noteq> []" using xs by auto
  from t have "try_map ?f (map ((#) (CHR '' '')) ys) = Inr (map tl (map ((#) (CHR '' '')) ys))"
    using xs by (intro try_map_ok) (auto simp: TrimSpace_blank)
  moreover have "strings_Split (strings_Join xs '', '') (CHR '','') = x # map ((#) (CHR '' '')) ys"
    unfolding xs using assms(2) xs by (intro Split_Join) (auto simp: list_item_def)
  ultimately show ?thesis
    using tx by (simp add: splitList_def comp_def xs [symmetric])
qed

lemma try_map_parseIPCidr:
  "\<forall>p\<in>set ps. valid_prefix p \<Longrightarrow> try_map parseIPCidr (map prefix_String ps) = Inr ps"
  by (induction ps) (simp_all add: parseIPCidr_String)

section \<open>Lines\<close>

definition comment_cut :: string where
  "comment_cut = [CHR '' '', CHR 0x09, CHR 0x0D]"

text \<open>A comment as the parser keeps it, and a line before a setting: a comment or blank.\<close>

definition comment_text :: "string \<Rightarrow> bool" where
  "comment_text s \<longleftrightarrow> s \<noteq> [] \<and> hd s = CHR ''#'' \<and> newline \<notin> set s \<and>
     strings_TrimRight (tl s) comment_cut = tl s"

definition before_line :: "string \<Rightarrow> bool" where
  "before_line s \<longleftrightarrow> s = [] \<or> comment_text s"

definition suffix_text :: "string \<Rightarrow> bool" where
  "suffix_text s \<longleftrightarrow> s = [] \<or> comment_text s"

lemma comment_text_Cut:
  assumes "comment_text s" "CHR ''#'' \<notin> set v"
  shows "\<exists>t. s = CHR ''#'' # t \<and> strings_Cut (v @ s) (CHR ''#'') = (v, t, True) \<and>
    strings_TrimRight t comment_cut = t"
proof -
  obtain t where "s = CHR ''#'' # t" using assms(1) by (cases s) (auto simp: comment_text_def)
  with assms show ?thesis
    by (intro exI [of _ t]) (simp add: strings_Cut_append comment_text_def)
qed

lemma parse_lines_append:
  "parse_lines (xs @ ys) p =
     (case parse_lines xs p of Inl e \<Rightarrow> Inl e | Inr p' \<Rightarrow> parse_lines ys p')"
  by (induction xs arbitrary: p) (auto split: sum.splits)

lemma parse_line_before:
  assumes "before_line b"
  shows "parse_line b p = Inr (p\<lparr>pendingComments := pendingComments p @ [b]\<rparr>)"
proof (cases "b = []")
  case True
  then show ?thesis by (simp add: parse_line_def TrimSpace_id)
next
  case False
  then obtain t where "b = CHR ''#'' # t" "strings_TrimRight t comment_cut = t"
    using assms comment_text_Cut [of b "[]"] by (auto simp: before_line_def)
  then show ?thesis by (simp add: parse_line_def TrimSpace_id comment_cut_def)
qed

lemma parse_lines_before:
  "\<forall>b\<in>set bs. before_line b \<Longrightarrow>
     parse_lines bs p = Inr (p\<lparr>pendingComments := pendingComments p @ bs\<rparr>)"
  by (induction bs arbitrary: p) (simp_all add: parse_line_before)

text \<open>The text of a line and its comment: what the parser cuts it into.\<close>

definition with_suffix :: "string \<Rightarrow> string \<Rightarrow> string" where
  "with_suffix line s = line @ (if s = [] then [] else CHR '' '' # s)"

lemma Cut_with_suffix:
  assumes "line_value line" "suffix_text s"
  shows "\<exists>c a h. strings_Cut (with_suffix line s) (CHR ''#'') = (c, a, h) \<and>
    strings_TrimSpace c = line \<and>
    (if h then CHR ''#'' # strings_TrimRight a comment_cut else []) = s"
proof (cases "s = []")
  case True
  then show ?thesis
    using assms by (auto simp: with_suffix_def line_value_def strings_Cut_notin TrimSpace_id)
next
  case False
  with assms have "comment_text s" by (simp add: suffix_text_def)
  then obtain t where t: "s = CHR ''#'' # t" "strings_TrimRight t comment_cut = t"
      "strings_Cut ((line @ '' '') @ s) (CHR ''#'') = (line @ '' '', t, True)"
    using comment_text_Cut [of s "line @ '' ''"] assms by (auto simp: line_value_def)
  moreover have "strings_TrimSpace (line @ '' '') = line"
    using assms by (intro TrimSpace_trail) (simp_all add: line_value_def ascii_space_def)
  ultimately show ?thesis by (auto simp: with_suffix_def)
qed

text \<open>A key of the writer: letters only.\<close>

definition key_name :: "string \<Rightarrow> bool" where
  "key_name k \<longleftrightarrow> k \<noteq> [] \<and> list_all (\<lambda>c. 65 \<le> code c \<and> code c \<le> 90 \<or> 97 \<le> code c \<and> code c \<le> 122) k"

lemma key_name_plain:
  assumes "key_name k" "c \<in> set k"
  shows "code c < 128" "\<not> ascii_space c" "c \<noteq> CHR ''=''" "c \<noteq> CHR ''#''" "c \<noteq> newline" "c \<noteq> CHR ''[''"
  using assms by (auto simp: key_name_def list_all_iff ascii_space_def)

lemma key_name_TrimSpace:
  assumes "key_name k"
  shows "strings_TrimSpace (k @ '' '') = k" "strings_ToLower k = map lower_byte k"
proof -
  have "trimmed k"
    using assms key_name_plain [OF assms] by (intro trimmed_ascii_ends) (auto simp: key_name_def)
  then show "strings_TrimSpace (k @ '' '') = k"
    by (intro TrimSpace_trail) (simp_all add: ascii_space_def)
  show "strings_ToLower k = map lower_byte k"
    using key_name_plain [OF assms] by (intro ToLower_ascii) auto
qed

lemma key_name_not_header:
  assumes "key_name k"
  shows "map lower_byte k \<noteq> CHR ''['' # t"
proof -
  have "\<forall>c\<in>set k. 97 \<le> code (lower_byte c)"
    using assms by (auto simp: key_name_def list_all_iff lower_byte_def)
  then show ?thesis by (cases k) auto
qed

lemma line_value_setting:
  assumes "key_name k" "line_value v"
  shows "line_value (k @ '' = '' @ v)"
proof -
  obtain a k' where "k = a # k'" using assms(1) by (cases k) (auto simp: key_name_def)
  then have "trimmed (k @ '' = '' @ v)"
    using key_name_plain [OF assms(1), of a] assms(2)
      trimmed_key_value [of a "CHR '' ''" v "k' @ '' =''"]
    by (simp add: line_value_def)
  then show ?thesis
    using key_name_plain(4,5) [OF assms(1)] assms(2) by (auto simp: line_value_def)
qed

lemma parse_setting_blank:
  "\<not> isScriptKey key \<Longrightarrow>
   parse_setting l st s key (CHR '' '' # v) p =
     (if strings_TrimSpace v = [] then Inl (ParseError KeyMustHaveAValue st)
      else parse_setting [] [] s key v p)"
  by (simp add: parse_setting_def TrimSpace_blank)

lemma parse_line_setting:
  assumes "key_name k" "line_value v" "suffix_text s" "p_state p \<noteq> notInASection"
    "\<not> isScriptKey (map lower_byte k)"
  shows "parse_line (with_suffix (k @ '' = '' @ v) s) p =
    parse_setting [] [] s (map lower_byte k) v p"
proof -
  obtain c a h where cut: "strings_Cut (with_suffix (k @ '' = '' @ v) s) (CHR ''#'') = (c, a, h)"
      "strings_TrimSpace c = k @ '' = '' @ v"
      "(if h then CHR ''#'' # strings_TrimRight a comment_cut else []) = s"
    using Cut_with_suffix [OF line_value_setting [OF assms(1,2)] assms(3)] by blast
  have "strings_Cut ((k @ '' '') @ CHR ''='' # CHR '' '' # v) (CHR ''='') = (k @ '' '', CHR '' '' # v, True)"
    using key_name_plain(3) [OF assms(1)] by (intro strings_Cut_append) auto
  moreover have "length v \<noteq> 0" "strings_TrimSpace v = v"
    using assms(2) by (simp_all add: line_value_def TrimSpace_id)
  ultimately show ?thesis
    using cut assms key_name_TrimSpace [OF assms(1)] key_name_not_header [OF assms(1)]
    by (auto simp: parse_line_def parse_text_def comment_cut_def parse_setting_blank Let_def)
qed

text \<open>A script command keeps everything after the first equals sign, comments included.\<close>

definition script_value :: "string \<Rightarrow> bool" where
  "script_value v \<longleftrightarrow> v \<noteq> [] \<and> trimmed v \<and> newline \<notin> set v"

lemma trim_trail_rev_stop:
  assumes "code c < 128" "\<not> ascii_space c"
  shows "\<exists>u'. trim_trail_rev (u @ c # t) = u' @ c # t"
proof (induction u rule: length_induct)
  case (1 u)
  show ?case
  proof (cases "trail_space (u @ c # t) = 0")
    case True
    then show ?thesis by (subst trim_trail_rev.simps) auto
  next
    case False
    have "trail_space (u @ c # t) \<le> length u"
      using assms
      by (cases u rule: trail_space.cases; cases t rule: trail_space.cases)
        (auto simp: space2_def space3_def)
    moreover have "u \<noteq> []" using False assms by (auto simp: trail_space_ascii)
    ultimately have "length (drop (trail_space (u @ c # t)) u) < length u"
      using False by simp
    then obtain u' where "trim_trail_rev (drop (trail_space (u @ c # t)) u @ c # t) = u' @ c # t"
      using 1 by blast
    then show ?thesis
      using False \<open>trail_space (u @ c # t) \<le> length u\<close> by (subst trim_trail_rev.simps) simp
  qed
qed

lemma TrimSpace_key_prefix:
  assumes "key_name k"
  shows "\<exists>r'. strings_TrimSpace (k @ '' ='' @ r) = k @ '' ='' @ r'"
proof -
  obtain a k' where k: "k = a # k'" using assms by (cases k) (auto simp: key_name_def)
  then have "trim_lead (k @ '' ='' @ r) = k @ '' ='' @ r"
    using key_name_plain [OF assms, of a] by (subst trim_lead.simps) (simp add: lead_space_ascii)
  moreover obtain u' where "trim_trail_rev (rev r @ CHR ''='' # CHR '' '' # rev k) = u' @ CHR ''='' # CHR '' '' # rev k"
    using trim_trail_rev_stop [of "CHR ''=''"] by (auto simp: ascii_space_def)
  ultimately show ?thesis by (intro exI [of _ "rev u'"]) (simp add: strings_TrimSpace_def)
qed

lemma parse_line_script:
  assumes "key_name k" "script_value v" "p_state p \<noteq> notInASection" "isScriptKey (map lower_byte k)"
  shows "parse_line (k @ '' = '' @ v) p = parse_setting (k @ '' = '' @ v) [] [] (map lower_byte k) v p"
proof -
  obtain c a h where cut: "strings_Cut (k @ '' = '' @ v) (CHR ''#'') = (c, a, h)" by (cases "strings_Cut (k @ '' = '' @ v) (CHR ''#'')") auto
  have "\<exists>r. c = k @ '' ='' @ r"
  proof (cases h)
    case True
    with cut have "strings_Cut (k @ '' = '' @ v) (CHR ''#'') = (c, a, True)" by simp
    then have "k @ '' = '' @ v = c @ CHR ''#'' # a"
      using strings_Cut_found by blast
    then have "Sublist.prefix (k @ '' ='') (c @ CHR ''#'' # a)"
      by (intro prefixI [of _ _ "CHR '' '' # v"]) simp
    moreover have "CHR ''#'' \<notin> set (k @ '' ='')" using key_name_plain(4) [OF assms(1)] by auto
    ultimately show ?thesis
      by (auto simp: prefix_def append_eq_append_conv2 append_eq_Cons_conv
          Cons_eq_append_conv)
  next
    case False
    then have "c = k @ '' = '' @ v"
      using strings_Cut_not_found [of "k @ '' = '' @ v" "CHR ''#''" c a] cut by simp
    then show ?thesis by simp
  qed
  then obtain r' where s: "strings_TrimSpace c = (k @ '' '') @ CHR ''='' # r'"
    using TrimSpace_key_prefix [OF assms(1)] by auto
  have c1: "strings_Cut (strings_TrimSpace c) (CHR ''='') = (k @ '' '', r', True)"
    unfolding s using key_name_plain(3) [OF assms(1)] by (intro strings_Cut_append) auto
  have c2: "strings_Cut ((k @ '' '') @ CHR ''='' # CHR '' '' # v) (CHR ''='') = (k @ '' '', CHR '' '' # v, True)"
    using key_name_plain(3) [OF assms(1)] by (intro strings_Cut_append) auto
  have v: "strings_TrimSpace (CHR '' '' # v) = v" "v \<noteq> []"
    using assms(2) by (simp_all add: script_value_def TrimSpace_id TrimSpace_blank)
  have "parse_setting (k @ '' = '' @ v) st cm (map lower_byte k) w p =
      parse_setting (k @ '' = '' @ v) [] [] (map lower_byte k) v p" for st cm w
    using c2 v assms(4) by (simp add: parse_setting_def)
  then show ?thesis
    using cut s c1 assms key_name_TrimSpace [OF assms(1)] key_name_not_header [OF assms(1)]
    by (simp add: parse_line_def parse_text_def Let_def)
qed

lemma header_Cut:
  assumes "suffix_text s" "l = ''[Interface]'' \<or> l = ''[Peer]''"
  shows "\<exists>c a h. strings_Cut (with_suffix l s) (CHR ''#'') = (c, a, h) \<and>
    strings_TrimSpace c = l \<and> strings_TrimSpace l = l \<and>
    (if h then CHR ''#'' # strings_TrimRight a comment_cut else []) = s"
proof -
  have "line_value l"
    using assms(2) by (intro line_valueI) (auto simp: ascii_space_def)
  moreover from this have "strings_TrimSpace l = l"
    by (simp add: line_value_def TrimSpace_id)
  ultimately show ?thesis
    using Cut_with_suffix [OF _ assms(1)] by blast
qed

lemma parse_line_interface_header:
  assumes "suffix_text s"
  shows "parse_line (with_suffix ''[Interface]'' s) p = Inr (interface_header s p)"
proof -
  obtain c a h where "strings_Cut (with_suffix ''[Interface]'' s) (CHR ''#'') = (c, a, h)"
      "strings_TrimSpace c = ''[Interface]''" "strings_TrimSpace ''[Interface]'' = ''[Interface]''"
      "(if h then CHR ''#'' # strings_TrimRight a comment_cut else []) = s"
    using header_Cut [OF assms, of "''[Interface]''"] by blast
  moreover have "strings_ToLower ''[Interface]'' = ''[interface]''" by code_simp
  moreover have "strings_Cut ''[Interface]'' (CHR ''='') = (''[Interface]'', [], False)" by code_simp
  ultimately show ?thesis
    by (simp only: parse_line_def parse_text_def comment_cut_def prod.case Let_def) simp
qed

lemma parse_line_peer_header:
  assumes "suffix_text s"
  shows "parse_line (with_suffix ''[Peer]'' s) p = Inr (peer_header s p)"
proof -
  obtain c a h where "strings_Cut (with_suffix ''[Peer]'' s) (CHR ''#'') = (c, a, h)"
      "strings_TrimSpace c = ''[Peer]''" "strings_TrimSpace ''[Peer]'' = ''[Peer]''"
      "(if h then CHR ''#'' # strings_TrimRight a comment_cut else []) = s"
    using header_Cut [OF assms, of "''[Peer]''"] by blast
  moreover have "strings_ToLower ''[Peer]'' = ''[peer]''" by code_simp
  moreover have "strings_Cut ''[Peer]'' (CHR ''='') = (''[Peer]'', [], False)" by code_simp
  ultimately show ?thesis
    by (simp only: parse_line_def parse_text_def comment_cut_def prod.case Let_def) simp
qed

section \<open>Pruned comments\<close>

definition no_double_blank :: "string list \<Rightarrow> bool" where
  "no_double_blank bs \<longleftrightarrow> successively (\<lambda>a b. a = [] \<longrightarrow> b \<noteq> []) bs"

abbreviation collapse_step :: "string list \<Rightarrow> string \<Rightarrow> string list" where
  "collapse_step out line \<equiv>
     (if line = [] \<and> length out \<noteq> 0 \<and> last out = [] then out else out @ [line])"

lemma no_double_blank_Cons:
  "no_double_blank (b # bs) \<longleftrightarrow> (bs \<noteq> [] \<longrightarrow> b = [] \<longrightarrow> hd bs \<noteq> []) \<and> no_double_blank bs"
  by (cases bs) (auto simp: no_double_blank_def)

lemma no_double_blank_snoc:
  "no_double_blank (bs @ [b]) \<longleftrightarrow> (bs \<noteq> [] \<longrightarrow> last bs = [] \<longrightarrow> b \<noteq> []) \<and> no_double_blank bs"
  by (auto simp: no_double_blank_def successively_append_iff)

lemma collapse_foldl:
  "no_double_blank out \<Longrightarrow>
   no_double_blank (foldl collapse_step out run) \<and>
   set (foldl collapse_step out run) \<subseteq> set out \<union> set run"
proof (induction run arbitrary: out)
  case (Cons line run)
  then have "no_double_blank (collapse_step out line)"
    by (auto simp: no_double_blank_snoc)
  moreover have "set (collapse_step out line) \<subseteq> set out \<union> {line}" by auto
  ultimately show ?case
    using Cons.IH [of "collapse_step out line"] by (simp only: foldl_Cons) auto
qed simp

lemma collapse_id:
  "no_double_blank (out @ run) \<Longrightarrow> foldl collapse_step out run = out @ run"
proof (induction run arbitrary: out)
  case (Cons line run)
  then have "collapse_step out line = out @ [line]"
    by (auto simp: no_double_blank_def successively_append_iff)
  moreover have "foldl collapse_step (out @ [line]) run = (out @ [line]) @ run"
    using Cons.prems by (intro Cons.IH) simp
  ultimately show ?case by (simp only: foldl_Cons) simp
qed simp

lemma collapse_blank_props:
  "no_double_blank (collapse_blank run)" "set (collapse_blank run) \<subseteq> set run"
  using collapse_foldl [of "[]" run] by (auto simp: collapse_blank_def no_double_blank_def)

lemma collapse_blank_id: "no_double_blank run \<Longrightarrow> collapse_blank run = run"
  using collapse_id [of "[]" run] by (simp add: collapse_blank_def)

text \<open>What pruning leaves, for a section header, a setting and the end of the file.\<close>

definition pruned :: "bool \<Rightarrow> bool \<Rightarrow> string list \<Rightarrow> bool" where
  "pruned lead trail bs \<longleftrightarrow> no_double_blank bs \<and> bs \<noteq> [[]] \<and>
     (lead \<longrightarrow> bs \<noteq> [] \<longrightarrow> hd bs \<noteq> []) \<and> (trail \<longrightarrow> bs \<noteq> [] \<longrightarrow> last bs \<noteq> [])"

lemma drop_blank_head_props:
  assumes "no_double_blank q"
  shows "no_double_blank (drop_blank_head lead q)"
    "lead \<Longrightarrow> drop_blank_head lead q \<noteq> [] \<Longrightarrow> hd (drop_blank_head lead q) \<noteq> []"
    "set (drop_blank_head lead q) \<subseteq> set q"
  using assms by (cases q; auto simp: drop_blank_head_def no_double_blank_Cons)+

lemma drop_blank_last_props:
  assumes "no_double_blank q"
  shows "no_double_blank (drop_blank_last trail q)"
    "trail \<Longrightarrow> drop_blank_last trail q \<noteq> [] \<Longrightarrow> last (drop_blank_last trail q) \<noteq> []"
    "drop_blank_last trail q \<noteq> [] \<Longrightarrow> q \<noteq> [] \<and> hd (drop_blank_last trail q) = hd q"
    "set (drop_blank_last trail q) \<subseteq> set q"
  using assms
  by (cases q rule: rev_cases; auto simp: drop_blank_last_def no_double_blank_snoc hd_append)+

lemma prune_result:
  "pruneComments run lead trail =
     (let r = drop_blank_last trail (drop_blank_head lead (collapse_blank run))
      in if r = [[]] then [] else r)"
  by (cases "drop_blank_last trail (drop_blank_head lead (collapse_blank run))")
    (auto simp: pruneComments_def)

lemma pruneComments_pruned: "pruned lead trail (pruneComments run lead trail)"
proof -
  note 0 = collapse_blank_props(1) [of run]
  note 1 = drop_blank_head_props [OF 0, of lead]
  note 2 = drop_blank_last_props [OF 1(1), of trail]
  show ?thesis
    using 1 2 by (auto simp: prune_result pruned_def Let_def no_double_blank_def)
qed

lemma pruneComments_subset: "set (pruneComments run lead trail) \<subseteq> set run"
proof -
  note 0 = collapse_blank_props [of run]
  note 1 = drop_blank_head_props [OF 0(1), of lead]
  note 2 = drop_blank_last_props [OF 1(1), of trail]
  have "set (drop_blank_last trail (drop_blank_head lead (collapse_blank run))) \<subseteq> set run"
    using 0(2) 1(3) 2(4) by blast
  then show ?thesis by (auto simp: prune_result Let_def)
qed

lemma pruneComments_id: "pruned lead trail bs \<Longrightarrow> pruneComments bs lead trail = bs"
  by (auto simp: prune_result pruned_def collapse_blank_id drop_blank_head_def drop_blank_last_def)

lemma pruneComments_blank: "pruned True False bs \<Longrightarrow> pruneComments ([] # bs) True False = bs"
  by (auto simp: prune_result pruned_def no_double_blank_Cons collapse_blank_id
      drop_blank_head_def drop_blank_last_def)

lemma pruneComments_blank_end: "pruned False True bs \<Longrightarrow> pruneComments (bs @ [[]]) False True = bs"
  by (auto simp: prune_result pruned_def no_double_blank_snoc collapse_blank_id
      drop_blank_head_def drop_blank_last_def)

section \<open>Well-formed configurations\<close>

definition interface_keys :: "string set" where
  "interface_keys = {''privatekey'', ''listenport'', ''mtu'', ''address'', ''dns'', ''preup'',
     ''postup'', ''predown'', ''postdown'', ''table''}"

definition peer_keys :: "string set" where
  "peer_keys = {''publickey'', ''presharedkey'', ''allowedips'', ''persistentkeepalive'',
     ''endpoint''}"

text \<open>The comments of a section as the parser collects them, before and after pruning.\<close>

definition raw_comments :: "Comments \<Rightarrow> bool" where
  "raw_comments c \<longleftrightarrow> (\<forall>b\<in>set (Before c). before_line b) \<and> suffix_text (Suffix c)"

definition raw_section :: "string set \<Rightarrow> SectionComments \<Rightarrow> bool" where
  "raw_section keys sc \<longleftrightarrow> raw_comments (Header sc) \<and> dom (Lines sc) \<subseteq> keys \<and>
     (\<forall>k c. Lines sc k = Some c \<longrightarrow> raw_comments c \<and> (isScriptKey k \<longrightarrow> Suffix c = []))"

definition wf_lines :: "string set \<Rightarrow> SectionComments \<Rightarrow> bool" where
  "wf_lines keys sc \<longleftrightarrow> dom (Lines sc) \<subseteq> keys \<and>
     (\<forall>k c. Lines sc k = Some c \<longrightarrow>
        raw_comments c \<and> (isScriptKey k \<longrightarrow> Suffix c = []) \<and>
        pruned False False (Before c) \<and> (Before c \<noteq> [] \<or> Suffix c \<noteq> []))"

definition wf_section :: "string set \<Rightarrow> SectionComments \<Rightarrow> bool" where
  "wf_section keys sc \<longleftrightarrow>
     raw_comments (Header sc) \<and> pruned True False (Before (Header sc)) \<and> wf_lines keys sc"

definition script_ok :: "string \<Rightarrow> bool" where
  "script_ok v \<longleftrightarrow> v = [] \<or> script_value v"

text \<open>The settings of an interface, and that a comment belongs to a setting that is there.\<close>

definition interface_ok :: "Interface \<Rightarrow> bool" where
  "interface_ok i \<longleftrightarrow>
     length (PrivateKey i) = 32 \<and> (\<forall>a\<in>set (Addresses i). valid_prefix a) \<and>
     (MTU i = 0 \<or> 576 \<le> unat (MTU i)) \<and>
     (\<forall>a\<in>set (DNS i). a \<noteq> AddrZero \<and> list_item (addr_String a)) \<and>
     (\<forall>s\<in>set (DNSSearch i). list_item s \<and> ParseAddr s = None) \<and>
     script_ok (PreUp i) \<and> script_ok (PostUp i) \<and> script_ok (PreDown i) \<and> script_ok (PostDown i)"

definition interface_present :: "Interface \<Rightarrow> bool" where
  "interface_present i \<longleftrightarrow>
     (let L = Lines (if_Comments i) in
      (L ''address'' \<noteq> None \<longrightarrow> Addresses i \<noteq> []) \<and>
      (L ''dns'' \<noteq> None \<longrightarrow> DNS i \<noteq> [] \<or> DNSSearch i \<noteq> []) \<and>
      (L ''mtu'' \<noteq> None \<longrightarrow> MTU i \<noteq> 0) \<and>
      (L ''preup'' \<noteq> None \<longrightarrow> PreUp i \<noteq> []) \<and> (L ''postup'' \<noteq> None \<longrightarrow> PostUp i \<noteq> []) \<and>
      (L ''predown'' \<noteq> None \<longrightarrow> PreDown i \<noteq> []) \<and>
      (L ''postdown'' \<noteq> None \<longrightarrow> PostDown i \<noteq> []))"

definition endpoint_ok :: "Endpoint \<Rightarrow> bool" where
  "endpoint_ok e \<longleftrightarrow> e = zero_Endpoint \<or>
     Host e \<noteq> [] \<and> line_value (Endpoint_String e) \<and> parseEndpoint (Endpoint_String e) = Inr e"

definition peer_ok :: "Peer \<Rightarrow> bool" where
  "peer_ok p \<longleftrightarrow>
     length (PublicKey p) = 32 \<and> length (PresharedKey p) = 32 \<and>
     (\<forall>a\<in>set (AllowedIPs p). valid_prefix a) \<and> endpoint_ok (peer_Endpoint p) \<and>
     RxBytes p = 0 \<and> TxBytes p = 0 \<and> LastHandshakeTime p = 0"

definition peer_present :: "Peer \<Rightarrow> bool" where
  "peer_present p \<longleftrightarrow>
     (Lines (peer_Comments p) ''allowedips'' \<noteq> None \<longrightarrow> AllowedIPs p \<noteq> []) \<and>
     (Lines (peer_Comments p) ''endpoint'' \<noteq> None \<longrightarrow> Host (peer_Endpoint p) \<noteq> [])"

definition wf_interface :: "Interface \<Rightarrow> bool" where
  "wf_interface i \<longleftrightarrow>
     interface_ok i \<and> interface_present i \<and> wf_section interface_keys (if_Comments i)"

definition wf_peer :: "Peer \<Rightarrow> bool" where
  "wf_peer p \<longleftrightarrow> peer_ok p \<and> peer_present p \<and> wf_section peer_keys (peer_Comments p) \<and>
     PublicKey p \<noteq> zero_Key"

definition wf_config :: "Config \<Rightarrow> bool" where
  "wf_config c \<longleftrightarrow> TunnelNameIsValid (Name c) \<and> wf_interface (config_Interface c) \<and>
     (\<forall>p\<in>set (Peers c). wf_peer p) \<and> pruned False True (TrailingComments c) \<and>
     (\<forall>b\<in>set (TrailingComments c). before_line b)"

section \<open>The written lines\<close>

definition comment_lines :: "Comments \<Rightarrow> string \<Rightarrow> string list" where
  "comment_lines c line = Before c @ [with_suffix line (Suffix c)]"

definition field_lines :: "SectionComments \<Rightarrow> string \<Rightarrow> bool \<Rightarrow> string \<Rightarrow> string list" where
  "field_lines cs key present v =
     (let c = line_comments cs (map lower_byte key) in
      if \<not> present \<and> Before c = [] \<and> Suffix c = [] then []
      else comment_lines c (key @ '' = '' @ v))"

lemma writeLine_lines: "writeLine c line = unlines (comment_lines c line)"
  by (simp add: writeLine_def comment_lines_def with_suffix_def unlines_def)

lemma writeField_lines:
  "key_name key \<Longrightarrow> writeField cs key present v = unlines (field_lines cs key present v)"
  by (simp add: writeField_def field_lines_def key_name_TrimSpace writeLine_lines Let_def)

definition address_lines :: "Interface \<Rightarrow> string list" where
  "address_lines i =
     (if Addresses i \<noteq> []
      then field_lines (if_Comments i) ''Address'' True
             (strings_Join (map prefix_String (Addresses i)) '', '')
      else [])"

definition dns_lines :: "Interface \<Rightarrow> string list" where
  "dns_lines i =
     (if DNS i \<noteq> [] \<or> DNSSearch i \<noteq> []
      then field_lines (if_Comments i) ''DNS'' True
             (strings_Join (map addr_String (DNS i) @ DNSSearch i) '', '')
      else [])"

definition table_lines :: "Interface \<Rightarrow> string list" where
  "table_lines i =
     field_lines (if_Comments i) ''Table'' (TableOff i) (if TableOff i then ''off'' else ''auto'')"

definition allowed_lines :: "Peer \<Rightarrow> string list" where
  "allowed_lines p =
     (if AllowedIPs p \<noteq> []
      then field_lines (peer_Comments p) ''AllowedIPs'' True
             (strings_Join (map prefix_String (AllowedIPs p)) '', '')
      else [])"

definition interface_lines :: "Interface \<Rightarrow> string list" where
  "interface_lines i =
     (let cs = if_Comments i in
      field_lines cs ''PrivateKey'' True (Key_String (PrivateKey i)) @
      field_lines cs ''ListenPort'' (ListenPort i > 0) (uint_String (ListenPort i)) @
      address_lines i @ dns_lines i @
      field_lines cs ''MTU'' (MTU i > 0) (uint_String (MTU i)) @
      field_lines cs ''PreUp'' (PreUp i \<noteq> []) (PreUp i) @
      field_lines cs ''PostUp'' (PostUp i \<noteq> []) (PostUp i) @
      field_lines cs ''PreDown'' (PreDown i \<noteq> []) (PreDown i) @
      field_lines cs ''PostDown'' (PostDown i \<noteq> []) (PostDown i) @
      table_lines i)"

definition peer_lines :: "Peer \<Rightarrow> string list" where
  "peer_lines p =
     (let cs = peer_Comments p in
      field_lines cs ''PublicKey'' True (Key_String (PublicKey p)) @
      field_lines cs ''PresharedKey'' (PresharedKey p \<noteq> zero_Key) (Key_String (PresharedKey p)) @
      allowed_lines p @
      field_lines cs ''Endpoint'' (Host (peer_Endpoint p) \<noteq> []) (Endpoint_String (peer_Endpoint p)) @
      field_lines cs ''PersistentKeepalive'' (PersistentKeepalive p > 0)
        (uint_String (PersistentKeepalive p)))"

definition config_lines :: "Config \<Rightarrow> string list" where
  "config_lines c =
     comment_lines (Header (if_Comments (config_Interface c))) ''[Interface]'' @
     interface_lines (config_Interface c) @
     concat (map (\<lambda>p. [] # comment_lines (Header (peer_Comments p)) ''[Peer]'' @ peer_lines p)
       (Peers c)) @
     TrailingComments c"

lemma key_names [simp]:
  "key_name ''PrivateKey''" "key_name ''ListenPort''" "key_name ''Address''" "key_name ''DNS''"
  "key_name ''MTU''" "key_name ''PreUp''" "key_name ''PostUp''" "key_name ''PreDown''"
  "key_name ''PostDown''" "key_name ''Table''" "key_name ''PublicKey''"
  "key_name ''PresharedKey''" "key_name ''AllowedIPs''" "key_name ''Endpoint''"
  "key_name ''PersistentKeepalive''"
  by (simp_all add: key_name_def)

lemma ToWgQuick_lines: "ToWgQuick c = unlines (config_lines c)"
proof -
  have "write_interface i = unlines (comment_lines (Header (if_Comments i)) ''[Interface]'' @ interface_lines i)" for i
    by (simp add: write_interface_def interface_lines_def address_lines_def dns_lines_def
        table_lines_def writeField_lines writeLine_lines Let_def)
  moreover have "write_peer p = unlines ([] # comment_lines (Header (peer_Comments p)) ''[Peer]'' @ peer_lines p)" for p
    by (simp add: write_peer_def peer_lines_def allowed_lines_def writeField_lines writeLine_lines
        Let_def Endpoint_IsEmpty_def)
  then have "concat (map write_peer ps) =
      unlines (concat (map (\<lambda>p. [] # comment_lines (Header (peer_Comments p)) ''[Peer]'' @ peer_lines p) ps))" for ps
    by (induction ps) simp_all
  moreover have "concat (map (\<lambda>b. b @ [newline]) ts) = unlines ts" for ts
    by (simp add: unlines_def)
  ultimately show ?thesis by (simp add: ToWgQuick_def config_lines_def)
qed

section \<open>Parsing a written field\<close>

text \<open>The parser inside the interface section of a file with no peer yet, and inside the section
  of a peer after the peers \<open>ps\<close>.\<close>

definition in_interface :: "string \<Rightarrow> Interface \<Rightarrow> bool \<Rightarrow> parser" where
  "in_interface name i saw =
     \<lparr>p_state = inInterfaceSection,
      p_conf = \<lparr>Name = name, config_Interface = i, Peers = [], TrailingComments = []\<rparr>,
      sawPrivateKey = saw, cur_peer = None, pendingComments = []\<rparr>"

definition in_peer :: "string \<Rightarrow> Interface \<Rightarrow> Peer list \<Rightarrow> Peer \<Rightarrow> parser" where
  "in_peer name i ps p =
     \<lparr>p_state = inPeerSection,
      p_conf = \<lparr>Name = name, config_Interface = i, Peers = ps, TrailingComments = []\<rparr>,
      sawPrivateKey = True, cur_peer = Some p, pendingComments = []\<rparr>"

text \<open>A section whose comments have been read for the keys in \<open>K\<close>.\<close>

definition upto_keys :: "SectionComments \<Rightarrow> string set \<Rightarrow> SectionComments" where
  "upto_keys cs K = cs\<lparr>Lines := Lines cs |` K\<rparr>"

lemma wf_lines_line:
  assumes "wf_lines keys cs" "c = line_comments cs key"
  shows "\<forall>b\<in>set (Before c). before_line b" "suffix_text (Suffix c)" "isScriptKey key \<Longrightarrow> Suffix c = []"
    "Lines cs key = None \<longleftrightarrow> Before c = [] \<and> Suffix c = []"
  using assms
  by (auto simp: wf_lines_def raw_comments_def line_comments_def zero_Comments_def
      suffix_text_def split: option.splits)

lemma record_comments_upto:
  assumes "wf_lines keys cs" "c = line_comments cs key" "key \<notin> K"
  shows "record_comments (Before c) (Suffix c) key (upto_keys cs K) = upto_keys cs (insert key K)"
proof (cases "Lines cs key")
  case None
  then have "Lines cs |` insert key K = Lines cs |` K"
    by (auto simp: restrict_map_def)
  with None assms show ?thesis
    by (simp add: record_comments_def upto_keys_def line_comments_def zero_Comments_def)
next
  case (Some d)
  then have "c = d" "Before d \<noteq> [] \<or> Suffix d \<noteq> []"
    using assms by (auto simp: line_comments_def wf_lines_def)
  moreover have "add_comments (Before d) (Suffix d) zero_Comments = d"
    by (simp add: add_comments_def zero_Comments_def)
  moreover have "(Lines cs |` K)(key \<mapsto> d) = Lines cs |` insert key K"
    using Some by (auto simp: restrict_map_def)
  ultimately show ?thesis
    using assms(3) by (simp add: record_comments_def upto_keys_def)
qed

text \<open>The line of a setting and the comments before it, read with no comments pending.\<close>

lemma parse_field:
  assumes "wf_lines keys cs" "key_name k" "p_state p \<noteq> notInASection" "pendingComments p = []"
    and "isScriptKey (map lower_byte k) \<Longrightarrow> script_value v"
    and "\<not> isScriptKey (map lower_byte k) \<Longrightarrow> line_value v"
  shows "\<exists>l. parse_lines (comment_lines (line_comments cs (map lower_byte k)) (k @ '' = '' @ v)) p =
    parse_setting l [] (Suffix (line_comments cs (map lower_byte k))) (map lower_byte k) v
      (p\<lparr>pendingComments := Before (line_comments cs (map lower_byte k))\<rparr>) \<and>
    (isScriptKey (map lower_byte k) \<longrightarrow> l = k @ '' = '' @ v)"
proof -
  let ?c = "line_comments cs (map lower_byte k)"
  let ?p = "p\<lparr>pendingComments := Before ?c\<rparr>"
  note wf = wf_lines_line [OF assms(1), of ?c "map lower_byte k"]
  have "parse_lines (comment_lines ?c (k @ '' = '' @ v)) p =
      parse_line (with_suffix (k @ '' = '' @ v) (Suffix ?c)) ?p"
    using wf(1) assms(4)
    by (simp add: comment_lines_def parse_lines_append parse_lines_before split: sum.split)
  moreover have "parse_line (with_suffix (k @ '' = '' @ v) (Suffix ?c)) ?p =
      parse_setting [] [] (Suffix ?c) (map lower_byte k) v ?p" if "\<not> isScriptKey (map lower_byte k)"
    using assms that wf(2) by (intro parse_line_setting) auto
  moreover have "parse_line (with_suffix (k @ '' = '' @ v) (Suffix ?c)) ?p =
      parse_setting (k @ '' = '' @ v) [] (Suffix ?c) (map lower_byte k) v ?p"
    if "isScriptKey (map lower_byte k)"
    using parse_line_script [of k v ?p] assms that wf(3) by (simp add: with_suffix_def)
  ultimately show ?thesis by (cases "isScriptKey (map lower_byte k)") auto
qed

lemma setting_value:
  assumes "v \<noteq> []" "strings_TrimSpace v = v" "isScriptKey key \<longrightarrow> l = k @ '' = '' @ v \<and> s = []" "key_name k"
  shows "(let (v', s') = (if isScriptKey key
           then (case strings_Cut l (CHR ''='') of (_, v, _) \<Rightarrow> (v, [])) else (v, s))
         in (strings_TrimSpace v', s')) = (v, s)"
proof -
  have "strings_Cut ((k @ '' '') @ CHR ''='' # CHR '' '' # v) (CHR ''='') = (k @ '' '', CHR '' '' # v, True)"
    using key_name_plain(3) [OF assms(4)] by (intro strings_Cut_append) auto
  with assms show ?thesis by (auto simp: TrimSpace_blank)
qed

lemma parse_setting_interface:
  assumes "v \<noteq> []" "strings_TrimSpace v = v" "isScriptKey key \<longrightarrow> l = k @ '' = '' @ v \<and> s = []" "key_name k"
    "p_state p = inInterfaceSection"
  shows "parse_setting l st s key v p =
    (case parse_interface_key key v
        ((config_Interface (p_conf p))\<lparr>if_Comments :=
           record_comments (pendingComments p) s key (if_Comments (config_Interface (p_conf p)))\<rparr>,
         sawPrivateKey p) of
       Inl err \<Rightarrow> Inl err
     | Inr (i, saw) \<Rightarrow>
         Inr (p\<lparr>p_conf := (p_conf p)\<lparr>config_Interface := i\<rparr>, sawPrivateKey := saw,
                pendingComments := []\<rparr>))"
  using setting_value [OF assms(1-4)] assms(1,5)
  by (auto simp: parse_setting_def Let_def split: prod.splits if_splits)

lemma parse_setting_peer:
  assumes "v \<noteq> []" "strings_TrimSpace v = v" "isScriptKey key \<longrightarrow> l = k @ '' = '' @ v \<and> s = []" "key_name k"
    "p_state p = inPeerSection" "cur_peer p = Some q"
  shows "parse_setting l st s key v p =
    (case parse_peer_key key v
        (q\<lparr>peer_Comments := record_comments (pendingComments p) s key (peer_Comments q)\<rparr>) of
       Inl err \<Rightarrow> Inl err
     | Inr q' \<Rightarrow> Inr (p\<lparr>cur_peer := Some q', pendingComments := []\<rparr>))"
  using setting_value [OF assms(1-4)] assms(1,5,6)
  by (auto simp: parse_setting_def Let_def split: prod.splits if_splits)

lemma field_value:
  assumes "isScriptKey key \<Longrightarrow> script_value v" "\<not> isScriptKey key \<Longrightarrow> line_value v"
  shows "v \<noteq> []" "strings_TrimSpace v = v"
  using assms by (cases "isScriptKey key"; simp add: script_value_def line_value_def TrimSpace_id)+

lemma upto_keys_absent: "Lines cs key = None \<Longrightarrow> upto_keys cs (insert key K) = upto_keys cs K"
proof -
  assume "Lines cs key = None"
  then have "Lines cs |` insert key K = Lines cs |` K" by (auto simp: restrict_map_def)
  then show ?thesis by (simp add: upto_keys_def)
qed

lemma field_lines_present:
  assumes "wf_lines keys cs" "key = map lower_byte k"
  shows "field_lines cs k present v =
    (if present \<or> Lines cs key \<noteq> None
     then comment_lines (line_comments cs key) (k @ '' = '' @ v) else [])"
  using wf_lines_line(4) [OF assms(1) refl, of key]
  by (simp add: field_lines_def assms(2) [symmetric] Let_def)

text \<open>What a written field does in the interface section, and in that of a peer.\<close>

lemma interface_field:
  assumes wf: "wf_lines keys cs" and k: "key_name k" "key = map lower_byte k" "key \<notin> K"
    and j: "if_Comments j = upto_keys cs K"
    and absent: "\<not> present \<Longrightarrow> Lines cs key = None \<Longrightarrow>
      j' = j\<lparr>if_Comments := upto_keys cs (insert key K)\<rparr> \<and> saw' = saw"
    and val: "present \<or> Lines cs key \<noteq> None \<Longrightarrow> isScriptKey key \<Longrightarrow> script_value v"
      "present \<or> Lines cs key \<noteq> None \<Longrightarrow> \<not> isScriptKey key \<Longrightarrow> line_value v"
    and parse: "present \<or> Lines cs key \<noteq> None \<Longrightarrow>
      parse_interface_key key v (j\<lparr>if_Comments := upto_keys cs (insert key K)\<rparr>, saw) = Inr (j', saw')"
  shows "parse_lines (field_lines cs k present v) (in_interface name j saw) =
    Inr (in_interface name j' saw')"
proof (cases "present \<or> Lines cs key \<noteq> None")
  case True
  let ?c = "line_comments cs key" and ?p = "in_interface name j saw"
  have fl: "field_lines cs k present v = comment_lines ?c (k @ '' = '' @ v)"
    using True field_lines_present [OF wf k(2)] by simp
  obtain l where l: "parse_lines (comment_lines ?c (k @ '' = '' @ v)) ?p =
      parse_setting l [] (Suffix ?c) key v (?p\<lparr>pendingComments := Before ?c\<rparr>)"
      "isScriptKey key \<longrightarrow> l = k @ '' = '' @ v"
    using parse_field [OF wf k(1), folded k(2), of ?p v] val [OF True]
    by (auto simp: in_interface_def)
  have s: "isScriptKey key \<longrightarrow> l = k @ '' = '' @ v \<and> Suffix ?c = []"
    using l(2) wf_lines_line(3) [OF wf refl, of key] by simp
  note v = field_value [OF val [OF True]]
  show ?thesis
    unfolding fl l(1) using parse_setting_interface [OF v s k(1)] parse [OF True] j
      record_comments_upto [OF wf refl k(3)]
    by (simp add: in_interface_def)
next
  case False
  then have "field_lines cs k present v = []"
    using field_lines_present [OF wf k(2)] by simp
  moreover have "j\<lparr>if_Comments := upto_keys cs (insert key K)\<rparr> = j"
    using False upto_keys_absent [of cs key K] j by simp
  ultimately show ?thesis using False absent by simp
qed

lemma peer_field:
  assumes wf: "wf_lines keys cs" and k: "key_name k" "key = map lower_byte k" "key \<notin> K" "\<not> isScriptKey key"
    and j: "peer_Comments q = upto_keys cs K"
    and absent: "\<not> present \<Longrightarrow> Lines cs key = None \<Longrightarrow>
      q' = q\<lparr>peer_Comments := upto_keys cs (insert key K)\<rparr>"
    and val: "present \<or> Lines cs key \<noteq> None \<Longrightarrow> line_value v"
    and parse: "present \<or> Lines cs key \<noteq> None \<Longrightarrow>
      parse_peer_key key v (q\<lparr>peer_Comments := upto_keys cs (insert key K)\<rparr>) = Inr q'"
  shows "parse_lines (field_lines cs k present v) (in_peer name i ps q) = Inr (in_peer name i ps q')"
proof (cases "present \<or> Lines cs key \<noteq> None")
  case True
  let ?c = "line_comments cs key" and ?p = "in_peer name i ps q"
  have fl: "field_lines cs k present v = comment_lines ?c (k @ '' = '' @ v)"
    using True field_lines_present [OF wf k(2)] by simp
  obtain l where l: "parse_lines (comment_lines ?c (k @ '' = '' @ v)) ?p =
      parse_setting l [] (Suffix ?c) key v (?p\<lparr>pendingComments := Before ?c\<rparr>)"
    using parse_field [OF wf k(1), folded k(2), of ?p v] val [OF True] k(4)
    by (auto simp: in_peer_def)
  have "v \<noteq> []" "strings_TrimSpace v = v"
    using field_value [of key v] k(4) val True by auto
  then show ?thesis
    unfolding fl l(1)
    using parse_setting_peer [OF _ _ _ k(1), of v key l "Suffix ?c" "?p\<lparr>pendingComments := Before ?c\<rparr>" q]
      parse [OF True] j k(4) record_comments_upto [OF wf refl k(3)]
    by (simp add: in_peer_def)
next
  case False
  then have "field_lines cs k present v = []"
    using field_lines_present [OF wf k(2)] by simp
  moreover have "q\<lparr>peer_Comments := upto_keys cs (insert key K)\<rparr> = q"
    using False upto_keys_absent [of cs key K] j by simp
  ultimately show ?thesis using False absent by simp
qed

section \<open>The interface section\<close>

text \<open>The interface with the settings of the keys in \<open>K\<close> read.\<close>

definition stage :: "Interface \<Rightarrow> string set \<Rightarrow> Interface" where
  "stage i K =
     \<lparr>PrivateKey = (if ''privatekey'' \<in> K then PrivateKey i else zero_Key),
      Addresses = (if ''address'' \<in> K then Addresses i else []),
      ListenPort = (if ''listenport'' \<in> K then ListenPort i else 0),
      MTU = (if ''mtu'' \<in> K then MTU i else 0),
      DNS = (if ''dns'' \<in> K then DNS i else []),
      DNSSearch = (if ''dns'' \<in> K then DNSSearch i else []),
      PreUp = (if ''preup'' \<in> K then PreUp i else []),
      PostUp = (if ''postup'' \<in> K then PostUp i else []),
      PreDown = (if ''predown'' \<in> K then PreDown i else []),
      PostDown = (if ''postdown'' \<in> K then PostDown i else []),
      TableOff = (if ''table'' \<in> K then TableOff i else False),
      if_Comments = upto_keys (if_Comments i) K\<rparr>"

lemma stage_all:
  assumes "wf_interface i" "interface_keys \<subseteq> K"
  shows "stage i K = i"
proof -
  have "Lines (if_Comments i) |` K = Lines (if_Comments i)"
    using assms by (auto simp: wf_interface_def wf_section_def wf_lines_def restrict_map_def
        intro!: ext) (metis domIff subsetD)
  then show ?thesis
    using assms(2) by (simp add: stage_def upto_keys_def interface_keys_def)
qed

lemma stage_comments [simp]: "if_Comments (stage i K) = upto_keys (if_Comments i) K"
  by (simp add: stage_def)

lemma lower_keys [simp]:
  "map lower_byte ''PrivateKey'' = ''privatekey''" "map lower_byte ''ListenPort'' = ''listenport''"
  "map lower_byte ''Address'' = ''address''" "map lower_byte ''DNS'' = ''dns''"
  "map lower_byte ''MTU'' = ''mtu''" "map lower_byte ''PreUp'' = ''preup''"
  "map lower_byte ''PostUp'' = ''postup''" "map lower_byte ''PreDown'' = ''predown''"
  "map lower_byte ''PostDown'' = ''postdown''" "map lower_byte ''Table'' = ''table''"
  "map lower_byte ''PublicKey'' = ''publickey''" "map lower_byte ''PresharedKey'' = ''presharedkey''"
  "map lower_byte ''AllowedIPs'' = ''allowedips''" "map lower_byte ''Endpoint'' = ''endpoint''"
  "map lower_byte ''PersistentKeepalive'' = ''persistentkeepalive''"
  by code_simp+

lemma line_value_table: "line_value (if b then ''off'' else ''auto'')"
  by (intro line_valueI) (auto simp: ascii_space_def)

lemma foldl_dns_append:
  "foldl (\<lambda>i address. case ParseAddr address of
       None \<Rightarrow> i\<lparr>DNSSearch := DNSSearch i @ [address]\<rparr>
     | Some a \<Rightarrow> i\<lparr>DNS := DNS i @ [a]\<rparr>) j xs =
   j\<lparr>DNS := DNS j @ List.map_filter ParseAddr xs,
     DNSSearch := DNSSearch j @ filter (\<lambda>s. ParseAddr s = None) xs\<rparr>"
proof (induction xs arbitrary: j)
  case Nil
  then show ?case by simp
next
  case (Cons x xs)
  then show ?case by (cases "ParseAddr x") simp_all
qed

lemma dns_items:
  assumes "interface_ok i"
  shows "List.map_filter ParseAddr (map addr_String (DNS i) @ DNSSearch i) = DNS i"
    "filter (\<lambda>s. ParseAddr s = None) (map addr_String (DNS i) @ DNSSearch i) = DNSSearch i"
    "\<forall>s\<in>set (map addr_String (DNS i) @ DNSSearch i). list_item s"
proof -
  have d: "ParseAddr (addr_String a) = Some a" if "a \<in> set (DNS i)" for a
    using assms that by (auto simp: interface_ok_def intro: ParseAddr_String)
  have s: "ParseAddr x = None" if "x \<in> set (DNSSearch i)" for x
    using assms that by (auto simp: interface_ok_def)
  have "List.map_filter ParseAddr (map addr_String as) = as" if "set as \<subseteq> set (DNS i)" for as
    using that by (induction as) (simp_all add: d)
  moreover have "List.map_filter ParseAddr xs = []" if "set xs \<subseteq> set (DNSSearch i)" for xs
    using that by (induction xs) (simp_all add: s)
  moreover have "List.map_filter f (xs @ ys) = List.map_filter f xs @ List.map_filter f ys"
    for f :: "string \<Rightarrow> addr option" and xs ys
    by (simp add: List.map_filter_def)
  ultimately show "List.map_filter ParseAddr (map addr_String (DNS i) @ DNSSearch i) = DNS i"
    by simp
  show "filter (\<lambda>s. ParseAddr s = None) (map addr_String (DNS i) @ DNSSearch i) = DNSSearch i"
    using d s by (auto simp: filter_empty_conv filter_id_conv)
  show "\<forall>s\<in>set (map addr_String (DNS i) @ DNSSearch i). list_item s"
    using assms by (auto simp: interface_ok_def)
qed

lemma line_value_items:
  "xs \<noteq> [] \<Longrightarrow> \<forall>s\<in>set xs. list_item s \<Longrightarrow> line_value (strings_Join xs '', '')"
  by (rule line_value_Join) (auto simp: list_item_def)

lemmas interface_key_simps = parse_interface_key_def isScriptKey_def stage_def

text \<open>Reading the line of one key takes the interface from one stage to the next.\<close>

definition reads :: "string \<Rightarrow> Interface \<Rightarrow> string \<Rightarrow> string list \<Rightarrow> bool" where
  "reads name i key lines \<longleftrightarrow>
     (\<forall>K. key \<notin> K \<longrightarrow> parse_lines lines (in_interface name (stage i K) True) =
        Inr (in_interface name (stage i (insert key K)) True))"

lemma readsI:
  assumes wf: "wf_interface i" and k: "key_name k" "key = map lower_byte k"
    and absent: "\<And>K. \<not> present \<Longrightarrow> Lines (if_Comments i) key = None \<Longrightarrow> key \<notin> K \<Longrightarrow>
      stage i (insert key K) = (stage i K)\<lparr>if_Comments := upto_keys (if_Comments i) (insert key K)\<rparr>"
    and val: "present \<or> Lines (if_Comments i) key \<noteq> None \<Longrightarrow>
       if isScriptKey key then script_value v else line_value v"
    and parse: "\<And>K. present \<or> Lines (if_Comments i) key \<noteq> None \<Longrightarrow> key \<notin> K \<Longrightarrow>
      parse_interface_key key v
        ((stage i K)\<lparr>if_Comments := upto_keys (if_Comments i) (insert key K)\<rparr>, True) =
      Inr (stage i (insert key K), True)"
  shows "reads name i key (field_lines (if_Comments i) k present v)"
  unfolding reads_def
proof (intro allI impI)
  fix K assume K: "key \<notin> K"
  have sec: "wf_lines interface_keys (if_Comments i)" using wf by (simp add: wf_interface_def wf_section_def)
  show "parse_lines (field_lines (if_Comments i) k present v) (in_interface name (stage i K) True) =
      Inr (in_interface name (stage i (insert key K)) True)"
    by (rule interface_field [OF sec k K stage_comments])
      (use absent [OF _ _ K] val parse [OF _ K] in \<open>simp_all\<close>)
qed

lemma parse_private_key:
  assumes "wf_interface i"
  shows "parse_lines (field_lines (if_Comments i) ''PrivateKey'' True (Key_String (PrivateKey i)))
      (in_interface name (stage i {}) False) = Inr (in_interface name (stage i {''privatekey''}) True)"
proof -
  have "length (PrivateKey i) = 32" and sec: "wf_lines interface_keys (if_Comments i)"
    using assms by (auto simp: wf_interface_def wf_section_def interface_ok_def)
  moreover from this have "PrivateKey i \<noteq> []" by auto
  ultimately show ?thesis
    by (intro interface_field [OF sec key_names(1) lower_keys(1) [symmetric] _ stage_comments])
      (simp_all add: interface_key_simps parseKeyBase64_String line_value_Key)
qed

lemma reads_ListenPort:
  "wf_interface i \<Longrightarrow> reads name i ''listenport''
     (field_lines (if_Comments i) ''ListenPort'' (ListenPort i > 0) (uint_String (ListenPort i)))"
  by (rule readsI [OF _ key_names(2) lower_keys(2) [symmetric]])
    (simp_all add: interface_key_simps parsePort_String line_value_uint word_gt_0)

lemma reads_MTU:
  assumes "wf_interface i"
  shows "reads name i ''mtu'' (field_lines (if_Comments i) ''MTU'' (MTU i > 0) (uint_String (MTU i)))"
proof -
  have "MTU i > 0 \<or> Lines (if_Comments i) ''mtu'' \<noteq> None \<Longrightarrow> 576 \<le> unat (MTU i)"
    using assms by (auto simp: wf_interface_def interface_ok_def interface_present_def Let_def word_gt_0)
  then show ?thesis
    by (intro readsI [OF assms key_names(5) lower_keys(5) [symmetric]])
      (simp_all add: interface_key_simps parseMTU_String line_value_uint word_gt_0)
qed

lemma script_cases:
  assumes "script_ok s" "L \<noteq> None \<longrightarrow> s \<noteq> []" "s \<noteq> [] \<or> L \<noteq> None"
  shows "script_value s"
  using assms by (auto simp: script_ok_def)

lemma reads_scripts:
  assumes "wf_interface i"
  shows "reads name i ''preup'' (field_lines (if_Comments i) ''PreUp'' (PreUp i \<noteq> []) (PreUp i))"
    "reads name i ''postup'' (field_lines (if_Comments i) ''PostUp'' (PostUp i \<noteq> []) (PostUp i))"
    "reads name i ''predown'' (field_lines (if_Comments i) ''PreDown'' (PreDown i \<noteq> []) (PreDown i))"
    "reads name i ''postdown'' (field_lines (if_Comments i) ''PostDown'' (PostDown i \<noteq> []) (PostDown i))"
proof -
  have ok: "interface_ok i" "interface_present i" using assms by (simp_all add: wf_interface_def)
  note s = script_cases [where L = "Lines (if_Comments i) k" for k]
  show "reads name i ''preup'' (field_lines (if_Comments i) ''PreUp'' (PreUp i \<noteq> []) (PreUp i))"
    using ok s [of "PreUp i" "''preup''"]
    by (intro readsI [OF assms key_names(6) lower_keys(6) [symmetric]])
      (simp_all add: interface_key_simps interface_ok_def interface_present_def Let_def)
  show "reads name i ''postup'' (field_lines (if_Comments i) ''PostUp'' (PostUp i \<noteq> []) (PostUp i))"
    using ok s [of "PostUp i" "''postup''"]
    by (intro readsI [OF assms key_names(7) lower_keys(7) [symmetric]])
      (simp_all add: interface_key_simps interface_ok_def interface_present_def Let_def)
  show "reads name i ''predown'' (field_lines (if_Comments i) ''PreDown'' (PreDown i \<noteq> []) (PreDown i))"
    using ok s [of "PreDown i" "''predown''"]
    by (intro readsI [OF assms key_names(8) lower_keys(8) [symmetric]])
      (simp_all add: interface_key_simps interface_ok_def interface_present_def Let_def)
  show "reads name i ''postdown'' (field_lines (if_Comments i) ''PostDown'' (PostDown i \<noteq> []) (PostDown i))"
    using ok s [of "PostDown i" "''postdown''"]
    by (intro readsI [OF assms key_names(9) lower_keys(9) [symmetric]])
      (simp_all add: interface_key_simps interface_ok_def interface_present_def Let_def)
qed

lemma reads_Table: "wf_interface i \<Longrightarrow> reads name i ''table'' (table_lines i)"
  unfolding table_lines_def
  using parseTableOff_String [of "TableOff i"] line_value_table [of "TableOff i"]
  by (intro readsI [OF _ key_names(10) lower_keys(10) [symmetric]])
    (simp_all add: interface_key_simps del: if_split)

lemma optional_field:
  assumes "wf_lines keys cs" "key = map lower_byte k" "Lines cs key \<noteq> None \<Longrightarrow> present"
  shows "(if present then field_lines cs k True v else []) = field_lines cs k present v"
  using assms(3) field_lines_present [OF assms(1,2)] by (cases present) auto

lemma reads_Address:
  assumes "wf_interface i"
  shows "reads name i ''address'' (address_lines i)"
proof -
  have sec: "wf_lines interface_keys (if_Comments i)" using assms by (simp add: wf_interface_def wf_section_def)
  have items: "\<forall>s\<in>set (map prefix_String (Addresses i)). list_item s"
    and ok: "\<forall>a\<in>set (Addresses i). valid_prefix a"
    and pr: "Lines (if_Comments i) ''address'' \<noteq> None \<Longrightarrow> Addresses i \<noteq> []"
    using assms list_item_prefix
    by (auto simp: wf_interface_def interface_ok_def interface_present_def Let_def)
  have ne: "map prefix_String (Addresses i) \<noteq> []"
    if "Addresses i \<noteq> [] \<or> Lines (if_Comments i) ''address'' \<noteq> None"
    using that pr by auto
  have e: "address_lines i = field_lines (if_Comments i) ''Address'' (Addresses i \<noteq> [])
      (strings_Join (map prefix_String (Addresses i)) '', '')"
    unfolding address_lines_def by (rule optional_field [OF sec lower_keys(3) [symmetric]]) (rule pr)
  show ?thesis
    unfolding e using line_value_items [OF ne items] splitList_Join [OF ne items] try_map_parseIPCidr [OF ok]
    by (intro readsI [OF assms key_names(3) lower_keys(3) [symmetric]])
      (simp_all add: interface_key_simps)
qed

lemma reads_DNS:
  assumes "wf_interface i"
  shows "reads name i ''dns'' (dns_lines i)"
proof -
  have sec: "wf_lines interface_keys (if_Comments i)" using assms by (simp add: wf_interface_def wf_section_def)
  have pr: "Lines (if_Comments i) ''dns'' \<noteq> None \<Longrightarrow> DNS i \<noteq> [] \<or> DNSSearch i \<noteq> []"
    using assms by (auto simp: wf_interface_def interface_present_def Let_def)
  have ne: "map addr_String (DNS i) @ DNSSearch i \<noteq> []"
    if "(DNS i \<noteq> [] \<or> DNSSearch i \<noteq> []) \<or> Lines (if_Comments i) ''dns'' \<noteq> None"
    using that pr by auto
  have "interface_ok i" using assms by (simp add: wf_interface_def)
  note items = dns_items [OF this]
  have e: "dns_lines i = field_lines (if_Comments i) ''DNS'' (DNS i \<noteq> [] \<or> DNSSearch i \<noteq> [])
      (strings_Join (map addr_String (DNS i) @ DNSSearch i) '', '')"
    unfolding dns_lines_def by (rule optional_field [OF sec lower_keys(4) [symmetric]]) (rule pr)
  show ?thesis
    unfolding e using line_value_items [OF ne items(3)] splitList_Join [OF ne items(3)]
    by (intro readsI [OF assms key_names(4) lower_keys(4) [symmetric]])
      (simp_all add: interface_key_simps foldl_dns_append items(1,2) del: filter_append)
qed

lemma reads_append:
  "reads name i key lines \<Longrightarrow> key \<notin> K \<Longrightarrow>
   parse_lines (lines @ rest) (in_interface name (stage i K) True) =
   parse_lines rest (in_interface name (stage i (insert key K)) True)"
  by (simp add: reads_def parse_lines_append)

lemma parse_interface_lines:
  assumes wf: "wf_interface i"
  shows "parse_lines (interface_lines i) (in_interface name (stage i {}) False) =
    Inr (in_interface name i True)"
proof -
  note r = reads_append [OF reads_ListenPort [OF wf]] reads_append [OF reads_Address [OF wf]]
    reads_append [OF reads_DNS [OF wf]] reads_append [OF reads_MTU [OF wf]]
    reads_append [OF reads_scripts(1) [OF wf]] reads_append [OF reads_scripts(2) [OF wf]]
    reads_append [OF reads_scripts(3) [OF wf]] reads_append [OF reads_scripts(4) [OF wf]]
  have t: "parse_lines (table_lines i) (in_interface name (stage i K) True) =
      Inr (in_interface name (stage i (insert ''table'' K)) True)" if "''table'' \<notin> K" for K
    using reads_Table [OF wf] that by (simp add: reads_def)
  show ?thesis
    unfolding interface_lines_def Let_def
    by (subst parse_lines_append)
      (simp add: parse_private_key [OF wf] r t stage_all [OF wf] interface_keys_def)
qed

section \<open>The sections of the peers\<close>

text \<open>The blank line before a peer is a pending comment when its header is read.\<close>

definition raw_peer :: "Peer \<Rightarrow> Peer" where
  "raw_peer p = p\<lparr>peer_Comments := (peer_Comments p)
     \<lparr>Header := (Header (peer_Comments p))\<lparr>Before := [] # Before (Header (peer_Comments p))\<rparr>\<rparr>\<rparr>"

definition peer_stage :: "Peer \<Rightarrow> string set \<Rightarrow> Peer" where
  "peer_stage p K =
     \<lparr>PublicKey = (if ''publickey'' \<in> K then PublicKey p else zero_Key),
      PresharedKey = (if ''presharedkey'' \<in> K then PresharedKey p else zero_Key),
      AllowedIPs = (if ''allowedips'' \<in> K then AllowedIPs p else []),
      peer_Endpoint = (if ''endpoint'' \<in> K then peer_Endpoint p else zero_Endpoint),
      PersistentKeepalive = (if ''persistentkeepalive'' \<in> K then PersistentKeepalive p else 0),
      RxBytes = 0, TxBytes = 0, LastHandshakeTime = 0,
      peer_Comments = upto_keys (peer_Comments (raw_peer p)) K\<rparr>"

lemma peer_stage_comments [simp]:
  "peer_Comments (peer_stage p K) = upto_keys (peer_Comments (raw_peer p)) K"
  by (simp add: peer_stage_def)

lemma raw_peer_lines [simp]: "Lines (peer_Comments (raw_peer p)) = Lines (peer_Comments p)"
  by (simp add: raw_peer_def)

lemma wf_lines_raw_peer: "wf_peer p \<Longrightarrow> wf_lines peer_keys (peer_Comments (raw_peer p))"
  by (simp add: wf_peer_def wf_section_def wf_lines_def)

lemma field_lines_raw_peer: "field_lines (peer_Comments p) k b v = field_lines (peer_Comments (raw_peer p)) k b v"
  by (simp add: field_lines_def line_comments_def)

lemma peer_stage_all:
  assumes "wf_peer p" "peer_keys \<subseteq> K"
  shows "peer_stage p K = raw_peer p"
proof -
  have "Lines (peer_Comments p) |` K = Lines (peer_Comments p)"
    using assms by (auto simp: wf_peer_def wf_section_def wf_lines_def restrict_map_def
        intro!: ext) (metis domIff subsetD)
  then show ?thesis
    using assms by (simp add: peer_stage_def raw_peer_def upto_keys_def peer_keys_def wf_peer_def peer_ok_def)
qed

definition reads_peer :: "string \<Rightarrow> Interface \<Rightarrow> Peer list \<Rightarrow> Peer \<Rightarrow> string \<Rightarrow> string list \<Rightarrow> bool" where
  "reads_peer name i ps p key lines \<longleftrightarrow>
     (\<forall>K. key \<notin> K \<longrightarrow> parse_lines lines (in_peer name i ps (peer_stage p K)) =
        Inr (in_peer name i ps (peer_stage p (insert key K))))"

lemma reads_peerI:
  assumes wf: "wf_peer p" and k: "key_name k" "key = map lower_byte k" "\<not> isScriptKey key"
    and absent: "\<And>K. \<not> present \<Longrightarrow> Lines (peer_Comments p) key = None \<Longrightarrow> key \<notin> K \<Longrightarrow>
      peer_stage p (insert key K) =
        (peer_stage p K)\<lparr>peer_Comments := upto_keys (peer_Comments (raw_peer p)) (insert key K)\<rparr>"
    and val: "present \<or> Lines (peer_Comments p) key \<noteq> None \<Longrightarrow> line_value v"
    and parse: "\<And>K. present \<or> Lines (peer_Comments p) key \<noteq> None \<Longrightarrow> key \<notin> K \<Longrightarrow>
      parse_peer_key key v
        ((peer_stage p K)\<lparr>peer_Comments := upto_keys (peer_Comments (raw_peer p)) (insert key K)\<rparr>) =
      Inr (peer_stage p (insert key K))"
  shows "reads_peer name i ps p key (field_lines (peer_Comments p) k present v)"
  unfolding reads_peer_def
proof (intro allI impI)
  fix K assume K: "key \<notin> K"
  show "parse_lines (field_lines (peer_Comments p) k present v)
      (in_peer name i ps (peer_stage p K)) = Inr (in_peer name i ps (peer_stage p (insert key K)))"
    by (subst field_lines_raw_peer, rule peer_field [OF wf_lines_raw_peer [OF wf] k(1,2) K k(3) peer_stage_comments])
      (use absent [OF _ _ K] val parse [OF _ K] in \<open>simp_all\<close>)
qed

lemmas peer_key_simps = parse_peer_key_def isScriptKey_def peer_stage_def

lemma reads_keys:
  assumes "wf_peer p"
  shows "reads_peer name i ps p ''publickey''
      (field_lines (peer_Comments p) ''PublicKey'' True (Key_String (PublicKey p)))"
    "reads_peer name i ps p ''presharedkey''
      (field_lines (peer_Comments p) ''PresharedKey'' (PresharedKey p \<noteq> zero_Key) (Key_String (PresharedKey p)))"
proof -
  have k: "length (PublicKey p) = 32" "length (PresharedKey p) = 32"
    using assms by (auto simp: wf_peer_def peer_ok_def)
  then have "PublicKey p \<noteq> []" "PresharedKey p \<noteq> []" by auto
  with k show "reads_peer name i ps p ''publickey''
      (field_lines (peer_Comments p) ''PublicKey'' True (Key_String (PublicKey p)))"
    "reads_peer name i ps p ''presharedkey''
      (field_lines (peer_Comments p) ''PresharedKey'' (PresharedKey p \<noteq> zero_Key) (Key_String (PresharedKey p)))"
    by (intro reads_peerI [OF assms key_names(11) lower_keys(11) [symmetric]]
        reads_peerI [OF assms key_names(12) lower_keys(12) [symmetric]];
        simp add: peer_key_simps parseKeyBase64_String line_value_Key)+
qed

lemma reads_PersistentKeepalive:
  "wf_peer p \<Longrightarrow> reads_peer name i ps p ''persistentkeepalive'' (field_lines (peer_Comments p)
     ''PersistentKeepalive'' (PersistentKeepalive p > 0) (uint_String (PersistentKeepalive p)))"
  by (rule reads_peerI [OF _ key_names(15) lower_keys(15) [symmetric]])
    (simp_all add: peer_key_simps parsePersistentKeepalive_String line_value_uint word_gt_0)

lemma reads_Endpoint:
  assumes "wf_peer p"
  shows "reads_peer name i ps p ''endpoint'' (field_lines (peer_Comments p) ''Endpoint''
     (Host (peer_Endpoint p) \<noteq> []) (Endpoint_String (peer_Endpoint p)))"
proof -
  let ?e = "peer_Endpoint p"
  have "line_value (Endpoint_String ?e) \<and> parseEndpoint (Endpoint_String ?e) = Inr ?e"
    if "Host ?e \<noteq> [] \<or> Lines (peer_Comments p) ''endpoint'' \<noteq> None"
    using assms that by (auto simp: wf_peer_def peer_ok_def peer_present_def endpoint_ok_def zero_Endpoint_def)
  moreover have "Host ?e = [] \<Longrightarrow> ?e = zero_Endpoint"
    using assms by (auto simp: wf_peer_def peer_ok_def endpoint_ok_def)
  ultimately show ?thesis
    by (intro reads_peerI [OF assms key_names(14) lower_keys(14) [symmetric]])
      (simp_all add: peer_key_simps)
qed

lemma reads_AllowedIPs:
  assumes "wf_peer p"
  shows "reads_peer name i ps p ''allowedips'' (allowed_lines p)"
proof -
  have sec: "wf_lines peer_keys (peer_Comments p)" using assms by (simp add: wf_peer_def wf_section_def)
  have items: "\<forall>s\<in>set (map prefix_String (AllowedIPs p)). list_item s"
    and ok: "\<forall>a\<in>set (AllowedIPs p). valid_prefix a"
    and pr: "Lines (peer_Comments p) ''allowedips'' \<noteq> None \<Longrightarrow> AllowedIPs p \<noteq> []"
    using assms list_item_prefix by (auto simp: wf_peer_def peer_ok_def peer_present_def)
  have ne: "map prefix_String (AllowedIPs p) \<noteq> []"
    if "AllowedIPs p \<noteq> [] \<or> Lines (peer_Comments p) ''allowedips'' \<noteq> None"
    using that pr by auto
  have e: "allowed_lines p = field_lines (peer_Comments p) ''AllowedIPs'' (AllowedIPs p \<noteq> [])
      (strings_Join (map prefix_String (AllowedIPs p)) '', '')"
    unfolding allowed_lines_def by (rule optional_field [OF sec lower_keys(13) [symmetric]]) (rule pr)
  show ?thesis
    unfolding e using line_value_items [OF ne items] splitList_Join [OF ne items] try_map_parseIPCidr [OF ok]
    by (intro reads_peerI [OF assms key_names(13) lower_keys(13) [symmetric]])
      (simp_all add: peer_key_simps)
qed

lemma reads_peer_append:
  "reads_peer name i ps p key lines \<Longrightarrow> key \<notin> K \<Longrightarrow>
   parse_lines (lines @ rest) (in_peer name i ps (peer_stage p K)) =
   parse_lines rest (in_peer name i ps (peer_stage p (insert key K)))"
  by (simp add: reads_peer_def parse_lines_append)

lemma parse_peer_lines:
  assumes wf: "wf_peer p"
  shows "parse_lines (peer_lines p) (in_peer name i ps (peer_stage p {})) =
    Inr (in_peer name i ps (raw_peer p))"
proof -
  note r = reads_peer_append [OF reads_keys(1) [OF wf]] reads_peer_append [OF reads_keys(2) [OF wf]]
    reads_peer_append [OF reads_AllowedIPs [OF wf]] reads_peer_append [OF reads_Endpoint [OF wf]]
  have t: "parse_lines (field_lines (peer_Comments p) ''PersistentKeepalive'' (PersistentKeepalive p > 0)
        (uint_String (PersistentKeepalive p))) (in_peer name i ps (peer_stage p K)) =
      Inr (in_peer name i ps (peer_stage p (insert ''persistentkeepalive'' K)))"
    if "''persistentkeepalive'' \<notin> K" for K
    using reads_PersistentKeepalive [OF wf] that by (simp add: reads_peer_def)
  show ?thesis
    unfolding peer_lines_def Let_def by (simp add: r t peer_stage_all [OF wf] peer_keys_def)
qed

text \<open>A written peer, read after the interface section or after another peer.\<close>

definition peer_text :: "Peer \<Rightarrow> string list" where
  "peer_text p = [] # comment_lines (Header (peer_Comments p)) ''[Peer]'' @ peer_lines p"

lemma parse_peer_text:
  assumes wf: "wf_peer p" and q: "pendingComments q = []" "sawPrivateKey q"
    "maybeAddPeer (cur_peer q) (p_conf q) =
       \<lparr>Name = name, config_Interface = i, Peers = ps, TrailingComments = []\<rparr>"
  shows "parse_lines (peer_text p) q = Inr (in_peer name i ps (raw_peer p))"
proof -
  let ?h = "Header (peer_Comments p)"
  have h: "\<forall>b\<in>set ([] # Before ?h). before_line b" "suffix_text (Suffix ?h)"
    using wf by (auto simp: wf_peer_def wf_section_def raw_comments_def before_line_def)
  have "parse_lines ([] # Before ?h) q = Inr (q\<lparr>pendingComments := [] # Before ?h\<rparr>)"
    using parse_lines_before [OF h(1), of q] q(1) by simp
  moreover have "parse_line (with_suffix ''[Peer]'' (Suffix ?h)) (q\<lparr>pendingComments := [] # Before ?h\<rparr>) =
      Inr (in_peer name i ps (peer_stage p {}))"
    unfolding parse_line_peer_header [OF h(2)]
    using q by (simp add: peer_header_def in_peer_def peer_stage_def raw_peer_def upto_keys_def zero_Peer_def
        zero_SectionComments_def restrict_map_def)
  moreover have "peer_text p = ([] # Before ?h) @ [with_suffix ''[Peer]'' (Suffix ?h)] @ peer_lines p"
    by (simp add: peer_text_def comment_lines_def)
  ultimately show ?thesis
    using parse_peer_lines [OF wf]
    by (simp only: parse_lines_append sum.case parse_lines.simps)
qed

lemma parse_peers_text:
  assumes "\<forall>p\<in>set ps. wf_peer p" "wf_peer p"
  shows "parse_lines (concat (map peer_text ps)) (in_peer name i qs (raw_peer p)) =
    Inr (in_peer name i (butlast (qs @ map raw_peer (p # ps))) (raw_peer (last (p # ps))))"
  using assms
proof (induction ps arbitrary: p qs)
  case Nil
  then show ?case by simp
next
  case (Cons p' ps)
  have "parse_lines (peer_text p') (in_peer name i qs (raw_peer p)) =
      Inr (in_peer name i (qs @ [raw_peer p]) (raw_peer p'))"
    using Cons.prems by (intro parse_peer_text) (simp_all add: in_peer_def maybeAddPeer_def)
  then show ?case
    using Cons by (simp add: parse_lines_append)
qed

section \<open>The whole file\<close>

text \<open>The parser after all sections: the interface and the peers but the last.\<close>

lemma parse_sections:
  assumes "wf_interface i" "\<forall>p\<in>set ps. wf_peer p"
  shows "\<exists>q. parse_lines (comment_lines (Header (if_Comments i)) ''[Interface]'' @ interface_lines i @
      concat (map peer_text ps)) (start_parse name) = Inr q \<and> pendingComments q = [] \<and> sawPrivateKey q \<and>
    maybeAddPeer (cur_peer q) (p_conf q) =
      \<lparr>Name = name, config_Interface = i, Peers = map raw_peer ps, TrailingComments = []\<rparr>"
proof -
  let ?h = "Header (if_Comments i)" and ?q = "in_interface name i True"
  have h: "\<forall>b\<in>set (Before ?h). before_line b" "suffix_text (Suffix ?h)"
    using assms(1) by (auto simp: wf_interface_def wf_section_def raw_comments_def)
  have "add_comments (Before ?h) (Suffix ?h) zero_Comments = ?h"
    by (simp add: add_comments_def zero_Comments_def)
  then have "parse_line (with_suffix ''[Interface]'' (Suffix ?h))
      ((start_parse name)\<lparr>pendingComments := Before ?h\<rparr>) = Inr (in_interface name (stage i {}) False)"
    unfolding parse_line_interface_header [OF h(2)]
    by (simp add: interface_header_def start_parse_def in_interface_def stage_def upto_keys_def zero_Interface_def
        zero_SectionComments_def maybeAddPeer_def restrict_map_def Let_def)
  moreover have "parse_lines (Before ?h) (start_parse name) = Inr ((start_parse name)\<lparr>pendingComments := Before ?h\<rparr>)"
    using parse_lines_before [OF h(1), of "start_parse name"] by (simp add: start_parse_def)
  ultimately have 1: "parse_lines (comment_lines ?h ''[Interface]'' @ interface_lines i) (start_parse name) = Inr ?q"
    using parse_interface_lines [OF assms(1)]
    by (simp add: comment_lines_def parse_lines_append)
  show ?thesis
  proof (cases ps)
    case Nil
    then show ?thesis
      using 1 by (simp add: in_interface_def maybeAddPeer_def)
  next
    case (Cons p ps')
    have "parse_lines (peer_text p) ?q = Inr (in_peer name i [] (raw_peer p))"
      using assms(2) Cons by (intro parse_peer_text) (simp_all add: in_interface_def maybeAddPeer_def)
    then have 2: "parse_lines (concat (map peer_text ps)) ?q =
       Inr (in_peer name i (butlast (map raw_peer ps)) (raw_peer (last ps)))"
      using parse_peers_text [of ps' p name i "[]"] assms(2) Cons by (simp add: parse_lines_append)
    have "butlast (map raw_peer ps) @ [raw_peer (last ps)] = map raw_peer ps"
      using Cons by (metis append_butlast_last_id last_map list.discI map_is_Nil_conv)
    then show ?thesis
      using 1 2 by (simp add: parse_lines_append in_peer_def maybeAddPeer_def flip: append_assoc)
  qed
qed

subsection \<open>No line contains a newline\<close>

definition single_line :: "string list \<Rightarrow> bool" where
  "single_line ls \<longleftrightarrow> (\<forall>l\<in>set ls. newline \<notin> set l)"

lemma single_line_append [simp]: "single_line (xs @ ys) \<longleftrightarrow> single_line xs \<and> single_line ys"
  by (auto simp: single_line_def)

lemma single_line_before: "\<forall>b\<in>set bs. before_line b \<Longrightarrow> single_line bs"
  unfolding single_line_def before_line_def comment_text_def by fastforce

lemma single_line_comment_lines:
  assumes "raw_comments c" "newline \<notin> set l"
  shows "single_line (comment_lines c l)"
proof -
  have "newline \<notin> set (with_suffix l (Suffix c))"
    using assms by (auto simp: raw_comments_def with_suffix_def suffix_text_def comment_text_def)
  moreover have "single_line (Before c)"
    using assms(1) by (intro single_line_before) (simp add: raw_comments_def)
  ultimately show ?thesis
    by (simp add: comment_lines_def) (simp add: single_line_def)
qed

lemma single_line_field:
  assumes "wf_lines keys cs" "key_name k" "newline \<notin> set v"
  shows "single_line (field_lines cs k present v)"
proof -
  have "raw_comments (line_comments cs (map lower_byte k))"
    using assms(1)
    by (auto simp: wf_lines_def line_comments_def zero_Comments_def raw_comments_def
        suffix_text_def split: option.splits)
  moreover have "newline \<notin> set (k @ '' = '' @ v)"
    using assms(3) key_name_plain(5) [OF assms(2)] by auto
  ultimately show ?thesis
    using single_line_comment_lines field_lines_present [OF assms(1) refl]
    by (simp add: single_line_def [of "[]"])
qed

lemma line_value_newline: "line_value v \<Longrightarrow> newline \<notin> set v"
  by (simp add: line_value_def)

lemma single_line_interface:
  assumes wf: "wf_interface i"
  shows "single_line (interface_lines i)"
proof -
  have sec: "wf_lines interface_keys (if_Comments i)" and ok: "interface_ok i"
    using wf by (simp_all add: wf_interface_def wf_section_def)
  note f = single_line_field [OF sec]
  have k: "newline \<notin> set (Key_String (PrivateKey i))"
    using ok by (intro line_value_newline line_value_Key) (auto simp: interface_ok_def)
  have u: "newline \<notin> set (uint_String n)" for n
    by (intro line_value_newline line_value_uint)
  have s: "newline \<notin> set (PreUp i)" "newline \<notin> set (PostUp i)" "newline \<notin> set (PreDown i)"
    "newline \<notin> set (PostDown i)"
    using ok by (auto simp: interface_ok_def script_ok_def script_value_def)
  have a: "single_line (address_lines i)"
  proof (cases "Addresses i = []")
    case False
    then have "newline \<notin> set (strings_Join (map prefix_String (Addresses i)) '', '')"
      using ok list_item_prefix
      by (intro line_value_newline line_value_items) (auto simp: interface_ok_def)
    with False show ?thesis by (simp add: address_lines_def f)
  qed (simp add: address_lines_def single_line_def)
  have d: "single_line (dns_lines i)"
  proof (cases "DNS i = [] \<and> DNSSearch i = []")
    case False
    then have "newline \<notin> set (strings_Join (map addr_String (DNS i) @ DNSSearch i) '', '')"
      using dns_items(3) [OF ok] by (intro line_value_newline line_value_items) auto
    with False show ?thesis by (simp add: dns_lines_def f)
  qed (simp add: dns_lines_def single_line_def)
  have t: "single_line (table_lines i)"
    unfolding table_lines_def by (intro f key_names line_value_newline line_value_table)
  show ?thesis
    by (simp add: interface_lines_def Let_def a d t f k u s)
qed

lemma single_line_peer:
  assumes wf: "wf_peer p"
  shows "single_line (peer_text p)"
proof -
  have sec: "wf_lines peer_keys (peer_Comments p)" and ok: "peer_ok p"
    and h: "raw_comments (Header (peer_Comments p))"
    using wf by (simp_all add: wf_peer_def wf_section_def)
  note f = single_line_field [OF sec]
  have k: "newline \<notin> set (Key_String (PublicKey p))" "newline \<notin> set (Key_String (PresharedKey p))"
    using ok by (auto simp: peer_ok_def intro!: line_value_newline line_value_Key)
  have u: "newline \<notin> set (uint_String n)" for n
    by (intro line_value_newline line_value_uint)
  have e: "newline \<notin> set (Endpoint_String (peer_Endpoint p))"
    using ok by (auto simp: peer_ok_def endpoint_ok_def zero_Endpoint_def line_value_def
        Endpoint_String_def is_digit_def dest!: Itoa_digits)
  have a: "single_line (allowed_lines p)"
  proof (cases "AllowedIPs p = []")
    case False
    then have "newline \<notin> set (strings_Join (map prefix_String (AllowedIPs p)) '', '')"
      using ok list_item_prefix
      by (intro line_value_newline line_value_items) (auto simp: peer_ok_def)
    with False show ?thesis by (simp add: allowed_lines_def f)
  qed (simp add: allowed_lines_def single_line_def)
  have "single_line (comment_lines (Header (peer_Comments p)) ''[Peer]'')"
    using h by (intro single_line_comment_lines) simp_all
  then have "single_line ([[]] @ comment_lines (Header (peer_Comments p)) ''[Peer]'' @ peer_lines p)"
    by (simp add: peer_lines_def Let_def a e f k u del: append_Cons) (simp add: single_line_def)
  then show ?thesis by (simp add: peer_text_def)
qed

lemma single_line_config:
  assumes "wf_config c"
  shows "single_line (config_lines c)"
proof -
  have "single_line (concat (map peer_text ps))" if "\<forall>p\<in>set ps. wf_peer p" for ps
    using that
  proof (induction ps)
    case (Cons p ps)
    then show ?case using single_line_peer [of p] by simp
  qed (simp add: single_line_def)
  moreover have "single_line (comment_lines (Header (if_Comments (config_Interface c))) ''[Interface]'')"
    using assms by (intro single_line_comment_lines) (simp_all add: wf_config_def wf_interface_def wf_section_def)
  ultimately show ?thesis
    using assms single_line_interface single_line_before
    by (simp add: config_lines_def wf_config_def flip: peer_text_def)
qed

subsection \<open>Pruning what was read\<close>

lemma prune_line_wf:
  assumes "wf_lines keys sc" "Lines sc k = Some c"
  shows "prune_line c = Some c"
  using assms by (auto simp: wf_lines_def prune_line_def pruneComments_id Let_def)

lemma prune_lines_wf:
  "wf_lines keys sc \<Longrightarrow> (\<lambda>key. case Lines sc key of None \<Rightarrow> None | Some c \<Rightarrow> prune_line c) = Lines sc"
  by (rule ext) (auto simp: prune_line_wf split: option.split)

lemma pruneSectionComments_wf: "wf_section keys sc \<Longrightarrow> pruneSectionComments sc = sc"
  using prune_lines_wf [of keys sc] by (simp add: wf_section_def pruneSectionComments_def pruneComments_id)

lemma pruneSectionComments_raw_peer:
  assumes "wf_peer p"
  shows "(raw_peer p)\<lparr>peer_Comments := pruneSectionComments (peer_Comments (raw_peer p))\<rparr> = p"
proof -
  have "wf_lines peer_keys (peer_Comments p)" "pruned True False (Before (Header (peer_Comments p)))"
    using assms by (simp_all add: wf_peer_def wf_section_def)
  then show ?thesis
    using prune_lines_wf [of peer_keys "peer_Comments p"]
    by (simp add: raw_peer_def pruneSectionComments_def pruneComments_blank)
qed

theorem FromWgQuick_ToWgQuick_wf:
  assumes wf: "wf_config c"
  shows "FromWgQuick (ToWgQuick c) (Name c) = Inr c"
proof -
  let ?i = "config_Interface c"
  have wi: "wf_interface ?i" and wp: "\<forall>p\<in>set (Peers c). wf_peer p" and nm: "TunnelNameIsValid (Name c)"
    and tr: "pruned False True (TrailingComments c)" "\<forall>b\<in>set (TrailingComments c). before_line b"
    using wf by (auto simp: wf_config_def)
  obtain q where q: "parse_lines (comment_lines (Header (if_Comments ?i)) ''[Interface]'' @
      interface_lines ?i @ concat (map peer_text (Peers c))) (start_parse (Name c)) = Inr q"
      "pendingComments q = []" "sawPrivateKey q"
      "maybeAddPeer (cur_peer q) (p_conf q) = \<lparr>Name = Name c, config_Interface = ?i,
         Peers = map raw_peer (Peers c), TrailingComments = []\<rparr>"
    using parse_sections [OF wi wp] by blast
  have lines: "strings_Split (ToWgQuick c) newline = config_lines c @ [[]]"
    using single_line_config [OF wf] by (simp add: ToWgQuick_lines Split_unlines single_line_def)
  have "\<forall>b\<in>set (TrailingComments c @ [[]]). before_line b"
    using tr(2) by (auto simp: before_line_def)
  from parse_lines_before [OF this, of q]
  have pending: "parse_lines (TrailingComments c @ [[]]) q =
      Inr (q\<lparr>pendingComments := TrailingComments c @ [[]]\<rparr>)"
    using q(2) by simp
  have "config_lines c @ [[]] = (comment_lines (Header (if_Comments ?i)) ''[Interface]'' @
      interface_lines ?i @ concat (map peer_text (Peers c))) @ TrailingComments c @ [[]]"
    by (simp add: config_lines_def flip: peer_text_def)
  then have parsed: "parse_lines (config_lines c @ [[]]) (start_parse (Name c)) =
      Inr (q\<lparr>pendingComments := TrailingComments c @ [[]]\<rparr>)"
    by (simp only: parse_lines_append [of _ "TrailingComments c @ [[]]"] q(1) sum.case pending)
  have sec: "pruneSectionComments (if_Comments ?i) = if_Comments ?i"
    using wi by (intro pruneSectionComments_wf) (auto simp: wf_interface_def)
  have "map ((\<lambda>p. p\<lparr>peer_Comments := pruneSectionComments (peer_Comments p)\<rparr>) \<circ> raw_peer) (Peers c) = Peers c"
    using wp pruneSectionComments_raw_peer by (intro map_idI) simp
  moreover have "\<not> list_ex (\<lambda>p. PublicKey p = zero_Key) (Peers c)"
    using wp by (auto simp: list_ex_iff wf_peer_def)
  ultimately show ?thesis
    using q(3,4) tr(1) sec
    by (simp add: FromWgQuick_def nm lines parsed finish_parse_def prune_config_def
        pruneComments_blank_end Let_def)
qed

end
