(* ===== verification/Conf_Accept.thy ===== *)
theory Conf_Accept
  imports Conf_Print
begin

text \<open>
  Every configuration the parser accepts is well-formed (\<open>FromWgQuick_wf\<close>), by an invariant of the
  parser's state that every line keeps.  With \<open>FromWgQuick_ToWgQuick_wf\<close> this gives the round trip
  for every accepted file.  The properties of the parser and the writer are at the end.
\<close>

section \<open>What the parser accepts\<close>

subsection \<open>White space at the ends of a string\<close>

lemma trail_space_stop:
  "u \<noteq> [] \<Longrightarrow> code c < 128 \<Longrightarrow> trail_space (u @ c # t) = 0 \<Longrightarrow> trail_space (u @ c # t') = 0"
  by (cases u rule: trail_space.cases; cases t rule: trail_space.cases; cases t' rule: trail_space.cases)
    (auto simp: space2_def space3_def split: if_splits)

lemma lead_space_stop:
  "u \<noteq> [] \<Longrightarrow> code c < 128 \<Longrightarrow> lead_space (u @ c # t) = 0 \<Longrightarrow> lead_space (u @ c # t') = 0"
  by (cases u rule: lead_space.cases; cases t rule: lead_space.cases; cases t' rule: lead_space.cases)
    (auto simp: space2_def space3_def split: if_splits)

subsection \<open>Addresses\<close>

lemma ParseAddr_zone:
  assumes "ParseAddr s = Some a" "hasZone a"
  shows "\<exists>w z s0. a = Addr6 w z \<and> s = s0 @ CHR ''%'' # z \<and> z \<noteq> []"
proof -
  have "\<exists>w z s0. a = Addr6 w z \<and> s = s0 @ CHR ''%'' # z \<and> z \<noteq> []" if "parseIPv6 s = Some a"
  proof -
    obtain w z where a: "a = Addr6 w z" "z \<noteq> []" using assms(2) by (cases a) auto
    obtain s0 z' f where cut: "strings_Cut s (CHR ''%'') = (s0, z', f)"
      by (cases "strings_Cut s (CHR ''%'')") auto
    have "z = z'"
      using that a cut by (auto simp: parseIPv6_def Let_def split: if_splits option.splits prod.splits)
    moreover have f using strings_Cut_not_found [of s "CHR ''%''" s0 z'] cut a \<open>z = z'\<close> by (cases f) auto
    ultimately show ?thesis
      using strings_Cut_found [of s "CHR ''%''" s0 z'] cut a by auto
  qed
  moreover have "parseIPv4 s = Some a \<Longrightarrow> False" using assms(2) by (auto simp: parseIPv4_def)
  moreover have "ParseAddr_scan t s = Some a \<Longrightarrow> parseIPv4 s = Some a \<or> parseIPv6 s = Some a" for t
    by (induction t s rule: ParseAddr_scan.induct) (auto split: if_splits)
  ultimately show ?thesis using assms(1) by (auto simp: ParseAddr_def)
qed

lemma list_item_plain:
  assumes "a \<noteq> AddrZero" "\<not> hasZone a"
  shows "list_item (addr_String a)"
proof -
  have *: "\<not> ascii_space c \<and> code c < 128 \<and> c \<noteq> CHR ''#'' \<and> c \<noteq> CHR '',''"
    if "c \<in> set (addr_String a)" for c
    using addr_char_plain [OF addr_String_chars [OF assms that]] by blast
  then have "line_value (addr_String a)"
    using addr_String_nonempty [OF assms(1)] by (intro line_valueI) blast+
  with * show ?thesis unfolding list_item_def by blast
qed

lemma list_item_ParseAddr:
  assumes "ParseAddr s = Some a" "list_item s"
  shows "a \<noteq> AddrZero \<and> list_item (addr_String a)"
proof (cases "hasZone a")
  case False
  then show ?thesis using list_item_plain ParseAddr_not_zero [OF assms(1)] by blast
next
  case True
  then obtain w z s0 where a: "a = Addr6 w z" "s = s0 @ CHR ''%'' # z" "z \<noteq> []"
    using ParseAddr_zone [OF assms(1)] by blast
  let ?x = "addr_String (Addr6 w [])"
  have s: "addr_String a = ?x @ CHR ''%'' # z" using a by simp
  have x: "list_item ?x" by (rule list_item_plain) simp_all
  have "trimmed (addr_String a)"
  proof -
    have "trail_space (rev z @ CHR ''%'' # rev s0) = 0"
      using assms(2) a by (simp add: list_item_def line_value_def trimmed_def)
    then have "trail_space (rev z @ CHR ''%'' # rev ?x) = 0"
      using a(3) trail_space_stop [of "rev z" "CHR ''%''" "rev s0" "rev ?x"] by simp
    moreover have "lead_space (?x @ CHR ''%'' # z) = 0"
      using x by (intro lead_space_append_ascii) (simp_all add: list_item_def line_value_def trimmed_def)
    ultimately show ?thesis by (simp add: trimmed_def s del: addr_String.simps)
  qed
  moreover have "set (addr_String a) \<subseteq> set ?x \<union> set s" unfolding s a(2) by auto
  ultimately show ?thesis
    using assms(2) x ParseAddr_not_zero [OF assms(1)] addr_String_nonempty [of a]
    unfolding list_item_def line_value_def by blast
qed

lemma try_map_source: "try_map f xs = Inr ys \<Longrightarrow> y \<in> set ys \<Longrightarrow> \<exists>x\<in>set xs. f x = Inr y"
  by (induction xs arbitrary: ys) (auto split: sum.splits)

lemma try_map_Nil: "try_map f xs = Inr ys \<Longrightarrow> ys = [] \<longleftrightarrow> xs = []"
  by (cases xs) (auto split: sum.splits)

lemma splitList_items:
  assumes "splitList s = Inr xs" "newline \<notin> set s" "CHR ''#'' \<notin> set s"
  shows "xs \<noteq> [] \<and> (\<forall>x\<in>set xs. list_item x)"
proof -
  note l = assms(1) [unfolded splitList_def]
  have "list_item x" if "x \<in> set xs" for x
  proof -
    have "x \<in> set xs" by (rule that)
    obtain p where p: "p \<in> set (strings_Split s (CHR '',''))" "x = strings_TrimSpace p" "x \<noteq> []"
      using try_map_source [OF l \<open>x \<in> set xs\<close>] by (auto simp: Let_def split: if_splits)
    then have "set x \<subseteq> set p" "set p \<subseteq> set s" "CHR '','' \<notin> set p"
      using TrimSpace_subset strings_Split_parts by blast+
    then show ?thesis
      using assms(2,3) p(2,3) by (auto simp: list_item_def line_value_def TrimSpace_trimmed)
  qed
  moreover have "xs \<noteq> []" using try_map_Nil [OF l] by simp
  ultimately show ?thesis by blast
qed

lemma parseIPCidr_valid: "parseIPCidr s = Inr p \<Longrightarrow> valid_prefix p"
  using ParseAddr_not_zero [of s]
  by (auto simp: parseIPCidr_def ParsePrefix_valid valid_prefix_PrefixFrom split: option.splits)

lemma try_map_parseIPCidr_valid:
  "try_map parseIPCidr xs = Inr ps \<Longrightarrow> (\<forall>p\<in>set ps. valid_prefix p) \<and> (ps = [] \<longleftrightarrow> xs = [])"
  using try_map_source [of parseIPCidr xs ps] try_map_Nil [of parseIPCidr xs ps] parseIPCidr_valid
  by blast

subsection \<open>Endpoints\<close>

lemma parsePort_ok: "parsePort s = Inr port \<Longrightarrow> parsePort (strconv_Itoa (unat port)) = Inr port"
  using parsePort_String [of port] by (simp add: uint_String_def)

lemma parseEndpoint_split:
  assumes "CHR '':'' \<notin> set portStr"
  shows "parseEndpoint (host @ CHR '':'' # portStr) =
    (if host = [] then Inl (ParseError InvalidEndpointHost host)
     else case parsePort portStr of Inl e \<Rightarrow> Inl e | Inr port \<Rightarrow> parse_host host port)"
  by (simp add: parseEndpoint_def LastIndexByte_append [OF assms] Suc_le_eq)

lemma parse_host_result:
  assumes "parse_host host port = Inr e"
  shows "e = \<lparr>Host = host, Port = port\<rparr> \<and> strings_IndexByte host (CHR '':'') = None \<or>
    e = \<lparr>Host = take (length host - 2) (drop 1 host), Port = port\<rparr> \<and> CHR '':'' \<in> set host \<and>
      length host > 3 \<and> host ! 0 = CHR ''['' \<and> host ! (length host - 1) = CHR '']''"
  using assms IndexByte_None [of host "CHR '':''"]
  by (auto simp: parse_host_def Let_def split: if_splits option.splits)

lemma parse_host_String:
  assumes "parse_host host port = Inr e" "host \<noteq> []"
  shows "Endpoint_String e = host @ '':'' @ strconv_Itoa (unat port) \<and> Host e \<noteq> [] \<and> Port e = port"
  using parse_host_result [OF assms(1)]
proof (elim disjE conjE)
  assume "e = \<lparr>Host = host, Port = port\<rparr>" "strings_IndexByte host (CHR '':'') = None"
  then show ?thesis using assms(2) by (simp add: Endpoint_String_def)
next
  let ?in = "take (length host - 2) (drop 1 host)"
  assume e: "e = \<lparr>Host = ?in, Port = port\<rparr>" and c: "CHR '':'' \<in> set host"
    and l: "length host > 3" "host ! 0 = CHR ''[''" "host ! (length host - 1) = CHR '']''"
  have "drop 1 host = ?in @ drop (length host - 2) (drop 1 host)"
    by (rule append_take_drop_id [symmetric])
  moreover have "drop (length host - 2) (drop 1 host) = [CHR '']'']"
    using l(1,3) Cons_nth_drop_Suc [of "length host - 1" host] by (simp add: Suc_diff_Suc numeral_2_eq_2)
  moreover have "host = CHR ''['' # drop 1 host"
    using l(1,2) by (cases host) auto
  ultimately have host: "host = CHR ''['' # ?in @ [CHR '']'']" by simp
  have "CHR '':'' \<in> set ?in" using c by (subst (asm) host) simp
  then have "strings_IndexByte ?in (CHR '':'') \<noteq> None" "?in \<noteq> []"
    using IndexByte_None [of ?in "CHR '':''"] by auto
  then have "Endpoint_String e = ''['' @ ?in @ '']:'' @ strconv_Itoa (unat port)" "Host e \<noteq> []"
    using e by (simp_all add: Endpoint_String_def)
  moreover have "host @ '':'' @ strconv_Itoa (unat port) = ''['' @ ?in @ '']:'' @ strconv_Itoa (unat port)"
    by (subst host) simp
  ultimately show ?thesis using e by simp
qed

lemma parseEndpoint_host:
  assumes "parseEndpoint s = Inr e"
  shows "\<exists>host portStr. s = host @ CHR '':'' # portStr \<and> host \<noteq> [] \<and> Endpoint_String e =
    host @ '':'' @ strconv_Itoa (unat (Port e)) \<and> Host e \<noteq> [] \<and>
    parseEndpoint (Endpoint_String e) = Inr e"
proof -
  obtain i where i: "strings_LastIndexByte s (CHR '':'') = Some i"
    using assms by (auto simp: parseEndpoint_def split: option.splits)
  define host portStr where hp: "host = take i s" "portStr = drop (Suc i) s"
  have s: "s = host @ CHR '':'' # portStr" and nc: "CHR '':'' \<notin> set portStr"
    using LastIndexByte_Some [OF i] hp by simp_all
  obtain port where p: "parsePort portStr = Inr port" "parse_host host port = Inr e" and ne: "host \<noteq> []"
    using assms unfolding s parseEndpoint_split [OF nc] by (auto split: sum.splits if_splits)
  note str = parse_host_String [OF p(2) ne]
  have "CHR '':'' \<notin> set (strconv_Itoa (unat port))"
    by (intro Itoa_not_digit) (simp add: is_digit_def)
  then have "parseEndpoint (Endpoint_String e) = Inr e"
    using str parseEndpoint_split [of "strconv_Itoa (unat port)" host] ne p(2) parsePort_ok [OF p(1)]
    by simp
  with s ne str show ?thesis by blast
qed

lemma endpoint_ok_parse:
  assumes "parseEndpoint s = Inr e" "line_value s"
  shows "endpoint_ok e \<and> Host e \<noteq> []"
proof -
  obtain host portStr where h: "s = host @ CHR '':'' # portStr" "host \<noteq> []" "Host e \<noteq> []"
      "Endpoint_String e = host @ '':'' @ strconv_Itoa (unat (Port e))"
      "parseEndpoint (Endpoint_String e) = Inr e"
    using parseEndpoint_host [OF assms(1)] by blast
  let ?n = "strconv_Itoa (unat (Port e))"
  have "lead_space (host @ CHR '':'' # portStr) = 0"
    using assms(2) h(1) by (simp add: line_value_def trimmed_def)
  then have "lead_space (host @ CHR '':'' # ?n) = 0"
    using lead_space_stop [OF h(2), of "CHR '':''" portStr ?n] by simp
  moreover have "trail_space (rev ?n @ CHR '':'' # rev host) = 0"
    using trimmed_Itoa [of "unat (Port e)"]
    by (intro trail_space_append_ascii) (simp_all add: trimmed_def)
  moreover have "newline \<notin> set ?n" "CHR ''#'' \<notin> set ?n"
    by (auto simp: is_digit_def dest!: Itoa_digits)
  moreover have "newline \<notin> set host" "CHR ''#'' \<notin> set host"
    using assms(2) h(1) by (simp_all add: line_value_def)
  ultimately have "line_value (Endpoint_String e)"
    unfolding h(4) by (simp add: line_value_def trimmed_def)
  with h show ?thesis by (simp add: endpoint_ok_def)
qed

subsection \<open>Comments\<close>

lemma TrimRight_fixed: "strings_TrimRight s cs = s \<longleftrightarrow> s = [] \<or> last s \<notin> set cs"
proof (cases s rule: rev_cases)
  case (snoc t c)
  have "dropWhile (\<lambda>c. c \<in> set cs) (rev t) \<noteq> c # rev t"
    using length_dropWhile_le [of "\<lambda>c. c \<in> set cs" "rev t"] by (metis length_Cons not_less_eq_eq order_refl)
  then show ?thesis
    unfolding snoc strings_TrimRight_def by (auto simp: rev_swap)
qed (simp add: strings_TrimRight_def)

lemma comment_text_iff:
  "comment_text s \<longleftrightarrow> s \<noteq> [] \<and> hd s = CHR ''#'' \<and> newline \<notin> set s \<and> last s \<notin> set comment_cut"
  by (cases s) (auto simp: comment_text_def TrimRight_fixed comment_cut_def)

lemma comment_text_join: "comment_text s \<Longrightarrow> comment_text c \<Longrightarrow> comment_text (s @ '' '' @ c)"
  by (auto simp: comment_text_iff)

lemma raw_comments_add:
  "raw_comments c \<Longrightarrow> \<forall>b\<in>set pending. before_line b \<Longrightarrow> suffix_text s \<Longrightarrow>
   raw_comments (add_comments pending s c)"
  using comment_text_join by (auto simp: raw_comments_def add_comments_def suffix_text_def)

lemma raw_comments_zero [simp]: "raw_comments zero_Comments"
  by (simp add: raw_comments_def zero_Comments_def suffix_text_def)

lemma raw_section_zero [simp]: "raw_section keys zero_SectionComments"
  by (simp add: raw_section_def zero_SectionComments_def)

lemma raw_section_record:
  assumes "raw_section keys sc" "key \<in> keys" "\<forall>b\<in>set pending. before_line b" "suffix_text s"
    "isScriptKey key \<longrightarrow> s = []"
  shows "raw_section keys (record_comments pending s key sc)"
proof -
  let ?c = "case Lines sc key of None \<Rightarrow> zero_Comments | Some c \<Rightarrow> c"
  have "raw_comments ?c" "isScriptKey key \<longrightarrow> Suffix ?c = []"
    using assms(1) by (auto simp: raw_section_def zero_Comments_def raw_comments_def suffix_text_def split: option.splits)
  then have "raw_comments (add_comments pending s ?c)"
    "isScriptKey key \<longrightarrow> Suffix (add_comments pending s ?c) = []"
    using raw_comments_add assms(3-5) by (auto simp: add_comments_def)
  then show ?thesis
    using assms(1,2) by (auto simp: raw_section_def record_comments_def Let_def)
qed

lemma record_comments_Lines:
  "Lines (record_comments pending s key sc) k \<noteq> None \<Longrightarrow> k = key \<or> Lines sc k \<noteq> None"
  by (auto simp: record_comments_def Let_def split: if_splits)

subsection \<open>The invariant of the parser\<close>

definition interface_inv :: "Interface \<Rightarrow> bool" where
  "interface_inv i \<longleftrightarrow>
     interface_ok i \<and> interface_present i \<and> raw_section interface_keys (if_Comments i)"

definition peer_inv :: "Peer \<Rightarrow> bool" where
  "peer_inv p \<longleftrightarrow> peer_ok p \<and> peer_present p \<and> raw_section peer_keys (peer_Comments p)"

definition parser_inv :: "string \<Rightarrow> parser \<Rightarrow> bool" where
  "parser_inv name p \<longleftrightarrow>
     Name (p_conf p) = name \<and> interface_inv (config_Interface (p_conf p)) \<and>
     (\<forall>q\<in>set (Peers (p_conf p)). peer_inv q) \<and> (\<forall>q. cur_peer p = Some q \<longrightarrow> peer_inv q) \<and>
     (\<forall>b\<in>set (pendingComments p). before_line b) \<and>
     (p_state p = inPeerSection \<longrightarrow> cur_peer p \<noteq> None)"

lemma parser_inv_start: "parser_inv name (start_parse name)"
  by (simp add: parser_inv_def start_parse_def interface_inv_def interface_ok_def script_ok_def
      interface_present_def zero_defs KeyLength_def raw_section_def raw_comments_def suffix_text_def)

lemma parser_inv_add_peer:
  "parser_inv name p \<Longrightarrow>
   Name (maybeAddPeer (cur_peer p) (p_conf p)) = name \<and>
   config_Interface (maybeAddPeer (cur_peer p) (p_conf p)) = config_Interface (p_conf p) \<and>
   (\<forall>q\<in>set (Peers (maybeAddPeer (cur_peer p) (p_conf p))). peer_inv q)"
  by (auto simp: parser_inv_def maybeAddPeer_def split: option.splits)

text \<open>The value of a setting: what \<open>parse_interface_key\<close> and \<open>parse_peer_key\<close> are given.\<close>

definition setting_ok :: "string \<Rightarrow> string \<Rightarrow> bool" where
  "setting_ok key v \<longleftrightarrow> script_value v \<and> (\<not> isScriptKey key \<longrightarrow> CHR ''#'' \<notin> set v)"

lemma setting_line_value: "setting_ok key v \<Longrightarrow> \<not> isScriptKey key \<Longrightarrow> line_value v"
  by (simp add: setting_ok_def script_value_def line_value_def)

lemma parseKeyBase64_length: "parseKeyBase64 s = Inr k \<Longrightarrow> length k = 32"
  by (auto simp: parseKeyBase64_def KeyLength_def split: option.splits if_splits)

lemma parseMTU_range:
  assumes "parseMTU s = Inr m"
  shows "576 \<le> unat m"
proof -
  obtain n where "m = of_int n" "576 \<le> n" "n \<le> 65535"
    using assms by (auto simp: parseMTU_def split: option.splits if_splits)
  then have "uint m = n" by (simp add: uint_word_of_int take_bit_int_eq_self)
  then show ?thesis using \<open>576 \<le> n\<close> by (simp flip: nat_uint_eq)
qed

subsection \<open>Settings keep the invariant\<close>

text \<open>The setting of a key is there; nothing is required of the keys with a default.\<close>

definition interface_has :: "Interface \<Rightarrow> string \<Rightarrow> bool" where
  "interface_has i k \<longleftrightarrow>
     (k = ''address'' \<longrightarrow> Addresses i \<noteq> []) \<and> (k = ''dns'' \<longrightarrow> DNS i \<noteq> [] \<or> DNSSearch i \<noteq> []) \<and>
     (k = ''mtu'' \<longrightarrow> MTU i \<noteq> 0) \<and> (k = ''preup'' \<longrightarrow> PreUp i \<noteq> []) \<and>
     (k = ''postup'' \<longrightarrow> PostUp i \<noteq> []) \<and> (k = ''predown'' \<longrightarrow> PreDown i \<noteq> []) \<and>
     (k = ''postdown'' \<longrightarrow> PostDown i \<noteq> [])"

lemma interface_present_iff:
  "interface_present i \<longleftrightarrow> (\<forall>k. Lines (if_Comments i) k \<noteq> None \<longrightarrow> interface_has i k)"
proof (intro iffI allI impI)
  fix k assume "interface_present i" "Lines (if_Comments i) k \<noteq> None"
  then show "interface_has i k"
    unfolding interface_has_def by (intro conjI impI) (simp_all add: interface_present_def Let_def)
next
  assume a: "\<forall>k. Lines (if_Comments i) k \<noteq> None \<longrightarrow> interface_has i k"
  note a [THEN spec, THEN mp]
  from this [of "''address''"] this [of "''dns''"] this [of "''mtu''"] this [of "''preup''"]
    this [of "''postup''"] this [of "''predown''"] this [of "''postdown''"]
  show "interface_present i"
    unfolding interface_present_def Let_def by (intro conjI impI) (simp_all add: interface_has_def)
qed

lemma interface_has_mono:
  assumes "interface_has i k" "Addresses i \<noteq> [] \<Longrightarrow> Addresses i' \<noteq> []"
    "DNS i \<noteq> [] \<or> DNSSearch i \<noteq> [] \<Longrightarrow> DNS i' \<noteq> [] \<or> DNSSearch i' \<noteq> []"
    "MTU i \<noteq> 0 \<Longrightarrow> MTU i' \<noteq> 0" "PreUp i \<noteq> [] \<Longrightarrow> PreUp i' \<noteq> []" "PostUp i \<noteq> [] \<Longrightarrow> PostUp i' \<noteq> []"
    "PreDown i \<noteq> [] \<Longrightarrow> PreDown i' \<noteq> []" "PostDown i \<noteq> [] \<Longrightarrow> PostDown i' \<noteq> []"
  shows "interface_has i' k"
  using assms unfolding interface_has_def by (intro conjI impI) simp_all

definition peer_has :: "Peer \<Rightarrow> string \<Rightarrow> bool" where
  "peer_has p k \<longleftrightarrow> (k = ''allowedips'' \<longrightarrow> AllowedIPs p \<noteq> []) \<and>
     (k = ''endpoint'' \<longrightarrow> Host (peer_Endpoint p) \<noteq> [])"

lemma peer_present_iff:
  "peer_present p \<longleftrightarrow> (\<forall>k. Lines (peer_Comments p) k \<noteq> None \<longrightarrow> peer_has p k)"
  unfolding peer_present_def peer_has_def
  by (intro iffI allI impI conjI) simp_all

text \<open>What a setting of the interface section changes.\<close>

lemma parse_interface_key_elim:
  assumes "parse_interface_key key v (i, saw) = Inr (i', saw')"
  obtains (key) k where "key = ''privatekey''" "parseKeyBase64 v = Inr k" "i' = i\<lparr>PrivateKey := k\<rparr>" "saw'"
  | (port) p where "key = ''listenport''" "i' = i\<lparr>ListenPort := p\<rparr>" "saw' = saw"
  | (mtu) m where "key = ''mtu''" "parseMTU v = Inr m" "i' = i\<lparr>MTU := m\<rparr>" "saw' = saw"
  | (address) xs as where "key = ''address''" "splitList v = Inr xs" "try_map parseIPCidr xs = Inr as"
      "i' = i\<lparr>Addresses := Addresses i @ as\<rparr>" "saw' = saw"
  | (dns) xs where "key = ''dns''" "splitList v = Inr xs"
      "i' = i\<lparr>DNS := DNS i @ List.map_filter ParseAddr xs,
              DNSSearch := DNSSearch i @ filter (\<lambda>s. ParseAddr s = None) xs\<rparr>" "saw' = saw"
  | (script) "isScriptKey key" "i' = i\<lparr>PreUp := v\<rparr> \<and> key = ''preup'' \<or> i' = i\<lparr>PostUp := v\<rparr> \<and> key = ''postup''
      \<or> i' = i\<lparr>PreDown := v\<rparr> \<and> key = ''predown'' \<or> i' = i\<lparr>PostDown := v\<rparr> \<and> key = ''postdown''" "saw' = saw"
  | (table) b where "key = ''table''" "i' = i\<lparr>TableOff := b\<rparr>" "saw' = saw"
proof -
  note d = parse_interface_key_def foldl_dns_append
  consider "key = ''privatekey''" | "key = ''listenport''" | "key = ''mtu''" | "key = ''address''"
    | "key = ''dns''" | "key = ''preup''" | "key = ''postup''" | "key = ''predown''"
    | "key = ''postdown''" | "key = ''table''"
    using assms unfolding parse_interface_key_def prod.case by (simp split: if_split_asm)
  then show thesis
  proof cases
    case 1
    with assms show thesis by (auto simp: d split: sum.splits intro: key)
  next
    case 2
    with assms show thesis by (auto simp: d split: sum.splits intro: port)
  next
    case 3
    with assms show thesis by (auto simp: d split: sum.splits intro: mtu)
  next
    case 4
    with assms show thesis by (auto simp: d split: sum.splits intro: address)
  next
    case 5
    with assms show thesis by (auto simp: d split: sum.splits intro: dns)
  next
    case 10
    with assms show thesis by (auto simp: d split: sum.splits intro: table)
  qed (use assms in \<open>intro script; simp add: d isScriptKey_def\<close>)+
qed

lemma interface_key_keys:
  "parse_interface_key key v (i, saw) = Inr (i', saw') \<Longrightarrow>
   key \<in> interface_keys \<and> if_Comments i' = if_Comments i"
  by (erule parse_interface_key_elim) (auto simp: interface_keys_def)

lemma map_filter_set: "a \<in> set (List.map_filter f xs) \<longleftrightarrow> (\<exists>x\<in>set xs. f x = Some a)"
  by (induction xs) (auto split: option.splits)

lemma items_ok:
  assumes "setting_ok key v" "\<not> isScriptKey key" "splitList v = Inr xs"
  shows "xs \<noteq> [] \<and> (\<forall>x\<in>set xs. list_item x)"
  using splitList_items [OF assms(3)] setting_line_value [OF assms(1,2)] by (simp add: line_value_def)

lemma interface_ok_key:
  assumes "parse_interface_key key v (i, saw) = Inr (i', saw')" "interface_ok i" "setting_ok key v"
  shows "interface_ok i'"
  using assms(1)
proof (cases rule: parse_interface_key_elim)
  case (address xs as)
  then show ?thesis
    using assms(2) try_map_parseIPCidr_valid [OF address(3)] by (simp add: interface_ok_def ball_Un)
next
  case (dns xs)
  then have "\<forall>x\<in>set xs. list_item x"
    using items_ok [OF assms(3)] by (simp add: isScriptKey_def)
  moreover from this
  have "\<forall>a\<in>set (List.map_filter ParseAddr xs). a \<noteq> AddrZero \<and> list_item (addr_String a)"
    using list_item_ParseAddr map_filter_set [of _ ParseAddr xs] by blast
  ultimately show ?thesis
    using assms(2) unfolding dns(3) interface_ok_def by (simp add: ball_Un)
next
  case script
  have "script_ok v" using assms(3) by (simp add: setting_ok_def script_ok_def)
  with script(2) assms(2) show ?thesis by (elim disjE) (simp_all add: interface_ok_def)
next
  case (key k)
  then show ?thesis using assms(2) parseKeyBase64_length by (simp add: interface_ok_def)
next
  case (mtu m)
  then show ?thesis using assms(2) parseMTU_range by (simp add: interface_ok_def)
qed (use assms(2) in \<open>simp_all add: interface_ok_def\<close>)

lemma interface_has_key:
  assumes "parse_interface_key key v (i, saw) = Inr (i', saw')" "setting_ok key v"
  shows "interface_has i' key"
  using assms(1)
proof (cases rule: parse_interface_key_elim)
  case (mtu m)
  then have "m \<noteq> 0" using parseMTU_range [of v m] by auto
  with mtu show ?thesis by (simp add: interface_has_def)
next
  case (address xs as)
  then have "as \<noteq> []"
    using items_ok [OF assms(2) _ address(2)] try_map_parseIPCidr_valid [OF address(3)]
    by (simp add: isScriptKey_def)
  with address show ?thesis by (simp add: interface_has_def)
next
  case (dns xs)
  then have "xs \<noteq> []"
    using items_ok [OF assms(2) _ dns(2)] by (simp add: isScriptKey_def)
  then have "List.map_filter ParseAddr xs \<noteq> [] \<or> filter (\<lambda>s. ParseAddr s = None) xs \<noteq> []"
    by (cases xs) (simp_all split: option.split)
  then show ?thesis
    unfolding dns(1,3) interface_has_def by (elim disjE) simp_all
next
  case script
  have "v \<noteq> []" using assms(2) by (simp add: setting_ok_def script_value_def)
  with script(2) show ?thesis by (elim disjE) (simp_all add: interface_has_def)
qed (simp_all add: interface_has_def)

lemma interface_has_keep:
  assumes "parse_interface_key key v (i, saw) = Inr (i', saw')" "setting_ok key v" "interface_has i k"
  shows "interface_has i' k"
  using assms(1)
proof (cases rule: parse_interface_key_elim)
  case (mtu m)
  then have "m \<noteq> 0" using parseMTU_range [of v m] by auto
  with mtu(3) show ?thesis by (intro interface_has_mono [OF assms(3)]) simp_all
next
  case script
  have "v \<noteq> []" using assms(2) by (simp add: setting_ok_def script_value_def)
  with script(2) show ?thesis by (elim disjE; intro interface_has_mono [OF assms(3)]) simp_all
next
  case (dns xs)
  show ?thesis unfolding dns(3) by (rule interface_has_mono [OF assms(3)]) auto
next
  case (key k)
  show ?thesis unfolding key(3) by (rule interface_has_mono [OF assms(3)]) simp_all
next
  case (port k)
  show ?thesis unfolding port(2) by (rule interface_has_mono [OF assms(3)]) simp_all
next
  case (address xs as)
  show ?thesis unfolding address(4) by (rule interface_has_mono [OF assms(3)]) simp_all
next
  case (table b)
  show ?thesis unfolding table(2) by (rule interface_has_mono [OF assms(3)]) simp_all
qed

lemma interface_inv_key:
  assumes parse: "parse_interface_key key v
      (i\<lparr>if_Comments := record_comments pending s key (if_Comments i)\<rparr>, saw) = Inr (i', saw')"
    and inv: "interface_inv i" "setting_ok key v"
    and c: "\<forall>b\<in>set pending. before_line b" "suffix_text s" "isScriptKey key \<longrightarrow> s = []"
  shows "interface_inv i'"
proof -
  let ?j = "i\<lparr>if_Comments := record_comments pending s key (if_Comments i)\<rparr>"
  note k = interface_key_keys [OF parse]
  have ok: "interface_ok ?j" and has: "interface_has ?j k = interface_has i k" for k
    using inv(1) by (simp_all add: interface_inv_def interface_ok_def interface_has_def)
  have "interface_has i' k" if "Lines (if_Comments i') k \<noteq> None" for k
  proof (cases "k = key")
    case True
    then show ?thesis using interface_has_key [OF parse inv(2)] by simp
  next
    case False
    then have "Lines (if_Comments i) k \<noteq> None"
      using record_comments_Lines [of pending s key "if_Comments i" k] that k by simp
    then have "interface_has ?j k"
      using inv(1) has unfolding interface_inv_def interface_present_iff by blast
    then show ?thesis by (rule interface_has_keep [OF parse inv(2)])
  qed
  moreover have "raw_section interface_keys (if_Comments i')"
    using raw_section_record [OF _ _ c, of interface_keys "if_Comments i"] k inv(1)
    by (simp add: interface_inv_def)
  ultimately show ?thesis
    using interface_ok_key [OF parse ok inv(2)] by (simp add: interface_inv_def interface_present_iff)
qed

lemma parse_peer_key_elim:
  assumes "parse_peer_key key v p = Inr p'"
  obtains (public) k where "key = ''publickey''" "parseKeyBase64 v = Inr k" "p' = p\<lparr>PublicKey := k\<rparr>"
  | (preshared) k where "key = ''presharedkey''" "parseKeyBase64 v = Inr k" "p' = p\<lparr>PresharedKey := k\<rparr>"
  | (allowed) xs as where "key = ''allowedips''" "splitList v = Inr xs" "try_map parseIPCidr xs = Inr as"
      "p' = p\<lparr>AllowedIPs := AllowedIPs p @ as\<rparr>"
  | (keepalive) k where "key = ''persistentkeepalive''" "p' = p\<lparr>PersistentKeepalive := k\<rparr>"
  | (endpoint) e where "key = ''endpoint''" "parseEndpoint v = Inr e" "p' = p\<lparr>peer_Endpoint := e\<rparr>"
  using assms unfolding parse_peer_key_def by (auto split: if_splits sum.splits)

lemma peer_key_keys:
  "parse_peer_key key v p = Inr p' \<Longrightarrow> key \<in> peer_keys \<and> peer_Comments p' = peer_Comments p"
  by (erule parse_peer_key_elim) (auto simp: peer_keys_def)

lemma peer_ok_key:
  assumes "parse_peer_key key v p = Inr p'" "peer_ok p" "setting_ok key v"
  shows "peer_ok p' \<and> peer_has p' key \<and> (peer_has p k \<longrightarrow> peer_has p' k)"
  using assms(1)
proof (cases rule: parse_peer_key_elim)
  case (allowed xs as)
  then have "as \<noteq> []" "\<forall>p\<in>set as. valid_prefix p"
    using items_ok [OF assms(3)] try_map_parseIPCidr_valid [of xs as] by (auto simp: isScriptKey_def)
  with allowed show ?thesis using assms(2) by (auto simp: peer_ok_def peer_has_def)
next
  case (endpoint e)
  then have "endpoint_ok e \<and> Host e \<noteq> []"
    using endpoint_ok_parse setting_line_value [OF assms(3)] by (simp add: isScriptKey_def)
  with endpoint show ?thesis using assms(2) by (simp add: peer_ok_def peer_has_def)
qed (use assms(2) parseKeyBase64_length in \<open>auto simp: peer_ok_def peer_has_def\<close>)

lemma peer_inv_key:
  assumes parse: "parse_peer_key key v
      (p\<lparr>peer_Comments := record_comments pending s key (peer_Comments p)\<rparr>) = Inr p'"
    and inv: "peer_inv p" "setting_ok key v"
    and c: "\<forall>b\<in>set pending. before_line b" "suffix_text s" "isScriptKey key \<longrightarrow> s = []"
  shows "peer_inv p'"
proof -
  let ?j = "p\<lparr>peer_Comments := record_comments pending s key (peer_Comments p)\<rparr>"
  have ok: "peer_ok ?j" and has: "peer_has ?j k = peer_has p k" for k
    using inv(1) by (simp_all add: peer_inv_def peer_ok_def peer_has_def)
  note k = peer_key_keys [OF parse] 
  have h: "peer_ok p' \<and> peer_has p' key \<and> (peer_has ?j k \<longrightarrow> peer_has p' k)" for k
    by (rule peer_ok_key [OF parse ok inv(2)])
  have "peer_has p' k" if "Lines (peer_Comments p') k \<noteq> None" for k
  proof (cases "k = key")
    case False
    then have "Lines (peer_Comments p) k \<noteq> None"
      using record_comments_Lines [of pending s key "peer_Comments p" k] that k by simp
    then have "peer_has ?j k"
      using inv(1) has unfolding peer_inv_def peer_present_iff by blast
    then show ?thesis using h by blast
  qed (use h in blast)
  moreover have "raw_section peer_keys (peer_Comments p')"
    using raw_section_record [OF _ _ c, of peer_keys "peer_Comments p"] k inv(1)
    by (simp add: peer_inv_def)
  ultimately show ?thesis
    using h by (simp add: peer_inv_def peer_present_iff)
qed

subsection \<open>Lines keep the invariant\<close>

lemma parse_setting_inv:
  assumes parse: "parse_setting line st s key v p = Inr p'" and inv: "parser_inv name p"
    and nl: "newline \<notin> set line" "newline \<notin> set v" "CHR ''#'' \<notin> set v" and s: "suffix_text s"
    and st: "p_state p \<noteq> notInASection"
  shows "parser_inv name p'"
proof -
  obtain v' s' where vs: "(if isScriptKey key
      then (case strings_Cut line (CHR ''='') of (_, v, _) \<Rightarrow> (v, [])) else (v, s)) = (v', s')"
    by force
  let ?v = "strings_TrimSpace v'"
  have ne: "?v \<noteq> []"
    using parse vs by (auto simp: parse_setting_def split: if_splits)
  have cut_set: "set after \<subseteq> set line" if "strings_Cut line (CHR ''='') = (b, after, f)" for b after f
    using that strings_Cut_found [of line "CHR ''=''" b after] strings_Cut_not_found [of line "CHR ''=''" b after]
    by (cases f) auto
  have c: "suffix_text s'" "isScriptKey key \<longrightarrow> s' = []" "newline \<notin> set v'"
    "\<not> isScriptKey key \<longrightarrow> CHR ''#'' \<notin> set v'"
    using vs s nl cut_set by (auto simp: suffix_text_def split: if_splits prod.splits)
  have val: "setting_ok key ?v"
    using c ne TrimSpace_subset [of v'] by (auto simp: setting_ok_def script_value_def TrimSpace_trimmed)
  have b: "\<forall>b\<in>set (pendingComments p). before_line b" using inv by (simp add: parser_inv_def)
  show ?thesis
  proof (cases "p_state p")
    case inInterfaceSection
    let ?i = "config_Interface (p_conf p)"
    obtain i' saw' where i: "parse_interface_key key ?v (?i\<lparr>if_Comments :=
        record_comments (pendingComments p) s' key (if_Comments ?i)\<rparr>, sawPrivateKey p) = Inr (i', saw')"
      "p' = p\<lparr>p_conf := (p_conf p)\<lparr>config_Interface := i'\<rparr>, sawPrivateKey := saw', pendingComments := []\<rparr>"
      using parse vs ne inInterfaceSection by (auto simp: parse_setting_def Let_def split: sum.splits)
    have "interface_inv i'"
      using inv by (intro interface_inv_key [OF i(1) _ val b c(1,2)]) (simp add: parser_inv_def)
    then show ?thesis using inv i(2) by (simp add: parser_inv_def)
  next
    case inPeerSection
    then obtain q where q: "cur_peer p = Some q" "peer_inv q" using inv by (auto simp: parser_inv_def)
    then obtain q' where q': "parse_peer_key key ?v (q\<lparr>peer_Comments :=
        record_comments (pendingComments p) s' key (peer_Comments q)\<rparr>) = Inr q'"
      "p' = p\<lparr>cur_peer := Some q', pendingComments := []\<rparr>"
      using parse vs ne inPeerSection by (auto simp: parse_setting_def Let_def split: sum.splits)
    have "peer_inv q'"
      by (rule peer_inv_key [OF q'(1) q(2) val b c(1,2)])
    then show ?thesis using inv q'(2) by (simp add: parser_inv_def)
  qed (use st in simp)
qed

lemma comment_of_line:
  assumes "newline \<notin> set after"
  shows "suffix_text (if h then CHR ''#'' # strings_TrimRight after [CHR '' '', CHR 0x09, CHR 0x0D] else [])"
  using assms TrimRight_subset [of after "[CHR '' '', CHR 0x09, CHR 0x0D]"]
  by (auto simp: suffix_text_def comment_text_def comment_cut_def)

lemma Cut_subset:
  "strings_Cut s c = (x, y, f) \<Longrightarrow> set x \<subseteq> set s \<and> set y \<subseteq> set s \<and> c \<notin> set x"
  using strings_Cut_found [of s c x y] strings_Cut_not_found [of s c x y] by (cases f) auto

lemma interface_header_inv:
  assumes inv: "parser_inv name p" and s: "suffix_text s"
  shows "parser_inv name (interface_header s p)"
proof -
  let ?i = "config_Interface (p_conf p)"
  let ?j = "?i\<lparr>if_Comments := (if_Comments ?i)\<lparr>Header :=
      add_comments (pendingComments p) s (Header (if_Comments ?i))\<rparr>\<rparr>"
  have "\<forall>b\<in>set (pendingComments p). before_line b" using inv by (simp add: parser_inv_def)
  then have "interface_inv ?j"
    using inv raw_comments_add [OF _ _ s]
    by (simp add: parser_inv_def interface_inv_def interface_ok_def interface_present_def
        raw_section_def)
  then show ?thesis
    using parser_inv_add_peer [OF inv] inv
    by (auto simp: parser_inv_def interface_header_def Let_def)
qed

lemma peer_header_inv:
  assumes inv: "parser_inv name p" and s: "suffix_text s"
  shows "parser_inv name (peer_header s p)"
proof -
  have "\<forall>b\<in>set (pendingComments p). before_line b" using inv by (simp add: parser_inv_def)
  then have "peer_inv (zero_Peer\<lparr>peer_Comments := zero_SectionComments
      \<lparr>Header := \<lparr>Before = pendingComments p, Suffix = s\<rparr>\<rparr>\<rparr>)"
    using s by (simp add: peer_inv_def peer_ok_def peer_present_def zero_Peer_def
        zero_SectionComments_def raw_section_def raw_comments_def endpoint_ok_def)
  then show ?thesis
    using parser_inv_add_peer [OF inv] inv
    by (auto simp: parser_inv_def peer_header_def)
qed

lemma parse_text_inv:
  assumes parse: "parse_text line st s p = Inr p'" and inv: "parser_inv name p"
    and nl: "newline \<notin> set line" "newline \<notin> set st" "CHR ''#'' \<notin> set st" and s: "suffix_text s"
  shows "parser_inv name p'"
proof -
  obtain k v hv where kv: "strings_Cut st (CHR ''='') = (k, v, hv)"
    by (cases "strings_Cut st (CHR ''='')") auto
  let ?key = "strings_ToLower (strings_TrimSpace k)"
  have v: "newline \<notin> set v" "CHR ''#'' \<notin> set v"
    using Cut_subset [OF kv] nl(2,3) by auto
  consider "p' = interface_header s p" | "p' = peer_header s p"
    | "p_state p \<noteq> notInASection" "parse_setting line st s ?key v p = Inr p'"
    using parse unfolding parse_text_def kv prod.case Let_def by (simp split: if_split_asm)
  then show ?thesis
    by cases (simp_all add: interface_header_inv [OF inv s] peer_header_inv [OF inv s]
        parse_setting_inv [OF _ inv nl(1) v s])
qed

lemma parse_line_inv:
  assumes parse: "parse_line line p = Inr p'" and inv: "parser_inv name p"
    and nl: "newline \<notin> set line"
  shows "parser_inv name p'"
proof -
  obtain c after h where cut: "strings_Cut line (CHR ''#'') = (c, after, h)"
    by (cases "strings_Cut line (CHR ''#'')") auto
  note sub = Cut_subset [OF cut]
  define s where
    "s = (if h then CHR ''#'' # strings_TrimRight after [CHR '' '', CHR 0x09, CHR 0x0D] else [])"
  have "newline \<notin> set after" using nl sub by blast
  then have s: "suffix_text s" unfolding s_def by (rule comment_of_line)
  have eq: "parse_line line p =
      (if length (strings_TrimSpace c) = 0 then Inr (p\<lparr>pendingComments := pendingComments p @ [s]\<rparr>)
       else parse_text line (strings_TrimSpace c) s p)"
    by (simp add: parse_line_def cut s_def)
  show ?thesis
  proof (cases "length (strings_TrimSpace c) = 0")
    case True
    then have "p' = p\<lparr>pendingComments := pendingComments p @ [s]\<rparr>" using parse eq by simp
    moreover have "before_line s" using s by (simp add: before_line_def suffix_text_def)
    ultimately show ?thesis using inv by (simp add: parser_inv_def)
  next
    case False
    then have 2: "parse_text line (strings_TrimSpace c) s p = Inr p'" using parse eq by simp
    have "set (strings_TrimSpace c) \<subseteq> set c" by (rule TrimSpace_subset)
    then have "newline \<notin> set (strings_TrimSpace c)" "CHR ''#'' \<notin> set (strings_TrimSpace c)"
      using sub nl by blast+
    then show ?thesis by (rule parse_text_inv [OF 2 inv nl _ _ s])
  qed
qed

lemma parse_lines_inv:
  "parse_lines ls p = Inr p' \<Longrightarrow> parser_inv name p \<Longrightarrow> \<forall>l\<in>set ls. newline \<notin> set l \<Longrightarrow> parser_inv name p'"
proof (induction ls arbitrary: p)
  case (Cons l ls)
  then obtain q where "parse_line l p = Inr q" "parse_lines ls q = Inr p'"
    by (auto split: sum.splits)
  with Cons parse_line_inv [of l p q name] show ?case by simp
qed simp

subsection \<open>The result is well-formed\<close>

lemma wf_lines_prune:
  assumes "raw_section keys sc"
  shows "wf_lines keys (pruneSectionComments sc)"
    "Lines (pruneSectionComments sc) k \<noteq> None \<Longrightarrow> Lines sc k \<noteq> None"
proof -
  have "raw_comments c' \<and> (isScriptKey k \<longrightarrow> Suffix c' = []) \<and> pruned False False (Before c') \<and>
      (Before c' \<noteq> [] \<or> Suffix c' \<noteq> [])" if "Lines sc k = Some c" "prune_line c = Some c'" for k c c'
  proof -
    have "raw_comments c \<and> (isScriptKey k \<longrightarrow> Suffix c = [])"
      using assms that(1) by (auto simp: raw_section_def)
    then show ?thesis
      using that(2) pruneComments_pruned [where lead = False and trail = False and run = "Before c"]
        pruneComments_subset [of "Before c" False False]
      by (auto simp: prune_line_def raw_comments_def Let_def split: if_splits)
  qed
  moreover have "dom (Lines sc) \<subseteq> keys" using assms by (simp add: raw_section_def)
  ultimately show "wf_lines keys (pruneSectionComments sc)"
    by (auto simp: wf_lines_def pruneSectionComments_def split: option.splits)
  show "Lines (pruneSectionComments sc) k \<noteq> None \<Longrightarrow> Lines sc k \<noteq> None"
    by (auto simp: pruneSectionComments_def split: option.splits)
qed

lemma wf_section_prune: "raw_section keys sc \<Longrightarrow> wf_section keys (pruneSectionComments sc)"
  using wf_lines_prune(1) [of keys sc] pruneComments_pruned pruneComments_subset [of "Before (Header sc)" True False]
  by (auto simp: wf_section_def pruneSectionComments_def raw_section_def raw_comments_def)

lemma wf_interface_prune:
  assumes "interface_inv i"
  shows "wf_interface (i\<lparr>if_Comments := pruneSectionComments (if_Comments i)\<rparr>)"
proof -
  let ?i = "i\<lparr>if_Comments := pruneSectionComments (if_Comments i)\<rparr>"
  have raw: "raw_section interface_keys (if_Comments i)" using assms by (simp add: interface_inv_def)
  have "interface_has ?i k = interface_has i k" for k by (simp add: interface_has_def)
  then have "interface_present ?i"
    using assms wf_lines_prune(2) [OF raw] unfolding interface_present_iff interface_inv_def by simp
  moreover have "interface_ok ?i" using assms by (simp add: interface_inv_def interface_ok_def)
  ultimately show ?thesis using wf_section_prune [OF raw] by (simp add: wf_interface_def)
qed

lemma wf_peer_prune:
  assumes "peer_inv p" "PublicKey p \<noteq> zero_Key"
  shows "wf_peer (p\<lparr>peer_Comments := pruneSectionComments (peer_Comments p)\<rparr>)"
proof -
  let ?p = "p\<lparr>peer_Comments := pruneSectionComments (peer_Comments p)\<rparr>"
  have raw: "raw_section peer_keys (peer_Comments p)" using assms by (simp add: peer_inv_def)
  have "peer_has ?p k = peer_has p k" for k by (simp add: peer_has_def)
  then have "peer_present ?p"
    using assms(1) wf_lines_prune(2) [OF raw] unfolding peer_present_iff peer_inv_def by simp
  moreover have "peer_ok ?p" using assms by (simp add: peer_inv_def peer_ok_def)
  ultimately show ?thesis using wf_section_prune [OF raw] assms(2) by (simp add: wf_peer_def)
qed

lemma FromWgQuick_inv:
  assumes "FromWgQuick s name = Inr c"
  shows "\<exists>p. parser_inv name p \<and> finish_parse p = Inr c \<and> TunnelNameIsValid name"
proof -
  obtain p where p: "parse_lines (strings_Split s newline) (start_parse name) = Inr p"
      "finish_parse p = Inr c" "TunnelNameIsValid name"
    using assms by (auto simp: FromWgQuick_def split: if_splits sum.splits)
  have "parser_inv name p"
    using strings_Split_parts [of _ s newline] by (intro parse_lines_inv [OF p(1) parser_inv_start]) blast
  with p show ?thesis by blast
qed

theorem FromWgQuick_wf:
  assumes "FromWgQuick s name = Inr c"
  shows "wf_config c \<and> Name c = name"
proof -
  obtain p where inv: "parser_inv name p" and fin: "finish_parse p = Inr c" and nm: "TunnelNameIsValid name"
    using FromWgQuick_inv [OF assms] by blast
  let ?c = "maybeAddPeer (cur_peer p) (p_conf p)"
  have c: "c = prune_config (pendingComments p) ?c" and k: "\<forall>q\<in>set (Peers ?c). PublicKey q \<noteq> zero_Key"
    using fin by (auto simp: finish_parse_def Let_def list_ex_iff prune_config_def split: if_splits)
  note add = parser_inv_add_peer [OF inv]
  have "wf_interface (config_Interface c)"
    using inv add unfolding c prune_config_def parser_inv_def
    by (simp add: wf_interface_prune)
  moreover have "\<forall>q\<in>set (Peers c). wf_peer q"
    using add k unfolding c prune_config_def by (auto intro!: wf_peer_prune)
  moreover have "pruned False True (TrailingComments c) \<and> (\<forall>b\<in>set (TrailingComments c). before_line b)"
    using pruneComments_subset [of "pendingComments p" False True] inv
    unfolding c prune_config_def parser_inv_def by (auto simp: pruneComments_pruned)
  moreover have "Name c = name" using add unfolding c prune_config_def by simp
  ultimately show ?thesis using nm by (simp add: wf_config_def)
qed


section \<open>Properties\<close>

subsection \<open>No nil dereference\<close>

lemma values_not_nil:
  "parseIPCidr s \<noteq> Inl NilDereference" "parseMTU s \<noteq> Inl NilDereference"
  "parsePort s \<noteq> Inl NilDereference" "parsePersistentKeepalive s \<noteq> Inl NilDereference"
  "parseTableOff s \<noteq> Inl NilDereference" "parseKeyBase64 s \<noteq> Inl NilDereference"
  "parse_host s port \<noteq> Inl NilDereference"
  by (auto simp: parseIPCidr_def parseMTU_def parsePort_def parsePersistentKeepalive_def
      parseTableOff_def parseKeyBase64_def parse_host_def Let_def split: option.splits)

lemma try_map_error: "try_map f xs = Inl e \<Longrightarrow> \<exists>x\<in>set xs. f x = Inl e"
  by (induction xs) (auto split: sum.splits)

lemma lists_not_nil:
  "splitList s \<noteq> Inl NilDereference" "try_map parseIPCidr xs \<noteq> Inl NilDereference"
  "parseEndpoint s \<noteq> Inl NilDereference"
  using values_not_nil
  by (auto simp: splitList_def parseEndpoint_def Let_def split: if_splits sum.splits option.splits
      dest!: try_map_error)

lemma case_sum_Inl:
  "(case r of Inl e \<Rightarrow> Inl e | Inr x \<Rightarrow> f x) = Inl n \<longleftrightarrow> r = Inl n \<or> (\<exists>x. r = Inr x \<and> f x = Inl n)"
  by (cases r) auto

lemma keys_not_nil:
  "parse_interface_key key v (i, saw) \<noteq> Inl NilDereference"
  "parse_peer_key key v p \<noteq> Inl NilDereference"
  unfolding parse_interface_key_def parse_peer_key_def prod.case
  by (simp_all add: case_sum_Inl values_not_nil lists_not_nil)

lemma parse_line_not_nil:
  assumes "parser_inv name p"
  shows "parse_line line p \<noteq> Inl NilDereference"
proof -
  have "parse_setting l st s key v p \<noteq> Inl NilDereference" if "p_state p \<noteq> notInASection" for l st s key v
    using assms that keys_not_nil
    by (auto simp: parse_setting_def parser_inv_def Let_def
        split: parserState.splits sum.splits prod.splits option.splits if_splits)
  then have "parse_text line st s p \<noteq> Inl NilDereference" for st s
    by (simp add: parse_text_def Let_def split: prod.split)
  then show ?thesis
    by (simp add: parse_line_def Let_def split: prod.split)
qed

lemma parse_lines_not_nil:
  "parser_inv name p \<Longrightarrow> \<forall>l\<in>set ls. newline \<notin> set l \<Longrightarrow> parse_lines ls p \<noteq> Inl NilDereference"
proof (induction ls arbitrary: p)
  case (Cons l ls)
  then show ?case
    using parse_line_not_nil [OF Cons.prems(1), of l] parse_line_inv [of l p _ name]
    by (auto split: sum.splits)
qed simp

text \<open>C1: writing and reading back: whatever file the parser accepts, the configuration it returns
  is written by \<open>ToWgQuick\<close> as a file that the parser accepts again with the same result, addresses,
  keys, scripts and comments included.\<close>

theorem FromWgQuick_roundtrip:
  assumes "FromWgQuick s name = Inr c"
  shows "FromWgQuick (ToWgQuick c) name = Inr c"
  using FromWgQuick_wf [OF assms] FromWgQuick_ToWgQuick_wf by auto

theorem FromWgQuick_roundtrip_witness:
  "\<exists>c. FromWgQuick (unlines [''[Interface] # home'', ''PrivateKey='' @ base64_Encode (replicate 32 7)]) ''w''
     = Inr c \<and> FromWgQuick (ToWgQuick c) ''w'' = Inr c"
proof -
  let ?s = "unlines [''[Interface] # home'', ''PrivateKey='' @ base64_Encode (replicate 32 7)]"
  have "\<not> isl (FromWgQuick ?s ''w'')" by code_simp
  then obtain c where "FromWgQuick ?s ''w'' = Inr c" by (cases "FromWgQuick ?s ''w''") auto
  with FromWgQuick_roundtrip [OF this] show ?thesis by blast
qed

text \<open>C30: what a configuration that the parser accepts satisfies: its name is the valid name asked
  for, its keys have 32 bytes and no peer has the zero key, its prefixes are valid, its MTU is unset
  or at least 576, and its name servers are addresses while its search domains are not.\<close>

theorem FromWgQuick_valid:
  assumes "FromWgQuick s name = Inr c"
  shows "TunnelNameIsValid name \<and> Name c = name \<and>
    length (PrivateKey (config_Interface c)) = KeyLength \<and>
    list_all valid_prefix (Addresses (config_Interface c)) \<and>
    (MTU (config_Interface c) = 0 \<or> 576 \<le> MTU (config_Interface c)) \<and>
    list_all (\<lambda>a. a \<noteq> AddrZero) (DNS (config_Interface c)) \<and>
    list_all (\<lambda>d. ParseAddr d = None) (DNSSearch (config_Interface c)) \<and>
    list_all (\<lambda>p. length (PublicKey p) = KeyLength \<and> \<not> IsZero (PublicKey p) \<and>
      length (PresharedKey p) = KeyLength \<and> list_all valid_prefix (AllowedIPs p) \<and>
      (Endpoint_IsEmpty (peer_Endpoint p) \<or> parseEndpoint (Endpoint_String (peer_Endpoint p)) =
        Inr (peer_Endpoint p))) (Peers c)"
proof -
  have "wf_config c" "Name c = name" using FromWgQuick_wf [OF assms] by simp_all
  then show ?thesis
    by (auto simp: wf_config_def wf_interface_def interface_ok_def wf_peer_def peer_ok_def
        endpoint_ok_def Endpoint_IsEmpty_def zero_Endpoint_def KeyLength_def list_all_iff
        word_le_nat_alt)
qed

theorem FromWgQuick_valid_witness:
  "\<exists>c. FromWgQuick (unlines [''[Interface]'', ''PrivateKey='' @ base64_Encode (replicate 32 5)]) ''v''
     = Inr c \<and> Name c = ''v''"
proof -
  let ?s = "unlines [''[Interface]'', ''PrivateKey='' @ base64_Encode (replicate 32 5)]"
  have "\<not> isl (FromWgQuick ?s ''v'')" by code_simp
  then obtain c where "FromWgQuick ?s ''v'' = Inr c" by (cases "FromWgQuick ?s ''v''") auto
  with FromWgQuick_valid [OF this] show ?thesis by blast
qed

text \<open>C3: the parser never dereferences the nil peer: on every input it returns a configuration or
  reports an error.\<close>

theorem FromWgQuick_no_nil: "FromWgQuick s name \<noteq> Inl NilDereference"
proof -
  have "parse_lines (strings_Split s newline) (start_parse name) \<noteq> Inl NilDereference"
    using strings_Split_parts [of _ s newline]
    by (intro parse_lines_not_nil [OF parser_inv_start]) blast
  then show ?thesis
    by (auto simp: FromWgQuick_def finish_parse_def Let_def split: sum.splits if_splits)
qed

text \<open>An interface header after a peer section repeats the peer: the header appends the current
  peer and keeps it as the current one, so the next header or the end of the file appends it once
  more.\<close>

theorem interface_header_repeats_peer:
  assumes "cur_peer p = Some q"
  shows "Peers (maybeAddPeer (cur_peer (interface_header comment p)) (p_conf (interface_header comment p)))
    = Peers (p_conf p) @ [q, q]"
  using assms by (simp add: interface_header_def maybeAddPeer_def Let_def)

theorem interface_header_repeats_peer_witness:
  "Peers (maybeAddPeer
     (cur_peer (interface_header [] (peer_header [] (start_parse ''w''))))
     (p_conf (interface_header [] (peer_header [] (start_parse ''w''))))) =
   [zero_Peer, zero_Peer]"
proof -
  have "cur_peer (peer_header [] (start_parse ''w'')) = Some zero_Peer"
    "Peers (p_conf (peer_header [] (start_parse ''w''))) = []"
    by (simp_all add: peer_header_def start_parse_def maybeAddPeer_def zero_defs)
  then show ?thesis
    using interface_header_repeats_peer [of "peer_header [] (start_parse ''w'')" zero_Peer "[]"] by simp
qed

end
