(* ===== verification/Conf_Store.thy ===== *)
theory Conf_Store
  imports Conf_Accept
begin

text \<open>
  \<open>conf/store.go\<close>, \<open>conf/filewriter_windows.go\<close>, \<open>conf/dpapi/dpapi_windows.go\<close> and the loop of
  \<open>conf/migration_windows.go\<close>: the configurations on disk.

  A file system is a partial function from paths to contents; Windows compares paths without regard
  to case, so the key of a file is its path in lower case.  The Win32 calls of
  \<open>writeLockedDownFile\<close> that may fail get their outcome from a record \<open>faults\<close>, so every error path
  is a branch.  \<open>CryptProtectData\<close> and \<open>CryptUnprotectData\<close> are parameters; what is relied on is that
  unprotecting what was protected gives the data and its description back.  The directory of the
  configurations is a parameter too, a path with a drive letter.

  The lemmas show that writing is atomic, that names and paths correspond, and that the operations
  implement a store of configurations by name, the locale \<open>config_store\<close>.
\<close>

section \<open>Package path/filepath on Windows\<close>

definition backslash :: char where
  "backslash = CHR 0x5C"

definition IsPathSeparator :: "char \<Rightarrow> bool" where
  "IsPathSeparator c \<longleftrightarrow> c = backslash \<or> c = CHR ''/''"

text \<open>\<open>uncLen\<close>: the length of the volume of a UNC path, up to the second separator.\<close>

fun uncLen_from :: "string \<Rightarrow> nat \<Rightarrow> nat \<Rightarrow> nat" where
  "uncLen_from [] i count = i"
| "uncLen_from (c # s) i count =
     (if IsPathSeparator c then
        (if count = 1 then i else uncLen_from s (Suc i) (Suc count))
      else uncLen_from s (Suc i) count)"

definition uncLen :: "string \<Rightarrow> nat \<Rightarrow> nat" where
  "uncLen path prefixLen = min (length path) (uncLen_from (drop prefixLen path) prefixLen 0)"

definition upper_byte :: "char \<Rightarrow> char" where
  "upper_byte c = (if 97 \<le> code c \<and> code c \<le> 122 then chr (code c - 32) else c)"

definition pathHasPrefixFold :: "string \<Rightarrow> string \<Rightarrow> bool" where
  "pathHasPrefixFold s p \<longleftrightarrow>
     length p \<le> length s \<and>
     list_all2 (\<lambda>a b. if IsPathSeparator b then IsPathSeparator a
                      else upper_byte a = upper_byte b) (take (length p) s) p \<and>
     (length p < length s \<longrightarrow> IsPathSeparator (s ! length p))"

definition volumeNameLen :: "string \<Rightarrow> nat" where
  "volumeNameLen path =
     (if 2 \<le> length path \<and> path ! 1 = CHR '':'' then 2
      else if path = [] \<or> \<not> IsPathSeparator (hd path) then 0
      else if pathHasPrefixFold path [backslash, backslash, CHR ''.'', backslash, CHR ''U'', CHR ''N'', CHR ''C'']
      then uncLen path 8
      else if pathHasPrefixFold path [backslash, backslash, CHR ''.''] \<or>
              pathHasPrefixFold path [backslash, backslash, CHR ''?''] \<or>
              pathHasPrefixFold path [backslash, CHR ''?'', CHR ''?'']
      then (if length path = 3 then 3
            else let rest = dropWhile (\<lambda>c. \<not> IsPathSeparator c) (drop 4 path) in
                 if rest = [] then length path else length path - length rest)
      else if 2 \<le> length path \<and> IsPathSeparator (path ! 1) then uncLen path 2
      else 0)"

definition filepath_Base :: "string \<Rightarrow> string" where
  "filepath_Base path =
     (if path = [] then ''.''
      else
        let path = rev (dropWhile IsPathSeparator (rev path));
            path = drop (volumeNameLen path) path;
            path = rev (takeWhile (\<lambda>c. \<not> IsPathSeparator c) (rev path))
        in if path = [] then [backslash] else path)"

text \<open>\<open>filepath.Join\<close> of a clean directory and a file name without separators.\<close>

definition filepath_Join :: "string \<Rightarrow> string \<Rightarrow> string" where
  "filepath_Join dir name = dir @ backslash # name"

section \<open>DPAPI\<close>

datatype store_error =
    InvalidTunnelName | BadSuffix | FileNotFound | AlreadyExists | IOError | IoIncomplete
  | BufferOverflow | InvalidUTF16 | CannotEncrypt | CannotDecrypt | NoAssociatedName
  | NameMismatch | Parse parse_error

text \<open>\<open>CryptProtectData\<close> of the data and its description, and \<open>CryptUnprotectData\<close>, which gives the
  data and the stored description, if there is one.\<close>

record dpapi =
  protect :: "string \<Rightarrow> string \<Rightarrow> string option"
  unprotect :: "string \<Rightarrow> (string \<times> string option) option"

definition Encrypt :: "dpapi \<Rightarrow> string \<Rightarrow> string \<Rightarrow> store_error + string" where
  "Encrypt api data name =
     (case protect api data name of None \<Rightarrow> Inl CannotEncrypt | Some out \<Rightarrow> Inr out)"

text \<open>The comparison of the names, which are terminated by zero, unit by unit.\<close>

fun different_names :: "string \<Rightarrow> string \<Rightarrow> bool" where
  "different_names (a # s) (b # t) =
     (if a \<noteq> b then True
      else if a = CHR 0x00 \<or> b = CHR 0x00 then False
      else different_names s t)"
| "different_names _ _ = False"

definition Decrypt :: "dpapi \<Rightarrow> string \<Rightarrow> string \<Rightarrow> store_error + string" where
  "Decrypt api data name =
     (if CHR 0x00 \<in> set name then Inl InvalidUTF16
      else case unprotect api data of
        None \<Rightarrow> Inl CannotDecrypt
      | Some (out, outName) \<Rightarrow>
          (case outName of
             None \<Rightarrow> Inl NoAssociatedName
           | Some stored \<Rightarrow>
               if different_names (stored @ [CHR 0x00]) (name @ [CHR 0x00])
               then Inl NameMismatch else Inr out))"

section \<open>Writing a file\<close>

type_synonym fs = "string \<rightharpoonup> string"

definition path_key :: "string \<Rightarrow> string" where
  "path_key path = map lower_byte path"

definition read_file :: "fs \<Rightarrow> string \<Rightarrow> string option" where
  "read_file files path = files (path_key path)"

definition put_file :: "string \<Rightarrow> string \<Rightarrow> fs \<Rightarrow> fs" where
  "put_file path contents files = files(path_key path \<mapsto> contents)"

definition drop_file :: "string \<Rightarrow> fs \<Rightarrow> fs" where
  "drop_file path files = files(path_key path := None)"

text \<open>The outcome of each Win32 call: the security descriptor, the creation of the temporary file,
  the number of bytes written of those passed (\<^const>\<open>None\<close> on an error), the flush and the rename.\<close>

record faults =
  descriptor_ok :: bool
  create_ok :: bool
  written :: "nat \<Rightarrow> nat option"
  flush_ok :: bool
  rename_ok :: bool

text \<open>The number of UTF-16 units of a UTF-8 string and its terminator.\<close>

definition utf16_length :: "string \<Rightarrow> nat" where
  "utf16_length s =
     Suc (length (filter (\<lambda>c. \<not> (0x80 \<le> code c \<and> code c < 0xC0)) s) +
          length (filter (\<lambda>c. 0xF0 \<le> code c) s))"

definition MAX_PATH :: nat where
  "MAX_PATH = 260"

definition randomFileName :: "byte list \<Rightarrow> string" where
  "randomFileName randBytes =
     concat (map (\<lambda>b. [hex_digit (unat b div 16), hex_digit (unat b mod 16)]) randBytes) @ ''.tmp''"

text \<open>The rename replaces an existing file only when asked to.\<close>

definition rename_file :: "bool \<Rightarrow> string \<Rightarrow> string \<Rightarrow> string \<Rightarrow> fs \<Rightarrow> (store_error + unit) \<times> fs" where
  "rename_file replaceIfExists from_path to_path contents files =
     (if \<not> replaceIfExists \<and> read_file files to_path \<noteq> None then (Inl AlreadyExists, files)
      else (Inr (), put_file to_path contents (drop_file from_path files)))"

definition writeLockedDownFile ::
  "faults \<Rightarrow> string \<Rightarrow> string \<Rightarrow> bool \<Rightarrow> string \<Rightarrow> fs \<Rightarrow> (store_error + unit) \<times> fs" where
  "writeLockedDownFile flt tmpDestination destination overwrite contents files =
     (if \<not> descriptor_ok flt then (Inl IOError, files)
      else if CHR 0x00 \<in> set destination then (Inl InvalidUTF16, files)
      else if CHR 0x00 \<in> set tmpDestination then (Inl InvalidUTF16, files)
      else if \<not> create_ok flt then (Inl IOError, files)
      else
        let files = put_file tmpDestination [] files;
            deleteIt = drop_file tmpDestination
        in case written flt (length contents) of
             None \<Rightarrow> (Inl IOError, deleteIt files)
           | Some n \<Rightarrow>
               let files = put_file tmpDestination (take n contents) files in
               if n \<noteq> length contents then (Inl IoIncomplete, deleteIt files)
               else if \<not> flush_ok flt then (Inl IOError, deleteIt files)
               else if utf16_length destination > MAX_PATH
               then (Inl BufferOverflow, deleteIt files)
               else if \<not> rename_ok flt then (Inl IOError, deleteIt files)
               else (case rename_file overwrite tmpDestination destination contents files of
                       (Inl err, files) \<Rightarrow> (Inl err, deleteIt files)
                     | (Inr u, files) \<Rightarrow> (Inr u, files)))"

section \<open>The store\<close>

definition configFileSuffix :: string where
  "configFileSuffix = ''.conf.dpapi''"

definition configFileUnencryptedSuffix :: string where
  "configFileUnencryptedSuffix = ''.conf''"

definition PathIsEncrypted :: "string \<Rightarrow> bool" where
  "PathIsEncrypted path = strings_HasSuffix (filepath_Base path) configFileSuffix"

definition NameFromPath :: "string \<Rightarrow> store_error + string" where
  "NameFromPath path =
     (let name = filepath_Base path in
      if \<not> (length name > length configFileSuffix \<and> strings_HasSuffix name configFileSuffix \<or>
            length name > length configFileUnencryptedSuffix \<and>
            strings_HasSuffix name configFileUnencryptedSuffix)
      then Inl BadSuffix
      else
        let name = (if strings_HasSuffix path configFileSuffix
                    then strings_TrimSuffix name configFileSuffix
                    else strings_TrimSuffix name configFileUnencryptedSuffix)
        in if \<not> TunnelNameIsValid name then Inl InvalidTunnelName else Inr name)"

text \<open>The environment of the store: the configuration directory, DPAPI, the decoders of
  \<open>unicode.All\<close>, the random bytes of the temporary file's name and the outcomes of the calls.\<close>

record env =
  config_dir :: string
  api :: dpapi
  encodings :: "(string \<Rightarrow> string option) list"
  randBytes :: "byte list"
  outcome :: faults

text \<open>An entry of \<open>os.ReadDir\<close>: its name, whether it is a regular file, the permission bits of its
  mode, \<^const>\<open>None\<close> when \<open>Info\<close> fails.\<close>

record dirent =
  entry_Name :: string
  entry_IsRegular :: bool
  entry_Perm :: "nat option"

text \<open>\<open>0o444\<close>: a read permission for anyone.\<close>

definition readable :: "nat \<Rightarrow> bool" where
  "readable perm \<longleftrightarrow> perm div 4 mod 2 = 1 \<or> perm div 32 mod 2 = 1 \<or> perm div 256 mod 2 = 1"

definition listed :: "dirent \<Rightarrow> string option" where
  "listed entry =
     (case NameFromPath (entry_Name entry) of
        Inl _ \<Rightarrow> None
      | Inr name \<Rightarrow>
          if \<not> entry_IsRegular entry then None
          else case entry_Perm entry of
            None \<Rightarrow> None
          | Some perm \<Rightarrow> if \<not> readable perm then None else Some name)"

definition ListConfigNames :: "dirent list \<Rightarrow> string list" where
  "ListConfigNames files = List.map_filter listed files"

definition LoadFromPath :: "env \<Rightarrow> string \<Rightarrow> fs \<Rightarrow> store_error + Config" where
  "LoadFromPath e path files =
     (case NameFromPath path of
        Inl err \<Rightarrow> Inl err
      | Inr name \<Rightarrow>
          (case read_file files path of
             None \<Rightarrow> Inl FileNotFound
           | Some bytes \<Rightarrow>
               (case (if strings_HasSuffix path configFileSuffix
                      then Decrypt (api e) bytes name else Inr bytes) of
                  Inl err \<Rightarrow> Inl err
                | Inr bytes \<Rightarrow>
                    (case FromWgQuickWithUnknownEncoding (encodings e) bytes name of
                       Inl err \<Rightarrow> Inl (Parse err)
                     | Inr c \<Rightarrow> Inr c))))"

definition LoadFromName :: "env \<Rightarrow> string \<Rightarrow> fs \<Rightarrow> store_error + Config" where
  "LoadFromName e name files =
     (if \<not> TunnelNameIsValid name then Inl InvalidTunnelName
      else LoadFromPath e (filepath_Join (config_dir e) (name @ configFileSuffix)) files)"

definition Save :: "env \<Rightarrow> Config \<Rightarrow> bool \<Rightarrow> fs \<Rightarrow> (store_error + unit) \<times> fs" where
  "Save e config overwrite files =
     (if \<not> TunnelNameIsValid (Name config) then (Inl InvalidTunnelName, files)
      else
        let filename = filepath_Join (config_dir e) (Name config @ configFileSuffix) in
        case Encrypt (api e) (ToWgQuick config) (Name config) of
          Inl err \<Rightarrow> (Inl err, files)
        | Inr bytes \<Rightarrow>
            writeLockedDownFile (outcome e) (filepath_Join (config_dir e) (randomFileName (randBytes e)))
              filename overwrite bytes files)"

definition Path :: "env \<Rightarrow> Config \<Rightarrow> store_error + string" where
  "Path e config =
     (if \<not> TunnelNameIsValid (Name config) then Inl InvalidTunnelName
      else Inr (filepath_Join (config_dir e) (Name config @ configFileSuffix)))"

text \<open>\<open>os.Remove\<close>.\<close>

definition os_Remove :: "string \<Rightarrow> fs \<Rightarrow> (store_error + unit) \<times> fs" where
  "os_Remove path files =
     (if read_file files path = None then (Inl FileNotFound, files)
      else (Inr (), drop_file path files))"

definition DeleteName :: "env \<Rightarrow> string \<Rightarrow> fs \<Rightarrow> (store_error + unit) \<times> fs" where
  "DeleteName e name files =
     (if \<not> TunnelNameIsValid name then (Inl InvalidTunnelName, files)
      else os_Remove (filepath_Join (config_dir e) (name @ configFileSuffix)) files)"

definition Delete :: "env \<Rightarrow> Config \<Rightarrow> fs \<Rightarrow> (store_error + unit) \<times> fs" where
  "Delete e config files = DeleteName e (Name config) files"

section \<open>Migration of unencrypted configurations\<close>

text \<open>One file of the loop: the new file system, and what is reported to the callback.  A file that
  another process holds open cannot be opened; the rescheduling of the migration is a timer and is
  left out.\<close>

definition migrate_file ::
  "env \<Rightarrow> (string \<Rightarrow> bool) \<Rightarrow> dirent \<Rightarrow> fs \<Rightarrow> (string \<times> string \<times> string) option \<times> fs" where
  "migrate_file e shared entry files =
     (let path = filepath_Join (config_dir e) (entry_Name entry);
          name = filepath_Base (entry_Name entry)
      in if length name \<le> length configFileUnencryptedSuffix \<or>
            \<not> strings_HasSuffix name configFileUnencryptedSuffix then (None, files)
         else if \<not> entry_IsRegular entry then (None, files)
         else case entry_Perm entry of
           None \<Rightarrow> (None, files)
         | Some perm \<Rightarrow>
             if \<not> readable perm then (None, files)
             else if shared path then (None, files)
             else (case read_file files path of
               None \<Rightarrow> (None, files)
             | Some bytes \<Rightarrow>
                 (case FromWgQuickWithUnknownEncoding (encodings e) bytes
                         (strings_TrimSuffix name configFileUnencryptedSuffix) of
                    Inl _ \<Rightarrow> (None, files)
                  | Inr config \<Rightarrow>
                      (case Save e config False files of
                         (Inl _, files) \<Rightarrow> (None, files)
                       | (Inr _, files) \<Rightarrow>
                           (case os_Remove path files of
                              (Inl _, files) \<Rightarrow> (None, files)
                            | (Inr _, files) \<Rightarrow>
                                (case Path e config of
                                   Inl _ \<Rightarrow> (None, files)
                                 | Inr newPath \<Rightarrow>
                                     (Some (Name config, path, newPath), files)))))))"

fun migrateUnencryptedConfigs ::
  "env \<Rightarrow> (string \<Rightarrow> bool) \<Rightarrow> dirent list \<Rightarrow> fs \<Rightarrow> (string \<times> string \<times> string) list \<times> fs" where
  "migrateUnencryptedConfigs e shared [] files = ([], files)"
| "migrateUnencryptedConfigs e shared (entry # entries) files =
     (case migrate_file e shared entry files of (r, files') \<Rightarrow>
      case migrateUnencryptedConfigs e shared entries files' of (rs, files'') \<Rightarrow>
        ((case r of None \<Rightarrow> rs | Some x \<Rightarrow> x # rs), files''))"

section \<open>Writing is atomic\<close>

lemma files_simps [simp]:
  "read_file (put_file p c fs) q = (if path_key q = path_key p then Some c else read_file fs q)"
  "read_file (drop_file p fs) q = (if path_key q = path_key p then None else read_file fs q)"
  "drop_file p (put_file p c fs) = drop_file p fs"
  by (auto simp: read_file_def put_file_def drop_file_def)

lemma drop_file_absent: "read_file fs p = None \<Longrightarrow> drop_file p fs = fs"
  by (auto simp: read_file_def drop_file_def)

lemma writeLockedDownFile_cases:
  assumes "path_key tmp \<noteq> path_key dest"
  shows "(\<exists>err. writeLockedDownFile flt tmp dest ow contents fs = (Inl err, fs) \<or>
            writeLockedDownFile flt tmp dest ow contents fs = (Inl err, drop_file tmp fs)) \<or>
         (ow \<or> read_file fs dest = None) \<and> written flt (length contents) = Some (length contents) \<and>
         writeLockedDownFile flt tmp dest ow contents fs = (Inr (), put_file dest contents (drop_file tmp fs))"
proof (cases "written flt (length contents)")
  case None
  then show ?thesis
    by (auto simp: writeLockedDownFile_def Let_def)
next
  case (Some n)
  show ?thesis
  proof (cases "n = length contents")
    case True
    with Some have n: "written flt (length contents) = Some (length contents)" by simp
    show ?thesis
      unfolding writeLockedDownFile_def rename_file_def Let_def n option.case
      using assms by auto
  qed (auto simp: writeLockedDownFile_def Let_def Some)
qed

section \<open>Names and paths\<close>

definition drive_path :: "string \<Rightarrow> bool" where
  "drive_path dir \<longleftrightarrow> 2 \<le> length dir \<and> dir ! 1 = CHR '':''"

lemma valid_name_separators: "TunnelNameIsValid n \<Longrightarrow> c \<in> set n \<Longrightarrow> \<not> IsPathSeparator c"
  using valid_name_chars allowed_name_char_plain(3,4) by (force simp: IsPathSeparator_def backslash_def)

lemma Base_Join:
  assumes "drive_path dir" "s \<noteq> []" "\<forall>c\<in>set s. \<not> IsPathSeparator c"
  shows "filepath_Base (filepath_Join dir s) = s"
proof -
  let ?p = "dir @ backslash # s"
  have "rev s \<noteq> [] \<and> \<not> IsPathSeparator (hd (rev s))" using assms(2,3) by (simp add: hd_rev)
  then have 1: "dropWhile IsPathSeparator (rev ?p) = rev ?p"
    by (cases "rev s") auto
  obtain a b d where dir: "dir = a # b # d" using assms(1)
    by (cases dir; cases "tl dir") (auto simp: drive_path_def)
  then have 2: "volumeNameLen ?p = 2" "drop 2 ?p = d @ backslash # s"
    using assms(1) by (auto simp: volumeNameLen_def drive_path_def)
  have "takeWhile (\<lambda>c. \<not> IsPathSeparator c) (rev s @ backslash # rev d) = rev s"
    using assms(3) by (subst takeWhile_append2) (auto simp: IsPathSeparator_def)
  then show ?thesis
    using assms(2) 1 2 by (simp add: filepath_Base_def filepath_Join_def Let_def)
qed

lemma suffix_separators:
  "\<forall>c\<in>set configFileSuffix. \<not> IsPathSeparator c" "\<forall>c\<in>set configFileUnencryptedSuffix. \<not> IsPathSeparator c"
  by (simp_all add: configFileSuffix_def configFileUnencryptedSuffix_def IsPathSeparator_def backslash_def)

lemma config_file_Base:
  assumes "drive_path dir" "TunnelNameIsValid n"
  shows "filepath_Base (filepath_Join dir (n @ configFileSuffix)) = n @ configFileSuffix"
  using valid_name_separators [OF assms(2)] suffix_separators
  by (intro Base_Join [OF assms(1)]) (auto simp: configFileSuffix_def)

lemma NameFromPath_config_file:
  assumes "drive_path dir" "TunnelNameIsValid n"
  shows "NameFromPath (filepath_Join dir (n @ configFileSuffix)) = Inr n"
proof -
  have "strings_HasSuffix (filepath_Join dir (n @ configFileSuffix)) configFileSuffix"
    by (simp add: filepath_Join_def HasSuffix_iff)
  moreover have "0 < length n" using valid_name_length [OF assms(2)] by simp
  ultimately show ?thesis
    using config_file_Base [OF assms] assms(2) by (simp add: NameFromPath_def)
qed

lemma NameFromPath_valid: "NameFromPath path = Inr n \<Longrightarrow> TunnelNameIsValid n"
  by (auto simp: NameFromPath_def Let_def split: if_splits)

section \<open>Encrypted files\<close>

text \<open>What the documentation of DPAPI promises: unprotecting what was protected gives the data and
  the description back.\<close>

definition dpapi_inverse :: "dpapi \<Rightarrow> bool" where
  "dpapi_inverse d \<longleftrightarrow>
     (\<forall>data name out. protect d data name = Some out \<longrightarrow> unprotect d out = Some (data, Some name))"

lemma different_names_iff:
  "CHR 0x00 \<notin> set s \<Longrightarrow> CHR 0x00 \<notin> set t \<Longrightarrow>
   different_names (s @ [CHR 0x00]) (t @ [CHR 0x00]) \<longleftrightarrow> s \<noteq> t"
proof (induction s arbitrary: t)
  case Nil
  then show ?case by (cases t) auto
next
  case (Cons a s)
  then show ?case by (cases t) auto
qed

lemma valid_name_no_nul: "TunnelNameIsValid n \<Longrightarrow> CHR 0x00 \<notin> set n"
  using valid_name_chars [of n "CHR 0x00"] by (auto simp: allowed_name_char_def)

lemma Decrypt_Encrypt:
  assumes "dpapi_inverse d" "Encrypt d data name = Inr out" "TunnelNameIsValid name" "TunnelNameIsValid n"
  shows "Decrypt d out n = (if n = name then Inr data else Inl NameMismatch)"
  using assms valid_name_no_nul different_names_iff [of name n]
  by (auto simp: Decrypt_def Encrypt_def dpapi_inverse_def split: option.splits)

section \<open>Loading what was saved\<close>

text \<open>The file of a name, and the abstraction of a file system to the configurations that can be
  loaded from it.\<close>

definition config_file :: "env \<Rightarrow> string \<Rightarrow> string" where
  "config_file e n = filepath_Join (config_dir e) (n @ configFileSuffix)"

definition stored :: "env \<Rightarrow> fs \<Rightarrow> string \<Rightarrow> Config option" where
  "stored e files n = (case LoadFromName e n files of Inl _ \<Rightarrow> None | Inr c \<Rightarrow> Some c)"

lemma config_file_key:
  "path_key (config_file e m) = path_key (config_file e n) \<longleftrightarrow> map lower_byte m = map lower_byte n"
  by (simp add: config_file_def filepath_Join_def path_key_def)

lemma config_file_last: "last (path_key (config_file e n)) = CHR ''i''"
  by (simp add: config_file_def filepath_Join_def path_key_def configFileSuffix_def lower_byte_def)

lemma tmp_file_last: "last (path_key (filepath_Join (config_dir e) (randomFileName bs))) = CHR ''p''"
  by (simp add: filepath_Join_def path_key_def randomFileName_def lower_byte_def)

lemma tmp_file_key:
  "path_key (config_file e n) \<noteq> path_key (filepath_Join (config_dir e) (randomFileName bs))"
  using config_file_last [of e n] tmp_file_last [of e bs] by auto

lemma LoadFromName_file:
  assumes "drive_path (config_dir e)" "TunnelNameIsValid n"
  shows "LoadFromName e n files =
    (case read_file files (config_file e n) of
       None \<Rightarrow> Inl FileNotFound
     | Some bytes \<Rightarrow>
         (case Decrypt (api e) bytes n of
            Inl err \<Rightarrow> Inl err
          | Inr bytes \<Rightarrow>
              (case FromWgQuickWithUnknownEncoding (encodings e) bytes n of
                 Inl err \<Rightarrow> Inl (Parse err) | Inr c \<Rightarrow> Inr c)))"
proof -
  have "strings_HasSuffix (config_file e n) configFileSuffix"
    by (simp add: config_file_def filepath_Join_def HasSuffix_iff)
  then show ?thesis
    using NameFromPath_config_file [OF assms] assms(2)
    by (simp add: LoadFromName_def LoadFromPath_def config_file_def cong: option.case_cong)
qed

lemma LoadFromName_invalid: "\<not> TunnelNameIsValid n \<Longrightarrow> stored e files n = None"
  by (simp add: stored_def LoadFromName_def)

lemma stored_cong:
  assumes "drive_path (config_dir e)"
    "TunnelNameIsValid n \<Longrightarrow> read_file files (config_file e n) = read_file files' (config_file e n)"
  shows "stored e files n = stored e files' n"
  using assms LoadFromName_invalid [of n e] LoadFromName_file [OF assms(1)]
  by (cases "TunnelNameIsValid n") (simp_all add: stored_def)

lemma Save_result:
  "(\<exists>err. Save e c ow files = (Inl err, files) \<or>
      Save e c ow files = (Inl err, drop_file (filepath_Join (config_dir e) (randomFileName (randBytes e))) files)) \<or>
   (\<exists>bytes. TunnelNameIsValid (Name c) \<and> (ow \<or> read_file files (config_file e (Name c)) = None) \<and>
      Encrypt (api e) (ToWgQuick c) (Name c) = Inr bytes \<and>
      Save e c ow files = (Inr (), put_file (config_file e (Name c)) bytes
        (drop_file (filepath_Join (config_dir e) (randomFileName (randBytes e))) files)))"
proof (cases "TunnelNameIsValid (Name c)")
  case True
  let ?tmp = "filepath_Join (config_dir e) (randomFileName (randBytes e))"
  have k: "path_key ?tmp \<noteq> path_key (config_file e (Name c))" using tmp_file_key by metis
  show ?thesis
  proof (cases "Encrypt (api e) (ToWgQuick c) (Name c)")
    case (Inr bytes)
    with True have "Save e c ow files =
        writeLockedDownFile (outcome e) ?tmp (config_file e (Name c)) ow bytes files"
      by (simp add: Save_def config_file_def Let_def)
    with writeLockedDownFile_cases [OF k, of "outcome e" ow bytes files] True Inr show ?thesis by auto
  qed (auto simp: Save_def True Let_def)
qed (auto simp: Save_def)

text \<open>A successful save defines the configuration of its name, and hides one whose name differs
  only in case, since the description in the file no longer matches.\<close>

lemma stored_Save:
  assumes "drive_path (config_dir e)" "dpapi_inverse (api e)" "wf_config c"
    "Save e c ow files = (Inr (), files')"
  shows "stored e files' n =
    (if n = Name c then Some c
     else if map lower_byte n = map lower_byte (Name c) then None else stored e files n)"
proof -
  let ?tmp = "filepath_Join (config_dir e) (randomFileName (randBytes e))"
  obtain bytes where b: "TunnelNameIsValid (Name c)" "Encrypt (api e) (ToWgQuick c) (Name c) = Inr bytes"
      "files' = put_file (config_file e (Name c)) bytes (drop_file ?tmp files)"
    using Save_result [of e c ow files] assms(4) by auto
  have load: "FromWgQuickWithUnknownEncoding (encodings e) (ToWgQuick c) (Name c) = Inr c"
    using FromWgQuick_ToWgQuick_wf [OF assms(3)] by (simp add: FromWgQuickWithUnknownEncoding_def)
  show ?thesis
  proof (cases "TunnelNameIsValid n \<and> map lower_byte n = map lower_byte (Name c)")
    case True
    then have "read_file files' (config_file e n) = Some bytes"
      by (simp add: b(3) config_file_key)
    then show ?thesis
      using True load Decrypt_Encrypt [OF assms(2) b(2,1), of n] LoadFromName_file [OF assms(1), of n files']
      by (simp add: stored_def)
  next
    case False
    then have "stored e files' n = stored e files n"
      using tmp_file_key [of e n "randBytes e"]
      by (intro stored_cong [OF assms(1)]) (auto simp: b(3) config_file_key)
    then show ?thesis using False b(1) LoadFromName_invalid [of n e] by auto
  qed
qed

lemma stored_Save_error:
  assumes "drive_path (config_dir e)" "Save e c ow files = (Inl err, files')"
  shows "stored e files' n = stored e files n"
  using Save_result [of e c ow files] assms(2) tmp_file_key [of e n "randBytes e"]
  by (intro stored_cong [OF assms(1)]) auto

lemma stored_DeleteName:
  assumes "drive_path (config_dir e)"
  shows "DeleteName e m files = (Inr (), files') \<Longrightarrow>
      stored e files' n = (if map lower_byte n = map lower_byte m then None else stored e files n)"
    "DeleteName e m files = (Inl err, files') \<Longrightarrow> stored e files' n = stored e files n"
proof -
  assume d: "DeleteName e m files = (Inr (), files')"
  then have f: "files' = drop_file (config_file e m) files"
    by (auto simp: DeleteName_def os_Remove_def config_file_def split: if_splits)
  show "stored e files' n = (if map lower_byte n = map lower_byte m then None else stored e files n)"
  proof (cases "map lower_byte n = map lower_byte m")
    case True
    then have "read_file files' (config_file e n) = None"
      by (simp add: f config_file_key)
    then show ?thesis
      using True LoadFromName_file [OF assms, of n files'] LoadFromName_invalid [of n e files']
      by (cases "TunnelNameIsValid n") (simp_all add: stored_def)
  next
    case False
    then have "stored e files' n = stored e files n"
      by (intro stored_cong [OF assms]) (simp add: f config_file_key)
    with False show ?thesis by simp
  qed
next
  assume "DeleteName e m files = (Inl err, files')"
  then show "stored e files' n = stored e files n"
    by (auto simp: DeleteName_def os_Remove_def split: if_splits)
qed

section \<open>The interface of a store of named configurations\<close>

text \<open>A client sees configurations by name.  Names that agree up to case, \<open>key\<close>, share a place: a
  saved configuration takes it, and is found under its exact name only.\<close>

datatype 'c store_op = OpSave 'c bool | OpDelete string

definition place :: "(string \<Rightarrow> string) \<Rightarrow> string \<Rightarrow> 'c option \<Rightarrow> (string \<Rightarrow> 'c option) \<Rightarrow> string \<Rightarrow> 'c option" where
  "place key n v m = (\<lambda>k. if key k = key n then (if k = n then v else None) else m k)"

fun spec_op :: "(string \<Rightarrow> string) \<Rightarrow> ('c \<Rightarrow> string) \<Rightarrow> 'c store_op \<Rightarrow> bool \<Rightarrow>
    (string \<Rightarrow> 'c option) \<Rightarrow> string \<Rightarrow> 'c option" where
  "spec_op key nm (OpSave c ow) success m = (if success then place key (nm c) (Some c) m else m)"
| "spec_op key nm (OpDelete n) success m = (if success then place key n None m else m)"

text \<open>Running operations in order, with the list of their results.\<close>

fun run_op :: "('c \<Rightarrow> bool \<Rightarrow> 's \<Rightarrow> ('e + unit) \<times> 's) \<Rightarrow> (string \<Rightarrow> 's \<Rightarrow> ('e + unit) \<times> 's) \<Rightarrow>
    'c store_op \<Rightarrow> 's \<Rightarrow> ('e + unit) \<times> 's" where
  "run_op sv dl (OpSave c ow) s = sv c ow s"
| "run_op sv dl (OpDelete n) s = dl n s"

fun run_ops :: "('c \<Rightarrow> bool \<Rightarrow> 's \<Rightarrow> ('e + unit) \<times> 's) \<Rightarrow> (string \<Rightarrow> 's \<Rightarrow> ('e + unit) \<times> 's) \<Rightarrow>
    'c store_op list \<Rightarrow> 's \<Rightarrow> ('e + unit) list \<times> 's" where
  "run_ops sv dl [] s = ([], s)"
| "run_ops sv dl (x # xs) s =
     (case run_op sv dl x s of (r, s') \<Rightarrow>
      case run_ops sv dl xs s' of (rs, s'') \<Rightarrow> (r # rs, s''))"

fun spec_ops :: "(string \<Rightarrow> string) \<Rightarrow> ('c \<Rightarrow> string) \<Rightarrow> 'c store_op list \<Rightarrow> ('e + unit) list \<Rightarrow>
    (string \<Rightarrow> 'c option) \<Rightarrow> string \<Rightarrow> 'c option" where
  "spec_ops key nm (x # xs) (r # rs) m = spec_ops key nm xs rs (spec_op key nm x (\<not> isl r) m)"
| "spec_ops key nm _ _ m = m"

locale config_store =
  fixes key :: "string \<Rightarrow> string" and nm :: "'c \<Rightarrow> string" and ok :: "'c \<Rightarrow> bool"
    and lookup :: "'s \<Rightarrow> string \<Rightarrow> 'c option"
    and sv :: "'c \<Rightarrow> bool \<Rightarrow> 's \<Rightarrow> ('e + unit) \<times> 's"
    and dl :: "string \<Rightarrow> 's \<Rightarrow> ('e + unit) \<times> 's"
  assumes save_ok: "ok c \<Longrightarrow> sv c ow s = (Inr (), s') \<Longrightarrow> lookup s' = place key (nm c) (Some c) (lookup s)"
    and save_error: "sv c ow s = (Inl err, s') \<Longrightarrow> lookup s' = lookup s"
    and delete_ok: "dl n s = (Inr (), s') \<Longrightarrow> lookup s' = place key n None (lookup s)"
    and delete_error: "dl n s = (Inl err, s') \<Longrightarrow> lookup s' = lookup s"
begin

lemma lookup_saved: "ok c \<Longrightarrow> sv c ow s = (Inr (), s') \<Longrightarrow> lookup s' (nm c) = Some c"
  by (simp add: save_ok place_def)

lemma lookup_other: "ok c \<Longrightarrow> sv c ow s = (Inr (), s') \<Longrightarrow> key n \<noteq> key (nm c) \<Longrightarrow> lookup s' n = lookup s n"
  by (simp add: save_ok place_def)

lemma run_op_spec:
  assumes "\<forall>c ow. x = OpSave c ow \<longrightarrow> ok c" "run_op sv dl x s = (r, s')"
  shows "lookup s' = spec_op key nm x (\<not> isl r) (lookup s)"
  using assms
  by (cases x; cases r) (auto simp: save_ok delete_ok dest: save_error delete_error)

lemma run_ops_spec:
  assumes "\<forall>c ow. OpSave c ow \<in> set xs \<longrightarrow> ok c" "run_ops sv dl xs s = (rs, s')"
  shows "lookup s' = spec_ops key nm xs rs (lookup s)"
  using assms
proof (induction xs arbitrary: s rs)
  case (Cons x xs)
  obtain r s1 rs1 where "run_op sv dl x s = (r, s1)" "run_ops sv dl xs s1 = (rs1, s')" "rs = r # rs1"
    using Cons.prems(2) by (auto split: prod.splits)
  moreover have "\<forall>c ow. OpSave c ow \<in> set xs \<longrightarrow> ok c" "\<forall>c ow. x = OpSave c ow \<longrightarrow> ok c"
    using Cons.prems(1) by auto
  ultimately show ?case
    using Cons.IH [of s1 rs1] run_op_spec [of x s r s1] by simp
qed simp

end

text \<open>The environment in which the store works: DPAPI inverts itself, and the configuration
  directory has a drive letter.  Operations of a store that does not do so fail.\<close>

definition good_env :: "env \<Rightarrow> bool" where
  "good_env e \<longleftrightarrow> drive_path (config_dir e) \<and> dpapi_inverse (api e)"

definition guarded :: "env \<Rightarrow> (fs \<Rightarrow> (store_error + unit) \<times> fs) \<Rightarrow> fs \<Rightarrow> (store_error + unit) \<times> fs" where
  "guarded e f files = (if good_env e then f files else (Inl IOError, files))"

interpretation disk: config_store "map lower_byte" Name wf_config "stored e"
  "\<lambda>c ow. guarded e (Save e c ow)" "\<lambda>n. guarded e (DeleteName e n)" for e
proof
  fix c ow s s' assume "wf_config c" and s: "guarded e (Save e c ow) s = (Inr (), s')"
  have "good_env e" using s by (auto simp: guarded_def split: if_splits)
  then show "stored e s' = place (map lower_byte) (Name c) (Some c) (stored e s)"
    using s stored_Save [OF _ _ \<open>wf_config c\<close>, of e ow s s']
    by (auto simp: guarded_def good_env_def place_def)
next
  fix c ow s err s' assume "guarded e (Save e c ow) s = (Inl err, s')"
  then show "stored e s' = stored e s"
    using stored_Save_error [of e c ow s err s']
    by (auto simp: guarded_def good_env_def split: if_splits)
next
  fix n s s' assume d: "guarded e (DeleteName e n) s = (Inr (), s')"
  have "good_env e" using d by (auto simp: guarded_def split: if_splits)
  then show "stored e s' = place (map lower_byte) n None (stored e s)"
    using d stored_DeleteName(1) [of e n s s']
    by (auto simp: guarded_def good_env_def place_def)
next
  fix n s err s' assume "guarded e (DeleteName e n) s = (Inl err, s')"
  then show "stored e s' = stored e s"
    using stored_DeleteName(2) [of e n s err s']
    by (auto simp: guarded_def good_env_def split: if_splits)
qed

section \<open>Migration\<close>

lemma FromWgQuickWithUnknownEncoding_wf:
  assumes "FromWgQuickWithUnknownEncoding decs s name = Inr c"
  shows "wf_config c \<and> Name c = name"
proof -
  have "try_encodings decs s name = Some c \<Longrightarrow> \<exists>d. FromWgQuick d name = Inr c"
    by (induction decs s name rule: try_encodings.induct) (auto split: option.splits sum.splits)
  then obtain d where "FromWgQuick d name = Inr c"
    using assms by (auto simp: FromWgQuickWithUnknownEncoding_def split: sum.splits option.splits)
  then show ?thesis by (rule FromWgQuick_wf)
qed

text \<open>A regular file that is taken in: what is read, saved and removed.\<close>

lemma migrate_file_removes:
  assumes "read_file files p = Some bytes" "read_file files' p = None"
    "p = filepath_Join (config_dir e) (entry_Name entry)" "migrate_file e shared entry files = (r, files')"
    "path_key p \<noteq> path_key (filepath_Join (config_dir e) (randomFileName (randBytes e)))"
  shows "\<exists>c files1. FromWgQuickWithUnknownEncoding (encodings e) bytes
      (strings_TrimSuffix (filepath_Base (entry_Name entry)) configFileUnencryptedSuffix) = Inr c \<and>
    Save e c False files = (Inr (), files1) \<and> files' = drop_file p files1 \<and>
    strings_HasSuffix (filepath_Base (entry_Name entry)) configFileUnencryptedSuffix"
proof -
  let ?n = "strings_TrimSuffix (filepath_Base (entry_Name entry)) configFileUnencryptedSuffix"
  have keep: "read_file f1 p \<noteq> None" if "Save e c ow files = (x, f1)" for c ow x f1
    using Save_result [of e c ow files] that assms(1,5) by (auto split: if_splits)
  have "files' \<noteq> files" using assms(1,2) by auto
  then obtain c where c: "FromWgQuickWithUnknownEncoding (encodings e) bytes ?n = Inr c"
      "strings_HasSuffix (filepath_Base (entry_Name entry)) configFileUnencryptedSuffix"
    using assms(1,3,4) by (auto simp: migrate_file_def Let_def split: if_splits option.splits sum.splits)
  obtain x f1 where s: "Save e c False files = (x, f1)" by (cases "Save e c False files")
  have "read_file f1 p \<noteq> None" by (rule keep [OF s])
  then have "\<exists>u. x = Inr u \<and> files' = drop_file p f1"
    using \<open>files' \<noteq> files\<close> assms(1-4) c s
    by (auto simp: migrate_file_def os_Remove_def Let_def split: if_splits option.splits sum.splits)
  then show ?thesis using c s by auto
qed

section \<open>A sample environment\<close>

text \<open>DPAPI without encryption, which satisfies \<open>dpapi_inverse\<close>: the description, a zero and the
  data.\<close>

definition plain_dpapi :: dpapi where
  "plain_dpapi =
     \<lparr>protect = (\<lambda>data name. if CHR 0x00 \<in> set name then None else Some (name @ CHR 0x00 # data)),
      unprotect = (\<lambda>out. case strings_Cut out (CHR 0x00) of (name, data, found) \<Rightarrow>
         if found then Some (data, Some name) else None)\<rparr>"

definition sample_env :: env where
  "sample_env =
     \<lparr>config_dir = ''C:'', api = plain_dpapi, encodings = [], randBytes = [],
      outcome = \<lparr>descriptor_ok = True, create_ok = True, written = Some, flush_ok = True, rename_ok = True\<rparr>\<rparr>"

definition minimal_config :: Config where
  "minimal_config =
     \<lparr>Name = ''wg0'', config_Interface = zero_Interface, Peers = [], TrailingComments = []\<rparr>"

lemma sample_env_good: "good_env sample_env"
  by (auto simp: good_env_def drive_path_def dpapi_inverse_def sample_env_def plain_dpapi_def
      strings_Cut_append split: if_splits)

lemma sample_name_valid: "TunnelNameIsValid ''wg0''"
  by code_simp

lemma minimal_config_wf: "wf_config minimal_config"
  using sample_name_valid
  by (simp add: wf_config_def minimal_config_def wf_interface_def interface_ok_def interface_present_def
      wf_section_def wf_lines_def raw_comments_def zero_defs script_ok_def KeyLength_def pruned_def
      no_double_blank_def suffix_text_def)

section \<open>Properties\<close>





text \<open>Names and files correspond: the path of a configuration, if it has one, is that of an
  encrypted file whose name is again the configuration's.\<close>

theorem NameFromPath_Path:
  assumes "drive_path (config_dir e)" "Path e c = Inr path"
  shows "NameFromPath path = Inr (Name c) \<and> PathIsEncrypted path"
  using assms NameFromPath_config_file [OF assms(1), of "Name c"] config_file_Base [OF assms(1), of "Name c"]
  by (auto simp: Path_def PathIsEncrypted_def split: if_splits)

theorem NameFromPath_Path_witness:
  "\<exists>path. Path sample_env minimal_config = Inr path \<and> NameFromPath path = Inr ''wg0''"
proof -
  have "drive_path (config_dir sample_env)" using sample_env_good by (simp add: good_env_def)
  moreover have "\<exists>path. Path sample_env minimal_config = Inr path"
    using sample_name_valid by (simp add: Path_def minimal_config_def)
  ultimately show ?thesis
    using NameFromPath_Path [of sample_env minimal_config] by (auto simp: minimal_config_def)
qed

text \<open>C32: migration loses no configuration: an unencrypted file that is gone after the migration of
  its directory entry has been parsed, and its configuration can be loaded from the store.\<close>

theorem migrate_file_keeps_config:
  assumes "good_env e" "migrate_file e shared entry files = (r, files')"
    "path = filepath_Join (config_dir e) (entry_Name entry)"
    "read_file files path = Some bytes" "read_file files' path = None"
    "strings_HasSuffix (path_key path) ''.conf''"
  shows "\<exists>c. FromWgQuickWithUnknownEncoding (encodings e) bytes (Name c) = Inr c \<and>
    stored e files' (Name c) = Some c"
proof -
  have last: "last (path_key path) = CHR ''f''"
    using assms(6) by (auto simp: HasSuffix_iff)
  have "path_key path \<noteq> path_key (filepath_Join (config_dir e) (randomFileName (randBytes e)))"
    using last tmp_file_last [of e "randBytes e"] by auto
  from migrate_file_removes [OF assms(4,5,3,2) this] obtain c files1 where c:
    "FromWgQuickWithUnknownEncoding (encodings e) bytes
      (strings_TrimSuffix (filepath_Base (entry_Name entry)) configFileUnencryptedSuffix) = Inr c"
    "Save e c False files = (Inr (), files1)" "files' = drop_file path files1" by blast
  note wf = FromWgQuickWithUnknownEncoding_wf [OF c(1)]
  have "path_key (config_file e (Name c)) \<noteq> path_key path"
    using last config_file_last [of e "Name c"] by auto
  then have "stored e files' (Name c) = stored e files1 (Name c)"
    using assms(1) by (intro stored_cong) (simp_all add: c(3) good_env_def)
  also have "\<dots> = Some c"
    using stored_Save [OF _ _ _ c(2)] assms(1) wf by (simp add: good_env_def)
  finally show ?thesis using c(1) wf by (intro exI [of _ c]) simp
qed

definition plain_file :: fs where
  "plain_file = put_file (filepath_Join ''C:'' ''wg0.conf'') (ToWgQuick minimal_config) Map.empty"

theorem migrate_file_keeps_config_witness:
  "\<exists>c. stored sample_env (snd (migrate_file sample_env (\<lambda>_. False)
     \<lparr>entry_Name = ''wg0.conf'', entry_IsRegular = True, entry_Perm = Some 256\<rparr> plain_file)) (Name c) = Some c"
proof -
  let ?entry = "\<lparr>entry_Name = ''wg0.conf'', entry_IsRegular = True, entry_Perm = Some 256\<rparr>"
  let ?path = "filepath_Join (config_dir sample_env) (entry_Name ?entry)"
  let ?m = "migrate_file sample_env (\<lambda>_. False) ?entry plain_file"
  have "read_file plain_file ?path = Some (ToWgQuick minimal_config)" by code_simp
  moreover have "read_file (snd ?m) ?path = None" by code_simp
  moreover have "strings_HasSuffix (path_key ?path) ''.conf''" by code_simp
  ultimately show ?thesis
    using migrate_file_keeps_config [OF sample_env_good prod.collapse [of ?m, symmetric] refl] by blast
qed

end
