(* ===== verification/Firewall_Types.thy ===== *)
theory Firewall_Types
  imports Go_Netip
begin

text \<open>
  The data of the Windows Filtering Platform as package \<open>tunnel/firewall\<close> declares it
  (\<open>types_windows.go\<close>, \<open>types_windows_64.go\<close>): the keys of layers and conditions, the values of
  conditions, filters and sessions.  A \<open>wtFwpValue0\<close> is a tag and a machine word that holds a small
  number or points to the value; here it is the tagged value.  The tags no filter uses are left out.
  The engine itself (\<open>fwpuclnt.dll\<close>) and the process the filters are installed by are parameters: the
  records \<open>wfp\<close> and \<open>process\<close> hold the calls the package makes.
\<close>

section \<open>Keys\<close>

record GUID =
  Data1 :: u32
  Data2 :: u16
  Data3 :: u16
  Data4 :: "byte list"

definition cFWPM_CONDITION_IP_LOCAL_INTERFACE :: GUID where
  "cFWPM_CONDITION_IP_LOCAL_INTERFACE = \<lparr>Data1 = 0x4cd62a49, Data2 = 0x59c3, Data3 = 0x4969,
     Data4 = [0xb7, 0xf3, 0xbd, 0xa5, 0xd3, 0x28, 0x90, 0xa4]\<rparr>"

definition cFWPM_CONDITION_IP_REMOTE_ADDRESS :: GUID where
  "cFWPM_CONDITION_IP_REMOTE_ADDRESS = \<lparr>Data1 = 0xb235ae9a, Data2 = 0x1d64, Data3 = 0x49b8,
     Data4 = [0xa4, 0x4c, 0x5f, 0xf3, 0xd9, 0x09, 0x50, 0x45]\<rparr>"

definition cFWPM_CONDITION_IP_PROTOCOL :: GUID where
  "cFWPM_CONDITION_IP_PROTOCOL = \<lparr>Data1 = 0x3971ef2b, Data2 = 0x623e, Data3 = 0x4f9a,
     Data4 = [0x8c, 0xb1, 0x6e, 0x79, 0xb8, 0x06, 0xb9, 0xa7]\<rparr>"

definition cFWPM_CONDITION_IP_LOCAL_PORT :: GUID where
  "cFWPM_CONDITION_IP_LOCAL_PORT = \<lparr>Data1 = 0x0c1ba1af, Data2 = 0x5765, Data3 = 0x453f,
     Data4 = [0xaf, 0x22, 0xa8, 0xf7, 0x91, 0xac, 0x77, 0x5b]\<rparr>"

definition cFWPM_CONDITION_IP_REMOTE_PORT :: GUID where
  "cFWPM_CONDITION_IP_REMOTE_PORT = \<lparr>Data1 = 0xc35a604d, Data2 = 0xd22b, Data3 = 0x4e1a,
     Data4 = [0x91, 0xb4, 0x68, 0xf6, 0x74, 0xee, 0x67, 0x4b]\<rparr>"

definition cFWPM_CONDITION_ALE_APP_ID :: GUID where
  "cFWPM_CONDITION_ALE_APP_ID = \<lparr>Data1 = 0xd78e1e87, Data2 = 0x8644, Data3 = 0x4ea5,
     Data4 = [0x94, 0x37, 0xd8, 0x09, 0xec, 0xef, 0xc9, 0x71]\<rparr>"

definition cFWPM_CONDITION_ALE_USER_ID :: GUID where
  "cFWPM_CONDITION_ALE_USER_ID = \<lparr>Data1 = 0xaf043a0a, Data2 = 0xb34d, Data3 = 0x4f86,
     Data4 = [0x97, 0x9c, 0xc9, 0x03, 0x71, 0xaf, 0x6e, 0x66]\<rparr>"

definition cFWPM_CONDITION_IP_LOCAL_ADDRESS :: GUID where
  "cFWPM_CONDITION_IP_LOCAL_ADDRESS = \<lparr>Data1 = 0xd9ee00de, Data2 = 0xc1ef, Data3 = 0x4617,
     Data4 = [0xbf, 0xe3, 0xff, 0xd8, 0xf5, 0xa0, 0x89, 0x57]\<rparr>"

text \<open>Two condition keys are other names of the port keys.\<close>

definition cFWPM_CONDITION_ICMP_TYPE :: GUID where
  "cFWPM_CONDITION_ICMP_TYPE = cFWPM_CONDITION_IP_LOCAL_PORT"

definition cFWPM_CONDITION_ICMP_CODE :: GUID where
  "cFWPM_CONDITION_ICMP_CODE = cFWPM_CONDITION_IP_REMOTE_PORT"

definition cFWPM_CONDITION_L2_FLAGS :: GUID where
  "cFWPM_CONDITION_L2_FLAGS = \<lparr>Data1 = 0x7bc43cbf, Data2 = 0x37ba, Data3 = 0x45f1,
     Data4 = [0xb7, 0x4a, 0x82, 0xff, 0x51, 0x8e, 0xeb, 0x10]\<rparr>"

definition cFWPM_CONDITION_FLAGS :: GUID where
  "cFWPM_CONDITION_FLAGS = \<lparr>Data1 = 0x632ce23b, Data2 = 0x5167, Data3 = 0x435c,
     Data4 = [0x86, 0xd7, 0xe9, 0x03, 0x68, 0x4a, 0xa8, 0x0c]\<rparr>"

definition cFWPM_LAYER_ALE_AUTH_CONNECT_V4 :: GUID where
  "cFWPM_LAYER_ALE_AUTH_CONNECT_V4 = \<lparr>Data1 = 0xc38d57d1, Data2 = 0x05a7, Data3 = 0x4c33,
     Data4 = [0x90, 0x4f, 0x7f, 0xbc, 0xee, 0xe6, 0x0e, 0x82]\<rparr>"

definition cFWPM_LAYER_ALE_AUTH_RECV_ACCEPT_V4 :: GUID where
  "cFWPM_LAYER_ALE_AUTH_RECV_ACCEPT_V4 = \<lparr>Data1 = 0xe1cd9fe7, Data2 = 0xf4b5, Data3 = 0x4273,
     Data4 = [0x96, 0xc0, 0x59, 0x2e, 0x48, 0x7b, 0x86, 0x50]\<rparr>"

definition cFWPM_LAYER_ALE_AUTH_CONNECT_V6 :: GUID where
  "cFWPM_LAYER_ALE_AUTH_CONNECT_V6 = \<lparr>Data1 = 0x4a72393b, Data2 = 0x319f, Data3 = 0x44bc,
     Data4 = [0x84, 0xc3, 0xba, 0x54, 0xdc, 0xb3, 0xb6, 0xb4]\<rparr>"

definition cFWPM_LAYER_ALE_AUTH_RECV_ACCEPT_V6 :: GUID where
  "cFWPM_LAYER_ALE_AUTH_RECV_ACCEPT_V6 = \<lparr>Data1 = 0xa3b42c97, Data2 = 0x9f04, Data3 = 0x4672,
     Data4 = [0xb8, 0x7e, 0xce, 0xe9, 0xc4, 0x83, 0x25, 0x7f]\<rparr>"

definition cFWPM_LAYER_OUTBOUND_MAC_FRAME_NATIVE :: GUID where
  "cFWPM_LAYER_OUTBOUND_MAC_FRAME_NATIVE = \<lparr>Data1 = 0x94c44912, Data2 = 0x9d6f, Data3 = 0x4ebf,
     Data4 = [0xb9, 0x95, 0x05, 0xab, 0x8a, 0x08, 0x8d, 0x1b]\<rparr>"

definition cFWPM_LAYER_INBOUND_MAC_FRAME_NATIVE :: GUID where
  "cFWPM_LAYER_INBOUND_MAC_FRAME_NATIVE = \<lparr>Data1 = 0xd4220bd3, Data2 = 0x62ce, Data3 = 0x4f08,
     Data4 = [0xae, 0x88, 0xb5, 0x6e, 0x85, 0x26, 0xdf, 0x50]\<rparr>"

lemmas guid_defs =
  cFWPM_CONDITION_IP_LOCAL_INTERFACE_def
  cFWPM_CONDITION_IP_REMOTE_ADDRESS_def
  cFWPM_CONDITION_IP_PROTOCOL_def
  cFWPM_CONDITION_IP_LOCAL_PORT_def
  cFWPM_CONDITION_IP_REMOTE_PORT_def
  cFWPM_CONDITION_ALE_APP_ID_def
  cFWPM_CONDITION_ALE_USER_ID_def
  cFWPM_CONDITION_IP_LOCAL_ADDRESS_def
  cFWPM_CONDITION_ICMP_TYPE_def
  cFWPM_CONDITION_ICMP_CODE_def
  cFWPM_CONDITION_L2_FLAGS_def
  cFWPM_CONDITION_FLAGS_def
  cFWPM_LAYER_ALE_AUTH_CONNECT_V4_def
  cFWPM_LAYER_ALE_AUTH_RECV_ACCEPT_V4_def
  cFWPM_LAYER_ALE_AUTH_CONNECT_V6_def
  cFWPM_LAYER_ALE_AUTH_RECV_ACCEPT_V6_def
  cFWPM_LAYER_OUTBOUND_MAC_FRAME_NATIVE_def
  cFWPM_LAYER_INBOUND_MAC_FRAME_NATIVE_def

text \<open>The keys are different from each other, except for the two names of the port keys.\<close>

lemma layer_keys_distinct:
  "distinct [cFWPM_LAYER_ALE_AUTH_CONNECT_V4, cFWPM_LAYER_ALE_AUTH_RECV_ACCEPT_V4,
     cFWPM_LAYER_ALE_AUTH_CONNECT_V6, cFWPM_LAYER_ALE_AUTH_RECV_ACCEPT_V6,
     cFWPM_LAYER_OUTBOUND_MAC_FRAME_NATIVE, cFWPM_LAYER_INBOUND_MAC_FRAME_NATIVE]"
  by (simp add: guid_defs)

lemma condition_keys_distinct:
  "distinct [cFWPM_CONDITION_IP_LOCAL_INTERFACE, cFWPM_CONDITION_IP_REMOTE_ADDRESS,
     cFWPM_CONDITION_IP_PROTOCOL, cFWPM_CONDITION_IP_LOCAL_PORT, cFWPM_CONDITION_IP_REMOTE_PORT,
     cFWPM_CONDITION_ALE_APP_ID, cFWPM_CONDITION_ALE_USER_ID, cFWPM_CONDITION_IP_LOCAL_ADDRESS,
     cFWPM_CONDITION_L2_FLAGS, cFWPM_CONDITION_FLAGS]"
  by (simp add: guid_defs)

section \<open>Values and conditions\<close>

datatype wtFwpMatchType =
    cFWP_MATCH_EQUAL | cFWP_MATCH_GREATER | cFWP_MATCH_LESS | cFWP_MATCH_GREATER_OR_EQUAL
  | cFWP_MATCH_LESS_OR_EQUAL | cFWP_MATCH_RANGE | cFWP_MATCH_FLAGS_ALL_SET | cFWP_MATCH_FLAGS_ANY_SET
  | cFWP_MATCH_FLAGS_NONE_SET | cFWP_MATCH_EQUAL_CASE_INSENSITIVE | cFWP_MATCH_NOT_EQUAL
  | cFWP_MATCH_PREFIX | cFWP_MATCH_NOT_PREFIX | cFWP_MATCH_TYPE_MAX

datatype wtFwpActionType =
    cFWP_ACTION_BLOCK | cFWP_ACTION_PERMIT | cFWP_ACTION_CALLOUT_TERMINATING
  | cFWP_ACTION_CALLOUT_INSPECTION | cFWP_ACTION_CALLOUT_UNKNOWN | cFWP_ACTION_CONTINUE
  | cFWP_ACTION_NONE | cFWP_ACTION_NONE_NO_MATCH | cFWP_ACTION_BITMAP_INDEX_SET

record wtFwpV6AddrAndMask =
  v6_addr :: "byte list"
  prefixLength :: byte

datatype wtFwpValue0 =
    cFWP_EMPTY
  | cFWP_UINT8 byte
  | cFWP_UINT16 u16
  | cFWP_UINT32 u32
  | cFWP_UINT64 u64
  | cFWP_BYTE_ARRAY16_TYPE "byte list"
  | cFWP_BYTE_BLOB_TYPE "byte list"
  | cFWP_SECURITY_DESCRIPTOR_TYPE "byte list"
  | cFWP_V6_ADDR_MASK wtFwpV6AddrAndMask

record wtFwpmFilterCondition0 =
  fieldKey :: GUID
  matchType :: wtFwpMatchType
  conditionValue :: wtFwpValue0

definition cFWP_CONDITION_L2_IS_VM2VM :: u32 where
  "cFWP_CONDITION_L2_IS_VM2VM = 0x00000010"

definition cFWP_CONDITION_FLAG_IS_LOOPBACK :: u32 where
  "cFWP_CONDITION_FLAG_IS_LOOPBACK = 0x00000001"

definition cIPPROTO_ICMPV6 :: byte where "cIPPROTO_ICMPV6 = 58"

definition cIPPROTO_TCP :: byte where "cIPPROTO_TCP = 6"

definition cIPPROTO_UDP :: byte where "cIPPROTO_UDP = 17"

definition cFWP_ACTRL_MATCH_FILTER :: u32 where "cFWP_ACTRL_MATCH_FILTER = 1"

section \<open>Filters, sublayers, providers and sessions\<close>

text \<open>The flags a filter may have.  The fields that no caller sets (\<open>filterKey\<close>, \<open>providerData\<close> and
  those the engine fills in) are left out.\<close>

definition cFWPM_FILTER_FLAG_NONE :: u32 where "cFWPM_FILTER_FLAG_NONE = 0x00000000"

definition cFWPM_FILTER_FLAG_CLEAR_ACTION_RIGHT :: u32 where
  "cFWPM_FILTER_FLAG_CLEAR_ACTION_RIGHT = 0x00000008"

definition cFWPM_SESSION_FLAG_DYNAMIC :: u32 where "cFWPM_SESSION_FLAG_DYNAMIC = 0x00000001"

record wtFwpmDisplayData0 =
  display_name :: string
  display_description :: string

record wtFwpmFilter0 =
  displayData :: wtFwpmDisplayData0
  flags :: u32
  providerKey :: "GUID option"
  layerKey :: GUID
  subLayerKey :: GUID
  weight :: wtFwpValue0
  numFilterConditions :: u32
  filterCondition :: "wtFwpmFilterCondition0 list"
  action :: wtFwpActionType

record wtFwpmSession0 =
  session_displayData :: wtFwpmDisplayData0
  session_flags :: u32
  txnWaitTimeoutInMSec :: u32

record wtFwpmSublayer0 =
  sublayer_subLayerKey :: GUID
  sublayer_displayData :: wtFwpmDisplayData0
  sublayer_providerKey :: "GUID option"
  sublayer_weight :: u16

record wtFwpmProvider0 =
  provider_providerKey :: GUID
  provider_displayData :: wtFwpmDisplayData0

text \<open>The zero values of Go.\<close>

definition zero_GUID :: GUID where
  "zero_GUID = \<lparr>Data1 = 0, Data2 = 0, Data3 = 0, Data4 = replicate 8 0\<rparr>"

definition zero_filter :: wtFwpmFilter0 where
  "zero_filter =
     \<lparr>displayData = \<lparr>display_name = [], display_description = []\<rparr>, flags = 0, providerKey = None,
      layerKey = zero_GUID, subLayerKey = zero_GUID, weight = cFWP_EMPTY, numFilterConditions = 0,
      filterCondition = [], action = cFWP_ACTION_NONE\<rparr>"

section \<open>The calls into Windows\<close>

text \<open>The calls of \<open>syscall_windows.go\<close>: each takes the state of the engine and returns the error
  number or the result, and the new state.  A session is a handle.\<close>

record 's wfp =
  fwpmEngineOpen0 :: "wtFwpmSession0 \<Rightarrow> 's \<Rightarrow> (nat + nat) \<times> 's"
  fwpmEngineClose0 :: "nat \<Rightarrow> 's \<Rightarrow> (nat + unit) \<times> 's"
  fwpmSubLayerAdd0 :: "nat \<Rightarrow> wtFwpmSublayer0 \<Rightarrow> 's \<Rightarrow> (nat + unit) \<times> 's"
  fwpmProviderAdd0 :: "nat \<Rightarrow> wtFwpmProvider0 \<Rightarrow> 's \<Rightarrow> (nat + unit) \<times> 's"
  fwpmFilterAdd0 :: "nat \<Rightarrow> wtFwpmFilter0 \<Rightarrow> 's \<Rightarrow> (nat + unit) \<times> 's"
  fwpmTransactionBegin0 :: "nat \<Rightarrow> 's \<Rightarrow> (nat + unit) \<times> 's"
  fwpmTransactionCommit0 :: "nat \<Rightarrow> 's \<Rightarrow> (nat + unit) \<times> 's"
  fwpmTransactionAbort0 :: "nat \<Rightarrow> 's \<Rightarrow> (nat + unit) \<times> 's"

text \<open>The process: its token's groups, the calls that build a security descriptor, its executable,
  and the two GUIDs it generates.  A security identifier that is valid has its authority and its
  sub-authorities.\<close>

record SID =
  sid_IsValid :: bool
  IdentifierAuthority :: "byte list"
  SubAuthorities :: "u32 list"

record SIDAndAttributes =
  Sid :: SID
  Attributes :: u32

datatype access_mode = GRANT_ACCESS | SET_ACCESS | DENY_ACCESS | REVOKE_ACCESS

record EXPLICIT_ACCESS =
  AccessPermissions :: u32
  AccessMode :: access_mode
  TrusteeIsGroup :: bool
  TrusteeValue :: SID

record process =
  OpenProcessToken :: "nat + unit"
  GetTokenGroups :: "nat + SIDAndAttributes list"
  ACLFromEntries :: "EXPLICIT_ACCESS list \<Rightarrow> nat + byte list"
  NewSecurityDescriptor :: "nat + byte list"
  SetDACL :: "byte list \<Rightarrow> byte list \<Rightarrow> nat + byte list"
  ToSelfRelative :: "byte list \<Rightarrow> nat + byte list"
  os_Executable :: "nat + string"
  fwpmGetAppIdFromFileName0 :: "string \<Rightarrow> nat + byte list"
  GenerateGUID :: "nat \<Rightarrow> nat + GUID"

definition SECURITY_NT_AUTHORITY :: "byte list" where
  "SECURITY_NT_AUTHORITY = [0, 0, 0, 0, 0, 5]"

definition SE_GROUP_ENABLED_BY_DEFAULT :: u32 where "SE_GROUP_ENABLED_BY_DEFAULT = 2"

definition SE_GROUP_ENABLED :: u32 where "SE_GROUP_ENABLED = 4"

definition SE_GROUP_OWNER :: u32 where "SE_GROUP_OWNER = 8"

definition ERROR_NO_SUCH_GROUP :: nat where "ERROR_NO_SUCH_GROUP = 1319"

end
