(* ===== verification/Firewall.thy ===== *)
theory Firewall
  imports Firewall_Types
begin

text \<open>
  Package \<open>tunnel/firewall\<close>: the helpers (\<open>helpers.go\<close>), the rules (\<open>rules.go\<close>) and the switch
  (\<open>blocker.go\<close>).  Every function that talks to the filtering engine is a function of the engine's
  state.  The Go functions are sequences of calls, each followed by a return of its error: \<open>run_all\<close>
  runs such a sequence.  The engine's behaviour is the locale \<open>wfp_engine\<close> (transactions) and the
  locale \<open>wfp_arbitration\<close> (which filter decides), both as documented for the platform; the theorems
  say what traffic the rules let through and that enabling the firewall is all or nothing.
\<close>

section \<open>Helpers\<close>

text \<open>Errors: an error number of Windows, one that carries the place it occurred at (which is
  left out), or a text.\<close>

datatype fw_error = Errno nat | FirewallError nat | OtherError string

fun wrapErr :: "fw_error \<Rightarrow> fw_error" where
  "wrapErr (Errno n) = FirewallError n"
| "wrapErr err = err"

type_synonym 's op = "'s \<Rightarrow> (fw_error + unit) \<times> 's"

text \<open>A call of Windows with its error wrapped.\<close>

definition call :: "('s \<Rightarrow> (nat + unit) \<times> 's) \<Rightarrow> 's op" where
  "call f s = (case f s of (Inl n, s') \<Rightarrow> (Inl (wrapErr (Errno n)), s') | (Inr _, s') \<Rightarrow> (Inr (), s'))"

text \<open>\<open>err = f(); if err != nil { return wrapErr(err) }\<close>, one after the other.\<close>

fun run_all :: "'s op list \<Rightarrow> 's op" where
  "run_all [] s = (Inr (), s)"
| "run_all (f # fs) s =
     (case f s of (Inl err, s') \<Rightarrow> (Inl (wrapErr err), s') | (Inr _, s') \<Rightarrow> run_all fs s')"

definition runTransaction :: "'s wfp \<Rightarrow> nat \<Rightarrow> 's op \<Rightarrow> 's op" where
  "runTransaction w session operation s =
     (case call (fwpmTransactionBegin0 w session) s of
        (Inl err, s) \<Rightarrow> (Inl (wrapErr err), s)
      | (Inr _, s) \<Rightarrow>
          (case operation s of
             (Inl err, s) \<Rightarrow> (Inl (wrapErr err), snd (fwpmTransactionAbort0 w session s))
           | (Inr _, s) \<Rightarrow>
               (case call (fwpmTransactionCommit0 w session) s of
                  (Inl err, s) \<Rightarrow> (Inl (wrapErr err), snd (fwpmTransactionAbort0 w session s))
                | (Inr _, s) \<Rightarrow> (Inr (), s))))"

text \<open>\<open>windows.UTF16PtrFromString\<close> refuses a string with a zero byte (\<open>EINVAL\<close>).\<close>

definition createWtFwpmDisplayData0 :: "string \<Rightarrow> string \<Rightarrow> fw_error + wtFwpmDisplayData0" where
  "createWtFwpmDisplayData0 name description =
     (if CHR 0x00 \<in> set name \<or> CHR 0x00 \<in> set description then Inl (wrapErr (Errno 22))
      else Inr \<lparr>display_name = name, display_description = description\<rparr>)"

definition filterWeight :: "byte \<Rightarrow> wtFwpValue0" where
  "filterWeight w = cFWP_UINT8 w"

text \<open>The first group of the token that is the enabled owner and a service (\<open>S-1-5-80-\<close>\dots).\<close>

definition is_service_group :: "SIDAndAttributes \<Rightarrow> bool" where
  "is_service_group g \<longleftrightarrow>
     Attributes g = SE_GROUP_ENABLED OR SE_GROUP_ENABLED_BY_DEFAULT OR SE_GROUP_OWNER \<and>
     \<not> (\<not> sid_IsValid (Sid g) \<or> IdentifierAuthority (Sid g) \<noteq> SECURITY_NT_AUTHORITY \<or>
        length (SubAuthorities (Sid g)) < 6 \<or> SubAuthorities (Sid g) ! 0 \<noteq> 80)"

definition getCurrentProcessSecurityDescriptor :: "process \<Rightarrow> fw_error + byte list" where
  "getCurrentProcessSecurityDescriptor p =
     (case OpenProcessToken p of
        Inl n \<Rightarrow> Inl (wrapErr (Errno n))
      | Inr _ \<Rightarrow>
     (case GetTokenGroups p of
        Inl n \<Rightarrow> Inl (wrapErr (Errno n))
      | Inr gs \<Rightarrow>
     (case List.find is_service_group gs of
        None \<Rightarrow> Inl (wrapErr (Errno ERROR_NO_SUCH_GROUP))
      | Some g \<Rightarrow>
     (case ACLFromEntries p [\<lparr>AccessPermissions = cFWP_ACTRL_MATCH_FILTER, AccessMode = GRANT_ACCESS,
             TrusteeIsGroup = True, TrusteeValue = Sid g\<rparr>] of
        Inl n \<Rightarrow> Inl (wrapErr (Errno n))
      | Inr dacl \<Rightarrow>
     (case NewSecurityDescriptor p of
        Inl n \<Rightarrow> Inl (wrapErr (Errno n))
      | Inr sd \<Rightarrow>
     (case SetDACL p sd dacl of
        Inl n \<Rightarrow> Inl (wrapErr (Errno n))
      | Inr sd \<Rightarrow>
     (case ToSelfRelative p sd of
        Inl n \<Rightarrow> Inl (wrapErr (Errno n))
      | Inr sd \<Rightarrow> Inr sd)))))))"

definition getCurrentProcessAppID :: "process \<Rightarrow> fw_error + byte list" where
  "getCurrentProcessAppID p =
     (case os_Executable p of
        Inl n \<Rightarrow> Inl (wrapErr (Errno n))
      | Inr currentFile \<Rightarrow>
          if CHR 0x00 \<in> set currentFile then Inl (wrapErr (Errno 22))
          else
            (case fwpmGetAppIdFromFileName0 p currentFile of
               Inl n \<Rightarrow> Inl (wrapErr (Errno n))
             | Inr appID \<Rightarrow> Inr appID))"

section \<open>Rules\<close>

record baseObjects =
  provider :: GUID
  filters :: GUID

definition linkLocal :: wtFwpV6AddrAndMask where
  "linkLocal = \<lparr>v6_addr = [0xfe, 0x80, 0, 0, 0, 0, 0, 0, 0, 0, 0, 0, 0, 0, 0, 0], prefixLength = 10\<rparr>"

definition linkLocalDHCPMulticast :: "byte list" where
  "linkLocalDHCPMulticast = [0xFF, 0x02, 0, 0, 0, 0, 0, 0, 0, 0, 0, 0, 0, 0x1, 0, 0x2]"

definition siteLocalDHCPMulticast :: "byte list" where
  "siteLocalDHCPMulticast = [0xFF, 0x05, 0, 0, 0, 0, 0, 0, 0, 0, 0, 0, 0, 0x1, 0, 0x3]"

definition linkLocalRouterMulticast :: "byte list" where
  "linkLocalRouterMulticast = [0xFF, 0x02, 0, 0, 0, 0, 0, 0, 0, 0, 0, 0, 0, 0, 0, 0x2]"

text \<open>The condition that a field equals a value; nearly every condition is one.\<close>

abbreviation field_is :: "GUID \<Rightarrow> wtFwpValue0 \<Rightarrow> wtFwpmFilterCondition0" where
  "field_is key v \<equiv> \<lparr>fieldKey = key, matchType = cFWP_MATCH_EQUAL, conditionValue = v\<rparr>"

text \<open>A filter with its conditions, and the block that names it, sets its layer and adds it.\<close>

definition filter_of :: "baseObjects \<Rightarrow> byte \<Rightarrow> wtFwpmFilterCondition0 list \<Rightarrow> wtFwpActionType \<Rightarrow>
    wtFwpmFilter0" where
  "filter_of bo wt conditions act =
     zero_filter \<lparr>providerKey := Some (provider bo), subLayerKey := filters bo,
       weight := filterWeight wt, numFilterConditions := of_nat (length conditions),
       filterCondition := conditions, action := act\<rparr>"

definition add_filter :: "'s wfp \<Rightarrow> nat \<Rightarrow> wtFwpmFilter0 \<Rightarrow> string \<Rightarrow> GUID \<Rightarrow> 's op" where
  "add_filter w session fltr name layer s =
     (case createWtFwpmDisplayData0 name [] of
        Inl err \<Rightarrow> (Inl (wrapErr err), s)
      | Inr dd \<Rightarrow> call (fwpmFilterAdd0 w session (fltr \<lparr>displayData := dd, layerKey := layer\<rparr>)) s)"

definition permitTunInterface :: "'s wfp \<Rightarrow> nat \<Rightarrow> baseObjects \<Rightarrow> byte \<Rightarrow> u64 \<Rightarrow> 's op" where
  "permitTunInterface w session bo wt ifLUID =
     (let fltr = filter_of bo wt [field_is cFWPM_CONDITION_IP_LOCAL_INTERFACE (cFWP_UINT64 ifLUID)]
                   cFWP_ACTION_PERMIT
      in run_all [
       add_filter w session fltr ''Permit outbound IPv4 traffic on TUN'' cFWPM_LAYER_ALE_AUTH_CONNECT_V4,
       add_filter w session fltr ''Permit inbound IPv4 traffic on TUN'' cFWPM_LAYER_ALE_AUTH_RECV_ACCEPT_V4,
       add_filter w session fltr ''Permit outbound IPv6 traffic on TUN'' cFWPM_LAYER_ALE_AUTH_CONNECT_V6,
       add_filter w session fltr ''Permit inbound IPv6 traffic on TUN'' cFWPM_LAYER_ALE_AUTH_RECV_ACCEPT_V6])"

definition permitWireGuardService :: "process \<Rightarrow> 's wfp \<Rightarrow> nat \<Rightarrow> baseObjects \<Rightarrow> byte \<Rightarrow> 's op" where
  "permitWireGuardService p w session bo wt s =
     (case getCurrentProcessAppID p of
        Inl err \<Rightarrow> (Inl (wrapErr err), s)
      | Inr appID \<Rightarrow>
     (case getCurrentProcessSecurityDescriptor p of
        Inl err \<Rightarrow> (Inl (wrapErr err), s)
      | Inr sd \<Rightarrow>
     (let fltr = (filter_of bo wt
            [field_is cFWPM_CONDITION_ALE_APP_ID (cFWP_BYTE_BLOB_TYPE appID),
             field_is cFWPM_CONDITION_ALE_USER_ID (cFWP_SECURITY_DESCRIPTOR_TYPE sd)]
            cFWP_ACTION_PERMIT) \<lparr>flags := cFWPM_FILTER_FLAG_CLEAR_ACTION_RIGHT\<rparr>
      in run_all [
         add_filter w session fltr ''Permit unrestricted outbound traffic for WireGuard service (IPv4)'' cFWPM_LAYER_ALE_AUTH_CONNECT_V4,
         add_filter w session fltr ''Permit unrestricted inbound traffic for WireGuard service (IPv4)'' cFWPM_LAYER_ALE_AUTH_RECV_ACCEPT_V4,
         add_filter w session fltr ''Permit unrestricted outbound traffic for WireGuard service (IPv6)'' cFWPM_LAYER_ALE_AUTH_CONNECT_V6,
         add_filter w session fltr ''Permit unrestricted inbound traffic for WireGuard service (IPv6)'' cFWPM_LAYER_ALE_AUTH_RECV_ACCEPT_V6] s)))"

definition permitLoopback :: "'s wfp \<Rightarrow> nat \<Rightarrow> baseObjects \<Rightarrow> byte \<Rightarrow> 's op" where
  "permitLoopback w session bo wt =
     (let fltr = filter_of bo wt
            [\<lparr>fieldKey = cFWPM_CONDITION_FLAGS, matchType = cFWP_MATCH_FLAGS_ALL_SET,
              conditionValue = cFWP_UINT32 cFWP_CONDITION_FLAG_IS_LOOPBACK\<rparr>] cFWP_ACTION_PERMIT
      in run_all [
       add_filter w session fltr ''Permit outbound on loopback (IPv4)'' cFWPM_LAYER_ALE_AUTH_CONNECT_V4,
       add_filter w session fltr ''Permit inbound on loopback (IPv4)'' cFWPM_LAYER_ALE_AUTH_RECV_ACCEPT_V4,
       add_filter w session fltr ''Permit outbound on loopback (IPv6)'' cFWPM_LAYER_ALE_AUTH_CONNECT_V6,
       add_filter w session fltr ''Permit inbound on loopback (IPv6)'' cFWPM_LAYER_ALE_AUTH_RECV_ACCEPT_V6])"

definition permitDHCPIPv4 :: "'s wfp \<Rightarrow> nat \<Rightarrow> baseObjects \<Rightarrow> byte \<Rightarrow> 's op" where
  "permitDHCPIPv4 w session bo wt =
     run_all [
       add_filter w session (filter_of bo wt
          [field_is cFWPM_CONDITION_IP_PROTOCOL (cFWP_UINT8 cIPPROTO_UDP),
           field_is cFWPM_CONDITION_IP_LOCAL_PORT (cFWP_UINT16 68),
           field_is cFWPM_CONDITION_IP_REMOTE_PORT (cFWP_UINT16 67),
           field_is cFWPM_CONDITION_IP_REMOTE_ADDRESS (cFWP_UINT32 0xffffffff)]
          cFWP_ACTION_PERMIT)
         ''Permit outbound DHCP request (IPv4)'' cFWPM_LAYER_ALE_AUTH_CONNECT_V4,
       add_filter w session (filter_of bo wt
          [field_is cFWPM_CONDITION_IP_PROTOCOL (cFWP_UINT8 cIPPROTO_UDP),
           field_is cFWPM_CONDITION_IP_LOCAL_PORT (cFWP_UINT16 68),
           field_is cFWPM_CONDITION_IP_REMOTE_PORT (cFWP_UINT16 67)]
          cFWP_ACTION_PERMIT)
         ''Permit inbound DHCP response (IPv4)'' cFWPM_LAYER_ALE_AUTH_RECV_ACCEPT_V4]"

definition permitDHCPIPv6 :: "'s wfp \<Rightarrow> nat \<Rightarrow> baseObjects \<Rightarrow> byte \<Rightarrow> 's op" where
  "permitDHCPIPv6 w session bo wt =
     run_all [
       add_filter w session (filter_of bo wt
          [field_is cFWPM_CONDITION_IP_PROTOCOL (cFWP_UINT8 cIPPROTO_UDP),
           field_is cFWPM_CONDITION_IP_REMOTE_ADDRESS (cFWP_BYTE_ARRAY16_TYPE linkLocalDHCPMulticast),
           field_is cFWPM_CONDITION_IP_REMOTE_ADDRESS (cFWP_BYTE_ARRAY16_TYPE siteLocalDHCPMulticast),
           field_is cFWPM_CONDITION_IP_REMOTE_PORT (cFWP_UINT16 547),
           field_is cFWPM_CONDITION_IP_LOCAL_ADDRESS (cFWP_V6_ADDR_MASK linkLocal),
           field_is cFWPM_CONDITION_IP_LOCAL_PORT (cFWP_UINT16 546)]
          cFWP_ACTION_PERMIT)
         ''Permit outbound DHCP request (IPv6)'' cFWPM_LAYER_ALE_AUTH_CONNECT_V6,
       add_filter w session (filter_of bo wt
          [field_is cFWPM_CONDITION_IP_PROTOCOL (cFWP_UINT8 cIPPROTO_UDP),
           field_is cFWPM_CONDITION_IP_REMOTE_ADDRESS (cFWP_V6_ADDR_MASK linkLocal),
           field_is cFWPM_CONDITION_IP_REMOTE_PORT (cFWP_UINT16 547),
           field_is cFWPM_CONDITION_IP_LOCAL_ADDRESS (cFWP_V6_ADDR_MASK linkLocal),
           field_is cFWPM_CONDITION_IP_LOCAL_PORT (cFWP_UINT16 546)]
          cFWP_ACTION_PERMIT)
         ''Permit inbound DHCP response (IPv6)'' cFWPM_LAYER_ALE_AUTH_RECV_ACCEPT_V6]"

record filterDefinition =
  def_name :: string
  def_conditions :: "wtFwpmFilterCondition0 list"
  def_layer :: GUID

definition icmp_conditions :: "u16 \<Rightarrow> wtFwpmFilterCondition0 list" where
  "icmp_conditions type =
     [field_is cFWPM_CONDITION_IP_PROTOCOL (cFWP_UINT8 cIPPROTO_ICMPV6),
      field_is cFWPM_CONDITION_ICMP_TYPE (cFWP_UINT16 type),
      field_is cFWPM_CONDITION_ICMP_CODE (cFWP_UINT16 0)]"

definition ndp_defs :: "filterDefinition list" where
  "ndp_defs =
     [\<lparr>def_name = ''Permit NDP type 133'',
       def_conditions = icmp_conditions 133 @
         [field_is cFWPM_CONDITION_IP_REMOTE_ADDRESS (cFWP_BYTE_ARRAY16_TYPE linkLocalRouterMulticast)],
       def_layer = cFWPM_LAYER_ALE_AUTH_CONNECT_V6\<rparr>,
      \<lparr>def_name = ''Permit NDP type 134'',
       def_conditions = icmp_conditions 134 @
         [field_is cFWPM_CONDITION_IP_REMOTE_ADDRESS (cFWP_V6_ADDR_MASK linkLocal)],
       def_layer = cFWPM_LAYER_ALE_AUTH_RECV_ACCEPT_V6\<rparr>,
      \<lparr>def_name = ''Permit NDP type 135'', def_conditions = icmp_conditions 135,
       def_layer = cFWPM_LAYER_ALE_AUTH_CONNECT_V6\<rparr>,
      \<lparr>def_name = ''Permit NDP type 135'', def_conditions = icmp_conditions 135,
       def_layer = cFWPM_LAYER_ALE_AUTH_RECV_ACCEPT_V6\<rparr>,
      \<lparr>def_name = ''Permit NDP type 136'', def_conditions = icmp_conditions 136,
       def_layer = cFWPM_LAYER_ALE_AUTH_CONNECT_V6\<rparr>,
      \<lparr>def_name = ''Permit NDP type 136'', def_conditions = icmp_conditions 136,
       def_layer = cFWPM_LAYER_ALE_AUTH_RECV_ACCEPT_V6\<rparr>,
      \<lparr>def_name = ''Permit NDP type 137'',
       def_conditions = icmp_conditions 137 @
         [field_is cFWPM_CONDITION_IP_REMOTE_ADDRESS (cFWP_V6_ADDR_MASK linkLocal)],
       def_layer = cFWPM_LAYER_ALE_AUTH_RECV_ACCEPT_V6\<rparr>]"

text \<open>The display data of all definitions is created before the first filter is added.\<close>

definition permitNdp :: "'s wfp \<Rightarrow> nat \<Rightarrow> baseObjects \<Rightarrow> byte \<Rightarrow> 's op" where
  "permitNdp w session bo wt s =
     (case List.find (\<lambda>d. isl (createWtFwpmDisplayData0 (def_name d) [])) ndp_defs of
        Some d \<Rightarrow> (Inl (wrapErr (projl (createWtFwpmDisplayData0 (def_name d) []))), s)
      | None \<Rightarrow>
          run_all (map (\<lambda>d. add_filter w session
              (filter_of bo wt (def_conditions d) cFWP_ACTION_PERMIT) (def_name d) (def_layer d))
            ndp_defs) s)"

text \<open>Not called at present.\<close>

definition permitHyperV :: "'s wfp \<Rightarrow> nat \<Rightarrow> baseObjects \<Rightarrow> byte \<Rightarrow> 's op" where
  "permitHyperV w session bo wt =
     (let fltr = filter_of bo wt
            [field_is cFWPM_CONDITION_L2_FLAGS (cFWP_UINT32 cFWP_CONDITION_L2_IS_VM2VM)]
            cFWP_ACTION_PERMIT
      in run_all [
       add_filter w session fltr ''Permit Hyper-V => Hyper-V outbound'' cFWPM_LAYER_OUTBOUND_MAC_FRAME_NATIVE,
       add_filter w session fltr ''Permit Hyper-V => Hyper-V inbound'' cFWPM_LAYER_INBOUND_MAC_FRAME_NATIVE])"

definition blockAll :: "'s wfp \<Rightarrow> nat \<Rightarrow> baseObjects \<Rightarrow> byte \<Rightarrow> 's op" where
  "blockAll w session bo wt =
     (let fltr = filter_of bo wt [] cFWP_ACTION_BLOCK
      in run_all [
       add_filter w session fltr ''Block all outbound (IPv4)'' cFWPM_LAYER_ALE_AUTH_CONNECT_V4,
       add_filter w session fltr ''Block all inbound (IPv4)'' cFWPM_LAYER_ALE_AUTH_RECV_ACCEPT_V4,
       add_filter w session fltr ''Block all outbound (IPv6)'' cFWPM_LAYER_ALE_AUTH_CONNECT_V6,
       add_filter w session fltr ''Block all inbound (IPv6)'' cFWPM_LAYER_ALE_AUTH_RECV_ACCEPT_V6])"

definition denyConditions :: "wtFwpmFilterCondition0 list" where
  "denyConditions =
     [field_is cFWPM_CONDITION_IP_REMOTE_PORT (cFWP_UINT16 53),
      field_is cFWPM_CONDITION_IP_PROTOCOL (cFWP_UINT8 cIPPROTO_UDP),
      field_is cFWPM_CONDITION_IP_PROTOCOL (cFWP_UINT8 cIPPROTO_TCP)]"

fun exceptV4 :: "addr list \<Rightarrow> wtFwpmFilterCondition0 list" where
  "exceptV4 [] = []"
| "exceptV4 (Addr4 a # ips) =
     field_is cFWPM_CONDITION_IP_REMOTE_ADDRESS (cFWP_UINT32 (of_octets4 (octets4 a))) # exceptV4 ips"
| "exceptV4 (_ # ips) = exceptV4 ips"

fun exceptV6 :: "addr list \<Rightarrow> wtFwpmFilterCondition0 list" where
  "exceptV6 [] = []"
| "exceptV6 (Addr6 a zone # ips) =
     field_is cFWPM_CONDITION_IP_REMOTE_ADDRESS (cFWP_BYTE_ARRAY16_TYPE (As16 a)) # exceptV6 ips"
| "exceptV6 (_ # ips) = exceptV6 ips"

definition blockDNS :: "addr list \<Rightarrow> 's wfp \<Rightarrow> nat \<Rightarrow> baseObjects \<Rightarrow> byte \<Rightarrow> byte \<Rightarrow> 's op" where
  "blockDNS except w session bo weightAllow weightDeny s =
     (if weightAllow \<le> weightDeny
      then (Inl (OtherError ''The allow weight must be greater than the deny weight''), s)
      else
        let fltr = filter_of bo weightDeny denyConditions cFWP_ACTION_BLOCK;
            allowConditionsV4 = denyConditions @ exceptV4 except;
            allowConditionsV6 = denyConditions @ exceptV6 except;
            allow4 = filter_of bo weightAllow allowConditionsV4 cFWP_ACTION_PERMIT;
            allow6 = allow4 \<lparr>filterCondition := allowConditionsV6,
                             numFilterConditions := of_nat (length allowConditionsV6)\<rparr>
        in run_all ([
             add_filter w session fltr ''Block DNS outbound (IPv4)'' cFWPM_LAYER_ALE_AUTH_CONNECT_V4,
             add_filter w session fltr ''Block DNS inbound (IPv4)'' cFWPM_LAYER_ALE_AUTH_RECV_ACCEPT_V4,
             add_filter w session fltr ''Block DNS outbound (IPv6)'' cFWPM_LAYER_ALE_AUTH_CONNECT_V6,
             add_filter w session fltr ''Block DNS inbound (IPv6)'' cFWPM_LAYER_ALE_AUTH_RECV_ACCEPT_V6] @
           (if length denyConditions < length allowConditionsV4 then [
             add_filter w session allow4 ''Allow DNS outbound (IPv4)'' cFWPM_LAYER_ALE_AUTH_CONNECT_V4,
             add_filter w session allow4 ''Allow DNS inbound (IPv4)'' cFWPM_LAYER_ALE_AUTH_RECV_ACCEPT_V4]
            else []) @
           (if length denyConditions < length allowConditionsV6 then [
             add_filter w session allow6 ''Allow DNS outbound (IPv6)'' cFWPM_LAYER_ALE_AUTH_CONNECT_V6,
             add_filter w session allow6 ''Allow DNS inbound (IPv6)'' cFWPM_LAYER_ALE_AUTH_RECV_ACCEPT_V6]
            else [])) s)"

section \<open>The switch\<close>

definition createWfpSession :: "'s wfp \<Rightarrow> 's \<Rightarrow> (fw_error + nat) \<times> 's" where
  "createWfpSession w s =
     (case createWtFwpmDisplayData0 ''WireGuard'' ''WireGuard dynamic session'' of
        Inl err \<Rightarrow> (Inl (wrapErr err), s)
      | Inr sessionDisplayData \<Rightarrow>
          (case fwpmEngineOpen0 w \<lparr>session_displayData = sessionDisplayData,
                 session_flags = cFWPM_SESSION_FLAG_DYNAMIC, txnWaitTimeoutInMSec = 0xffffffff\<rparr> s of
             (Inl n, s) \<Rightarrow> (Inl (wrapErr (Errno n)), s)
           | (Inr sessionHandle, s) \<Rightarrow> (Inr sessionHandle, s)))"

definition registerBaseObjects :: "process \<Rightarrow> 's wfp \<Rightarrow> nat \<Rightarrow> 's \<Rightarrow> (fw_error + baseObjects) \<times> 's" where
  "registerBaseObjects p w session s =
     (case GenerateGUID p 0 of
        Inl n \<Rightarrow> (Inl (wrapErr (Errno n)), s)
      | Inr pr \<Rightarrow>
     (case GenerateGUID p 1 of
        Inl n \<Rightarrow> (Inl (wrapErr (Errno n)), s)
      | Inr fl \<Rightarrow>
     (case createWtFwpmDisplayData0 ''WireGuard'' ''WireGuard provider'' of
        Inl err \<Rightarrow> (Inl (wrapErr err), s)
      | Inr dd \<Rightarrow>
     (case call (fwpmProviderAdd0 w session \<lparr>provider_providerKey = pr, provider_displayData = dd\<rparr>) s of
        (Inl err, s) \<Rightarrow> (Inl (wrapErr err), s)
      | (Inr _, s) \<Rightarrow>
     (case createWtFwpmDisplayData0 ''WireGuard filters'' ''Permissive and blocking filters'' of
        Inl err \<Rightarrow> (Inl (wrapErr err), s)
      | Inr dd \<Rightarrow>
     (case call (fwpmSubLayerAdd0 w session \<lparr>sublayer_subLayerKey = fl, sublayer_displayData = dd,
            sublayer_providerKey = Some pr, sublayer_weight = NOT 0\<rparr>) s of
        (Inl err, s) \<Rightarrow> (Inl (wrapErr err), s)
      | (Inr _, s) \<Rightarrow> (Inr \<lparr>provider = pr, filters = fl\<rparr>, s)))))))"

definition objectInstaller :: "process \<Rightarrow> 's wfp \<Rightarrow> u64 \<Rightarrow> bool \<Rightarrow> addr list \<Rightarrow> nat \<Rightarrow> 's op" where
  "objectInstaller p w luid doNotRestrict restrictToDNSServers session s =
     (case registerBaseObjects p w session s of
        (Inl err, s) \<Rightarrow> (Inl (wrapErr err), s)
      | (Inr bo, s) \<Rightarrow>
          run_all (permitWireGuardService p w session bo 15 #
            (if doNotRestrict then [] else
              (if restrictToDNSServers \<noteq> []
               then [blockDNS restrictToDNSServers w session bo 15 14] else []) @
              [permitLoopback w session bo 13,
               permitTunInterface w session bo 12 luid,
               permitDHCPIPv4 w session bo 12,
               permitDHCPIPv6 w session bo 12,
               permitNdp w session bo 12,
               blockAll w session bo 0])) s)"

text \<open>The state of the package is its session handle, 0 when the firewall is off.\<close>

definition EnableFirewall :: "process \<Rightarrow> 's wfp \<Rightarrow> u64 \<Rightarrow> bool \<Rightarrow> addr list \<Rightarrow> nat \<Rightarrow> 's \<Rightarrow>
    (fw_error + unit) \<times> nat \<times> 's" where
  "EnableFirewall p w luid doNotRestrict restrictToDNSServers wfpSession s =
     (if wfpSession \<noteq> 0 then (Inl (OtherError ''The firewall has already been enabled''), wfpSession, s)
      else
        (case createWfpSession w s of
           (Inl err, s) \<Rightarrow> (Inl (wrapErr err), wfpSession, s)
         | (Inr session, s) \<Rightarrow>
             (case runTransaction w session
                     (objectInstaller p w luid doNotRestrict restrictToDNSServers session) s of
                (Inl err, s) \<Rightarrow> (Inl (wrapErr err), wfpSession, snd (fwpmEngineClose0 w session s))
              | (Inr _, s) \<Rightarrow> (Inr (), session, s))))"

definition DisableFirewall :: "'s wfp \<Rightarrow> nat \<Rightarrow> 's \<Rightarrow> nat \<times> 's" where
  "DisableFirewall w wfpSession s =
     (if wfpSession \<noteq> 0 then (0, snd (fwpmEngineClose0 w wfpSession s)) else (wfpSession, s))"

end
