(* ===== verification/Firewall_Policy.thy ===== *)
theory Firewall_Policy
  imports Firewall
begin

text \<open>
  What the rules of the firewall achieve.  The filtering engine enters through two interfaces, stated
  as the platform documents them: \<open>wfp_engine\<close> (sessions, transactions and the filters in force) and
  \<open>wfp_arbitration\<close> (the highest weight decides).  Inside the first, every rule function is shown to
  install its list of rules, and \<open>EnableFirewall\<close> to be all or nothing; inside the second, the rules
  are shown to decide every packet as the policy \<open>verdict\<close> says.  A scripted engine meets both.
\<close>

section \<open>The engine's transactions\<close>

text \<open>What the platform documents of its calls: the filters in force of each session, and those of an
  open transaction, which take force together when it is committed.  A call that fails changes
  nothing of these.  The filters of a dynamic session go when it is closed.\<close>

locale wfp_engine =
  fixes w :: "'s wfp" and active :: "'s \<Rightarrow> nat \<Rightarrow> wtFwpmFilter0 list"
    and pending :: "'s \<Rightarrow> nat \<Rightarrow> wtFwpmFilter0 list option"
  assumes engine_open: "fwpmEngineOpen0 w ss s = (opened, s') \<Longrightarrow>
      active s' = active s \<and> (\<forall>h. opened = Inr h \<longrightarrow> h \<noteq> 0 \<and> active s h = [])"
    and engine_close: "fwpmEngineClose0 w h s = (r, s') \<Longrightarrow>
      active s' = (if isl r then active s else (active s) (h := []))"
    and engine_begin: "fwpmTransactionBegin0 w h s = (r, s') \<Longrightarrow>
      active s' = active s \<and> (\<not> isl r \<longrightarrow> pending s' h = Some [])"
    and engine_provider: "fwpmProviderAdd0 w h pr s = (r, s') \<Longrightarrow> active s' = active s \<and> pending s' = pending s"
    and engine_sublayer: "fwpmSubLayerAdd0 w h sl s = (r, s') \<Longrightarrow> active s' = active s \<and> pending s' = pending s"
    and engine_filter: "fwpmFilterAdd0 w h f s = (r, s') \<Longrightarrow> pending s h = Some fs \<Longrightarrow>
      active s' = active s \<and> pending s' h = Some (if isl r then fs else fs @ [f])"
    and engine_commit: "fwpmTransactionCommit0 w h s = (r, s') \<Longrightarrow> pending s h = Some fs \<Longrightarrow>
      active s' = (if isl r then active s else (active s) (h := active s h @ fs))"
    and engine_abort: "fwpmTransactionAbort0 w h s = (r, s') \<Longrightarrow> active s' = active s"

text \<open>Filters without their display names, which play no part in a decision.\<close>

definition anon :: "wtFwpmFilter0 \<Rightarrow> wtFwpmFilter0" where
  "anon f = f \<lparr>displayData := \<lparr>display_name = [], display_description = []\<rparr>\<rparr>"

lemma anon_simps [simp]:
  "layerKey (anon f) = layerKey f" "weight (anon f) = weight f" "action (anon f) = action f"
  "numFilterConditions (anon f) = numFilterConditions f" "filterCondition (anon f) = filterCondition f"
  "subLayerKey (anon f) = subLayerKey f" "providerKey (anon f) = providerKey f" "flags (anon f) = flags f"
  by (simp_all add: anon_def)

text \<open>The contract of every rule function: inside a transaction it adds its rules, or stops with an
  error; what is in force does not change.\<close>

definition installs :: "('s \<Rightarrow> nat \<Rightarrow> wtFwpmFilter0 list) \<Rightarrow> ('s \<Rightarrow> nat \<Rightarrow> wtFwpmFilter0 list option) \<Rightarrow>
    nat \<Rightarrow> 's op \<Rightarrow> wtFwpmFilter0 list \<Rightarrow> bool" where
  "installs active pending h f rules \<longleftrightarrow>
     (\<forall>s fs r s'. pending s h = Some fs \<longrightarrow> f s = (r, s') \<longrightarrow>
        active s' = active s \<and> pending s' h \<noteq> None \<and>
        (\<not> isl r \<longrightarrow> (\<exists>new. pending s' h = Some (fs @ new) \<and> map anon new = rules)))"

lemma installsD:
  assumes "installs active pending h f rules" "pending s h = Some fs" "f s = (r, s')"
  shows "active s' = active s" "\<exists>fs'. pending s' h = Some fs'"
    "\<not> isl r \<Longrightarrow> \<exists>new. pending s' h = Some (fs @ new) \<and> map anon new = rules"
  using assms unfolding installs_def by blast+

lemma installs_Nil: "installs active pending h (run_all []) []"
  by (simp add: installs_def)

lemma installs_Cons:
  assumes "installs active pending h f rules" "installs active pending h (run_all fs) rules'"
  shows "installs active pending h (run_all (f # fs)) (rules @ rules')"
  unfolding installs_def
proof (intro allI impI)
  fix s ps r s' assume s: "pending s h = Some ps" "run_all (f # fs) s = (r, s')"
  obtain r1 s1 where 1: "f s = (r1, s1)" by fastforce
  note a = installsD [OF assms(1) s(1) 1]
  show "active s' = active s \<and> pending s' h \<noteq> None \<and>
    (\<not> isl r \<longrightarrow> (\<exists>new. pending s' h = Some (ps @ new) \<and> map anon new = rules @ rules'))"
  proof (cases r1)
    case (Inl err)
    then show ?thesis using s 1 a by auto
  next
    case (Inr u)
    then obtain new where n: "pending s1 h = Some (ps @ new)" "map anon new = rules" using a(3) by auto
    from Inr s 1 have "run_all fs s1 = (r, s')" by simp
    note b = installsD [OF assms(2) n(1) this]
    have "\<exists>new. pending s' h = Some (ps @ new) \<and> map anon new = rules @ rules'" if ok: "\<not> isl r"
    proof -
      obtain new' where "pending s' h = Some ((ps @ new) @ new')" "map anon new' = rules'"
        using b(3) [OF ok] by auto
      with n(2) show ?thesis by (intro exI [of _ "new @ new'"]) simp
    qed
    with a(1) b(1,2) show ?thesis by auto
  qed
qed

lemma installs_run_all:
  "list_all2 (installs active pending h) fs rs \<Longrightarrow> installs active pending h (run_all fs) (concat rs)"
  by (induction rule: list_all2_induct) (auto intro: installs_Nil installs_Cons simp del: run_all.simps)

lemma installs_error: "(\<And>s. isl (fst (f s)) \<and> snd (f s) = s) \<Longrightarrow> installs active pending h f rules"
  unfolding installs_def by (metis fst_conv option.distinct(1) snd_conv)

section \<open>The rules as lists\<close>

definition layersV4 :: "GUID list" where
  "layersV4 = [cFWPM_LAYER_ALE_AUTH_CONNECT_V4, cFWPM_LAYER_ALE_AUTH_RECV_ACCEPT_V4]"

definition layersV6 :: "GUID list" where
  "layersV6 = [cFWPM_LAYER_ALE_AUTH_CONNECT_V6, cFWPM_LAYER_ALE_AUTH_RECV_ACCEPT_V6]"

definition on_layers :: "wtFwpmFilter0 \<Rightarrow> GUID list \<Rightarrow> wtFwpmFilter0 list" where
  "on_layers fltr layers = map (\<lambda>l. fltr \<lparr>layerKey := l\<rparr>) layers"

definition service_rules :: "baseObjects \<Rightarrow> byte \<Rightarrow> byte list \<Rightarrow> byte list \<Rightarrow> wtFwpmFilter0 list" where
  "service_rules bo wt appID sd =
     on_layers ((filter_of bo wt
         [field_is cFWPM_CONDITION_ALE_APP_ID (cFWP_BYTE_BLOB_TYPE appID),
          field_is cFWPM_CONDITION_ALE_USER_ID (cFWP_SECURITY_DESCRIPTOR_TYPE sd)]
         cFWP_ACTION_PERMIT) \<lparr>flags := cFWPM_FILTER_FLAG_CLEAR_ACTION_RIGHT\<rparr>) (layersV4 @ layersV6)"

definition tun_rules :: "baseObjects \<Rightarrow> byte \<Rightarrow> u64 \<Rightarrow> wtFwpmFilter0 list" where
  "tun_rules bo wt luid =
     on_layers (filter_of bo wt [field_is cFWPM_CONDITION_IP_LOCAL_INTERFACE (cFWP_UINT64 luid)]
       cFWP_ACTION_PERMIT) (layersV4 @ layersV6)"

definition loopback_rules :: "baseObjects \<Rightarrow> byte \<Rightarrow> wtFwpmFilter0 list" where
  "loopback_rules bo wt =
     on_layers (filter_of bo wt [\<lparr>fieldKey = cFWPM_CONDITION_FLAGS, matchType = cFWP_MATCH_FLAGS_ALL_SET,
       conditionValue = cFWP_UINT32 cFWP_CONDITION_FLAG_IS_LOOPBACK\<rparr>] cFWP_ACTION_PERMIT) (layersV4 @ layersV6)"

definition dhcp4_rules :: "baseObjects \<Rightarrow> byte \<Rightarrow> wtFwpmFilter0 list" where
  "dhcp4_rules bo wt =
     (let c = [field_is cFWPM_CONDITION_IP_PROTOCOL (cFWP_UINT8 cIPPROTO_UDP),
               field_is cFWPM_CONDITION_IP_LOCAL_PORT (cFWP_UINT16 68),
               field_is cFWPM_CONDITION_IP_REMOTE_PORT (cFWP_UINT16 67)]
      in on_layers (filter_of bo wt
           (c @ [field_is cFWPM_CONDITION_IP_REMOTE_ADDRESS (cFWP_UINT32 0xffffffff)]) cFWP_ACTION_PERMIT)
           [cFWPM_LAYER_ALE_AUTH_CONNECT_V4] @
         on_layers (filter_of bo wt c cFWP_ACTION_PERMIT) [cFWPM_LAYER_ALE_AUTH_RECV_ACCEPT_V4])"

definition dhcp6_rules :: "baseObjects \<Rightarrow> byte \<Rightarrow> wtFwpmFilter0 list" where
  "dhcp6_rules bo wt =
     (let udp = field_is cFWPM_CONDITION_IP_PROTOCOL (cFWP_UINT8 cIPPROTO_UDP);
          c = [field_is cFWPM_CONDITION_IP_REMOTE_PORT (cFWP_UINT16 547),
               field_is cFWPM_CONDITION_IP_LOCAL_ADDRESS (cFWP_V6_ADDR_MASK linkLocal),
               field_is cFWPM_CONDITION_IP_LOCAL_PORT (cFWP_UINT16 546)]
      in on_layers (filter_of bo wt (udp #
           [field_is cFWPM_CONDITION_IP_REMOTE_ADDRESS (cFWP_BYTE_ARRAY16_TYPE linkLocalDHCPMulticast),
            field_is cFWPM_CONDITION_IP_REMOTE_ADDRESS (cFWP_BYTE_ARRAY16_TYPE siteLocalDHCPMulticast)] @ c)
           cFWP_ACTION_PERMIT) [cFWPM_LAYER_ALE_AUTH_CONNECT_V6] @
         on_layers (filter_of bo wt (udp #
           [field_is cFWPM_CONDITION_IP_REMOTE_ADDRESS (cFWP_V6_ADDR_MASK linkLocal)] @ c)
           cFWP_ACTION_PERMIT) [cFWPM_LAYER_ALE_AUTH_RECV_ACCEPT_V6])"

definition ndp_rules :: "baseObjects \<Rightarrow> byte \<Rightarrow> wtFwpmFilter0 list" where
  "ndp_rules bo wt =
     map (\<lambda>d. (filter_of bo wt (def_conditions d) cFWP_ACTION_PERMIT) \<lparr>layerKey := def_layer d\<rparr>) ndp_defs"

definition block_rules :: "baseObjects \<Rightarrow> byte \<Rightarrow> wtFwpmFilter0 list" where
  "block_rules bo wt = on_layers (filter_of bo wt [] cFWP_ACTION_BLOCK) (layersV4 @ layersV6)"

definition dns_rules :: "addr list \<Rightarrow> baseObjects \<Rightarrow> byte \<Rightarrow> byte \<Rightarrow> wtFwpmFilter0 list" where
  "dns_rules dns bo allow deny =
     on_layers (filter_of bo deny denyConditions cFWP_ACTION_BLOCK) (layersV4 @ layersV6) @
     (if exceptV4 dns = [] then []
      else on_layers (filter_of bo allow (denyConditions @ exceptV4 dns) cFWP_ACTION_PERMIT) layersV4) @
     (if exceptV6 dns = [] then []
      else on_layers (filter_of bo allow (denyConditions @ exceptV6 dns) cFWP_ACTION_PERMIT) layersV6)"

definition firewall_rules :: "baseObjects \<Rightarrow> byte list \<Rightarrow> byte list \<Rightarrow> u64 \<Rightarrow> bool \<Rightarrow> addr list \<Rightarrow>
    wtFwpmFilter0 list" where
  "firewall_rules bo appID sd luid doNotRestrict dns =
     service_rules bo 15 appID sd @
     (if doNotRestrict then []
      else (if dns = [] then [] else dns_rules dns bo 15 14) @
        loopback_rules bo 13 @ tun_rules bo 12 luid @ dhcp4_rules bo 12 @ dhcp6_rules bo 12 @
        ndp_rules bo 12 @ block_rules bo 0)"

lemmas rule_lists = on_layers_def layersV4_def layersV6_def anon_def filter_of_def zero_filter_def

context wfp_engine
begin

lemma installs_call: "installs active pending h (call (fwpmFilterAdd0 w h f)) [anon f]"
  unfolding installs_def call_def using engine_filter
  by (fastforce split: prod.splits sum.splits)

lemma installs_add_filter:
  assumes "CHR 0x00 \<notin> set name"
  shows "installs active pending h (add_filter w h f name layer) [anon (f \<lparr>layerKey := layer\<rparr>)]"
proof -
  let ?f = "f \<lparr>displayData := \<lparr>display_name = name, display_description = []\<rparr>, layerKey := layer\<rparr>"
  have "add_filter w h f name layer = call (fwpmFilterAdd0 w h ?f)"
    using assms by (intro ext) (simp add: add_filter_def createWtFwpmDisplayData0_def)
  moreover have "anon (f \<lparr>layerKey := layer\<rparr>) = anon ?f" by (simp add: anon_def)
  ultimately show ?thesis by (simp add: installs_call)
qed

lemma installs_step:
  assumes "CHR 0x00 \<notin> set name" "rule = anon (f \<lparr>layerKey := layer\<rparr>)"
    "installs active pending h (run_all fs) rules"
  shows "installs active pending h (run_all (add_filter w h f name layer # fs)) (rule # rules)"
  using installs_Cons [OF installs_add_filter [OF assms(1), of h f layer] assms(3)] assms(2)
  by (simp del: run_all.simps)

lemma installs_tun: "installs active pending h (permitTunInterface w h bo wt luid) (tun_rules bo wt luid)"
  unfolding permitTunInterface_def tun_rules_def Let_def on_layers_def layersV4_def layersV6_def
    append.simps list.map
  by (intro installs_step installs_Nil) (simp_all add: anon_def filter_of_def zero_filter_def)

lemma installs_loopback: "installs active pending h (permitLoopback w h bo wt) (loopback_rules bo wt)"
  unfolding permitLoopback_def loopback_rules_def Let_def on_layers_def layersV4_def layersV6_def
    append.simps list.map
  by (intro installs_step installs_Nil) (simp_all add: anon_def filter_of_def zero_filter_def)

lemma installs_block: "installs active pending h (blockAll w h bo wt) (block_rules bo wt)"
  unfolding blockAll_def block_rules_def Let_def on_layers_def layersV4_def layersV6_def
    append.simps list.map
  by (intro installs_step installs_Nil) (simp_all add: anon_def filter_of_def zero_filter_def)

lemma installs_dhcp4: "installs active pending h (permitDHCPIPv4 w h bo wt) (dhcp4_rules bo wt)"
  unfolding permitDHCPIPv4_def dhcp4_rules_def Let_def on_layers_def append.simps list.map
  by (intro installs_step installs_Nil) (simp_all add: anon_def filter_of_def zero_filter_def)

lemma installs_dhcp6: "installs active pending h (permitDHCPIPv6 w h bo wt) (dhcp6_rules bo wt)"
  unfolding permitDHCPIPv6_def dhcp6_rules_def Let_def on_layers_def append.simps list.map
  by (intro installs_step installs_Nil) (simp_all add: anon_def filter_of_def zero_filter_def)

lemma installs_ndp: "installs active pending h (permitNdp w h bo wt) (ndp_rules bo wt)"
proof -
  have "List.find (\<lambda>d. isl (createWtFwpmDisplayData0 (def_name d) [])) ndp_defs = None"
    by (simp add: ndp_defs_def createWtFwpmDisplayData0_def)
  then have "permitNdp w h bo wt =
      run_all (map (\<lambda>d. add_filter w h (filter_of bo wt (def_conditions d) cFWP_ACTION_PERMIT)
        (def_name d) (def_layer d)) ndp_defs)"
    by (intro ext) (simp add: permitNdp_def)
  then show ?thesis
    unfolding ndp_rules_def ndp_defs_def list.map
    by (simp del: run_all.simps)
      (intro installs_step installs_Nil, simp_all add: anon_def filter_of_def zero_filter_def)
qed

lemma installs_dns:
  "installs active pending h (blockDNS dns w h bo allow deny) (dns_rules dns bo allow deny)"
proof (cases "allow \<le> deny")
  case True
  then show ?thesis by (intro installs_error) (simp add: blockDNS_def)
next
  case False
  let ?deny = "filter_of bo deny denyConditions cFWP_ACTION_BLOCK"
  let ?allow = "\<lambda>cs. filter_of bo allow (denyConditions @ cs) cFWP_ACTION_PERMIT"
  have "(?allow (exceptV4 dns)) \<lparr>filterCondition := denyConditions @ exceptV6 dns,
      numFilterConditions := of_nat (length (denyConditions @ exceptV6 dns))\<rparr> = ?allow (exceptV6 dns)"
    by (simp add: filter_of_def zero_filter_def)
  then have "blockDNS dns w h bo allow deny = run_all ([
      add_filter w h ?deny ''Block DNS outbound (IPv4)'' cFWPM_LAYER_ALE_AUTH_CONNECT_V4,
      add_filter w h ?deny ''Block DNS inbound (IPv4)'' cFWPM_LAYER_ALE_AUTH_RECV_ACCEPT_V4,
      add_filter w h ?deny ''Block DNS outbound (IPv6)'' cFWPM_LAYER_ALE_AUTH_CONNECT_V6,
      add_filter w h ?deny ''Block DNS inbound (IPv6)'' cFWPM_LAYER_ALE_AUTH_RECV_ACCEPT_V6] @
     (if exceptV4 dns = [] then [] else [
      add_filter w h (?allow (exceptV4 dns)) ''Allow DNS outbound (IPv4)'' cFWPM_LAYER_ALE_AUTH_CONNECT_V4,
      add_filter w h (?allow (exceptV4 dns)) ''Allow DNS inbound (IPv4)'' cFWPM_LAYER_ALE_AUTH_RECV_ACCEPT_V4]) @
     (if exceptV6 dns = [] then [] else [
      add_filter w h (?allow (exceptV6 dns)) ''Allow DNS outbound (IPv6)'' cFWPM_LAYER_ALE_AUTH_CONNECT_V6,
      add_filter w h (?allow (exceptV6 dns)) ''Allow DNS inbound (IPv6)'' cFWPM_LAYER_ALE_AUTH_RECV_ACCEPT_V6]))"
    using False by (intro ext) (simp add: blockDNS_def Let_def del: run_all.simps)
  then show ?thesis
    unfolding dns_rules_def on_layers_def layersV4_def layersV6_def append.simps list.map
    by (cases "exceptV4 dns = []"; cases "exceptV6 dns = []"; simp del: run_all.simps;
        intro installs_step installs_Nil; simp add: anon_def filter_of_def zero_filter_def)
qed

lemma installs_service:
  assumes "getCurrentProcessAppID p = Inr appID" "getCurrentProcessSecurityDescriptor p = Inr sd"
  shows "installs active pending h (permitWireGuardService p w h bo wt) (service_rules bo wt appID sd)"
  unfolding permitWireGuardService_def assms service_rules_def Let_def on_layers_def layersV4_def
    layersV6_def append.simps list.map sum.case
  by (intro installs_step installs_Nil) (simp_all add: anon_def filter_of_def zero_filter_def)

lemmas installs_rules = installs_dns installs_tun installs_loopback installs_block installs_dhcp4
  installs_dhcp6 installs_ndp

lemma installs_firewall:
  assumes "getCurrentProcessAppID p = Inr appID" "getCurrentProcessSecurityDescriptor p = Inr sd"
  shows "installs active pending h
    (run_all (permitWireGuardService p w h bo 15 #
      (if dnr then [] else
        (if dns \<noteq> [] then [blockDNS dns w h bo 15 14] else []) @
        [permitLoopback w h bo 13, permitTunInterface w h bo 12 luid, permitDHCPIPv4 w h bo 12,
         permitDHCPIPv6 w h bo 12, permitNdp w h bo 12, blockAll w h bo 0])))
    (firewall_rules bo appID sd luid dnr dns)"
proof -
  let ?tail = "[permitLoopback w h bo 13, permitTunInterface w h bo 12 luid, permitDHCPIPv4 w h bo 12,
         permitDHCPIPv6 w h bo 12, permitNdp w h bo 12, blockAll w h bo 0]"
  have "installs active pending h (run_all ?tail)
     (concat [loopback_rules bo 13, tun_rules bo 12 luid, dhcp4_rules bo 12, dhcp6_rules bo 12,
       ndp_rules bo 12, block_rules bo 0])"
    by (intro installs_run_all) (simp add: installs_rules del: run_all.simps)
  then have tail: "installs active pending h (run_all ?tail)
     (loopback_rules bo 13 @ tun_rules bo 12 luid @ dhcp4_rules bo 12 @ dhcp6_rules bo 12 @
      ndp_rules bo 12 @ block_rules bo 0)" by (simp del: run_all.simps)
  show ?thesis
    unfolding firewall_rules_def
    by (intro installs_Cons installs_service [OF assms])
      (auto intro: installs_Nil installs_Cons installs_dns tail simp del: run_all.simps)
qed

lemma registerBaseObjects_keeps:
  assumes "registerBaseObjects p w h s = (r, s')"
  shows "active s' = active s \<and> pending s' = pending s"
proof (cases "GenerateGUID p 0"; cases "GenerateGUID p 1")
  fix pr fl assume g: "GenerateGUID p 0 = Inr pr" "GenerateGUID p 1 = Inr fl"
  obtain r1 s1 where 1: "fwpmProviderAdd0 w h \<lparr>provider_providerKey = pr, provider_displayData =
      \<lparr>display_name = ''WireGuard'', display_description = ''WireGuard provider''\<rparr>\<rparr> s = (r1, s1)" by fastforce
  obtain r2 s2 where 2: "fwpmSubLayerAdd0 w h \<lparr>sublayer_subLayerKey = fl, sublayer_displayData =
      \<lparr>display_name = ''WireGuard filters'', display_description = ''Permissive and blocking filters''\<rparr>,
      sublayer_providerKey = Some pr, sublayer_weight = NOT 0\<rparr> s1 = (r2, s2)" by fastforce
  have "s' = (if isl r1 then s1 else s2)"
    using assms g 1 2 by (cases r1; cases r2)
      (simp_all add: registerBaseObjects_def createWtFwpmDisplayData0_def call_def del: One_nat_def)
  then show ?thesis using engine_provider [OF 1] engine_sublayer [OF 2] by (auto split: if_splits)
qed (use assms in \<open>simp_all add: registerBaseObjects_def del: One_nat_def\<close>)

lemma service_error:
  assumes "isl (getCurrentProcessAppID p) \<or> isl (getCurrentProcessSecurityDescriptor p)"
  shows "\<exists>err. permitWireGuardService p w h bo wt s = (Inl err, s)"
  using assms by (auto simp: permitWireGuardService_def split: sum.splits)

lemma objectInstaller_spec:
  assumes "pending s h = Some fs" "objectInstaller p w luid dnr dns h s = (r, s')"
  shows "active s' = active s \<and> pending s' h \<noteq> None \<and>
    (\<not> isl r \<longrightarrow> (\<exists>bo appID sd new. getCurrentProcessAppID p = Inr appID \<and>
       getCurrentProcessSecurityDescriptor p = Inr sd \<and> pending s' h = Some (fs @ new) \<and>
       map anon new = firewall_rules bo appID sd luid dnr dns))"
proof -
  obtain r1 s1 where 1: "registerBaseObjects p w h s = (r1, s1)" by fastforce
  note keep = registerBaseObjects_keeps [OF 1]
  show ?thesis
  proof (cases r1)
    case (Inl err)
    then show ?thesis using assms 1 keep by (auto simp: objectInstaller_def)
  next
    case (Inr bo)
    let ?run = "run_all (permitWireGuardService p w h bo 15 #
      (if dnr then [] else
        (if dns \<noteq> [] then [blockDNS dns w h bo 15 14] else []) @
        [permitLoopback w h bo 13, permitTunInterface w h bo 12 luid, permitDHCPIPv4 w h bo 12,
         permitDHCPIPv6 w h bo 12, permitNdp w h bo 12, blockAll w h bo 0]))"
    have run: "?run s1 = (r, s')" using assms(2) 1 Inr by (simp add: objectInstaller_def del: run_all.simps)
    show ?thesis
    proof (cases "isl (getCurrentProcessAppID p) \<or> isl (getCurrentProcessSecurityDescriptor p)")
      case True
      then obtain err where "permitWireGuardService p w h bo 15 s1 = (Inl err, s1)"
        using service_error by blast
      then have "r = Inl (wrapErr err)" "s' = s1" using run by simp_all
      then show ?thesis using keep assms(1) by auto
    next
      case False
      then obtain appID sd where ok: "getCurrentProcessAppID p = Inr appID"
        "getCurrentProcessSecurityDescriptor p = Inr sd"
        by (cases "getCurrentProcessAppID p"; cases "getCurrentProcessSecurityDescriptor p") auto
      from keep assms(1) have "pending s1 h = Some fs" by simp
      note i = installsD [OF installs_firewall [OF ok] this run]
      show ?thesis
      proof (intro conjI impI)
        assume "\<not> isl r"
        from i(3) [OF this] obtain new where "pending s' h = Some (fs @ new)"
          "map anon new = firewall_rules bo appID sd luid dnr dns" by (elim exE conjE)
        with ok show "\<exists>bo appID sd new. getCurrentProcessAppID p = Inr appID \<and>
          getCurrentProcessSecurityDescriptor p = Inr sd \<and> pending s' h = Some (fs @ new) \<and>
          map anon new = firewall_rules bo appID sd luid dnr dns" by (intro exI conjI)
      qed (use i(1,2) keep in simp_all)
    qed
  qed
qed

lemma runTransaction_spec:
  assumes "runTransaction w h (objectInstaller p w luid dnr dns h) s = (r, s')"
  shows "if isl r then active s' = active s
    else \<exists>bo appID sd new. getCurrentProcessAppID p = Inr appID \<and>
       getCurrentProcessSecurityDescriptor p = Inr sd \<and> active s' = (active s) (h := active s h @ new) \<and>
       map anon new = firewall_rules bo appID sd luid dnr dns"
proof -
  obtain r1 s1 where 1: "fwpmTransactionBegin0 w h s = (r1, s1)" by fastforce
  obtain r2 s2 where 2: "objectInstaller p w luid dnr dns h s1 = (r2, s2)" by fastforce
  obtain r3 s3 where 3: "fwpmTransactionCommit0 w h s2 = (r3, s3)" by fastforce
  have abort: "active (snd (fwpmTransactionAbort0 w h x)) = active x" for x
    using engine_abort [of h x] by (metis prod.collapse)
  note b = engine_begin [OF 1]
  show ?thesis
  proof (cases "isl r1")
    case True
    then show ?thesis using assms 1 b by (auto simp: runTransaction_def call_def split: sum.splits)
  next
    case False
    then have p1: "pending s1 h = Some []" using b by simp
    note o = objectInstaller_spec [OF p1 2]
    have c: "\<And>fs. pending s2 h = Some fs \<Longrightarrow>
        active s3 = (if isl r3 then active s2 else (active s2) (h := active s2 h @ fs))"
      using engine_commit [OF 3] by blast
    have run: "runTransaction w h (objectInstaller p w luid dnr dns h) s =
      (case r2 of Inl err \<Rightarrow> (Inl (wrapErr err), snd (fwpmTransactionAbort0 w h s2)) |
        Inr _ \<Rightarrow> (case r3 of Inl n \<Rightarrow> (Inl (wrapErr (wrapErr (Errno n))), snd (fwpmTransactionAbort0 w h s3))
          | Inr _ \<Rightarrow> (Inr (), s3)))"
      using False 1 2 3 by (cases r1; cases r2; cases r3) (simp_all add: runTransaction_def call_def)
    show ?thesis
    proof (cases "isl r2 \<or> isl r3")
      case True
      then show ?thesis using assms b o c by (cases r2; cases r3) (auto simp: run abort)
    next
      case False
      then have "r = Inr ()" "s' = s3" using assms run by (cases r2; cases r3; simp)+
      then show ?thesis using False b o c by force
    qed
  qed
qed

lemma EnableFirewall_spec:
  assumes "EnableFirewall p w luid dnr dns wfpSession s = (r, wfpSession', s')"
  shows "if isl r then wfpSession' = wfpSession \<and> active s' = active s
    else wfpSession = 0 \<and> wfpSession' \<noteq> 0 \<and>
      (\<exists>bo appID sd new. getCurrentProcessAppID p = Inr appID \<and>
       getCurrentProcessSecurityDescriptor p = Inr sd \<and> active s' = (active s) (wfpSession' := new) \<and>
       map anon new = firewall_rules bo appID sd luid dnr dns)"
proof (cases "wfpSession = 0")
  case True
  obtain r1 s1 where 1: "createWfpSession w s = (r1, s1)" by fastforce
  from 1 have o: "active s1 = active s" "\<And>h. r1 = Inr h \<Longrightarrow> h \<noteq> 0 \<and> active s h = []"
    unfolding createWfpSession_def createWtFwpmDisplayData0_def
    by (auto split: if_splits prod.splits sum.splits dest!: engine_open)
  show ?thesis
  proof (cases r1)
    case (Inl err)
    then show ?thesis using assms 1 o True by (auto simp: EnableFirewall_def)
  next
    case (Inr h)
    obtain r2 s2 where 2: "runTransaction w h (objectInstaller p w luid dnr dns h) s1 = (r2, s2)" by fastforce
    note t = runTransaction_spec [OF 2] and oh = o(2) [OF Inr]
    obtain r3 s3 where 3: "fwpmEngineClose0 w h s2 = (r3, s3)" by fastforce
    note c = engine_close [OF 3]
    from assms True 1 Inr 2 3 have e: "(r, wfpSession', s') =
      (case r2 of Inl err \<Rightarrow> (Inl (wrapErr err), 0, s3) | Inr _ \<Rightarrow> (Inr (), h, s2))"
      by (auto simp: EnableFirewall_def split: sum.splits)
    show ?thesis using e t oh o(1) c True
      by (cases r2) (auto simp: fun_upd_idem split: if_splits)
  qed
qed (use assms in \<open>auto simp: EnableFirewall_def\<close>)

end

section \<open>Which filter decides\<close>

text \<open>The conditions of a filter: those on the same field are alternatives, and every field has to
  match; a filter without conditions matches everything.  \<open>holds c p\<close> says that packet \<open>p\<close> satisfies
  condition \<open>c\<close>.\<close>

definition conds_match :: "(wtFwpmFilterCondition0 \<Rightarrow> 'p \<Rightarrow> bool) \<Rightarrow> wtFwpmFilterCondition0 list \<Rightarrow> 'p \<Rightarrow> bool" where
  "conds_match holds cs p \<longleftrightarrow>
     list_all (\<lambda>c. list_ex (\<lambda>d. fieldKey d = fieldKey c \<and> holds d p) cs) cs"

definition filter_matches :: "(wtFwpmFilterCondition0 \<Rightarrow> 'p \<Rightarrow> bool) \<Rightarrow> wtFwpmFilter0 \<Rightarrow> 'p \<Rightarrow> bool" where
  "filter_matches holds f p \<longleftrightarrow>
     conds_match holds (take (unat (numFilterConditions f)) (filterCondition f)) p"

text \<open>A weight of type \<open>FWP_UINT8\<close> selects one of sixteen ranges; inside a range the engine chooses.\<close>

fun weight_range :: "wtFwpValue0 \<Rightarrow> nat" where
  "weight_range (cFWP_UINT8 b) = unat b"
| "weight_range _ = 0"

text \<open>The range and the action of the filters of a layer that match a packet.\<close>

definition hits :: "(wtFwpmFilterCondition0 \<Rightarrow> 'p \<Rightarrow> bool) \<Rightarrow> wtFwpmFilter0 list \<Rightarrow> GUID \<Rightarrow> 'p \<Rightarrow>
    (nat \<times> wtFwpActionType) list" where
  "hits holds fs layer p =
     map (\<lambda>f. (weight_range (weight f), action f))
       (filter (\<lambda>f. layerKey f = layer \<and> filter_matches holds f p) fs)"

text \<open>What the platform documents of a sublayer: the filters are tried from the highest weight down
  and the first that matches decides; the order inside a range is not relied on.\<close>

locale wfp_arbitration =
  fixes holds :: "wtFwpmFilterCondition0 \<Rightarrow> 'p \<Rightarrow> bool"
    and classify :: "wtFwpmFilter0 list \<Rightarrow> GUID \<Rightarrow> 'p \<Rightarrow> wtFwpActionType option"
  assumes highest_decides: "(n, act) \<in> set (hits holds fs layer p) \<Longrightarrow>
      \<forall>(n', act') \<in> set (hits holds fs layer p). n \<le> n' \<longrightarrow> act' = act \<Longrightarrow>
      classify fs layer p = Some act"
    and none_matches: "hits holds fs layer p = [] \<Longrightarrow> classify fs layer p = None"

lemma hits_anon: "hits holds (map anon fs) layer p = hits holds fs layer p"
  by (simp add: hits_def filter_map o_def filter_matches_def)

lemma hits_append [simp]: "hits holds (fs @ gs) layer p = hits holds fs layer p @ hits holds gs layer p"
  by (simp add: hits_def)

lemma hits_Nil [simp]: "hits holds [] layer p = []"
  by (simp add: hits_def)

lemma layersV4_distinct: "distinct (layersV4 @ layersV6)"
  using layer_keys_distinct by (simp add: layersV4_def layersV6_def)

lemma layers_disjoint:
  "layer \<in> set layersV4 \<Longrightarrow> layer \<notin> set layersV6" "layer \<in> set layersV6 \<Longrightarrow> layer \<notin> set layersV4"
  using layersV4_distinct by auto

lemma hits_on_layers:
  assumes "distinct layers"
  shows "hits holds (on_layers f layers) layer p =
    (if layer \<in> set layers \<and> filter_matches holds f p then [(weight_range (weight f), action f)] else [])"
  using assms
proof (induction layers)
  case (Cons l ls)
  then show ?case by (auto simp: on_layers_def hits_def filter_matches_def)
qed (simp add: on_layers_def)

lemma filter_matches_of:
  "length cs < 2 ^ 32 \<Longrightarrow> filter_matches holds (filter_of bo wt cs act) p = conds_match holds cs p"
  by (simp add: filter_matches_def filter_of_def unat_of_nat)

lemma filter_of_simps [simp]:
  "weight (filter_of bo wt cs act) = cFWP_UINT8 wt" "action (filter_of bo wt cs act) = act"
  "layerKey (filter_of bo wt cs act) = zero_GUID" "subLayerKey (filter_of bo wt cs act) = filters bo"
  by (simp_all add: filter_of_def filterWeight_def zero_filter_def)

lemma filter_matches_flags [simp]:
  "filter_matches holds (f \<lparr>flags := x\<rparr>) p = filter_matches holds f p"
  "filter_matches holds (f \<lparr>layerKey := l\<rparr>) p = filter_matches holds f p"
  by (simp_all add: filter_matches_def)

subsection \<open>The traffic the rules name\<close>

definition from_service :: "(wtFwpmFilterCondition0 \<Rightarrow> 'p \<Rightarrow> bool) \<Rightarrow> byte list \<Rightarrow> byte list \<Rightarrow> 'p \<Rightarrow> bool" where
  "from_service holds appID sd p \<longleftrightarrow>
     holds (field_is cFWPM_CONDITION_ALE_APP_ID (cFWP_BYTE_BLOB_TYPE appID)) p \<and>
     holds (field_is cFWPM_CONDITION_ALE_USER_ID (cFWP_SECURITY_DESCRIPTOR_TYPE sd)) p"

definition on_interface :: "(wtFwpmFilterCondition0 \<Rightarrow> 'p \<Rightarrow> bool) \<Rightarrow> u64 \<Rightarrow> 'p \<Rightarrow> bool" where
  "on_interface holds luid p \<longleftrightarrow> holds (field_is cFWPM_CONDITION_IP_LOCAL_INTERFACE (cFWP_UINT64 luid)) p"

definition is_loopback :: "(wtFwpmFilterCondition0 \<Rightarrow> 'p \<Rightarrow> bool) \<Rightarrow> 'p \<Rightarrow> bool" where
  "is_loopback holds p \<longleftrightarrow>
     holds \<lparr>fieldKey = cFWPM_CONDITION_FLAGS, matchType = cFWP_MATCH_FLAGS_ALL_SET,
       conditionValue = cFWP_UINT32 cFWP_CONDITION_FLAG_IS_LOOPBACK\<rparr> p"

definition is_dns :: "(wtFwpmFilterCondition0 \<Rightarrow> 'p \<Rightarrow> bool) \<Rightarrow> 'p \<Rightarrow> bool" where
  "is_dns holds p \<longleftrightarrow>
     holds (field_is cFWPM_CONDITION_IP_REMOTE_PORT (cFWP_UINT16 53)) p \<and>
     (holds (field_is cFWPM_CONDITION_IP_PROTOCOL (cFWP_UINT8 cIPPROTO_UDP)) p \<or>
      holds (field_is cFWPM_CONDITION_IP_PROTOCOL (cFWP_UINT8 cIPPROTO_TCP)) p)"

definition with_server :: "(wtFwpmFilterCondition0 \<Rightarrow> 'p \<Rightarrow> bool) \<Rightarrow> addr list \<Rightarrow> GUID \<Rightarrow> 'p \<Rightarrow> bool" where
  "with_server holds dns layer p \<longleftrightarrow>
     list_ex (\<lambda>ip. case ip of
         AddrZero \<Rightarrow> False
       | Addr4 a \<Rightarrow> layer \<in> set layersV4 \<and>
           holds (field_is cFWPM_CONDITION_IP_REMOTE_ADDRESS (cFWP_UINT32 a)) p
       | Addr6 a _ \<Rightarrow> layer \<in> set layersV6 \<and>
           holds (field_is cFWPM_CONDITION_IP_REMOTE_ADDRESS (cFWP_BYTE_ARRAY16_TYPE (As16 a))) p) dns"

definition is_dhcp4 :: "(wtFwpmFilterCondition0 \<Rightarrow> 'p \<Rightarrow> bool) \<Rightarrow> GUID \<Rightarrow> 'p \<Rightarrow> bool" where
  "is_dhcp4 holds layer p \<longleftrightarrow>
     holds (field_is cFWPM_CONDITION_IP_PROTOCOL (cFWP_UINT8 cIPPROTO_UDP)) p \<and>
     holds (field_is cFWPM_CONDITION_IP_LOCAL_PORT (cFWP_UINT16 68)) p \<and>
     holds (field_is cFWPM_CONDITION_IP_REMOTE_PORT (cFWP_UINT16 67)) p \<and>
     (layer = cFWPM_LAYER_ALE_AUTH_CONNECT_V4 \<and>
        holds (field_is cFWPM_CONDITION_IP_REMOTE_ADDRESS (cFWP_UINT32 0xffffffff)) p \<or>
      layer = cFWPM_LAYER_ALE_AUTH_RECV_ACCEPT_V4)"

definition is_dhcp6 :: "(wtFwpmFilterCondition0 \<Rightarrow> 'p \<Rightarrow> bool) \<Rightarrow> GUID \<Rightarrow> 'p \<Rightarrow> bool" where
  "is_dhcp6 holds layer p \<longleftrightarrow>
     holds (field_is cFWPM_CONDITION_IP_PROTOCOL (cFWP_UINT8 cIPPROTO_UDP)) p \<and>
     holds (field_is cFWPM_CONDITION_IP_REMOTE_PORT (cFWP_UINT16 547)) p \<and>
     holds (field_is cFWPM_CONDITION_IP_LOCAL_ADDRESS (cFWP_V6_ADDR_MASK linkLocal)) p \<and>
     holds (field_is cFWPM_CONDITION_IP_LOCAL_PORT (cFWP_UINT16 546)) p \<and>
     (layer = cFWPM_LAYER_ALE_AUTH_CONNECT_V6 \<and>
        (holds (field_is cFWPM_CONDITION_IP_REMOTE_ADDRESS (cFWP_BYTE_ARRAY16_TYPE linkLocalDHCPMulticast)) p \<or>
         holds (field_is cFWPM_CONDITION_IP_REMOTE_ADDRESS (cFWP_BYTE_ARRAY16_TYPE siteLocalDHCPMulticast)) p) \<or>
      layer = cFWPM_LAYER_ALE_AUTH_RECV_ACCEPT_V6 \<and>
        holds (field_is cFWPM_CONDITION_IP_REMOTE_ADDRESS (cFWP_V6_ADDR_MASK linkLocal)) p)"

text \<open>Neighbour discovery, as the comment of \<open>permitNdp\<close> lists it: the router solicitation goes out to
  all routers, advertisements and redirects come in from link-local addresses, and neighbour
  messages go both ways.\<close>

definition is_icmp6 :: "(wtFwpmFilterCondition0 \<Rightarrow> 'p \<Rightarrow> bool) \<Rightarrow> u16 \<Rightarrow> 'p \<Rightarrow> bool" where
  "is_icmp6 holds type p \<longleftrightarrow>
     holds (field_is cFWPM_CONDITION_IP_PROTOCOL (cFWP_UINT8 cIPPROTO_ICMPV6)) p \<and>
     holds (field_is cFWPM_CONDITION_ICMP_TYPE (cFWP_UINT16 type)) p \<and>
     holds (field_is cFWPM_CONDITION_ICMP_CODE (cFWP_UINT16 0)) p"

definition is_ndp :: "(wtFwpmFilterCondition0 \<Rightarrow> 'p \<Rightarrow> bool) \<Rightarrow> GUID \<Rightarrow> 'p \<Rightarrow> bool" where
  "is_ndp holds layer p \<longleftrightarrow>
     layer = cFWPM_LAYER_ALE_AUTH_CONNECT_V6 \<and>
       (is_icmp6 holds 133 p \<and>
          holds (field_is cFWPM_CONDITION_IP_REMOTE_ADDRESS (cFWP_BYTE_ARRAY16_TYPE linkLocalRouterMulticast)) p \<or>
        is_icmp6 holds 135 p \<or> is_icmp6 holds 136 p) \<or>
     layer = cFWPM_LAYER_ALE_AUTH_RECV_ACCEPT_V6 \<and>
       ((is_icmp6 holds 134 p \<or> is_icmp6 holds 137 p) \<and>
          holds (field_is cFWPM_CONDITION_IP_REMOTE_ADDRESS (cFWP_V6_ADDR_MASK linkLocal)) p \<or>
        is_icmp6 holds 135 p \<or> is_icmp6 holds 136 p)"

text \<open>The policy.\<close>

definition verdict :: "(wtFwpmFilterCondition0 \<Rightarrow> 'p \<Rightarrow> bool) \<Rightarrow> byte list \<Rightarrow> byte list \<Rightarrow> u64 \<Rightarrow> addr list \<Rightarrow>
    GUID \<Rightarrow> 'p \<Rightarrow> wtFwpActionType" where
  "verdict holds appID sd luid dns layer p =
     (if from_service holds appID sd p then cFWP_ACTION_PERMIT
      else if is_dns holds p \<and> dns \<noteq> [] then
        (if with_server holds dns layer p then cFWP_ACTION_PERMIT else cFWP_ACTION_BLOCK)
      else if is_loopback holds p \<or> on_interface holds luid p \<or> is_dhcp4 holds layer p \<or>
              is_dhcp6 holds layer p \<or> is_ndp holds layer p then cFWP_ACTION_PERMIT
      else cFWP_ACTION_BLOCK)"

subsection \<open>What each group of rules contributes\<close>

lemmas condition_keys = condition_keys_distinct [simplified]
  distinct_rev [THEN iffD2, OF condition_keys_distinct, simplified]
  cFWPM_CONDITION_ICMP_TYPE_def cFWPM_CONDITION_ICMP_CODE_def

lemmas layer_keys = layer_keys_distinct [simplified]
  distinct_rev [THEN iffD2, OF layer_keys_distinct, simplified]

lemma two_layers:
  assumes "a \<noteq> b"
  shows "hits holds (on_layers f [a]) layer p @ hits holds (on_layers g [b]) layer p =
    (if layer = a then hits holds (on_layers f [a]) layer p else if layer = b then hits holds (on_layers g [b]) layer p else [])"
  using assms by (simp add: hits_on_layers)

lemma hits_service:
  "hits holds (service_rules bo wt appID sd) layer p =
    (if layer \<in> set (layersV4 @ layersV6) \<and> from_service holds appID sd p then [(unat wt, cFWP_ACTION_PERMIT)] else [])"
  unfolding service_rules_def hits_on_layers [OF layersV4_distinct]
  by (simp add: filter_matches_of conds_match_def condition_keys from_service_def)

lemma hits_tun:
  "hits holds (tun_rules bo wt luid) layer p =
    (if layer \<in> set (layersV4 @ layersV6) \<and> on_interface holds luid p then [(unat wt, cFWP_ACTION_PERMIT)] else [])"
  unfolding tun_rules_def hits_on_layers [OF layersV4_distinct]
  by (simp add: filter_matches_of conds_match_def on_interface_def)

lemma hits_loopback:
  "hits holds (loopback_rules bo wt) layer p =
    (if layer \<in> set (layersV4 @ layersV6) \<and> is_loopback holds p then [(unat wt, cFWP_ACTION_PERMIT)] else [])"
  unfolding loopback_rules_def hits_on_layers [OF layersV4_distinct]
  by (simp add: filter_matches_of conds_match_def is_loopback_def)

lemma hits_block:
  "hits holds (block_rules bo wt) layer p =
    (if layer \<in> set (layersV4 @ layersV6) then [(unat wt, cFWP_ACTION_BLOCK)] else [])"
  unfolding block_rules_def hits_on_layers [OF layersV4_distinct]
  by (simp add: filter_matches_of conds_match_def)

lemma hits_dhcp4:
  "hits holds (dhcp4_rules bo wt) layer p = (if is_dhcp4 holds layer p then [(unat wt, cFWP_ACTION_PERMIT)] else [])"
  unfolding dhcp4_rules_def Let_def hits_append
  by (subst two_layers; simp add: layer_keys hits_on_layers filter_matches_of conds_match_def condition_keys
      is_dhcp4_def cong: if_cong; blast)

lemma hits_dhcp6:
  "hits holds (dhcp6_rules bo wt) layer p = (if is_dhcp6 holds layer p then [(unat wt, cFWP_ACTION_PERMIT)] else [])"
  unfolding dhcp6_rules_def Let_def hits_append
  by (subst two_layers; simp add: layer_keys hits_on_layers filter_matches_of conds_match_def condition_keys
      is_dhcp6_def cong: if_cong; blast)

lemma hits_ndp:
  "set (hits holds (ndp_rules bo wt) layer p) = (if is_ndp holds layer p then {(unat wt, cFWP_ACTION_PERMIT)} else {})"
proof -
  let ?L = "cFWPM_LAYER_ALE_AUTH_CONNECT_V6" and ?R = "cFWPM_LAYER_ALE_AUTH_RECV_ACCEPT_V6"
  consider "layer = ?L" | "layer = ?R" | "layer \<noteq> ?L" "layer \<noteq> ?R" by blast
  then show ?thesis
    by cases (simp_all add: ndp_rules_def ndp_defs_def hits_def icmp_conditions_def filter_matches_of
      conds_match_def condition_keys layer_keys is_ndp_def is_icmp6_def)
qed

lemma except_keys:
  "c \<in> set (exceptV4 dns) \<Longrightarrow> fieldKey c = cFWPM_CONDITION_IP_REMOTE_ADDRESS"
  "c \<in> set (exceptV6 dns) \<Longrightarrow> fieldKey c = cFWPM_CONDITION_IP_REMOTE_ADDRESS"
  by (induction dns rule: exceptV4.induct; auto) (induction dns rule: exceptV6.induct; auto)

lemma except_length: "length (exceptV4 dns) \<le> length dns" "length (exceptV6 dns) \<le> length dns"
  by (induction dns rule: exceptV4.induct; simp) (induction dns rule: exceptV6.induct; simp)

lemma with_server_iff:
  "with_server holds dns layer p \<longleftrightarrow>
     layer \<in> set layersV4 \<and> list_ex (\<lambda>c. holds c p) (exceptV4 dns) \<or>
     layer \<in> set layersV6 \<and> list_ex (\<lambda>c. holds c p) (exceptV6 dns)"
proof (induction dns)
  case (Cons a dns)
  then show ?case by (cases a) (auto simp: with_server_def)
qed (simp add: with_server_def)

lemma conds_match_deny: "conds_match holds denyConditions p = is_dns holds p"
  by (simp add: conds_match_def denyConditions_def is_dns_def condition_keys)

lemma conds_match_allow:
  assumes "\<And>c. c \<in> set cs \<Longrightarrow> fieldKey c = cFWPM_CONDITION_IP_REMOTE_ADDRESS" "cs \<noteq> []"
  shows "conds_match holds (denyConditions @ cs) p \<longleftrightarrow> is_dns holds p \<and> list_ex (\<lambda>c. holds c p) cs"
proof -
  have other: "list_ex (\<lambda>d. fieldKey d = k \<and> holds d p) cs = (k = cFWPM_CONDITION_IP_REMOTE_ADDRESS \<and> list_ex (\<lambda>c. holds c p) cs)" for k
    using assms(1) by (auto simp: list_ex_iff)
  have "conds_match holds (denyConditions @ cs) p \<longleftrightarrow>
      conds_match holds denyConditions p \<and> list_all (\<lambda>c. list_ex (\<lambda>c. holds c p) cs) cs"
    using assms(1) by (auto simp: conds_match_def denyConditions_def other condition_keys list_all_iff)
  then show ?thesis using assms(2) by (auto simp: conds_match_deny list_all_iff neq_Nil_conv)
qed

lemma filter_matches_allow:
  assumes "length dns < 2 ^ 31"
  shows "exceptV4 dns \<noteq> [] \<Longrightarrow> filter_matches holds (filter_of bo wt (denyConditions @ exceptV4 dns) act) p \<longleftrightarrow>
       is_dns holds p \<and> list_ex (\<lambda>c. holds c p) (exceptV4 dns)"
    "exceptV6 dns \<noteq> [] \<Longrightarrow> filter_matches holds (filter_of bo wt (denyConditions @ exceptV6 dns) act) p \<longleftrightarrow>
       is_dns holds p \<and> list_ex (\<lambda>c. holds c p) (exceptV6 dns)"
  using assms except_length [of dns]
  by (simp_all add: filter_matches_of conds_match_allow except_keys denyConditions_def [THEN arg_cong, of length])

lemma hits_dns:
  assumes "length dns < 2 ^ 31"
  shows "set (hits holds (dns_rules dns bo allow deny) layer p) =
    (if layer \<in> set (layersV4 @ layersV6) \<and> is_dns holds p
     then {(unat deny, cFWP_ACTION_BLOCK)} \<union>
       (if with_server holds dns layer p then {(unat allow, cFWP_ACTION_PERMIT)} else {}) else {})"
proof -
  have d: "distinct layersV4" "distinct layersV6" using layersV4_distinct by auto
  have deny: "filter_matches holds (filter_of bo deny denyConditions act) p = is_dns holds p" for act
    by (subst filter_matches_of) (simp_all add: conds_match_deny, simp add: denyConditions_def)
  show ?thesis
    unfolding dns_rules_def with_server_iff
    using layers_disjoint [of layer]
    by (cases "exceptV4 dns = []"; cases "exceptV6 dns = []")
      (simp_all add: hits_on_layers [OF layersV4_distinct] hits_on_layers d deny
        filter_matches_allow [OF assms], blast+)
qed

lemma weights:
  "unat (15 :: 8 word) = 15" "unat (14 :: 8 word) = 14" "unat (13 :: 8 word) = 13"
  "unat (12 :: 8 word) = 12"
  by simp_all

lemma mem_if:
  "x \<in> set (if b then [y] else []) \<longleftrightarrow> b \<and> x = y"
  "x \<in> (if b then A else {}) \<longleftrightarrow> b \<and> x \<in> A"
  by auto

context wfp_arbitration
begin

lemma classify_hits:
  assumes "set (hits holds fs layer p) = H" "(n, act) \<in> H" "\<And>n' act'. (n', act') \<in> H \<Longrightarrow> n \<le> n' \<Longrightarrow> act' = act"
  shows "classify fs layer p = Some act"
  using highest_decides [of n act fs layer p] assms by blast

lemma classify_rules:
  assumes "map anon fs = firewall_rules bo appID sd luid False dns" "length dns < 2 ^ 31"
    "layer \<in> set (layersV4 @ layersV6)"
  shows "classify fs layer p = Some (verdict holds appID sd luid dns layer p)"
proof -
  let ?H = "set (hits holds (firewall_rules bo appID sd luid False dns) layer p)"
  have h: "set (hits holds fs layer p) = ?H" using hits_anon [of holds fs] assms(1) by simp
  note hs = firewall_rules_def hits_service hits_tun hits_loopback hits_block hits_dhcp4 hits_dhcp6
    hits_ndp hits_dns [OF assms(2)] assms(3)
  have H: "(n, act) \<in> ?H \<longleftrightarrow>
      n = 15 \<and> act = cFWP_ACTION_PERMIT \<and> from_service holds appID sd p \<or>
      n = 14 \<and> act = cFWP_ACTION_BLOCK \<and> dns \<noteq> [] \<and> is_dns holds p \<or>
      n = 15 \<and> act = cFWP_ACTION_PERMIT \<and> dns \<noteq> [] \<and> is_dns holds p \<and> with_server holds dns layer p \<or>
      n = 13 \<and> act = cFWP_ACTION_PERMIT \<and> is_loopback holds p \<or>
      n = 12 \<and> act = cFWP_ACTION_PERMIT \<and> (on_interface holds luid p \<or> is_dhcp4 holds layer p \<or>
        is_dhcp6 holds layer p \<or> is_ndp holds layer p) \<or>
      n = 0 \<and> act = cFWP_ACTION_BLOCK" for n act
    using assms(3) by (cases "dns = []") (simp_all add: hs mem_if weights, argo+)
  note pick = classify_hits [OF h]
  consider
      (service) "from_service holds appID sd p \<or> dns \<noteq> [] \<and> is_dns holds p \<and> with_server holds dns layer p"
    | (dns) "\<not> from_service holds appID sd p" "dns \<noteq> []" "is_dns holds p" "\<not> with_server holds dns layer p"
    | (loopback) "\<not> from_service holds appID sd p" "\<not> (dns \<noteq> [] \<and> is_dns holds p)" "is_loopback holds p"
    | (permitted) "\<not> from_service holds appID sd p" "\<not> (dns \<noteq> [] \<and> is_dns holds p)" "\<not> is_loopback holds p"
        "on_interface holds luid p \<or> is_dhcp4 holds layer p \<or> is_dhcp6 holds layer p \<or> is_ndp holds layer p"
    | (rest) "\<not> from_service holds appID sd p" "\<not> (dns \<noteq> [] \<and> is_dns holds p)" "\<not> is_loopback holds p"
        "\<not> (on_interface holds luid p \<or> is_dhcp4 holds layer p \<or> is_dhcp6 holds layer p \<or> is_ndp holds layer p)"
    by blast
  then show ?thesis
  proof cases
    case service
    then have "classify fs layer p = Some cFWP_ACTION_PERMIT" by (intro pick [of 15]) (auto simp: H)
    then show ?thesis using service by (auto simp: verdict_def)
  next
    case dns
    then have "classify fs layer p = Some cFWP_ACTION_BLOCK" by (intro pick [of 14]) (auto simp: H)
    then show ?thesis using dns by (simp add: verdict_def)
  next
    case loopback
    then have "classify fs layer p = Some cFWP_ACTION_PERMIT" by (intro pick [of 13]) (auto simp: H)
    then show ?thesis using loopback by (auto simp: verdict_def)
  next
    case permitted
    then have "classify fs layer p = Some cFWP_ACTION_PERMIT" by (intro pick [of 12]) (auto simp: H)
    then show ?thesis using permitted by (auto simp: verdict_def)
  next
    case rest
    then have "classify fs layer p = Some cFWP_ACTION_BLOCK" by (intro pick [of 0]) (auto simp: H)
    then show ?thesis using rest by (auto simp: verdict_def)
  qed
qed

lemma classify_unrestricted:
  assumes "map anon fs = firewall_rules bo appID sd luid True dns" "layer \<in> set (layersV4 @ layersV6)"
  shows "classify fs layer p = (if from_service holds appID sd p then Some cFWP_ACTION_PERMIT else None)"
proof -
  have h: "hits holds fs layer p =
      (if from_service holds appID sd p then [(15, cFWP_ACTION_PERMIT)] else [])"
    using assms by (simp add: hits_anon [of holds fs layer p, symmetric] firewall_rules_def hits_service weights)
  show ?thesis
    using h none_matches [of fs layer p] highest_decides [of 15 cFWP_ACTION_PERMIT fs layer p] by auto
qed

end

section \<open>An engine that keeps the contracts\<close>

text \<open>A small engine with a scripted outcome for each call shows that the contracts can be met.\<close>

record engine =
  handles :: nat
  in_force :: "nat \<Rightarrow> wtFwpmFilter0 list"
  transaction :: "nat \<Rightarrow> wtFwpmFilter0 list option"
  outcomes :: "bool list"

definition engine_active :: "engine \<Rightarrow> nat \<Rightarrow> wtFwpmFilter0 list" where
  "engine_active s h = (if h \<le> handles s then in_force s h else [])"

definition engine_pending :: "engine \<Rightarrow> nat \<Rightarrow> wtFwpmFilter0 list option" where
  "engine_pending s h = (if h \<le> handles s then transaction s h else None)"

text \<open>A call on a handle: it fails when the script says so or the handle is unknown.\<close>

definition engine_call :: "nat \<Rightarrow> (engine \<Rightarrow> engine) \<Rightarrow> engine \<Rightarrow> (nat + unit) \<times> engine" where
  "engine_call h f s =
     (let s' = s \<lparr>outcomes := tl (outcomes s)\<rparr>
      in if h \<le> handles s \<and> (outcomes s = [] \<or> hd (outcomes s)) then (Inr (), f s') else (Inl 5, s'))"

definition scripted :: "engine wfp" where
  "scripted =
     \<lparr>fwpmEngineOpen0 = (\<lambda>_ s.
        let s' = s \<lparr>outcomes := tl (outcomes s)\<rparr>; h = Suc (handles s)
        in if outcomes s = [] \<or> hd (outcomes s)
           then (Inr h, s' \<lparr>handles := h, in_force := (in_force s) (h := []), transaction := (transaction s) (h := None)\<rparr>)
           else (Inl 5, s')),
      fwpmEngineClose0 = (\<lambda>h. engine_call h (\<lambda>s. s \<lparr>in_force := (in_force s) (h := [])\<rparr>)),
      fwpmSubLayerAdd0 = (\<lambda>h _. engine_call h id),
      fwpmProviderAdd0 = (\<lambda>h _. engine_call h id),
      fwpmFilterAdd0 = (\<lambda>h f. engine_call h (\<lambda>s. s \<lparr>transaction :=
        (transaction s) (h := map_option (\<lambda>fs. fs @ [f]) (transaction s h))\<rparr>)),
      fwpmTransactionBegin0 = (\<lambda>h. engine_call h (\<lambda>s. s \<lparr>transaction := (transaction s) (h := Some [])\<rparr>)),
      fwpmTransactionCommit0 = (\<lambda>h. engine_call h (\<lambda>s. s
        \<lparr>in_force := (in_force s) (h := in_force s h @ (case transaction s h of None \<Rightarrow> [] | Some fs \<Rightarrow> fs)),
         transaction := (transaction s) (h := None)\<rparr>)),
      fwpmTransactionAbort0 = (\<lambda>h. engine_call h (\<lambda>s. s \<lparr>transaction := (transaction s) (h := None)\<rparr>))\<rparr>"

text \<open>A packet is the list of the conditions it satisfies, and the highest range decides.\<close>

fun best :: "(nat \<times> wtFwpActionType) list \<Rightarrow> (nat \<times> wtFwpActionType) option" where
  "best [] = None"
| "best (x # hs) = (case best hs of None \<Rightarrow> Some x | Some y \<Rightarrow> if fst y \<le> fst x then Some x else Some y)"

definition satisfied :: "wtFwpmFilterCondition0 \<Rightarrow> wtFwpmFilterCondition0 list \<Rightarrow> bool" where
  "satisfied c p = (c \<in> set p)"

definition by_weight :: "wtFwpmFilter0 list \<Rightarrow> GUID \<Rightarrow> wtFwpmFilterCondition0 list \<Rightarrow> wtFwpActionType option" where
  "by_weight fs layer p = map_option snd (best (hits satisfied fs layer p))"

lemma best_None [simp]: "best hs = None \<longleftrightarrow> hs = []"
  by (cases hs) (auto split: option.splits)

lemma best_highest: "best hs = Some x \<Longrightarrow> x \<in> set hs \<and> (\<forall>y\<in>set hs. fst y \<le> fst x)"
  by (induction hs arbitrary: x) (fastforce split: option.splits if_splits)+

interpretation scripted: wfp_engine scripted engine_active engine_pending
  by unfold_locales
    (auto simp: scripted_def engine_call_def engine_active_def engine_pending_def Let_def fun_eq_iff split: if_splits)

interpretation by_weight: wfp_arbitration satisfied by_weight
proof unfold_locales
  fix n act fs layer p
  let ?hs = "hits satisfied fs layer p"
  assume a: "(n, act) \<in> set ?hs" "\<forall>(n', act')\<in>set ?hs. n \<le> n' \<longrightarrow> act' = act"
  then obtain x where x: "best ?hs = Some x" by (cases "best ?hs") auto
  from best_highest [OF x] a have "snd x = act" by force
  with x show "by_weight fs layer p = Some act" by (simp add: by_weight_def)
qed (simp add: by_weight_def)

text \<open>A process that runs as a service.\<close>

definition service_process :: process where
  "service_process =
     \<lparr>OpenProcessToken = Inr (),
      GetTokenGroups = Inr [\<lparr>Sid = \<lparr>sid_IsValid = True, IdentifierAuthority = SECURITY_NT_AUTHORITY,
        SubAuthorities = [80, 1, 2, 3, 4, 5]\<rparr>, Attributes = 14\<rparr>],
      ACLFromEntries = (\<lambda>_. Inr [1]), NewSecurityDescriptor = Inr [2],
      SetDACL = (\<lambda>sd acl. Inr (sd @ acl)), ToSelfRelative = Inr,
      os_Executable = Inr ''wireguard.exe'', fwpmGetAppIdFromFileName0 = (\<lambda>_. Inr [7]),
      GenerateGUID = (\<lambda>n. Inr \<lparr>Data1 = of_nat n, Data2 = 0, Data3 = 0, Data4 = replicate 8 0\<rparr>)\<rparr>"

definition fresh_engine :: "bool list \<Rightarrow> engine" where
  "fresh_engine script = \<lparr>handles = 0, in_force = (\<lambda>_. []), transaction = (\<lambda>_. None), outcomes = script\<rparr>"

text \<open>With nothing scripted to fail, all calls succeed.\<close>

definition ready :: "nat \<Rightarrow> engine \<Rightarrow> bool" where
  "ready h s \<longleftrightarrow> h \<le> handles s \<and> outcomes s = []"

definition succeeds :: "nat \<Rightarrow> engine op \<Rightarrow> bool" where
  "succeeds h f \<longleftrightarrow> (\<forall>s. ready h s \<longrightarrow> (\<exists>s'. f s = (Inr (), s') \<and> ready h s'))"

lemma succeeds_run_all: "list_all (succeeds h) fs \<Longrightarrow> succeeds h (run_all fs)"
  unfolding succeeds_def
proof (induction fs)
  case (Cons f fs)
  then show ?case by (fastforce split: prod.splits)
qed simp

lemma succeeds_add_filter:
  "CHR 0x00 \<notin> set name \<Longrightarrow> succeeds h (add_filter scripted h f name layer)"
  by (simp add: succeeds_def add_filter_def createWtFwpmDisplayData0_def call_def scripted_def engine_call_def
      ready_def)

lemma succeeds_ndp: "succeeds h (permitNdp scripted h bo wt)"
proof -
  have "permitNdp scripted h bo wt = run_all (map (\<lambda>d. add_filter scripted h
      (filter_of bo wt (def_conditions d) cFWP_ACTION_PERMIT) (def_name d) (def_layer d)) ndp_defs)"
    by (intro ext) (simp add: permitNdp_def ndp_defs_def createWtFwpmDisplayData0_def del: run_all.simps)
  then show ?thesis
    by (simp add: ndp_defs_def succeeds_run_all succeeds_add_filter del: run_all.simps)
qed

lemma succeeds_dns:
  assumes "deny < allow"
  shows "succeeds h (blockDNS dns scripted h bo allow deny)"
proof -
  have "(allow \<le> deny) = False" using assms by simp
  then show ?thesis
    unfolding blockDNS_def Let_def by (simp only: if_False) (rule succeeds_run_all, simp add: succeeds_add_filter)
qed

lemma service_process_ok:
  "getCurrentProcessAppID service_process = Inr [7]"
  "getCurrentProcessSecurityDescriptor service_process = Inr [2, 1]"
  by code_simp+

lemma succeeds_service: "succeeds h (permitWireGuardService service_process scripted h bo wt)"
  unfolding permitWireGuardService_def service_process_ok Let_def sum.case
  by (simp add: succeeds_run_all succeeds_add_filter del: run_all.simps)

lemma succeeds_rules:
  "succeeds h (permitLoopback scripted h bo wt)" "succeeds h (permitTunInterface scripted h bo wt luid)"
  "succeeds h (permitDHCPIPv4 scripted h bo wt)" "succeeds h (permitDHCPIPv6 scripted h bo wt)"
  "succeeds h (blockAll scripted h bo wt)"
  unfolding permitLoopback_def permitTunInterface_def permitDHCPIPv4_def permitDHCPIPv6_def blockAll_def Let_def
  by (simp_all add: succeeds_run_all succeeds_add_filter del: run_all.simps)

lemma succeeds_objectInstaller: "succeeds h (objectInstaller service_process scripted luid dnr dns h)"
proof -
  have "\<exists>bo s'. registerBaseObjects service_process scripted h s = (Inr bo, s') \<and> ready h s'" if "ready h s" for s
    using that by (simp add: registerBaseObjects_def service_process_def createWtFwpmDisplayData0_def call_def
        scripted_def engine_call_def ready_def)
  moreover have "succeeds h (run_all (permitWireGuardService service_process scripted h bo 15 #
      (if dnr then [] else (if dns \<noteq> [] then [blockDNS dns scripted h bo 15 14] else []) @
        [permitLoopback scripted h bo 13, permitTunInterface scripted h bo 12 luid, permitDHCPIPv4 scripted h bo 12,
         permitDHCPIPv6 scripted h bo 12, permitNdp scripted h bo 12, blockAll scripted h bo 0])))" for bo
    by (intro succeeds_run_all)
      (simp add: succeeds_service succeeds_dns succeeds_rules succeeds_ndp)
  ultimately show ?thesis
    unfolding succeeds_def objectInstaller_def by (fastforce simp del: run_all.simps)
qed

lemma EnableFirewall_scripted:
  "EnableFirewall service_process scripted luid dnr dns 0 (fresh_engine []) =
    (Inr (), 1, snd (snd (EnableFirewall service_process scripted luid dnr dns 0 (fresh_engine []))))"
proof -
  obtain s0 where 1: "createWfpSession scripted (fresh_engine []) = (Inr 1, s0)" "ready 1 s0"
    by (simp add: createWfpSession_def createWtFwpmDisplayData0_def scripted_def fresh_engine_def ready_def)
  then obtain s1 where 2: "call (fwpmTransactionBegin0 scripted 1) s0 = (Inr (), s1)" "ready 1 s1"
    by (simp add: call_def scripted_def engine_call_def ready_def)
  then obtain s2 where 3: "objectInstaller service_process scripted luid dnr dns 1 s1 = (Inr (), s2)" "ready 1 s2"
    using succeeds_objectInstaller [of 1 luid dnr dns] unfolding succeeds_def by blast
  then obtain s3 where 4: "call (fwpmTransactionCommit0 scripted 1) s2 = (Inr (), s3)"
    by (simp add: call_def scripted_def engine_call_def ready_def)
  show ?thesis
    using 1(1) 2(1) 3(1) 4 by (simp add: EnableFirewall_def runTransaction_def del: One_nat_def)
qed

section \<open>Histories\<close>

text \<open>The states that calls of \<open>EnableFirewall\<close> and \<open>DisableFirewall\<close> lead to, as long as closing a
  session succeeds.\<close>

inductive firewall_history :: "'s wfp \<Rightarrow> 's \<Rightarrow> nat \<Rightarrow> 's \<Rightarrow> bool" for w s0 where
  start: "firewall_history w s0 0 s0"
| enable: "firewall_history w s0 n s \<Longrightarrow> EnableFirewall p w luid dnr dns n s = (r, n', s') \<Longrightarrow>
    firewall_history w s0 n' s'"
| disable: "firewall_history w s0 n s \<Longrightarrow> fst (fwpmEngineClose0 w n s) = Inr () \<Longrightarrow>
    DisableFirewall w n s = (n', s') \<Longrightarrow> firewall_history w s0 n' s'"

lemma on_layers_sublayer:
  "subLayerKey f = k \<Longrightarrow> list_all (\<lambda>f. subLayerKey f = k) (on_layers f layers)"
  by (simp add: on_layers_def list_all_iff)

lemma firewall_rules_sublayer:
  "list_all (\<lambda>f. subLayerKey f = filters bo) (firewall_rules bo appID sd luid dnr dns)"
  by (simp add: firewall_rules_def service_rules_def dns_rules_def loopback_rules_def tun_rules_def
      dhcp4_rules_def dhcp6_rules_def block_rules_def Let_def on_layers_sublayer)
    (simp add: ndp_rules_def list_all_iff)

section \<open>Properties\<close>

text \<open>C2: once \<open>EnableFirewall\<close> has succeeded with restrictions, the engine decides every connection, in
  and out, over IPv4 and IPv6, by the policy: the WireGuard service passes; DNS goes to the given
  servers only, on every interface; loopback, the tunnel's interface, DHCP and neighbour discovery
  pass; everything else is blocked.\<close>

theorem EnableFirewall_verdict:
  assumes "wfp_engine w active pending" "wfp_arbitration holds classify"
    "EnableFirewall p w luid False dns 0 s = (Inr (), session, s')" "length dns < 2 ^ 31"
    "layer \<in> set (layersV4 @ layersV6)"
  shows "\<exists>appID sd. getCurrentProcessAppID p = Inr appID \<and> getCurrentProcessSecurityDescriptor p = Inr sd \<and>
    classify (active s' session) layer packet = Some (verdict holds appID sd luid dns layer packet)"
proof -
  from wfp_engine.EnableFirewall_spec [OF assms(1,3)] obtain bo appID sd new where
    n: "getCurrentProcessAppID p = Inr appID" "getCurrentProcessSecurityDescriptor p = Inr sd"
      "active s' = (active s) (session := new)" "map anon new = firewall_rules bo appID sd luid False dns"
    by auto
  with wfp_arbitration.classify_rules [OF assms(2) n(4) assms(4,5)] show ?thesis by simp
qed

definition leak :: "wtFwpmFilterCondition0 list" where
  "leak = [field_is cFWPM_CONDITION_IP_LOCAL_INTERFACE (cFWP_UINT64 9),
     field_is cFWPM_CONDITION_IP_REMOTE_PORT (cFWP_UINT16 53),
     field_is cFWPM_CONDITION_IP_PROTOCOL (cFWP_UINT8 cIPPROTO_UDP),
     field_is cFWPM_CONDITION_IP_REMOTE_ADDRESS (cFWP_UINT32 0x08080808)]"

theorem EnableFirewall_verdict_witness:
  "by_weight (engine_active (snd (snd (EnableFirewall service_process scripted 9 False [Addr4 0x01010101]
     0 (fresh_engine [])))) 1) cFWPM_LAYER_ALE_AUTH_CONNECT_V4 leak = Some cFWP_ACTION_BLOCK"
proof -
  have "verdict satisfied [7] [2, 1] 9 [Addr4 0x01010101] cFWPM_LAYER_ALE_AUTH_CONNECT_V4 leak =
    cFWP_ACTION_BLOCK" by code_simp
  then show ?thesis
    using EnableFirewall_verdict [OF scripted.wfp_engine_axioms by_weight.wfp_arbitration_axioms
        EnableFirewall_scripted, of "[Addr4 0x01010101]" cFWPM_LAYER_ALE_AUTH_CONNECT_V4 9 leak]
    by (simp add: layersV4_def service_process_ok)
qed

text \<open>C20: \<open>EnableFirewall\<close> is all or nothing: when it fails, whichever call fails, the handle and the
  filters in force are as before; when it succeeds, the firewall was off, and the filters of the new
  session are exactly the rules, all of them in the sublayer of the package.\<close>

theorem EnableFirewall_all_or_nothing:
  assumes "wfp_engine w active pending" "EnableFirewall p w luid dnr dns n s = (r, n', s')"
  shows "isl r \<and> n' = n \<and> active s' = active s \<or>
    \<not> isl r \<and> n = 0 \<and> n' \<noteq> 0 \<and> (\<forall>h. h \<noteq> n' \<longrightarrow> active s' h = active s h) \<and>
    (\<exists>bo appID sd. map anon (active s' n') = firewall_rules bo appID sd luid dnr dns \<and>
       list_all (\<lambda>f. subLayerKey f = filters bo) (active s' n'))"
proof (cases "isl r")
  case False
  with wfp_engine.EnableFirewall_spec [OF assms] obtain bo appID sd new where
    n: "n = 0" "n' \<noteq> 0" "active s' = (active s) (n' := new)" "map anon new = firewall_rules bo appID sd luid dnr dns"
    by auto
  have "list_all (\<lambda>f. subLayerKey f = filters bo) (map anon new)"
    unfolding n(4) by (rule firewall_rules_sublayer)
  then have "list_all (\<lambda>f. subLayerKey f = filters bo) new" by (simp add: list_all_iff)
  with n False show ?thesis by auto
qed (use wfp_engine.EnableFirewall_spec [OF assms] in simp)

theorem EnableFirewall_all_or_nothing_witness:
  "engine_active (snd (snd (EnableFirewall service_process scripted 9 True [] 0
     (fresh_engine (replicate 6 True @ [False]))))) = engine_active (fresh_engine (replicate 6 True @ [False]))"
proof -
  let ?e = "EnableFirewall service_process scripted 9 True [] 0 (fresh_engine (replicate 6 True @ [False]))"
  have "isl (fst ?e)" by code_simp
  moreover have e: "?e = (fst ?e, fst (snd ?e), snd (snd ?e))" by simp
  ultimately show ?thesis
    using EnableFirewall_all_or_nothing [OF scripted.wfp_engine_axioms e] by blast
qed



end
