(* ===== verification/Ringlogger.thy ===== *)
theory Ringlogger
  imports Go_Prelude
begin

text \<open>
  Package \<open>ringlogger\<close>: the log is a file of 2048 slots of 512 bytes that every process of the program
  maps and writes to (\<open>ringlogger.go\<close>), with a buffer in front of it for the output of the runtime
  (\<open>global.go\<close>).  A \<open>logMem\<close> is the mapped memory, shared by the loggers; the operations take it and
  return it changed.  Bytes are characters.  A write is a sequence of stores, so that the states a
  concurrent reader can see are there: \<open>write_steps\<close>.
\<close>

unbundle bit_operations_syntax

section \<open>The log\<close>

definition maxLogLineLength :: nat where "maxLogLineLength = 512"

definition maxTagLength :: nat where "maxTagLength = 5"

definition maxLines :: nat where "maxLines = 2048"

definition magic :: u32 where "magic = 0xbadbabe"

record logLine =
  timeNs :: int
  line_bytes :: string

record logMem =
  mem_magic :: u32
  nextIndex :: u32
  lines :: "logLine list"

record Ringlogger =
  tag :: string
  has_file :: bool
  mapping :: nat
  mapped :: bool
  readOnly :: bool

datatype ring_error = LabelTooLong | Win32 nat | ShortWrite | EOF | BadHandle

definition nul :: char where "nul = CHR 0x00"

definition zero_line :: logLine where
  "zero_line = \<lparr>timeNs = 0, line_bytes = replicate maxLogLineLength nul\<rparr>"

definition zero_mem :: logMem where
  "zero_mem = \<lparr>mem_magic = 0, nextIndex = 0, lines = replicate maxLines zero_line\<rparr>"

text \<open>Attaching to a mapping clears memory that is not a log yet.  \<open>view\<close> is what \<open>MapViewOfFile\<close>
  returns: an error, or the memory.\<close>

definition newRingloggerFromMappingHandle ::
  "nat \<Rightarrow> string \<Rightarrow> bool \<Rightarrow> nat + logMem \<Rightarrow> ring_error + Ringlogger \<times> logMem" where
  "newRingloggerFromMappingHandle mappingHandle tg writable view =
     (case view of
        Inl n \<Rightarrow> Inl (Win32 n)
      | Inr log \<Rightarrow>
          Inr (\<lparr>tag = tg, has_file = False, mapping = mappingHandle, mapped = True, readOnly = \<not> writable\<rparr>,
               if mem_magic log \<noteq> magic then zero_mem \<lparr>mem_magic := magic\<rparr> else log))"

text \<open>The outcomes of the calls to the system: an error number, or none.\<close>

record ring_files =
  OpenFile_error :: "nat option"
  Truncate_error :: "nat option"
  CreateFileMapping_result :: "nat option \<times> nat"
  MapViewOfFile_result :: "nat + logMem"

definition ERROR_ALREADY_EXISTS :: nat where "ERROR_ALREADY_EXISTS = 183"

definition NewRinglogger :: "ring_files \<Rightarrow> string \<Rightarrow> ring_error + Ringlogger \<times> logMem" where
  "NewRinglogger fs tg =
     (if maxTagLength < length tg then Inl LabelTooLong
      else case OpenFile_error fs of
        Some n \<Rightarrow> Inl (Win32 n)
      | None \<Rightarrow>
     (case Truncate_error fs of
        Some n \<Rightarrow> Inl (Win32 n)
      | None \<Rightarrow>
     (case CreateFileMapping_result fs of (err, mp) \<Rightarrow>
        if err \<noteq> None \<and> err \<noteq> Some ERROR_ALREADY_EXISTS then Inl (Win32 (the err))
        else case newRingloggerFromMappingHandle mp tg True (MapViewOfFile_result fs) of
          Inl err \<Rightarrow> Inl err
        | Inr (rl, mem) \<Rightarrow> Inr (rl \<lparr>has_file := True\<rparr>, mem))))"

text \<open>\<open>handle\<close> is what \<open>strconv.ParseUint\<close> makes of the handle's text.\<close>

definition NewRingloggerFromInheritedMappingHandle ::
  "nat option \<Rightarrow> string \<Rightarrow> nat + logMem \<Rightarrow> ring_error + Ringlogger \<times> logMem" where
  "NewRingloggerFromInheritedMappingHandle handle tg view =
     (case handle of
        None \<Rightarrow> Inl BadHandle
      | Some h \<Rightarrow> newRingloggerFromMappingHandle h tg False view)"

section \<open>Writing\<close>

text \<open>Go's \<open>copy(dst[i:], src)\<close> copies no more than fits.\<close>

definition copy_at :: "nat \<Rightarrow> 'a list \<Rightarrow> 'a list \<Rightarrow> 'a list" where
  "copy_at i src dst = take i dst @ take (length dst - i) src @ drop (i + length src) dst"

text \<open>The text that fits after the tag, and the stores of a write in their order.\<close>

definition clip :: "string \<Rightarrow> string \<Rightarrow> string" where
  "clip tg p =
     (if maxLogLineLength - 1 < 3 + length p + length tg
      then take (maxLogLineLength - 1 - 3 - length tg) p else p)"

definition write_steps :: "string \<Rightarrow> string \<Rightarrow> int \<Rightarrow> (logLine \<Rightarrow> logLine) list" where
  "write_steps tg p ts =
     (let p' = clip tg p;
          textLen = (if maxLogLineLength - 1 < 3 + length p + length tg then maxLogLineLength - 1
                     else 3 + length p + length tg)
      in [\<lambda>l. l \<lparr>timeNs := 0\<rparr>,
          \<lambda>l. l \<lparr>line_bytes := map (\<lambda>_. nul) (line_bytes l)\<rparr>,
          \<lambda>l. l \<lparr>line_bytes := (line_bytes l)[textLen := nul]\<rparr>,
          \<lambda>l. l \<lparr>line_bytes := (line_bytes l)[0 := nul]\<rparr>,
          \<lambda>l. l \<lparr>line_bytes := copy_at 1 tg (line_bytes l)\<rparr>,
          \<lambda>l. l \<lparr>line_bytes := (line_bytes l)[1 + length tg := CHR '']'']\<rparr>,
          \<lambda>l. l \<lparr>line_bytes := (line_bytes l)[2 + length tg := CHR '' '']\<rparr>,
          \<lambda>l. l \<lparr>line_bytes := copy_at (3 + length tg) p' (line_bytes l)\<rparr>,
          \<lambda>l. l \<lparr>line_bytes := (line_bytes l)[0 := CHR ''['']\<rparr>,
          \<lambda>l. l \<lparr>timeNs := ts\<rparr>])"

definition run_steps :: "(logLine \<Rightarrow> logLine) list \<Rightarrow> logLine \<Rightarrow> logLine" where
  "run_steps fs l = foldl (\<lambda>l f. f l) l fs"

definition slot :: "u32 \<Rightarrow> nat" where
  "slot index = unat (index mod 2048)"

definition WriteWithTimestamp ::
  "Ringlogger \<Rightarrow> string \<Rightarrow> int \<Rightarrow> logMem \<Rightarrow> (ring_error + nat) \<times> logMem" where
  "WriteWithTimestamp rl p ts log =
     (if readOnly rl then (Inl ShortWrite, log)
      else
        let ret = length p; p = strings_TrimSpace p in
        if p = [] then (Inr ret, log)
        else if \<not> mapped rl then (Inl EOF, log)
        else
          let next = nextIndex log + 1;
              index = next - 1;
              i = slot index
          in (Inr ret, log \<lparr>nextIndex := next,
                lines := (lines log)[i := run_steps (write_steps (tag rl) p ts) (lines log ! i)]\<rparr>))"

section \<open>Reading\<close>

text \<open>What a reader shows of a slot: nothing when it has no time stamp or no text, and otherwise the
  bytes before the first zero.\<close>

definition bytes_IndexByte :: "string \<Rightarrow> char \<Rightarrow> int" where
  "bytes_IndexByte s c =
     (if c \<in> set s then int (length (takeWhile (\<lambda>x. x \<noteq> c) s)) else -1)"

definition line_text :: "logLine \<Rightarrow> (int \<times> string) option" where
  "line_text l =
     (if timeNs l = 0 then None
      else let index = bytes_IndexByte (line_bytes l) nul
           in if index < 1 then None else Some (timeNs l, take (nat index) (line_bytes l)))"

text \<open>\<open>WriteTo\<close>: \<open>format\<close> is the rendering of a line with its time, \<open>out\<close> the writer.\<close>

fun write_loop :: "(int \<Rightarrow> string \<Rightarrow> string) \<Rightarrow> (string \<Rightarrow> 'w \<Rightarrow> ('e + nat) \<times> 'w) \<Rightarrow> logMem \<Rightarrow> u32 \<Rightarrow>
    nat list \<Rightarrow> nat \<Rightarrow> 'w \<Rightarrow> nat \<times> 'e option \<times> 'w" where
  "write_loop format out log i [] n w = (n, None, w)"
| "write_loop format out log i (l # ls) n w =
     (case line_text (lines log ! slot (i + of_nat l)) of
        None \<Rightarrow> write_loop format out log i ls n w
      | Some (ts, text) \<Rightarrow>
          (case out (format ts text) w of
             (Inl err, w') \<Rightarrow> (n, Some err, w')
           | (Inr bytes, w') \<Rightarrow> write_loop format out log i ls (n + bytes) w'))"

definition WriteTo :: "Ringlogger \<Rightarrow> (int \<Rightarrow> string \<Rightarrow> string) \<Rightarrow> (string \<Rightarrow> 'w \<Rightarrow> (ring_error + nat) \<times> 'w) \<Rightarrow>
    logMem \<Rightarrow> 'w \<Rightarrow> nat \<times> ring_error option \<times> 'w" where
  "WriteTo rl format out log w =
     (if \<not> mapped rl then (0, Some EOF, w)
      else write_loop format out log (nextIndex log) [0..<maxLines] 0 w)"

definition CursorAll :: u32 where "CursorAll = NOT 0"

fun follow_loop :: "logMem \<Rightarrow> u32 \<Rightarrow> nat \<Rightarrow> u32 \<Rightarrow> (int \<times> string) list \<Rightarrow> u32 \<Rightarrow> (int \<times> string) list \<times> u32" where
  "follow_loop log cursor 0 i acc nextCursor = (acc, nextCursor)"
| "follow_loop log cursor (Suc k) i acc nextCursor =
     (let l = lines log ! slot i in
      if cursor \<noteq> CursorAll \<and> slot i = slot (nextIndex log) then (acc, nextCursor)
      else if timeNs l = 0 then
        (if cursor = CursorAll then follow_loop log cursor k (i + 1) acc nextCursor
         else (acc, nextCursor))
      else
        follow_loop log cursor k (i + 1)
          (case line_text l of None \<Rightarrow> acc | Some x \<Rightarrow> acc @ [x]) ((i + 1) mod 2048))"

definition FollowFromCursor :: "Ringlogger \<Rightarrow> u32 \<Rightarrow> logMem \<Rightarrow> (int \<times> string) list \<times> u32" where
  "FollowFromCursor rl cursor log =
     (if \<not> mapped rl then ([], cursor)
      else follow_loop log cursor maxLines (if cursor = CursorAll then nextIndex log else cursor) [] cursor)"

definition Close :: "Ringlogger \<Rightarrow> Ringlogger" where
  "Close rl = rl \<lparr>has_file := False, mapped := False, mapping := 0\<rparr>"

section \<open>The buffer of the runtime's output\<close>

definition globalBufferSize :: nat where
  "globalBufferSize = maxLogLineLength - 1 - maxTagLength - 3"

text \<open>The loop of \<open>globalWrite\<close>: the bytes in the buffer, the input that is left, and the chunks that
  went to the log.\<close>

function globalWrite :: "string \<Rightarrow> string \<Rightarrow> string list \<Rightarrow> string \<times> string list" where
  "globalWrite buffer b chunks =
     (if b = [] then (buffer, chunks)
      else
        let amountAvailable = globalBufferSize - length buffer;
            amountToCopy = min (length b) amountAvailable;
            copied = take amountToCopy b;
            b' = drop amountToCopy b;
            buffer' = buffer @ copied
        in if newline \<in> set copied \<or> b' \<noteq> [] then globalWrite [] b' (chunks @ [buffer'])
           else (buffer', chunks))"
  by pat_completeness auto
termination
proof (relation "measure (\<lambda>(buffer, b, chunks). 2 * length b + (if buffer = [] then 0 else 1))", goal_cases)
  case (2 buffer b chunks am c copied b' buffer')
  then show ?case
    by (cases "buffer = []") (auto simp: globalBufferSize_def maxLogLineLength_def maxTagLength_def)
qed simp

declare globalWrite.simps [simp del]

section \<open>The bytes of a slot\<close>

definition render :: "string \<Rightarrow> string \<Rightarrow> string" where
  "render tg p = ''['' @ tg @ ''] '' @ clip tg p"

definition pad :: "string \<Rightarrow> string" where
  "pad s = s @ replicate (maxLogLineLength - length s) nul"

lemma copy_at_zeros:
  "length src \<le> n \<Longrightarrow> i = length a \<Longrightarrow>
    copy_at i src (a @ replicate n nul) = (a @ src) @ replicate (n - length src) nul"
  by (simp add: copy_at_def)

lemma update_zeros: "i = length a \<Longrightarrow> (a @ replicate (Suc n) nul)[i := c] = (a @ [c]) @ replicate n nul"
  by (simp add: list_update_append)

lemma map_nul: "map (\<lambda>_. nul) xs = replicate (length xs) nul"
  by (induction xs) simp_all

lemma length_render:
  assumes "length tg \<le> maxTagLength"
  shows "length (render tg p) < maxLogLineLength"
  using assms by (auto simp: render_def clip_def maxTagLength_def maxLogLineLength_def min_def)

lemma write_steps_result:
  assumes "length tg \<le> maxTagLength" "length (line_bytes l) = maxLogLineLength"
  shows "run_steps (write_steps tg p ts) l = \<lparr>timeNs = ts, line_bytes = pad (render tg p)\<rparr>"
proof -
  let ?z = "\<lambda>n. replicate n nul" and ?p = "clip tg p"
  have p: "length ?p \<le> 508 - length tg" and t: "length tg \<le> 5"
    using assms(1) by (auto simp: clip_def maxTagLength_def maxLogLineLength_def)
  have z: "(?z 512)[k := nul] = ?z 512" for k
    by (metis list_update_id list_update_beyond length_replicate linorder_not_le nth_replicate)
  have r: "?z 512 = [nul] @ ?z 511"
    by (simp add: replicate_app_Cons_same [symmetric] numeral_eq_Suc)
  have "copy_at 1 tg (?z 512) = ([nul] @ tg) @ ?z (511 - length tg)"
    unfolding r by (rule copy_at_zeros) (use t in auto)
  also have "511 - length tg = Suc (510 - length tg)" using t by simp
  finally have 1: "copy_at 1 tg (?z 512) = ([nul] @ tg) @ ?z (Suc (510 - length tg))" .
  have 2: "(([nul] @ tg) @ ?z (Suc (510 - length tg)))[1 + length tg := CHR '']''] =
      ([nul] @ tg @ '']'') @ ?z (Suc (509 - length tg))"
  proof -
    have "510 - length tg = Suc (509 - length tg)" using t by simp
    then show ?thesis using update_zeros [of "1 + length tg" "[nul] @ tg" "510 - length tg"] by simp
  qed
  have 3: "(([nul] @ tg @ '']'') @ ?z (Suc (509 - length tg)))[2 + length tg := CHR '' ''] =
      ([nul] @ tg @ ''] '') @ ?z (509 - length tg)"
    using update_zeros [of "2 + length tg" "[nul] @ tg @ '']''" "509 - length tg"] by simp
  have 4: "copy_at (3 + length tg) ?p (([nul] @ tg @ ''] '') @ ?z (509 - length tg)) =
      (([nul] @ tg @ ''] '') @ ?p) @ ?z (509 - length tg - length ?p)"
    by (rule copy_at_zeros) (use p t in auto)
  have "509 - length tg - length ?p = 512 - length (render tg p)"
    by (simp add: render_def)
  then have 5: "((([nul] @ tg @ ''] '') @ ?p) @ ?z (509 - length tg - length ?p))[0 := CHR ''[''] =
      pad (render tg p)"
    by (simp add: pad_def render_def maxLogLineLength_def)
  let ?n = "if maxLogLineLength - 1 < 3 + length p + length tg then maxLogLineLength - 1 else 3 + length p + length tg"
  have "run_steps (write_steps tg p ts) l = \<lparr>timeNs = ts, line_bytes =
      (copy_at (3 + length tg) ?p ((copy_at 1 tg ((map (\<lambda>_. nul) (line_bytes l))[?n := nul, 0 := nul]))
        [1 + length tg := CHR '']'', 2 + length tg := CHR '' '']))[0 := CHR ''['']\<rparr>"
    by (cases l) (simp add: write_steps_def run_steps_def Let_def)
  also have "map (\<lambda>_. nul) (line_bytes l) = ?z 512"
    using assms(2) by (simp add: map_nul maxLogLineLength_def)
  finally show ?thesis by (simp only: z 1 2 3 4 5)
qed

text \<open>Between the first and the last store of a write no reader shows the slot.\<close>

lemma write_steps_hidden:
  assumes "0 < k" "k < length (write_steps tg p ts)"
  shows "timeNs (run_steps (take k (write_steps tg p ts)) l) = 0"
proof -
  have "k \<in> {1, 2, 3, 4, 5, 6, 7, 8, 9}" using assms by (auto simp: write_steps_def Let_def)
  then show ?thesis
    by (elim insertE emptyE) (simp_all add: write_steps_def run_steps_def Let_def)
qed

lemma line_text_pad:
  assumes "ts \<noteq> 0" "length tg \<le> maxTagLength"
  shows "line_text \<lparr>timeNs = ts, line_bytes = pad (render tg p)\<rparr> =
    Some (ts, takeWhile (\<lambda>c. c \<noteq> nul) (render tg p))"
proof -
  have n: "nul \<in> set (pad (render tg p))" using length_render [OF assms(2), of p] by (simp add: pad_def)
  have t: "takeWhile (\<lambda>c. c \<noteq> nul) (pad (render tg p)) = takeWhile (\<lambda>c. c \<noteq> nul) (render tg p)"
    by (auto simp: pad_def takeWhile_append takeWhile_replicate
        intro: takeWhile_eq_all_conv [THEN iffD2, symmetric])
  have "0 < length (takeWhile (\<lambda>c. c \<noteq> nul) (render tg p))"
    by (simp add: render_def nul_def)
  moreover have "take (length (takeWhile (\<lambda>c. c \<noteq> nul) (pad (render tg p)))) (pad (render tg p)) =
      takeWhile (\<lambda>c. c \<noteq> nul) (pad (render tg p))"
    by (metis takeWhile_eq_take)
  ultimately show ?thesis using assms(1) n t by (simp add: line_text_def bytes_IndexByte_def Let_def)
qed

section \<open>The log as a bounded sequence\<close>

definition wf_mem :: "logMem \<Rightarrow> bool" where
  "wf_mem log \<longleftrightarrow> length (lines log) = maxLines \<and>
     list_all (\<lambda>l. length (line_bytes l) = maxLogLineLength) (lines log)"

definition contents :: "logMem \<Rightarrow> logLine list" where
  "contents log = rotate (slot (nextIndex log)) (lines log)"

lemma slot_nat: "slot i = unat i mod 2048"
  by (simp add: slot_def unat_mod)

lemma slot_add: "slot (i + of_nat n) = (slot i + n) mod 2048"
proof -
  have "unat (i + of_nat n) mod 2048 = (unat i + n) mod 2 ^ 32 mod 2048"
    by (simp add: unat_word_ariths(1) unat_of_nat mod_add_right_eq)
  also have "\<dots> = (unat i + n) mod 2048" by (rule mod_mod_cancel) simp
  finally show ?thesis by (simp add: slot_nat mod_add_left_eq)
qed

lemma slot_less: "slot i < 2048"
  by (simp add: slot_nat)

lemma rotate_update:
  assumes "n < length xs"
  shows "rotate (Suc n mod length xs) (xs[n := e]) = tl (rotate n xs) @ [e]"
proof -
  have "rotate (Suc n mod length xs) (xs[n := e]) = rotate (Suc n) (xs[n := e])"
    by (metis length_list_update rotate_conv_mod)
  also have "\<dots> = rotate1 (rotate n (xs[n := e]))" by simp
  also have "rotate n (xs[n := e]) = e # drop (Suc n) xs @ take n xs"
    using assms by (simp add: rotate_drop_take drop_update_cancel upd_conv_take_nth_drop)
  finally show ?thesis using assms by (simp add: rotate_drop_take Cons_nth_drop_Suc [symmetric])
qed

text \<open>A log keeps the last \<open>cap\<close> entries: what a client may rely on.\<close>

locale bounded_log =
  fixes inv :: "'s \<Rightarrow> bool" and held :: "'s \<Rightarrow> 'e list" and accepts :: "'r \<Rightarrow> bool"
    and wr :: "'r \<Rightarrow> 's \<Rightarrow> 's" and entry :: "'r \<Rightarrow> 'e" and cap :: nat
  assumes held_length: "inv s \<Longrightarrow> length (held s) = cap"
    and cap_positive: "0 < cap"
    and held_write: "inv s \<Longrightarrow> accepts r \<Longrightarrow> inv (wr r s) \<and> held (wr r s) = tl (held s) @ [entry r]"
begin

lemma held_writes:
  assumes "inv s" "list_all accepts rs"
  shows "inv (fold wr rs s) \<and> held (fold wr rs s) = drop (length rs) (held s @ map entry rs)"
  using assms
proof (induction rs arbitrary: s)
  case (Cons r rs)
  then have w: "inv (wr r s)" "held (wr r s) = tl (held s) @ [entry r]" using held_write by auto
  have "held s \<noteq> []" using held_length [OF Cons.prems(1)] cap_positive by auto
  then have "(tl (held s) @ [entry r]) @ map entry rs = tl (held s @ map entry (r # rs))" by simp
  with Cons.IH [OF w(1)] Cons.prems(2) w(2) show ?case
    by (simp only: fold_Cons o_apply list.pred_inject drop_Suc length_Cons)
qed simp

lemma held_recent:
  assumes "inv s" "list_all accepts rs"
  shows "held (fold wr rs s) = drop (length rs) (held s) @ map entry (drop (length rs - cap) rs)"
  using held_writes [OF assms] held_length [OF assms(1)] by (simp add: drop_map)

end

type_synonym request = "Ringlogger \<times> string \<times> int"

definition ring_accepts :: "request \<Rightarrow> bool" where
  "ring_accepts r = (case r of (rl, p, ts) \<Rightarrow>
     \<not> readOnly rl \<and> mapped rl \<and> length (tag rl) \<le> maxTagLength \<and> strings_TrimSpace p \<noteq> [] \<and> ts \<noteq> 0)"

definition ring_write :: "request \<Rightarrow> logMem \<Rightarrow> logMem" where
  "ring_write r log = (case r of (rl, p, ts) \<Rightarrow> snd (WriteWithTimestamp rl p ts log))"

definition ring_entry :: "request \<Rightarrow> logLine" where
  "ring_entry r = (case r of (rl, p, ts) \<Rightarrow>
     \<lparr>timeNs = ts, line_bytes = pad (render (tag rl) (strings_TrimSpace p))\<rparr>)"

lemma contents_length: "wf_mem log \<Longrightarrow> length (contents log) = maxLines"
  by (simp add: contents_def wf_mem_def)

lemma contents_nth:
  assumes "wf_mem log" "j < maxLines"
  shows "contents log ! j = lines log ! slot (nextIndex log + of_nat j)"
  using assms by (simp add: contents_def wf_mem_def maxLines_def nth_rotate slot_add)

lemma ring_write_contents:
  assumes "wf_mem log" "ring_accepts r"
  shows "wf_mem (ring_write r log) \<and> contents (ring_write r log) = tl (contents log) @ [ring_entry r]"
proof -
  obtain rl p ts where r: "r = (rl, p, ts)" by (metis prod_cases3)
  let ?i = "slot (nextIndex log)"
  have i: "?i < length (lines log)" using assms(1) slot_less by (simp add: wf_mem_def maxLines_def)
  then have "run_steps (write_steps (tag rl) (strings_TrimSpace p) ts) (lines log ! ?i) = ring_entry r"
    using assms by (simp add: r ring_accepts_def ring_entry_def wf_mem_def write_steps_result list_all_length)
  then have w: "ring_write r log = log \<lparr>nextIndex := nextIndex log + 1, lines := (lines log)[?i := ring_entry r]\<rparr>"
    using assms(2) by (simp add: r ring_accepts_def ring_write_def WriteWithTimestamp_def Let_def)
  have "length (line_bytes (ring_entry r)) = maxLogLineLength"
    using assms(2) length_render [of "tag rl" "strings_TrimSpace p"]
    by (simp add: r ring_accepts_def ring_entry_def pad_def)
  then have "wf_mem (ring_write r log)"
    using assms(1) i by (simp add: w wf_mem_def list_all_length nth_list_update)
  moreover have "slot (nextIndex log + 1) = Suc ?i mod length (lines log)"
    using slot_add [of "nextIndex log" 1] assms(1) by (simp add: wf_mem_def maxLines_def)
  ultimately show ?thesis using rotate_update [OF i, of "ring_entry r"] by (simp add: w contents_def)
qed

interpretation ring: bounded_log wf_mem contents ring_accepts ring_write ring_entry maxLines
  by unfold_locales (auto simp: contents_length ring_write_contents maxLines_def)

definition fresh_log :: logMem where
  "fresh_log = zero_mem \<lparr>mem_magic := magic\<rparr>"

lemma fresh_log_wf: "wf_mem fresh_log"
  by (simp add: wf_mem_def fresh_log_def zero_mem_def zero_line_def list_all_iff)

lemma fresh_log_contents: "contents fresh_log = replicate maxLines zero_line"
  by (simp add: contents_def fresh_log_def zero_mem_def slot_nat)

text \<open>What the reader shows of a request.\<close>

definition shown :: "request \<Rightarrow> int \<times> string" where
  "shown r = (case r of (rl, p, ts) \<Rightarrow>
     (ts, takeWhile (\<lambda>c. c \<noteq> nul) (render (tag rl) (strings_TrimSpace p))))"

lemma line_text_entry: "ring_accepts r \<Longrightarrow> line_text (ring_entry r) = Some (shown r)"
  by (auto simp: ring_accepts_def ring_entry_def shown_def line_text_pad)

lemma map_filter_entries:
  "list_all ring_accepts rs \<Longrightarrow> List.map_filter line_text (map ring_entry rs) = map shown rs"
  by (induction rs) (simp_all add: map_filter_simps line_text_entry)

lemma map_filter_append [simp]: "List.map_filter f (xs @ ys) = List.map_filter f xs @ List.map_filter f ys"
  by (simp add: List.map_filter_def)

subsection \<open>Dumping\<close>

fun print_all :: "(int \<Rightarrow> string \<Rightarrow> string) \<Rightarrow> (string \<Rightarrow> 'w \<Rightarrow> ('e + nat) \<times> 'w) \<Rightarrow> (int \<times> string) list \<Rightarrow>
    nat \<Rightarrow> 'w \<Rightarrow> nat \<times> 'e option \<times> 'w" where
  "print_all format out [] n w = (n, None, w)"
| "print_all format out ((ts, text) # xs) n w =
     (case out (format ts text) w of
        (Inl err, w') \<Rightarrow> (n, Some err, w')
      | (Inr bytes, w') \<Rightarrow> print_all format out xs (n + bytes) w')"

lemma write_loop_print:
  "write_loop format out log i ls n w =
    print_all format out (List.map_filter line_text (map (\<lambda>l. lines log ! slot (i + of_nat l)) ls)) n w"
  by (induction ls arbitrary: n w)
    (auto simp: map_filter_simps split: option.splits prod.splits sum.splits)

lemma WriteTo_contents:
  assumes "wf_mem log" "mapped rl"
  shows "WriteTo rl format out log w = print_all format out (List.map_filter line_text (contents log)) 0 w"
proof -
  have "map (\<lambda>l. lines log ! slot (nextIndex log + of_nat l)) [0..<maxLines] = contents log"
    using assms(1) by (intro nth_equalityI) (simp_all add: contents_length contents_nth)
  then show ?thesis using assms(2) by (simp add: WriteTo_def write_loop_print)
qed

subsection \<open>Following\<close>

lemma follow_loop_all:
  "fst (follow_loop log CursorAll k i acc c) =
     acc @ List.map_filter line_text (map (\<lambda>j. lines log ! slot (i + of_nat j)) [0..<k])"
  "0 < k \<Longrightarrow> timeNs (lines log ! slot (i + of_nat (k - 1))) \<noteq> 0 \<Longrightarrow>
     snd (follow_loop log CursorAll k i acc c) = (i + of_nat k) mod 2048"
proof (induction k arbitrary: i acc c)
  case (Suc k)
  have m: "map (\<lambda>j. lines log ! slot (i + of_nat j)) [0..<Suc k] =
      lines log ! slot i # map (\<lambda>j. lines log ! slot (i + 1 + of_nat j)) [0..<k]" for i
    by (simp add: upt_conv_Cons map_Suc_upt [symmetric] add.assoc del: upt_Suc)
  { case 1
    have "line_text (lines log ! slot i) = None" if "timeNs (lines log ! slot i) = 0"
      using that by (simp add: line_text_def)
    then show ?case unfolding m
      by (auto simp: Suc.IH(1) map_filter_simps Let_def split: option.splits)
  next
    case 2
    have "snd (follow_loop log CursorAll k (i + 1) acc' c') = (i + of_nat (Suc k)) mod 2048"
      if "0 < k" for acc' c'
    proof -
      have "i + 1 + word_of_nat (k - 1) = i + word_of_nat (Suc k - 1)"
        using that by (cases k) (simp_all add: add.assoc)
      then show ?thesis using Suc.IH(2) [OF that, of "i + 1" acc' c'] 2(2) by (simp add: add.assoc)
    qed
    then show ?case using 2(2) by (cases "k = 0") (auto simp: Let_def)
  }
qed simp_all

lemma follow_loop_cursor:
  assumes "cursor \<noteq> CursorAll" "m \<le> k" "m < k \<longrightarrow> slot (i + of_nat m) = slot (nextIndex log)"
    "\<And>j. j < m \<Longrightarrow> slot (i + of_nat j) \<noteq> slot (nextIndex log) \<and> timeNs (lines log ! slot (i + of_nat j)) \<noteq> 0"
  shows "follow_loop log cursor k i acc c =
    (acc @ List.map_filter line_text (map (\<lambda>j. lines log ! slot (i + of_nat j)) [0..<m]),
     if m = 0 then c else (i + of_nat m) mod 2048)"
  using assms(2-)
proof (induction k arbitrary: i m acc c)
  case (Suc k)
  show ?case
  proof (cases m)
    case 0
    then show ?thesis using Suc.prems(2) assms(1) by simp
  next
    case (Suc n)
    have 0: "slot i \<noteq> slot (nextIndex log)" "timeNs (lines log ! slot i) \<noteq> 0"
      using Suc.prems(3) [of 0] Suc by simp_all
    have m: "map (\<lambda>j. lines log ! slot (i + of_nat j)) [0..<m] =
        lines log ! slot i # map (\<lambda>j. lines log ! slot (i + 1 + of_nat j)) [0..<n]"
      unfolding Suc by (simp add: upt_conv_Cons map_Suc_upt [symmetric] add.assoc del: upt_Suc)
    have "follow_loop log cursor k (i + 1) acc' c' =
      (acc' @ List.map_filter line_text (map (\<lambda>j. lines log ! slot (i + 1 + of_nat j)) [0..<n]),
       if n = 0 then c' else (i + 1 + of_nat n) mod 2048)" for acc' c'
      using Suc.prems(1,2) Suc.prems(3) [of "Suc j" for j] Suc
      by (intro Suc.IH) (simp_all add: add.assoc)
    then show ?thesis unfolding m using 0 assms(1) Suc
      by (auto simp: Let_def map_filter_simps add.assoc split: option.splits)
  qed
qed simp

text \<open>The cursor that points behind the newest entry.\<close>

definition end_cursor :: "logMem \<Rightarrow> u32" where
  "end_cursor log = nextIndex log mod 2048"

lemma end_cursor_not_all: "end_cursor log \<noteq> CursorAll"
proof
  assume "end_cursor log = CursorAll"
  then have "unat (nextIndex log mod 2048) = unat (CursorAll)" by (simp add: end_cursor_def)
  moreover have "unat (nextIndex log mod 2048) < 2048" using slot_less [of "nextIndex log"] by (simp add: slot_def)
  ultimately show False by (simp add: CursorAll_def unsigned_minus_1_eq_mask mask_eq_exp_minus_1)
qed

lemma slot_end_cursor: "slot (end_cursor log) = slot (nextIndex log)"
  by (simp add: end_cursor_def slot_nat unat_mod)

lemma nextIndex_write: "ring_accepts r \<Longrightarrow> nextIndex (ring_write r log) = nextIndex log + 1"
  by (auto simp: ring_accepts_def ring_write_def WriteWithTimestamp_def Let_def)

lemma nextIndex_writes: "list_all ring_accepts rs \<Longrightarrow> nextIndex (fold ring_write rs log) = nextIndex log + of_nat (length rs)"
  by (induction rs arbitrary: log) (simp_all add: nextIndex_write add.assoc)

lemma mod_word_unat: "i mod 2048 = (of_nat (unat i mod 2048) :: u32)"
  by (simp add: word_arith_nat_mod)

lemma mod_add_word: "(i mod 2048 + of_nat m) mod 2048 = (i + of_nat n) mod (2048 :: u32)"
  if "m = n mod 2048"
proof -
  have "slot (i mod 2048 + of_nat m) = slot (i + of_nat n)"
    by (simp add: slot_add that) (simp add: slot_nat unat_mod mod_add_right_eq)
  then show ?thesis by (simp add: slot_nat mod_word_unat)
qed

lemma mod_idem [simp]: "i mod 2048 mod 2048 = (i mod 2048 :: u32)"
  by (simp add: word_unat_eq_iff unat_mod)

lemma slot_shift: "0 < d \<Longrightarrow> d < 2048 \<Longrightarrow> slot (i + of_nat d) \<noteq> slot i"
  using slot_less [of i] by (auto simp: slot_add mod_if)

lemma slot_cycle: "slot (i + of_nat 2048) = slot i"
  unfolding slot_add using slot_less [of i] by simp

lemma stamp_entry: "ring_accepts r \<Longrightarrow> timeNs (ring_entry r) \<noteq> 0"
  by (auto simp: ring_accepts_def ring_entry_def)

lemma FollowFromCursor_recent:
  assumes "wf_mem log" "mapped rl" "list_all ring_accepts rs"
  shows "FollowFromCursor rl (end_cursor log) (fold ring_write rs log) =
    (map shown (drop (length rs - length rs mod maxLines) rs), end_cursor (fold ring_write rs log))"
proof -
  let ?log = "fold ring_write rs log" and ?m = "length rs mod maxLines" and ?n = "length rs"
  let ?c = "end_cursor log" and ?rs = "drop (length rs - length rs mod maxLines) rs"
  have wf: "wf_mem ?log" and held: "contents ?log = drop ?n (contents log @ map ring_entry rs)"
    using ring.held_writes [OF assms(1,3)] by auto
  have n: "nextIndex ?log = nextIndex log + of_nat ?n" by (rule nextIndex_writes [OF assms(3)])
  have m: "?m < maxLines" "?m \<le> ?n" by (simp_all add: maxLines_def)
  have wrap: "slot (?c + of_nat j) = slot (nextIndex ?log + of_nat (maxLines - ?m + j))" if "j \<le> ?m" for j
  proof -
    have "?n + (maxLines - ?m + j) = j + (?n - ?m + maxLines)" using m by simp
    moreover have "(?n - ?m + maxLines) mod 2048 = 0"
      by (simp add: maxLines_def minus_mod_eq_mult_div)
    ultimately have "(slot (nextIndex log) + (?n + (maxLines - ?m + j))) mod 2048 = (slot (nextIndex log) + j) mod 2048"
      by (metis add.assoc add.right_neutral mod_add_right_eq)
    then have "slot (nextIndex log + of_nat (?n + (maxLines - ?m + j))) = slot (?c + of_nat j)"
      by (simp only: slot_add slot_end_cursor)
    then show ?thesis by (simp only: n of_nat_add add.assoc)
  qed
  have entry: "lines ?log ! slot (?c + of_nat j) = ring_entry (?rs ! j)" if "j < ?m" for j
  proof -
    have "lines ?log ! slot (?c + of_nat j) = contents ?log ! (maxLines - ?m + j)"
      using wrap [of j] that m contents_nth [OF wf, of "maxLines - ?m + j"] by simp
    also have "\<dots> = (contents log @ map ring_entry rs) ! (?n + (maxLines - ?m + j))"
      unfolding held by (rule nth_drop) (simp add: contents_length [OF assms(1)])
    also have "?n + (maxLines - ?m + j) = maxLines + (?n - ?m + j)" using m by linarith
    also have "(contents log @ map ring_entry rs) ! (maxLines + (?n - ?m + j)) = ring_entry (rs ! (?n - ?m + j))"
    proof -
      have "?n - ?m + j < ?n" using that m by linarith
      then have "map ring_entry rs ! (?n - ?m + j) = ring_entry (rs ! (?n - ?m + j))" by (rule nth_map)
      then show ?thesis using contents_length [OF assms(1)] nth_append_length_plus by metis
    qed
    finally show ?thesis using that m by simp
  qed
  have ok: "list_all ring_accepts ?rs" using assms(3) by (auto simp: list_all_iff dest: in_set_dropD)
  have lines: "map (\<lambda>j. lines ?log ! slot (?c + of_nat j)) [0..<?m] = map ring_entry ?rs"
    using m entry by (intro nth_equalityI) simp_all
  have stamp: "timeNs (ring_entry (?rs ! j)) \<noteq> 0" if "j < ?m" for j
    using ok that m by (intro stamp_entry) (simp add: list_all_length)
  have "follow_loop ?log ?c maxLines ?c [] ?c =
      ([] @ List.map_filter line_text (map (\<lambda>j. lines ?log ! slot (?c + of_nat j)) [0..<?m]),
       if ?m = 0 then ?c else (?c + of_nat ?m) mod 2048)"
  proof (rule follow_loop_cursor [OF end_cursor_not_all])
    show "?m < maxLines \<longrightarrow> slot (?c + of_nat ?m) = slot (nextIndex ?log)"
      using wrap [of ?m] m slot_cycle by (simp add: maxLines_def)
    show "slot (?c + of_nat j) \<noteq> slot (nextIndex ?log) \<and> timeNs (lines ?log ! slot (?c + of_nat j)) \<noteq> 0"
      if "j < ?m" for j
      using wrap [of j] slot_shift [of "maxLines - ?m + j" "nextIndex ?log"] that m entry [OF that] stamp [OF that]
      by (simp add: maxLines_def)
  qed (use m in simp)
  moreover have "(if ?m = 0 then ?c else (?c + of_nat ?m) mod 2048) = end_cursor ?log"
  proof -
    have "(?c + of_nat ?m) mod 2048 = end_cursor ?log"
      by (simp add: end_cursor_def n mod_add_word maxLines_def)
    moreover have "?c mod 2048 = ?c" by (simp add: end_cursor_def)
    ultimately show ?thesis by (auto simp: maxLines_def)
  qed
  ultimately show ?thesis
    using assms(2) end_cursor_not_all by (simp add: FollowFromCursor_def lines map_filter_entries [OF ok])
qed

lemma FollowFromCursor_start:
  assumes "wf_mem log" "mapped rl" "rs \<noteq> []" "list_all ring_accepts rs"
  shows "FollowFromCursor rl CursorAll (fold ring_write rs log) =
    (List.map_filter line_text (contents (fold ring_write rs log)), end_cursor (fold ring_write rs log))"
proof -
  let ?log = "fold ring_write rs log"
  have wf: "wf_mem ?log" and held: "contents ?log = drop (length rs) (contents log @ map ring_entry rs)"
    using ring.held_writes [OF assms(1,4)] by auto
  have lines: "map (\<lambda>l. lines ?log ! slot (nextIndex ?log + of_nat l)) [0..<maxLines] = contents ?log"
    using wf by (intro nth_equalityI) (simp_all add: contents_length contents_nth)
  have "contents ?log ! (maxLines - 1) = ring_entry (last rs)"
  proof -
    have "contents ?log ! (maxLines - 1) = (contents log @ map ring_entry rs) ! (length rs + (maxLines - 1))"
      unfolding held by (rule nth_drop) (simp add: contents_length [OF assms(1)])
    also have "\<dots> = map ring_entry rs ! (length rs - 1)"
      using assms(3) contents_length [OF assms(1)] by (simp add: nth_append maxLines_def Suc_diff_le)
    finally show ?thesis using assms(3) by (simp add: last_conv_nth)
  qed
  then have "lines ?log ! slot (nextIndex ?log + of_nat (maxLines - 1)) = ring_entry (last rs)"
    using contents_nth [OF wf, of "maxLines - 1"] by (simp add: maxLines_def)
  moreover have "timeNs (ring_entry (last rs)) \<noteq> 0"
    using assms(3,4) by (intro stamp_entry) (simp add: list_all_iff)
  ultimately have "snd (follow_loop ?log CursorAll maxLines (nextIndex ?log) [] CursorAll) =
      (nextIndex ?log + of_nat maxLines) mod 2048"
    by (intro follow_loop_all(2)) (simp_all add: maxLines_def)
  moreover have "(nextIndex ?log + of_nat maxLines) mod 2048 = end_cursor ?log"
    using mod_add_word [of 0 2048 "nextIndex ?log"] by (simp add: end_cursor_def maxLines_def)
  ultimately show ?thesis
    using assms(2) follow_loop_all(1) [of ?log maxLines "nextIndex ?log" "[]" CursorAll]
    by (simp add: FollowFromCursor_def prod_eq_iff lines)
qed

section \<open>The buffer\<close>

lemma globalWrite_step:
  assumes "length buffer \<le> globalBufferSize" "newline \<notin> set buffer"
  shows "case globalWrite buffer b chunks of (buffer', chunks') \<Rightarrow>
    concat chunks' @ buffer' = concat chunks @ buffer @ b \<and> length buffer' \<le> globalBufferSize \<and>
    newline \<notin> set buffer' \<and>
    (\<exists>new. chunks' = chunks @ new \<and> list_all (\<lambda>c. length c \<le> globalBufferSize) new)"
  using assms
proof (induction buffer b chunks rule: globalWrite.induct)
  case (1 buffer b chunks)
  define m where "m = min (length b) (globalBufferSize - length buffer)"
  show ?case
  proof (cases "b = []")
    case True
    then show ?thesis using 1(2,3) by (simp add: globalWrite.simps)
  next
    case b: False
    show ?thesis
    proof (cases "newline \<in> set (take m b) \<or> drop m b \<noteq> []")
      case True
      then have g: "globalWrite buffer b chunks = globalWrite [] (drop m b) (chunks @ [buffer @ take m b])"
        using b by (subst globalWrite.simps) (simp add: Let_def m_def)
      have "case globalWrite [] (drop m b) (chunks @ [buffer @ take m b]) of (buffer', chunks') \<Rightarrow>
        concat chunks' @ buffer' = concat (chunks @ [buffer @ take m b]) @ [] @ drop m b \<and>
        length buffer' \<le> globalBufferSize \<and> newline \<notin> set buffer' \<and>
        (\<exists>new. chunks' = (chunks @ [buffer @ take m b]) @ new \<and> list_all (\<lambda>c. length c \<le> globalBufferSize) new)"
        by (rule 1(1) [OF b, of "globalBufferSize - length buffer" m "take m b" "drop m b" "buffer @ take m b"])
          (use True in \<open>simp_all add: m_def\<close>)
      moreover have "length (buffer @ take m b) \<le> globalBufferSize"
        using 1(2) by (simp add: m_def)
      ultimately show ?thesis by (fastforce simp: g)
    next
      case False
      then have "globalWrite buffer b chunks = (buffer @ take m b, chunks)"
        using b by (subst globalWrite.simps) (auto simp: Let_def m_def min_absorb1)
      then show ?thesis using False 1(2,3) by (auto simp: m_def)
    qed
  qed
qed

section \<open>Properties\<close>

definition test_logger :: Ringlogger where
  "test_logger = \<lparr>tag = ''TUN'', has_file = True, mapping = 1, mapped = True, readOnly = False\<rparr>"

lemma test_request: "ring_accepts (test_logger, ''hi'', 7)"
  by code_simp

lemma test_shown: "shown (test_logger, ''hi'', 7) = (7, ''[TUN] hi'')"
  by code_simp

text \<open>C26: the log keeps the last 2048 lines: after any sequence of writes to a new log, by any loggers,
  \<open>WriteTo\<close> prints exactly the last 2048 of them, oldest first, each as its tag and its text cut to
  the size of a slot, even when the 32-bit index has wrapped around.\<close>

theorem WriteTo_last_lines:
  assumes "list_all ring_accepts rs" "mapped rl"
  shows "WriteTo rl format out (fold ring_write rs fresh_log) w =
    print_all format out (map shown (drop (length rs - maxLines) rs)) 0 w"
proof -
  have "List.map_filter line_text (replicate n zero_line) = []" for n
    by (induction n) (simp_all add: map_filter_simps line_text_def zero_line_def)
  moreover have "list_all ring_accepts (drop k rs)" for k
    using assms(1) by (auto simp: list_all_iff dest: in_set_dropD)
  ultimately show ?thesis
    using ring.held_recent [OF fresh_log_wf assms(1)] ring.held_writes [OF fresh_log_wf assms(1)] assms(2)
    by (simp add: WriteTo_contents fresh_log_contents map_filter_entries)
qed

theorem WriteTo_last_lines_witness:
  "WriteTo test_logger (\<lambda>ts text. text) (\<lambda>s w. (Inr (length s), w @ [s]))
     (fold ring_write [(test_logger, ''hi'', 7)] fresh_log) [] = (8, None, [''[TUN] hi''])"
  using WriteTo_last_lines [of "[(test_logger, ''hi'', 7)]" test_logger "\<lambda>ts text. text"
      "\<lambda>s w. (Inr (length s), w @ [s])" "[]"]
  by (simp add: test_request test_shown maxLines_def) (simp add: test_logger_def)





text \<open>A full turn of the ring is lost on a follower: when exactly 2048 lines are written between two
  polls, the second returns none of them, although all of them are in the log.\<close>

theorem FollowFromCursor_full_turn:
  assumes "wf_mem log" "list_all ring_accepts rs" "length rs = maxLines" "mapped rl"
  shows "FollowFromCursor rl (end_cursor log) (fold ring_write rs log) = ([], end_cursor log) \<and>
    List.map_filter line_text (contents (fold ring_write rs log)) = map shown rs"
proof -
  let ?log = "fold ring_write rs log"
  have f: "FollowFromCursor rl (end_cursor log) ?log = ([], end_cursor ?log)"
    using FollowFromCursor_recent [OF assms(1,4,2)] assms(3) by simp
  have "end_cursor ?log = end_cursor log"
    using nextIndex_writes [OF assms(2), of log] mod_add_word [of 0 2048 "nextIndex log"] assms(3)
    by (simp add: end_cursor_def maxLines_def)
  moreover have "contents ?log = map ring_entry rs"
    using ring.held_recent [OF assms(1,2)] contents_length [OF assms(1)] assms(3) by simp
  ultimately show ?thesis using f assms(2) by (simp add: map_filter_entries)
qed

theorem FollowFromCursor_full_turn_witness:
  "FollowFromCursor test_logger (end_cursor fresh_log)
     (fold ring_write (replicate maxLines (test_logger, ''hi'', 7)) fresh_log) = ([], end_cursor fresh_log)"
proof -
  have "mapped test_logger" by (simp add: test_logger_def)
  moreover have "list_all ring_accepts (replicate maxLines (test_logger, ''hi'', 7))"
    using test_request by (simp add: list_all_iff)
  ultimately show ?thesis
    using FollowFromCursor_full_turn [OF fresh_log_wf, of "replicate maxLines (test_logger, ''hi'', 7)" test_logger]
    by simp
qed

text \<open>C34: \<open>globalWrite\<close> returns, loses no byte and keeps the order: what went to the log followed by
  what is in the buffer is what was there before followed by the input; no chunk is longer than
  the buffer, and a finished line never stays in it.\<close>

theorem globalWrite_lossless:
  assumes "length buffer \<le> globalBufferSize" "newline \<notin> set buffer" "globalWrite buffer b [] = (buffer', chunks)"
  shows "concat chunks @ buffer' = buffer @ b \<and> list_all (\<lambda>c. length c \<le> globalBufferSize) chunks \<and>
    length buffer' \<le> globalBufferSize \<and> newline \<notin> set buffer'"
  using globalWrite_step [OF assms(1,2), where b = b and chunks = "[]"] assms(3) by auto

theorem globalWrite_lossless_witness:
  "concat (snd (globalWrite ''ab'' ''cd'' [])) @ fst (globalWrite ''ab'' ''cd'' []) = ''abcd''"
  using globalWrite_lossless [of "''ab''" "''cd''" "fst (globalWrite ''ab'' ''cd'' [])" "snd (globalWrite ''ab'' ''cd'' [])"]
  by (simp add: globalBufferSize_def maxLogLineLength_def maxTagLength_def)

text \<open>A chunk fits a slot: it is not cut.\<close>

lemma clip_chunk: "length c \<le> globalBufferSize \<Longrightarrow> length tg \<le> maxTagLength \<Longrightarrow> clip tg c = c"
  by (simp add: clip_def globalBufferSize_def maxLogLineLength_def maxTagLength_def)

end
