(* ===== verification/Go_Bytes.thy ===== *)
theory Go_Bytes
  imports Go_Netip
begin

text \<open>
  Memory as bytes: little-endian numbers, the layout Go gives to structures, and the interface
  \<open>struct_codec\<close> of a structure that is written to memory and read back through a pointer.
\<close>

section \<open>Numbers in memory\<close>

fun le_bytes :: "nat \<Rightarrow> nat \<Rightarrow> byte list" where
  "le_bytes 0 x = []"
| "le_bytes (Suc n) x = of_nat x # le_bytes n (x div 256)"

fun le_value :: "byte list \<Rightarrow> nat" where
  "le_value [] = 0"
| "le_value (b # bs) = unat b + 256 * le_value bs"

lemma length_le_bytes [simp]: "length (le_bytes n x) = n"
  by (induction n arbitrary: x) simp_all

lemma le_value_bytes: "le_value (le_bytes n x) = x mod 256 ^ n"
proof (induction n arbitrary: x)
  case (Suc n)
  have "unat (of_nat x :: byte) = x mod 256" by (simp add: unat_of_nat)
  then show ?case using Suc [of "x div 256"] by (simp add: mod_mult2_eq)
qed simp

text \<open>The words of a structure.\<close>

lemma le_word:
  "(of_nat (le_value (le_bytes 2 (unat x))) :: u16) = x"
  "(of_nat (le_value (le_bytes 4 (unat y))) :: u32) = y"
  "(of_nat (le_value (le_bytes 8 (unat z))) :: u64) = z"
proof -
  have "unat x < 2 ^ 16" "unat y < 2 ^ 32" "unat z < 2 ^ 64"
    using unsigned_less [of x] unsigned_less [of y] unsigned_less [of z] by simp_all
  then show "(of_nat (le_value (le_bytes 2 (unat x))) :: u16) = x"
    "(of_nat (le_value (le_bytes 4 (unat y))) :: u32) = y"
    "(of_nat (le_value (le_bytes 8 (unat z))) :: u64) = z" by (simp_all add: le_value_bytes)
qed

text \<open>The bytes of a field.\<close>

definition bytes_at :: "nat \<Rightarrow> nat \<Rightarrow> byte list \<Rightarrow> byte list" where
  "bytes_at off n mem = take n (drop off mem)"

lemma bytes_at_append:
  "off = length a \<Longrightarrow> n = length b \<Longrightarrow> bytes_at off n (a @ b @ c) = b"
  by (simp add: bytes_at_def)

lemma bytes_at_skip: "length a \<le> off \<Longrightarrow> bytes_at off n (a @ b) = bytes_at (off - length a) n b"
  by (simp add: bytes_at_def)

lemma bytes_at_here: "n = length a \<Longrightarrow> bytes_at 0 n (a @ b) = a"
  by (simp add: bytes_at_def)

section \<open>The layout of structures\<close>

text \<open>The types that occur in structures, with the sizes and the alignments of a 64-bit or a 32-bit
  processor: on the latter a 64-bit number is aligned to four bytes.\<close>

datatype go_type = U8 | U16 | U32 | U64 | Uintptr | Pointer | Arr nat go_type | Struct "go_type list"

definition align_up :: "nat \<Rightarrow> nat \<Rightarrow> nat" where
  "align_up off a = (off + a - 1) div a * a"

fun alignof :: "nat \<Rightarrow> go_type \<Rightarrow> nat" where
  "alignof w U8 = 1"
| "alignof w U16 = 2"
| "alignof w U32 = 4"
| "alignof w U64 = w"
| "alignof w Uintptr = w"
| "alignof w Pointer = w"
| "alignof w (Arr n t) = alignof w t"
| "alignof w (Struct ts) = foldr max (map (alignof w) ts) 1"

text \<open>The offset behind the last field, then rounded to the alignment of the structure.\<close>

fun sizeof :: "nat \<Rightarrow> go_type \<Rightarrow> nat" where
  "sizeof w U8 = 1"
| "sizeof w U16 = 2"
| "sizeof w U32 = 4"
| "sizeof w U64 = 8"
| "sizeof w Uintptr = w"
| "sizeof w Pointer = w"
| "sizeof w (Arr n t) = n * sizeof w t"
| "sizeof w (Struct ts) =
     align_up (fold (\<lambda>(s, a) off. align_up off a + s) (map (\<lambda>t. (sizeof w t, alignof w t)) ts) 0)
       (foldr max (map (alignof w) ts) 1)"

text \<open>The offsets of the fields.\<close>

fun offsets_from :: "nat \<Rightarrow> nat \<Rightarrow> go_type list \<Rightarrow> nat list" where
  "offsets_from w off [] = []"
| "offsets_from w off (t # ts) =
     (let o' = align_up off (alignof w t) in o' # offsets_from w (o' + sizeof w t) ts)"

fun offsets :: "nat \<Rightarrow> go_type \<Rightarrow> nat list" where
  "offsets w (Struct ts) = offsets_from w 0 ts"
| "offsets w _ = []"

section \<open>Structures in memory\<close>

text \<open>Reading a structure through a pointer, which faults outside the memory.\<close>

definition load_struct :: "nat \<Rightarrow> (byte list \<Rightarrow> 'a) \<Rightarrow> byte list \<Rightarrow> nat \<Rightarrow> 'a option" where
  "load_struct sz dec mem off = (if off + sz \<le> length mem then Some (dec (drop off mem)) else None)"

text \<open>A structure of a fixed size: what is written can be read back, whatever follows it.\<close>

locale struct_codec =
  fixes enc :: "'a \<Rightarrow> byte list" and dec :: "byte list \<Rightarrow> 'a" and ok :: "'a \<Rightarrow> bool" and sz :: nat
  assumes enc_length: "ok x \<Longrightarrow> length (enc x) = sz"
    and dec_enc: "ok x \<Longrightarrow> dec (enc x @ rest) = x"
begin

lemma load_enc:
  "ok x \<Longrightarrow> mem = pre @ enc x @ post \<Longrightarrow> off = length pre \<Longrightarrow> load_struct sz dec mem off = Some x"
  by (simp add: load_struct_def enc_length dec_enc)

end

end
