(* ===== verification/Driver_Config.thy ===== *)
theory Driver_Config
  imports Go_Bytes Conf_Config
begin

text \<open>
  The configuration as the driver reads and writes it: \<open>driver/configuration_windows.go\<close>, the socket
  addresses of \<open>tunnel/winipcfg/types.go\<close>, and the conversions \<open>ToDriverConfiguration\<close>
  (\<open>conf/writer.go\<close>) and \<open>FromDriverConfiguration\<close> (\<open>conf/parser.go\<close>).  The structures lie one behind
  the other in a buffer: an interface, then its peers, each followed by its allowed addresses.
  The encoders write the bytes of a structure with its padding, the decoders read its fields at
  their offsets; pointers are offsets into the buffer, and reading outside of it faults.
\<close>

section \<open>Socket addresses\<close>

definition AF_INET :: u16 where "AF_INET = 2"

definition AF_INET6 :: u16 where "AF_INET6 = 23"

record RawSockaddrInet =
  Family :: u16
  sa_data :: "byte list"

definition zero_RawSockaddrInet :: RawSockaddrInet where
  "zero_RawSockaddrInet = \<lparr>Family = 0, sa_data = replicate 26 0\<rparr>"

text \<open>The 16-bit number whose bytes in memory are those of \<open>i\<close> in big-endian order, and back.\<close>

definition ntohs :: "u16 \<Rightarrow> u16" where
  "ntohs i = (let b = le_bytes 2 (unat i) in join16 (b ! 0) (b ! 1))"

definition htons :: "u16 \<Rightarrow> u16" where
  "htons i = of_nat (le_value [ucast (drop_bit 8 i), ucast i])"

text \<open>\<open>SetAddrPort\<close> overlays the address with \<open>RawSockaddrInet4\<close> (family, port, address, eight zeros)
  or with \<open>RawSockaddrInet6\<close> (family, port, flow information, address, scope).\<close>

definition zone_scope :: "string \<Rightarrow> u32" where
  "zone_scope z = (if z \<noteq> [] then (case strconv_ParseUint z 32 of None \<Rightarrow> 0 | Some s \<Rightarrow> of_nat s) else 0)"

fun SetAddrPort :: "addr \<Rightarrow> u16 \<Rightarrow> RawSockaddrInet \<Rightarrow> RawSockaddrInet option" where
  "SetAddrPort (Addr4 a) port sa =
     Some \<lparr>Family = AF_INET,
       sa_data = le_bytes 2 (unat (htons port)) @ octets4 a @ replicate 8 0 @ drop 14 (sa_data sa)\<rparr>"
| "SetAddrPort (Addr6 a zone) port sa =
     Some \<lparr>Family = AF_INET6,
       sa_data = le_bytes 2 (unat (htons port)) @ replicate 4 0 @ As16 a @ le_bytes 4 (unat (zone_scope zone))\<rparr>"
| "SetAddrPort AddrZero port sa = None"

definition sockaddr_Addr :: "RawSockaddrInet \<Rightarrow> addr" where
  "sockaddr_Addr sa =
     (if Family sa = AF_INET then Addr4 (of_octets4 (bytes_at 2 4 (sa_data sa)))
      else if Family sa = AF_INET6 then
        (let a = of_bytes16 (bytes_at 6 16 (sa_data sa));
             scope = le_value (bytes_at 22 4 (sa_data sa))
         in Addr6 a (if scope \<noteq> 0 then strconv_Itoa scope else []))
      else AddrZero)"

definition sockaddr_Port :: "RawSockaddrInet \<Rightarrow> u16" where
  "sockaddr_Port sa =
     (if Family sa = AF_INET \<or> Family sa = AF_INET6
      then ntohs (of_nat (le_value (bytes_at 0 2 (sa_data sa)))) else 0)"

section \<open>The structures of the driver\<close>

definition PeerHasPublicKey :: u32 where "PeerHasPublicKey = push_bit 0 1"

definition PeerHasPresharedKey :: u32 where "PeerHasPresharedKey = push_bit 1 1"

definition PeerHasPersistentKeepalive :: u32 where "PeerHasPersistentKeepalive = push_bit 2 1"

definition PeerHasEndpoint :: u32 where "PeerHasEndpoint = push_bit 3 1"

definition InterfaceHasPrivateKey :: u32 where "InterfaceHasPrivateKey = push_bit 1 1"

definition InterfaceHasListenPort :: u32 where "InterfaceHasListenPort = push_bit 2 1"

record driver_AllowedIP =
  da_Address :: "byte list"
  da_AddressFamily :: u16
  da_Cidr :: byte
  da_Flags :: u32

record driver_Peer =
  dp_Flags :: u32
  dp_PublicKey :: Key
  dp_PresharedKey :: Key
  dp_PersistentKeepalive :: u16
  dp_Endpoint :: RawSockaddrInet
  dp_TxBytes :: u64
  dp_RxBytes :: u64
  dp_LastHandshake :: u64
  dp_AllowedIPsCount :: u32

record driver_Interface =
  di_Flags :: u32
  di_ListenPort :: u16
  di_PrivateKey :: Key
  di_PublicKey :: Key
  di_PeerCount :: u32

text \<open>The types as declared, whose layout gives the sizes and the offsets below.\<close>

definition RawSockaddrInet_type :: go_type where
  "RawSockaddrInet_type = Struct [U16, Arr 26 U8]"

definition AllowedIP_type :: go_type where
  "AllowedIP_type = Struct [Arr 16 U8, U16, U8, U32]"

definition Peer_type :: go_type where
  "Peer_type = Struct [U32, U32, Arr 32 U8, Arr 32 U8, U16, U16, RawSockaddrInet_type, U64, U64, U64, U32, Arr 4 U8]"

definition Interface_type :: go_type where
  "Interface_type = Struct [U32, U16, Arr 32 U8, Arr 32 U8, U32, Arr 4 U8]"

definition AllowedIP_size :: nat where "AllowedIP_size = 24"

definition Peer_size :: nat where "Peer_size = 136"

definition Interface_size :: nat where "Interface_size = 80"

definition enc_AllowedIP :: "driver_AllowedIP \<Rightarrow> byte list" where
  "enc_AllowedIP a =
     da_Address a @ le_bytes 2 (unat (da_AddressFamily a)) @ [da_Cidr a] @ [0] @ le_bytes 4 (unat (da_Flags a))"

definition dec_AllowedIP :: "byte list \<Rightarrow> driver_AllowedIP" where
  "dec_AllowedIP m =
     \<lparr>da_Address = bytes_at 0 16 m, da_AddressFamily = of_nat (le_value (bytes_at 16 2 m)),
      da_Cidr = of_nat (le_value (bytes_at 18 1 m)), da_Flags = of_nat (le_value (bytes_at 20 4 m))\<rparr>"

definition enc_Peer :: "driver_Peer \<Rightarrow> byte list" where
  "enc_Peer p =
     le_bytes 4 (unat (dp_Flags p)) @ replicate 4 0 @ dp_PublicKey p @ dp_PresharedKey p @
     le_bytes 2 (unat (dp_PersistentKeepalive p)) @ replicate 2 0 @
     le_bytes 2 (unat (Family (dp_Endpoint p))) @ sa_data (dp_Endpoint p) @
     le_bytes 8 (unat (dp_TxBytes p)) @ le_bytes 8 (unat (dp_RxBytes p)) @ le_bytes 8 (unat (dp_LastHandshake p)) @
     le_bytes 4 (unat (dp_AllowedIPsCount p)) @ replicate 4 0"

definition dec_Peer :: "byte list \<Rightarrow> driver_Peer" where
  "dec_Peer m =
     \<lparr>dp_Flags = of_nat (le_value (bytes_at 0 4 m)), dp_PublicKey = bytes_at 8 32 m,
      dp_PresharedKey = bytes_at 40 32 m, dp_PersistentKeepalive = of_nat (le_value (bytes_at 72 2 m)),
      dp_Endpoint = \<lparr>Family = of_nat (le_value (bytes_at 76 2 m)), sa_data = bytes_at 78 26 m\<rparr>,
      dp_TxBytes = of_nat (le_value (bytes_at 104 8 m)), dp_RxBytes = of_nat (le_value (bytes_at 112 8 m)),
      dp_LastHandshake = of_nat (le_value (bytes_at 120 8 m)),
      dp_AllowedIPsCount = of_nat (le_value (bytes_at 128 4 m))\<rparr>"

definition enc_Interface :: "driver_Interface \<Rightarrow> byte list" where
  "enc_Interface i =
     le_bytes 4 (unat (di_Flags i)) @ le_bytes 2 (unat (di_ListenPort i)) @ di_PrivateKey i @ di_PublicKey i @
     replicate 2 0 @ le_bytes 4 (unat (di_PeerCount i)) @ replicate 4 0"

definition dec_Interface :: "byte list \<Rightarrow> driver_Interface" where
  "dec_Interface m =
     \<lparr>di_Flags = of_nat (le_value (bytes_at 0 4 m)), di_ListenPort = of_nat (le_value (bytes_at 4 2 m)),
      di_PrivateKey = bytes_at 6 32 m, di_PublicKey = bytes_at 38 32 m,
      di_PeerCount = of_nat (le_value (bytes_at 72 4 m))\<rparr>"

text \<open>The pointers to the next structure.\<close>

definition FirstPeer :: "nat \<Rightarrow> nat" where
  "FirstPeer interfaze = interfaze + Interface_size"

definition NextPeer :: "driver_Peer \<Rightarrow> nat \<Rightarrow> nat" where
  "NextPeer p peer = peer + Peer_size + unat (dp_AllowedIPsCount p) * AllowedIP_size"

definition FirstAllowedIP :: "nat \<Rightarrow> nat" where
  "FirstAllowedIP peer = peer + Peer_size"

definition NextAllowedIP :: "nat \<Rightarrow> nat" where
  "NextAllowedIP allowedIP = allowedIP + AllowedIP_size"

text \<open>The builder is its buffer.\<close>

definition AppendInterface :: "driver_Interface \<Rightarrow> byte list \<Rightarrow> byte list" where
  "AppendInterface interfaze buffer = buffer @ enc_Interface interfaze"

definition AppendPeer :: "driver_Peer \<Rightarrow> byte list \<Rightarrow> byte list" where
  "AppendPeer peer buffer = buffer @ enc_Peer peer"

definition AppendAllowedIP :: "driver_AllowedIP \<Rightarrow> byte list \<Rightarrow> byte list" where
  "AppendAllowedIP allowedIP buffer = buffer @ enc_AllowedIP allowedIP"

section \<open>To the driver\<close>

text \<open>\<open>AsSlice\<close>, and \<open>copy\<close> into an array of sixteen bytes.\<close>

fun AsSlice :: "addr \<Rightarrow> byte list" where
  "AsSlice AddrZero = []"
| "AsSlice (Addr4 a) = octets4 a"
| "AsSlice (Addr6 a _) = As16 a"

definition to_allowed :: "prefix \<Rightarrow> driver_AllowedIP" where
  "to_allowed p =
     (let s = AsSlice (prefix_Addr p) in
      \<lparr>da_Address = s @ replicate (16 - length s) 0,
       da_AddressFamily = (if Is4 (prefix_Addr p) then AF_INET else if Is6 (prefix_Addr p) then AF_INET6 else 0),
       da_Cidr = of_int (Bits p), da_Flags = 0\<rparr>)"

definition to_peer :: "Peer \<Rightarrow> driver_Peer" where
  "to_peer p =
     (let flags = PeerHasPublicKey OR PeerHasPersistentKeepalive;
          flags = (if \<not> IsZero (PresharedKey p) then flags OR PeerHasPresharedKey else flags);
          (flags, endpoint) =
            (if \<not> Endpoint_IsEmpty (peer_Endpoint p) then
               (case ParseAddr (Host (peer_Endpoint p)) of
                  None \<Rightarrow> (flags, zero_RawSockaddrInet)
                | Some addr \<Rightarrow>
                    (flags OR PeerHasEndpoint,
                     (case SetAddrPort addr (Port (peer_Endpoint p)) zero_RawSockaddrInet of
                        None \<Rightarrow> zero_RawSockaddrInet | Some sa \<Rightarrow> sa)))
             else (flags, zero_RawSockaddrInet))
      in \<lparr>dp_Flags = flags, dp_PublicKey = PublicKey p, dp_PresharedKey = PresharedKey p,
          dp_PersistentKeepalive = PersistentKeepalive p, dp_Endpoint = endpoint,
          dp_TxBytes = 0, dp_RxBytes = 0, dp_LastHandshake = 0,
          dp_AllowedIPsCount = of_nat (length (AllowedIPs p))\<rparr>)"

definition ToDriverConfiguration :: "Config \<Rightarrow> byte list" where
  "ToDriverConfiguration config =
     foldl (\<lambda>buffer p. foldl (\<lambda>buffer a. AppendAllowedIP (to_allowed a) buffer) (AppendPeer (to_peer p) buffer) (AllowedIPs p))
       (AppendInterface
          \<lparr>di_Flags = InterfaceHasPrivateKey OR InterfaceHasListenPort,
           di_ListenPort = ListenPort (config_Interface config), di_PrivateKey = PrivateKey (config_Interface config),
           di_PublicKey = zero_Key, di_PeerCount = of_nat (length (Peers config))\<rparr> [])
       (Peers config)"

section \<open>From the driver\<close>

definition from_allowed :: "driver_AllowedIP \<Rightarrow> prefix" where
  "from_allowed a =
     PrefixFrom
       (if da_AddressFamily a = AF_INET then Addr4 (of_octets4 (bytes_at 0 4 (da_Address a)))
        else if da_AddressFamily a = AF_INET6 then Addr6 (of_bytes16 (bytes_at 0 16 (da_Address a))) []
        else AddrZero) (unat (da_Cidr a))"

text \<open>The loop over the allowed addresses: the pointer is nil before the first.\<close>

fun allowed_loop :: "byte list \<Rightarrow> nat \<Rightarrow> nat \<Rightarrow> nat option \<Rightarrow> prefix list \<Rightarrow> prefix list option" where
  "allowed_loop mem p 0 a acc = Some acc"
| "allowed_loop mem p (Suc n) a acc =
     (let a' = (case a of None \<Rightarrow> FirstAllowedIP p | Some q \<Rightarrow> NextAllowedIP q) in
      case load_struct AllowedIP_size dec_AllowedIP mem a' of
        None \<Rightarrow> None
      | Some x \<Rightarrow> allowed_loop mem p n (Some a') (acc @ [from_allowed x]))"

definition from_peer :: "driver_Peer \<Rightarrow> prefix list \<Rightarrow> Peer" where
  "from_peer p allowed =
     \<lparr>PublicKey = (if dp_Flags p AND PeerHasPublicKey \<noteq> 0 then dp_PublicKey p else zero_Key),
      PresharedKey = (if dp_Flags p AND PeerHasPresharedKey \<noteq> 0 then dp_PresharedKey p else zero_Key),
      AllowedIPs = allowed,
      peer_Endpoint =
        (if dp_Flags p AND PeerHasEndpoint \<noteq> 0
         then \<lparr>Host = addr_String (sockaddr_Addr (dp_Endpoint p)), Port = sockaddr_Port (dp_Endpoint p)\<rparr>
         else zero_Endpoint),
      PersistentKeepalive = (if dp_Flags p AND PeerHasPersistentKeepalive \<noteq> 0 then dp_PersistentKeepalive p else 0),
      RxBytes = dp_RxBytes p, TxBytes = dp_TxBytes p,
      LastHandshakeTime =
        (if dp_LastHandshake p \<noteq> 0 then sint ((dp_LastHandshake p - 116444736000000000) * 100) else 0),
      peer_Comments = zero_SectionComments\<rparr>"

text \<open>The loop over the peers: the current peer and its pointer, nil before the first.\<close>

fun peer_loop :: "byte list \<Rightarrow> nat \<Rightarrow> (nat \<times> driver_Peer) option \<Rightarrow> Peer list \<Rightarrow> Peer list option" where
  "peer_loop mem 0 p acc = Some acc"
| "peer_loop mem (Suc n) p acc =
     (let q = (case p of None \<Rightarrow> FirstPeer 0 | Some (off, x) \<Rightarrow> NextPeer x off) in
      case load_struct Peer_size dec_Peer mem q of
        None \<Rightarrow> None
      | Some x \<Rightarrow>
          (case allowed_loop mem q (unat (dp_AllowedIPsCount x)) None [] of
             None \<Rightarrow> None
           | Some allowed \<Rightarrow> peer_loop mem n (Some (q, x)) (acc @ [from_peer x allowed])))"

definition FromDriverConfiguration :: "byte list \<Rightarrow> Config \<Rightarrow> Config option" where
  "FromDriverConfiguration mem existingConfig =
     (case load_struct Interface_size dec_Interface mem 0 of
        None \<Rightarrow> None
      | Some i \<Rightarrow>
          (case peer_loop mem (unat (di_PeerCount i)) None [] of
             None \<Rightarrow> None
           | Some peers \<Rightarrow>
               Some \<lparr>Name = Name existingConfig,
                 config_Interface = (config_Interface existingConfig)
                   \<lparr>PrivateKey := (if di_Flags i AND InterfaceHasPrivateKey \<noteq> 0 then di_PrivateKey i else zero_Key),
                    ListenPort := (if di_Flags i AND InterfaceHasListenPort \<noteq> 0 then di_ListenPort i else 0),
                    if_Comments := zero_SectionComments\<rparr>,
                 Peers = peers, TrailingComments = []\<rparr>))"

section \<open>Asking the driver for its configuration\<close>

text \<open>\<open>Configuration\<close>: \<open>get\<close> is the driver's call with the size of the buffer; it returns the bytes and
  their size, or an error and the size it stores back.  The loop has no bound, so it takes fuel.\<close>

definition ERROR_MORE_DATA :: nat where "ERROR_MORE_DATA = 234"

fun configuration_loop :: "nat \<Rightarrow> (nat \<Rightarrow> 'd \<Rightarrow> ((nat + byte list) \<times> nat) \<times> 'd) \<Rightarrow> nat \<Rightarrow> 'd \<Rightarrow>
    ((nat + byte list) \<times> nat \<times> 'd) option" where
  "configuration_loop 0 get sz dev = None"
| "configuration_loop (Suc fuel) get sz dev =
     (case get sz dev of
        ((Inr buf, sz'), dev') \<Rightarrow> Some (Inr buf, sz', dev')
      | ((Inl e, sz'), dev') \<Rightarrow>
          if e \<noteq> ERROR_MORE_DATA then Some (Inl e, sz', dev')
          else configuration_loop fuel get sz' dev')"

text \<open>The adapter remembers the size of its last answer.\<close>

definition Configuration :: "nat \<Rightarrow> (nat \<Rightarrow> 'd \<Rightarrow> ((nat + byte list) \<times> nat) \<times> 'd) \<Rightarrow> nat \<Rightarrow> 'd \<Rightarrow>
    ((nat + byte list) \<times> nat \<times> 'd) option" where
  "Configuration fuel get lastGetGuessSize dev =
     (case configuration_loop fuel get (if lastGetGuessSize = 0 then 512 else lastGetGuessSize) dev of
        None \<Rightarrow> None
      | Some (Inl e, _, dev') \<Rightarrow> Some (Inl e, lastGetGuessSize, dev')
      | Some (Inr buf, sz, dev') \<Rightarrow> Some (Inr buf, sz, dev'))"

section \<open>The layout\<close>

lemma struct_layouts_64:
  "sizeof 8 AllowedIP_type = AllowedIP_size" "sizeof 8 Peer_type = Peer_size"
  "sizeof 8 Interface_type = Interface_size" "offsets 8 AllowedIP_type = [0, 16, 18, 20]"
  "offsets 8 Peer_type = [0, 4, 8, 40, 72, 74, 76, 104, 112, 120, 128, 132]"
  "offsets 8 Interface_type = [0, 4, 6, 38, 72, 76]"
  by code_simp+

lemma struct_layouts_32:
  "sizeof 4 AllowedIP_type = AllowedIP_size" "sizeof 4 Peer_type = Peer_size"
  "sizeof 4 Interface_type = Interface_size" "offsets 4 AllowedIP_type = [0, 16, 18, 20]"
  "offsets 4 Peer_type = [0, 4, 8, 40, 72, 74, 76, 104, 112, 120, 128, 132]"
  "offsets 4 Interface_type = [0, 4, 6, 38, 72, 76]"
  by code_simp+

section \<open>Structures in memory\<close>

definition ok_AllowedIP :: "driver_AllowedIP \<Rightarrow> bool" where
  "ok_AllowedIP a \<longleftrightarrow> length (da_Address a) = 16"

definition ok_Peer :: "driver_Peer \<Rightarrow> bool" where
  "ok_Peer p \<longleftrightarrow> length (dp_PublicKey p) = 32 \<and> length (dp_PresharedKey p) = 32 \<and>
     length (sa_data (dp_Endpoint p)) = 26"

definition ok_Interface :: "driver_Interface \<Rightarrow> bool" where
  "ok_Interface i \<longleftrightarrow> length (di_PrivateKey i) = 32 \<and> length (di_PublicKey i) = 32"

lemmas bytes_at_simps = bytes_at_skip bytes_at_here

interpretation AllowedIP: struct_codec enc_AllowedIP dec_AllowedIP ok_AllowedIP AllowedIP_size
proof unfold_locales
  fix x rest assume ok: "ok_AllowedIP x"
  then show "length (enc_AllowedIP x) = AllowedIP_size"
    by (simp add: ok_AllowedIP_def enc_AllowedIP_def AllowedIP_size_def)
  from ok show "dec_AllowedIP (enc_AllowedIP x @ rest) = x"
    by (cases x) (simp add: ok_AllowedIP_def enc_AllowedIP_def dec_AllowedIP_def bytes_at_simps le_word,
        simp add: bytes_at_def le_word)
qed

interpretation Peer: struct_codec enc_Peer dec_Peer ok_Peer Peer_size
proof unfold_locales
  fix x rest assume ok: "ok_Peer x"
  then show "length (enc_Peer x) = Peer_size"
    by (simp add: ok_Peer_def enc_Peer_def Peer_size_def)
  from ok show "dec_Peer (enc_Peer x @ rest) = x"
    by (cases x) (simp add: ok_Peer_def enc_Peer_def dec_Peer_def bytes_at_simps le_word)
qed

interpretation Interface: struct_codec enc_Interface dec_Interface ok_Interface Interface_size
proof unfold_locales
  fix x rest assume ok: "ok_Interface x"
  then show "length (enc_Interface x) = Interface_size"
    by (simp add: ok_Interface_def enc_Interface_def Interface_size_def)
  from ok show "dec_Interface (enc_Interface x @ rest) = x"
    by (cases x) (simp add: ok_Interface_def enc_Interface_def dec_Interface_def bytes_at_simps le_word)
qed


section \<open>Socket addresses\<close>

lemma unat_byte_le: "unat (b :: byte) \<le> 255"
  using unat_byte_less [of b] by linarith

lemma le_bytes_two: "le_bytes 2 (le_value [a, b]) = [a, b]"
proof -
  have "unat a < 256" by (rule unat_byte_less)
  moreover have "(of_nat (unat a + 256 * unat b) :: byte) = a"
    unfolding word_unat_eq_iff unat_of_nat by simp
  ultimately show ?thesis by (simp add: numeral_2_eq_2 del: of_nat_add of_nat_mult)
qed

lemma htons_bytes: "le_bytes 2 (unat (htons i)) = [ucast (drop_bit 8 i), ucast i]"
proof -
  let ?bs = "[ucast (drop_bit 8 i), ucast i :: byte]"
  have "le_value ?bs < 65536"
    using unat_byte_le [of "ucast (drop_bit 8 i)"] unat_byte_le [of "ucast i"] by simp
  then have "unat (htons i) = le_value ?bs" unfolding htons_def unat_of_nat by simp
  then show ?thesis by (simp only: le_bytes_two)
qed

lemma ntohs_htons: "ntohs (htons i) = i"
  unfolding ntohs_def Let_def htons_bytes join16_def
  by (rule bit_word_eqI) (auto simp: bit_simps)

lemma of_bytes16_As16: "of_bytes16 (As16 a @ rest) = a"
proof -
  have "join16 (ucast (drop_bit 8 g)) (ucast g) = g" for g :: u16
    unfolding join16_def by (rule bit_word_eqI) (auto simp: bit_simps)
  then have "map (\<lambda>i. join16 ((As16 a @ rest) ! (2 * i)) ((As16 a @ rest) ! (2 * i + 1))) [0..<8] = groups6 a"
    by (simp add: As16_def groups6_def upt_rec)
  then show ?thesis by (simp add: of_bytes16_def)
qed


text \<open>The zone a socket address keeps: the number of a scope.\<close>

fun scoped :: "addr \<Rightarrow> addr" where
  "scoped (Addr6 a z) = Addr6 a (if zone_scope z = 0 then [] else strconv_Itoa (unat (zone_scope z)))"
| "scoped a = a"

lemma SetAddrPort_back:
  assumes "SetAddrPort a port zero_RawSockaddrInet = Some sa"
  shows "sockaddr_Addr sa = scoped a" "sockaddr_Port sa = port" "length (sa_data sa) = 26"
proof -
  have "sockaddr_Addr sa = scoped a \<and> sockaddr_Port sa = port \<and> length (sa_data sa) = 26"
  proof (cases a)
    case AddrZero
    then show ?thesis using assms by simp
  next
    case (Addr4 w)
    have "length (octets4 w) = 4" by (simp add: octets4_def)
    then show ?thesis
      using assms Addr4
      by (auto simp: sockaddr_Addr_def sockaddr_Port_def bytes_at_simps le_word ntohs_htons zero_RawSockaddrInet_def)
  next
    case (Addr6 w z)
    have l: "length (As16 w) = 16" by (simp add: As16_def groups6_def)
    have "of_bytes16 (As16 w) = w" using of_bytes16_As16 [of w "[]"] by simp
    moreover have "le_value (le_bytes 4 (unat (zone_scope z))) = unat (zone_scope z)"
      using unsigned_less [of "zone_scope z", where 'a = nat] by (simp add: le_value_bytes)
    ultimately show ?thesis
      using assms Addr6 l
      by (auto simp: sockaddr_Addr_def sockaddr_Port_def bytes_at_simps le_word ntohs_htons AF_INET_def AF_INET6_def
          bytes_at_def unat_eq_zero Let_def unat_gt_0)
  qed
  then show "sockaddr_Addr sa = scoped a" "sockaddr_Port sa = port" "length (sa_data sa) = 26" by simp_all
qed

section \<open>There and back\<close>

lemma from_to_allowed:
  assumes "valid_prefix p"
  shows "from_allowed (to_allowed p) = p \<and> ok_AllowedIP (to_allowed p)"
proof -
  obtain a n where p: "p = Prefix a (Some n)" "a \<noteq> AddrZero" "\<not> hasZone a" "n \<le> BitLen a"
    using assms by (cases p) (auto simp: valid_prefix_def split: option.splits)
  have "n < 256" using p(4) by (cases a) auto
  then have c: "unat (da_Cidr (to_allowed p)) = n"
    by (simp add: to_allowed_def Let_def p Bits_def) (simp add: unat_of_nat)
  have l: "length (octets4 w) = 4" "length (As16 v) = 16" for w v
    by (simp_all add: octets4_def As16_def groups6_def)
  have a: "of_bytes16 (As16 v) = v" for v using of_bytes16_As16 [of v "[]"] by simp
  show ?thesis
    using p c
    by (cases a) (auto simp: from_allowed_def to_allowed_def ok_AllowedIP_def Let_def PrefixFrom_def l a
        AF_INET_def AF_INET6_def bytes_at_def)
qed

text \<open>What the driver keeps of a peer.\<close>

definition peer_view :: "Peer \<Rightarrow> Peer" where
  "peer_view p = zero_Peer
     \<lparr>PublicKey := PublicKey p, PresharedKey := PresharedKey p, AllowedIPs := AllowedIPs p,
      PersistentKeepalive := PersistentKeepalive p,
      peer_Endpoint :=
        (if Endpoint_IsEmpty (peer_Endpoint p) then zero_Endpoint
         else case ParseAddr (Host (peer_Endpoint p)) of
           None \<Rightarrow> zero_Endpoint
         | Some a \<Rightarrow> \<lparr>Host = addr_String (scoped a), Port = Port (peer_Endpoint p)\<rparr>)\<rparr>"

definition driver_ok_peer :: "Peer \<Rightarrow> bool" where
  "driver_ok_peer p \<longleftrightarrow> length (PublicKey p) = KeyLength \<and> length (PresharedKey p) = KeyLength \<and>
     list_all valid_prefix (AllowedIPs p) \<and> length (AllowedIPs p) < 2 ^ 32"

lemma flag_tests:
  "PeerHasPublicKey \<noteq> 0" "PeerHasPresharedKey = 2" "PeerHasPersistentKeepalive = 4" "PeerHasEndpoint = 8" "PeerHasPublicKey = 1"
  by (simp_all add: PeerHasPublicKey_def PeerHasPresharedKey_def PeerHasPersistentKeepalive_def PeerHasEndpoint_def push_bit_eq_mult)

lemma to_peer_ok:
  assumes "driver_ok_peer p"
  shows "ok_Peer (to_peer p) \<and> unat (dp_AllowedIPsCount (to_peer p)) = length (AllowedIPs p)"
proof -
  have "length (sa_data (dp_Endpoint (to_peer p))) = 26"
    using SetAddrPort_back(3)
    by (auto simp: to_peer_def Let_def zero_RawSockaddrInet_def split: option.splits)
  moreover have "dp_PublicKey (to_peer p) = PublicKey p" "dp_PresharedKey (to_peer p) = PresharedKey p"
    "dp_AllowedIPsCount (to_peer p) = of_nat (length (AllowedIPs p))"
    by (auto simp: to_peer_def Let_def split: option.splits)
  ultimately show ?thesis
    using assms by (simp add: ok_Peer_def driver_ok_peer_def KeyLength_def unat_of_nat)
qed

lemma ParseAddr_SetAddrPort:
  assumes "ParseAddr s = Some a"
  shows "\<exists>sa. SetAddrPort a port zero_RawSockaddrInet = Some sa"
  using ParseAddr_not_zero [OF assms] by (cases a) auto

lemma from_to_peer:
  assumes "driver_ok_peer p"
  shows "from_peer (to_peer p) (AllowedIPs p) = peer_view p"
proof -
  let ?e = "peer_Endpoint p"
  have z: "PresharedKey p = zero_Key" if "IsZero (PresharedKey p)"
    using that assms IsZero_iff by (auto simp: driver_ok_peer_def)
  show ?thesis
  proof (cases "Endpoint_IsEmpty ?e \<or> ParseAddr (Host ?e) = None")
    case True
    then show ?thesis using z
      by (auto simp: from_peer_def to_peer_def peer_view_def zero_Peer_def Let_def flag_tests split: option.splits)
  next
    case False
    then obtain a where a: "\<not> Endpoint_IsEmpty ?e" "ParseAddr (Host ?e) = Some a" by auto
    then obtain sa where "SetAddrPort a (Port ?e) zero_RawSockaddrInet = Some sa"
      using ParseAddr_SetAddrPort by blast
    note sa = this SetAddrPort_back [OF this]
    show ?thesis using z a sa
      by (auto simp: from_peer_def to_peer_def peer_view_def zero_Peer_def Let_def flag_tests)
  qed
qed


text \<open>The bytes of a peer with its allowed addresses, and the whole buffer.\<close>

definition peer_bytes :: "Peer \<Rightarrow> byte list" where
  "peer_bytes p = enc_Peer (to_peer p) @ concat (map (\<lambda>a. enc_AllowedIP (to_allowed a)) (AllowedIPs p))"

definition to_interface :: "Config \<Rightarrow> driver_Interface" where
  "to_interface config =
     \<lparr>di_Flags = InterfaceHasPrivateKey OR InterfaceHasListenPort,
      di_ListenPort = ListenPort (config_Interface config), di_PrivateKey = PrivateKey (config_Interface config),
      di_PublicKey = zero_Key, di_PeerCount = of_nat (length (Peers config))\<rparr>"

lemma append_allowed:
  "foldl (\<lambda>buffer a. AppendAllowedIP (to_allowed a) buffer) buffer ps =
    buffer @ concat (map (\<lambda>a. enc_AllowedIP (to_allowed a)) ps)"
  by (induction ps arbitrary: buffer) (simp_all add: AppendAllowedIP_def)

lemma append_peers:
  "foldl (\<lambda>buffer p. foldl (\<lambda>buffer a. AppendAllowedIP (to_allowed a) buffer) (AppendPeer (to_peer p) buffer) (AllowedIPs p))
    buffer ps = buffer @ concat (map peer_bytes ps)"
  by (induction ps arbitrary: buffer) (simp_all add: append_allowed AppendPeer_def peer_bytes_def)

lemma ToDriverConfiguration_bytes:
  "ToDriverConfiguration config = enc_Interface (to_interface config) @ concat (map peer_bytes (Peers config))"
  unfolding ToDriverConfiguration_def append_peers by (simp add: AppendInterface_def to_interface_def)

lemma length_allowed:
  "list_all valid_prefix ps \<Longrightarrow>
    length (concat (map (\<lambda>a. enc_AllowedIP (to_allowed a)) ps)) = length ps * AllowedIP_size"
  by (induction ps) (simp_all add: from_to_allowed AllowedIP.enc_length)

lemma length_peer_bytes:
  "driver_ok_peer p \<Longrightarrow> length (peer_bytes p) = Peer_size + length (AllowedIPs p) * AllowedIP_size"
  using to_peer_ok [of p] by (simp add: peer_bytes_def length_allowed driver_ok_peer_def Peer.enc_length)

lemma allowed_loop_run:
  assumes "list_all valid_prefix ps" "off = length pre"
    "mem = pre @ concat (map (\<lambda>a. enc_AllowedIP (to_allowed a)) ps) @ post"
    "(case a of None \<Rightarrow> FirstAllowedIP p | Some q \<Rightarrow> NextAllowedIP q) = off"
  shows "allowed_loop mem p (length ps) a acc = Some (acc @ ps)"
  using assms
proof (induction ps arbitrary: off pre a acc)
  case (Cons x ps)
  have x: "from_allowed (to_allowed x) = x" "ok_AllowedIP (to_allowed x)"
    using Cons.prems(1) from_to_allowed by auto
  have "load_struct AllowedIP_size dec_AllowedIP mem off = Some (to_allowed x)"
    by (rule AllowedIP.load_enc [OF x(2), where pre = pre]) (use Cons.prems in simp_all)
  moreover have "allowed_loop mem p (length ps) (Some off) (acc @ [x]) = Some ((acc @ [x]) @ ps)"
    by (rule Cons.IH [where pre = "pre @ enc_AllowedIP (to_allowed x)"])
      (use Cons.prems x(2) in \<open>simp_all add: NextAllowedIP_def AllowedIP.enc_length\<close>)
  ultimately show ?case using Cons.prems(4) x(1) by simp
qed simp

lemma peer_loop_run:
  assumes "list_all driver_ok_peer ps" "off = length pre" "mem = pre @ concat (map peer_bytes ps)"
    "(case p of None \<Rightarrow> FirstPeer 0 | Some (q, x) \<Rightarrow> NextPeer x q) = off"
  shows "peer_loop mem (length ps) p acc = Some (acc @ map peer_view ps)"
  using assms
proof (induction ps arbitrary: off pre p acc)
  case (Cons x ps)
  let ?a = "concat (map (\<lambda>a. enc_AllowedIP (to_allowed a)) (AllowedIPs x))" and ?rest = "concat (map peer_bytes ps)"
  have ok: "driver_ok_peer x" and x: "ok_Peer (to_peer x)" "unat (dp_AllowedIPsCount (to_peer x)) = length (AllowedIPs x)"
    using Cons.prems(1) to_peer_ok by auto
  have mem: "mem = pre @ enc_Peer (to_peer x) @ ?a @ ?rest" using Cons.prems(3) by (simp add: peer_bytes_def [of x])
  have "load_struct Peer_size dec_Peer mem off = Some (to_peer x)"
    by (rule Peer.load_enc [OF x(1) mem Cons.prems(2)])
  moreover have "allowed_loop mem off (length (AllowedIPs x)) None [] = Some ([] @ AllowedIPs x)"
    by (rule allowed_loop_run [where pre = "pre @ enc_Peer (to_peer x)" and post = ?rest])
      (use ok mem Cons.prems(2) Peer.enc_length [OF x(1)] in \<open>simp_all add: driver_ok_peer_def FirstAllowedIP_def\<close>)
  moreover have "peer_loop mem (length ps) (Some (off, to_peer x)) (acc @ [peer_view x]) =
      Some ((acc @ [peer_view x]) @ map peer_view ps)"
    by (rule Cons.IH [where pre = "pre @ peer_bytes x"])
      (use Cons.prems ok x(2) in \<open>simp_all add: NextPeer_def length_peer_bytes\<close>)
  ultimately show ?case using Cons.prems(4) x(2) from_to_peer [OF ok] by simp
qed simp

section \<open>Properties\<close>

definition driver_ok :: "Config \<Rightarrow> bool" where
  "driver_ok config \<longleftrightarrow> length (PrivateKey (config_Interface config)) = KeyLength \<and>
     length (Peers config) < 2 ^ 32 \<and> list_all driver_ok_peer (Peers config)"

definition driver_view :: "Config \<Rightarrow> Config" where
  "driver_view config = config
     \<lparr>config_Interface := (config_Interface config) \<lparr>if_Comments := zero_SectionComments\<rparr>,
      Peers := map peer_view (Peers config), TrailingComments := []\<rparr>"

text \<open>C12: the configuration goes to the driver and back through the buffer of structures without loss:
  \<open>FromDriverConfiguration\<close> reads, without leaving the buffer, every key, port, interval and allowed
  address that \<open>ToDriverConfiguration\<close> wrote, and the endpoints that are addresses; comments and
  the names of unresolved endpoints are what is dropped.\<close>

theorem FromDriverConfiguration_ToDriverConfiguration:
  assumes "driver_ok config"
  shows "FromDriverConfiguration (ToDriverConfiguration config) config = Some (driver_view config)"
proof -
  let ?i = "to_interface config" and ?mem = "ToDriverConfiguration config"
  have ok: "ok_Interface ?i" "unat (di_PeerCount ?i) = length (Peers config)"
    using assms by (simp_all add: to_interface_def ok_Interface_def driver_ok_def KeyLength_def unat_of_nat)
  have "load_struct Interface_size dec_Interface ?mem 0 = Some ?i"
    by (rule Interface.load_enc [OF ok(1), where pre = "[]"]) (simp_all add: ToDriverConfiguration_bytes)
  moreover have "peer_loop ?mem (length (Peers config)) None [] = Some ([] @ map peer_view (Peers config))"
    by (rule peer_loop_run [where pre = "enc_Interface ?i"])
      (use assms Interface.enc_length [OF ok(1)] in \<open>simp_all add: driver_ok_def ToDriverConfiguration_bytes FirstPeer_def\<close>)
  ultimately show ?thesis
    using ok(2)
    by (simp add: FromDriverConfiguration_def driver_view_def to_interface_def InterfaceHasPrivateKey_def
        InterfaceHasListenPort_def push_bit_eq_mult)
qed

definition one_peer :: Config where
  "one_peer = \<lparr>Name = ''wg0'', config_Interface = zero_Interface,
     Peers = [zero_Peer \<lparr>AllowedIPs := [Prefix (Addr4 0x0A000000) (Some 8)],
       peer_Endpoint := \<lparr>Host = ''192.0.2.1'', Port = 51820\<rparr>\<rparr>], TrailingComments = []\<rparr>"

theorem FromDriverConfiguration_ToDriverConfiguration_witness:
  "FromDriverConfiguration (ToDriverConfiguration one_peer) one_peer = Some (driver_view one_peer)"
  by (rule FromDriverConfiguration_ToDriverConfiguration)
    (simp add: driver_ok_def driver_ok_peer_def one_peer_def valid_prefix_def zero_defs KeyLength_def)

text \<open>Asking a driver for a configuration that does not change takes at most two calls: the second
  has the size that the first one reported.\<close>

theorem Configuration_returns:
  assumes "\<And>sz. get sz dev = (if need \<le> sz then ((Inr buf, need), dev) else ((Inl ERROR_MORE_DATA, need), dev))"
  shows "Configuration (Suc (Suc fuel)) get guess dev = Some (Inr buf, need, dev)"
  by (simp add: Configuration_def assms)

theorem Configuration_returns_witness:
  "Configuration 2 (\<lambda>sz dev. if 600 \<le> sz then ((Inr [1], 600), dev) else ((Inl ERROR_MORE_DATA, 600), dev)) 0 () =
    Some (Inr [1], 600, ())"
  using Configuration_returns [of "\<lambda>sz dev. if 600 \<le> sz then ((Inr [1], 600), dev) else ((Inl ERROR_MORE_DATA, 600), dev)"
      "()" 600 "[1]" 0 0] by (simp add: numeral_2_eq_2)

end
