(* ===== verification/Highlighter.thy ===== *)
theory Highlighter
  imports Go_Prelude "HOL-Library.Monad_Syntax"
begin

text \<open>
  \<open>ui/syntax/highlighter.go\<close>: the highlighter of the configuration editor, a translation from C that
  reads the text through pointers.  The text is copied to a buffer with a zero byte behind it; a
  \<open>stringSpan\<close> is a pointer into the buffer and a length.  A read is \<open>at\<close>, which fails outside the
  buffer, so that every function that reads returns an option, and not to fail is a theorem.
\<close>

unbundle bit_operations_syntax

section \<open>Spans\<close>

datatype highlight =
    highlightSection | highlightField | highlightPrivateKey | highlightPublicKey | highlightPresharedKey
  | highlightIP | highlightCidr | highlightHost | highlightPort | highlightMTU | highlightKeepalive
  | highlightComment | highlightDelimiter | highlightTable | highlightCmd | highlightError

definition validateHighlight :: "bool \<Rightarrow> highlight \<Rightarrow> highlight" where
  "validateHighlight isValid t = (if isValid then t else highlightError)"

record highlightSpan =
  hs_t :: highlight
  hs_s :: nat
  hs_len :: nat

definition isDecimal :: "char \<Rightarrow> bool" where
  "isDecimal c \<longleftrightarrow> 48 \<le> code c \<and> code c \<le> 57"

text \<open>\<open>c | 32\<close>.\<close>

definition or32 :: "char \<Rightarrow> nat" where
  "or32 c = code c OR 32"

definition isHexadecimal :: "char \<Rightarrow> bool" where
  "isHexadecimal c \<longleftrightarrow> isDecimal c \<or> 97 \<le> or32 c \<and> or32 c \<le> 102"

definition isAlphabet :: "char \<Rightarrow> bool" where
  "isAlphabet c \<longleftrightarrow> 97 \<le> or32 c \<and> or32 c \<le> 122"

record stringSpan =
  sp :: nat
  slen :: nat

definition at :: "string \<Rightarrow> stringSpan \<Rightarrow> nat \<Rightarrow> char option" where
  "at mem s i = (if sp s + i < length mem then Some (mem ! (sp s + i)) else None)"

text \<open>A loop over the bytes \<open>i, i + 1, \<dots>\<close> of a span that returns false at the first that fails.\<close>

fun span_all :: "(nat \<Rightarrow> char \<Rightarrow> bool) \<Rightarrow> string \<Rightarrow> stringSpan \<Rightarrow> nat \<Rightarrow> nat \<Rightarrow> bool option" where
  "span_all P mem s i 0 = Some True"
| "span_all P mem s i (Suc k) =
     do { c \<leftarrow> at mem s i; if P i c then span_all P mem s (Suc i) k else Some False }"

definition isSame :: "string \<Rightarrow> stringSpan \<Rightarrow> string \<Rightarrow> bool option" where
  "isSame mem s c =
     (if slen s \<noteq> length c then Some False else span_all (\<lambda>i a. a = c ! i) mem s 0 (slen s))"

text \<open>\<open>if a - 'a' < 26 { a &= 95 }\<close> on bytes.\<close>

definition byte_sub :: "nat \<Rightarrow> nat \<Rightarrow> nat" where
  "byte_sub a b = (a + 256 - b) mod 256"

definition fold_byte :: "char \<Rightarrow> nat" where
  "fold_byte a = (if byte_sub (code a) 97 < 26 then code a AND 95 else code a)"

definition isCaselessSame :: "string \<Rightarrow> stringSpan \<Rightarrow> string \<Rightarrow> bool option" where
  "isCaselessSame mem s c =
     (if slen s \<noteq> length c then Some False
      else span_all (\<lambda>i a. fold_byte a = fold_byte (c ! i)) mem s 0 (slen s))"

section \<open>Validity of values\<close>

definition isValidKey :: "string \<Rightarrow> stringSpan \<Rightarrow> bool option" where
  "isValidKey mem s =
     (if slen s \<noteq> 44 then Some False
      else do {
        c \<leftarrow> at mem s 43;
        if c \<noteq> CHR ''='' then Some False
        else do {
          ok \<leftarrow> span_all (\<lambda>_ c. isDecimal c \<or> isAlphabet c \<or> c = CHR ''/'' \<or> c = CHR ''+'') mem s 0 42;
          if \<not> ok then Some False
          else do { c \<leftarrow> at mem s 42; Some (c \<in> set ''AEIMQUYcgkosw480'') } } })"

text \<open>The loop of \<open>isValidHostname\<close> from byte \<open>i\<close>, with the counts of digits and of entities.\<close>

fun hostname_loop :: "string \<Rightarrow> stringSpan \<Rightarrow> nat \<Rightarrow> nat \<Rightarrow> int \<Rightarrow> int \<Rightarrow> bool option" where
  "hostname_loop mem s i 0 numDigit numEntity = Some (numDigit \<noteq> numEntity)"
| "hostname_loop mem s i (Suc k) numDigit numEntity =
     do {
       c \<leftarrow> at mem s i;
       if isDecimal c then hostname_loop mem s (Suc i) k (numDigit + 1) numEntity
       else if c = CHR ''.'' then hostname_loop mem s (Suc i) k numDigit (numEntity - 1)
       else if \<not> isAlphabet c \<and> c \<noteq> CHR ''-'' then Some False
       else if i \<noteq> 0 \<and> c = CHR ''.'' then
         do { p \<leftarrow> at mem s (i - 1);
              if p = CHR ''.'' then Some False else hostname_loop mem s (Suc i) k numDigit numEntity }
       else hostname_loop mem s (Suc i) k numDigit numEntity }"

definition isValidHostname :: "string \<Rightarrow> stringSpan \<Rightarrow> bool option" where
  "isValidHostname mem s =
     (if 63 < slen s \<or> slen s = 0 then Some False
      else do {
        first \<leftarrow> at mem s 0;
        final \<leftarrow> at mem s (slen s - 1);
        if first = CHR ''-'' \<or> final = CHR ''-'' then Some False
        else if first = CHR ''.'' \<or> final = CHR ''.'' then Some False
        else hostname_loop mem s 0 (slen s) 0 (int (slen s)) })"

text \<open>Up to three digits of an octet: their number and their value.\<close>

fun octet_loop :: "string \<Rightarrow> stringSpan \<Rightarrow> nat \<Rightarrow> nat \<Rightarrow> nat \<Rightarrow> nat \<Rightarrow> (nat \<times> nat) option" where
  "octet_loop mem s pos 0 j val = Some (j, val)"
| "octet_loop mem s pos (Suc k) j val =
     (if pos + j < slen s then
        do { c \<leftarrow> at mem s (pos + j);
             if isDecimal c then octet_loop mem s pos k (Suc j) (10 * val + (code c - 48)) else Some (j, val) }
      else Some (j, val))"

fun ipv4_loop :: "string \<Rightarrow> stringSpan \<Rightarrow> nat \<Rightarrow> nat \<Rightarrow> bool option" where
  "ipv4_loop mem s 0 pos = Some False"
| "ipv4_loop mem s (Suc k) pos =
     (if \<not> pos < slen s then Some False
      else do {
        (j, val) \<leftarrow> octet_loop mem s pos 3 0 0;
        zero \<leftarrow> (if 1 < j then do { c \<leftarrow> at mem s pos; Some (c = CHR ''0'') } else Some False);
        if j = 0 \<or> zero \<or> 255 < val then Some False
        else if pos + j = slen s \<and> k = 0 then Some True
        else do {
          c \<leftarrow> at mem s (pos + j);
          if c \<noteq> CHR ''.'' then Some False else ipv4_loop mem s k (pos + j + 1) } })"

text \<open>The counter of the loop is \<open>4 - k\<close>, so the last turn is the one with \<open>k = 0\<close> left.\<close>

definition isValidIPv4 :: "string \<Rightarrow> stringSpan \<Rightarrow> bool option" where
  "isValidIPv4 mem s = ipv4_loop mem s 4 0"

fun hex_loop :: "string \<Rightarrow> stringSpan \<Rightarrow> nat \<Rightarrow> nat \<Rightarrow> nat \<Rightarrow> nat option" where
  "hex_loop mem s pos 0 j = Some j"
| "hex_loop mem s pos (Suc k) j =
     (if pos + j < slen s then
        do { c \<leftarrow> at mem s (pos + j); if isHexadecimal c then hex_loop mem s pos k (Suc j) else Some j }
      else Some j)"

function ipv6_loop :: "string \<Rightarrow> stringSpan \<Rightarrow> nat \<Rightarrow> nat \<Rightarrow> bool \<Rightarrow> bool option" where
  "ipv6_loop mem s i pos seenColon =
     (if \<not> pos < slen s then Some True
      else do {
        c \<leftarrow> at mem s pos;
        if c = CHR '':'' \<and> \<not> seenColon then
          (if Suc pos = slen s then Some True
           else if i = 7 then Some False
           else ipv6_loop mem s (Suc i) (Suc pos) True)
        else do {
          j \<leftarrow> hex_loop mem s pos 4 0;
          if j = 0 then Some False
          else if pos + j = slen s \<and> (seenColon \<or> i = 7) then Some True
          else if i = 7 then Some False
          else do {
            c \<leftarrow> at mem s (pos + j);
            if c \<noteq> CHR '':'' then
              (if c \<noteq> CHR ''.'' \<or> i < 6 \<and> \<not> seenColon then Some False
               else isValidIPv4 mem \<lparr>sp = sp s + pos, slen = slen s - pos\<rparr>)
            else ipv6_loop mem s (Suc i) (pos + j + 1) seenColon } } })"
  by pat_completeness auto
termination by (relation "measure (\<lambda>(mem, s, i, pos, seenColon). slen s - pos)") auto

declare ipv6_loop.simps [simp del]

definition isValidIPv6 :: "string \<Rightarrow> stringSpan \<Rightarrow> bool option" where
  "isValidIPv6 mem s =
     (if slen s < 2 then Some False
      else do {
        c \<leftarrow> at mem s 0;
        single \<leftarrow> (if c = CHR '':'' then do { d \<leftarrow> at mem s 1; Some (d \<noteq> CHR '':'') } else Some False);
        if single then Some False
        else do {
          e \<leftarrow> at mem s (slen s - 1);
          trailing \<leftarrow> (if e = CHR '':'' then do { d \<leftarrow> at mem s (slen s - 2); Some (d \<noteq> CHR '':'') }
                      else Some False);
          if trailing then Some False
          else ipv6_loop mem s 0 (if c = CHR '':'' then 1 else 0) False } })"

text \<open>The digits of a number: at most ten, so the value stays below \<open>2 ^ 64\<close>.\<close>

fun uint_loop :: "(char \<Rightarrow> nat option) \<Rightarrow> nat \<Rightarrow> string \<Rightarrow> stringSpan \<Rightarrow> nat \<Rightarrow> nat \<Rightarrow> nat \<Rightarrow> nat option option" where
  "uint_loop digit base mem s i 0 val = Some (Some val)"
| "uint_loop digit base mem s i (Suc k) val =
     do { c \<leftarrow> at mem s i;
          case digit c of
            None \<Rightarrow> Some None
          | Some d \<Rightarrow> uint_loop digit base mem s (Suc i) k (base * val + d) }"

definition dec_digit :: "char \<Rightarrow> nat option" where
  "dec_digit c = (if isDecimal c then Some (code c - 48) else None)"

definition hex_digit_of :: "char \<Rightarrow> nat option" where
  "hex_digit_of c =
     (if byte_sub (code c) 48 < 10 then Some (byte_sub (code c) 48)
      else if byte_sub (or32 c) 97 < 6 then Some (byte_sub (or32 c) 97 + 10)
      else None)"

definition isValidUint :: "string \<Rightarrow> stringSpan \<Rightarrow> bool \<Rightarrow> nat \<Rightarrow> nat \<Rightarrow> bool option" where
  "isValidUint mem s supportHex mn mx =
     (if 10 < slen s \<or> slen s = 0 then Some False
      else do {
        hex \<leftarrow> (if supportHex \<and> 2 < slen s
                then do { a \<leftarrow> at mem s 0; b \<leftarrow> at mem s 1; Some (a = CHR ''0'' \<and> b = CHR ''x'') }
                else Some False);
        r \<leftarrow> (if hex then uint_loop hex_digit_of 16 mem s 2 (slen s - 2) 0
              else uint_loop dec_digit 10 mem s 0 (slen s) 0);
        case r of None \<Rightarrow> Some False | Some val \<Rightarrow> Some (val \<le> mx \<and> mn \<le> val) })"

definition isValidPort :: "string \<Rightarrow> stringSpan \<Rightarrow> bool option" where
  "isValidPort mem s = isValidUint mem s False 0 65535"

definition isValidMTU :: "string \<Rightarrow> stringSpan \<Rightarrow> bool option" where
  "isValidMTU mem s = isValidUint mem s False 576 65535"

text \<open>\<open>a || b\<close>, which reads for \<open>b\<close> only when \<open>a\<close> is false.\<close>

definition or_else :: "bool option \<Rightarrow> bool option \<Rightarrow> bool option" where
  "or_else a b = do { x \<leftarrow> a; if x then Some True else b }"

definition isValidTable :: "string \<Rightarrow> stringSpan \<Rightarrow> bool option" where
  "isValidTable mem s =
     or_else (isSame mem s ''off'') (or_else (isSame mem s ''auto'')
       (or_else (isSame mem s ''main'') (isValidUint mem s False 0 (2 ^ 32 - 1))))"

definition isValidPersistentKeepAlive :: "string \<Rightarrow> stringSpan \<Rightarrow> bool option" where
  "isValidPersistentKeepAlive mem s =
     do { off \<leftarrow> isSame mem s ''off''; if off then Some True else isValidUint mem s False 0 65535 }"

definition isValidPrePostUpDown :: "stringSpan \<Rightarrow> bool" where
  "isValidPrePostUpDown s \<longleftrightarrow> slen s \<noteq> 0"

definition isValidScope :: "string \<Rightarrow> stringSpan \<Rightarrow> bool option" where
  "isValidScope mem s =
     (if 64 < slen s \<or> slen s = 0 then Some False
      else span_all (\<lambda>_ c. isAlphabet c \<or> isDecimal c \<or> c = CHR ''_'' \<or> c = CHR ''='' \<or> c = CHR ''+'' \<or>
        c = CHR ''.'' \<or> c = CHR ''-'') mem s 0 (slen s))"

text \<open>The loop over a bracketed host: whether a scope was seen, and the span of the host or the scope.\<close>

fun bracket_loop :: "string \<Rightarrow> stringSpan \<Rightarrow> nat \<Rightarrow> nat \<Rightarrow> bool \<Rightarrow> stringSpan \<Rightarrow> bool option" where
  "bracket_loop mem s i 0 seenScope hostspan = Some False"
| "bracket_loop mem s i (Suc k) seenScope hostspan =
     do {
       c \<leftarrow> at mem s i;
       if c = CHR ''%'' then
         (if seenScope then Some False
          else do { ok \<leftarrow> isValidIPv6 mem hostspan;
                    if \<not> ok then Some False
                    else bracket_loop mem s (Suc i) k True \<lparr>sp = sp s + (i + 1), slen = 0\<rparr> })
       else if c = CHR '']'' then
         do { ok \<leftarrow> (if seenScope then isValidScope mem hostspan else isValidIPv6 mem hostspan);
              if \<not> ok then Some False
              else if i = slen s - 1 then Some False
              else do { c \<leftarrow> at mem s (i + 1);
                        if c \<noteq> CHR '':'' then Some False
                        else isValidPort mem \<lparr>sp = sp s + (i + 2), slen = slen s - i - 2\<rparr> } }
       else bracket_loop mem s (Suc i) k seenScope (hostspan \<lparr>slen := slen hostspan + 1\<rparr>) }"

fun host_loop :: "string \<Rightarrow> stringSpan \<Rightarrow> nat \<Rightarrow> nat \<Rightarrow> bool option" where
  "host_loop mem s i 0 = Some False"
| "host_loop mem s i (Suc k) =
     do {
       c \<leftarrow> at mem s i;
       if c = CHR '':'' then
         do { ok \<leftarrow> isValidPort mem \<lparr>sp = sp s + (i + 1), slen = slen s - i - 1\<rparr>;
              if \<not> ok then Some False
              else or_else (isValidIPv4 mem \<lparr>sp = sp s, slen = i\<rparr>) (isValidHostname mem \<lparr>sp = sp s, slen = i\<rparr>) }
       else host_loop mem s (Suc i) k }"

definition isValidEndpoint :: "string \<Rightarrow> stringSpan \<Rightarrow> bool option" where
  "isValidEndpoint mem s =
     (if slen s = 0 then Some False
      else do {
        c \<leftarrow> at mem s 0;
        if c = CHR ''['' then bracket_loop mem s 1 (slen s - 1) False \<lparr>sp = sp s + 1, slen = 0\<rparr>
        else host_loop mem s 0 (slen s) })"

text \<open>\<open>isValidNetwork\<close>: the part behind the first slash has at most three digits.\<close>

fun network_loop :: "string \<Rightarrow> stringSpan \<Rightarrow> nat \<Rightarrow> nat \<Rightarrow> bool option" where
  "network_loop mem s i 0 = or_else (isValidIPv4 mem s) (isValidIPv6 mem s)"
| "network_loop mem s i (Suc k) =
     do {
       c \<leftarrow> at mem s i;
       if c = CHR ''/'' then
         (let ip = \<lparr>sp = sp s, slen = i\<rparr>; cidr = \<lparr>sp = sp s + (i + 1), slen = slen s - i - 1\<rparr> in
          if 3 < slen cidr \<or> slen cidr = 0 then Some False
          else do {
            r \<leftarrow> uint_loop dec_digit 10 mem cidr 0 (slen cidr) 0;
            case r of
              None \<Rightarrow> Some False
            | Some cidrval \<Rightarrow>
                do { v4 \<leftarrow> isValidIPv4 mem ip;
                     if v4 then Some (cidrval \<le> 32)
                     else do { v6 \<leftarrow> isValidIPv6 mem ip; if v6 then Some (cidrval \<le> 128) else Some False } } })
       else network_loop mem s (Suc i) k }"

definition isValidNetwork :: "string \<Rightarrow> stringSpan \<Rightarrow> bool option" where
  "isValidNetwork mem s = network_loop mem s 0 (slen s)"


section \<open>Fields and sections\<close>

datatype field =
    fieldInterfaceSection | fieldPrivateKey | fieldListenPort | fieldAddress | fieldDNS | fieldMTU | fieldTable
  | fieldPreUp | fieldPostUp | fieldPreDown | fieldPostDown | fieldPeerSection | fieldPublicKey
  | fieldPresharedKey | fieldAllowedIPs | fieldEndpoint | fieldPersistentKeepalive | fieldInvalid

fun field_index :: "field \<Rightarrow> nat" where
  "field_index fieldInterfaceSection = 0"
| "field_index fieldPrivateKey = 1"
| "field_index fieldListenPort = 2"
| "field_index fieldAddress = 3"
| "field_index fieldDNS = 4"
| "field_index fieldMTU = 5"
| "field_index fieldTable = 6"
| "field_index fieldPreUp = 7"
| "field_index fieldPostUp = 8"
| "field_index fieldPreDown = 9"
| "field_index fieldPostDown = 10"
| "field_index fieldPeerSection = 11"
| "field_index fieldPublicKey = 12"
| "field_index fieldPresharedKey = 13"
| "field_index fieldAllowedIPs = 14"
| "field_index fieldEndpoint = 15"
| "field_index fieldPersistentKeepalive = 16"
| "field_index fieldInvalid = 17"

lemma field_index_inject: "field_index a = field_index b \<Longrightarrow> a = b"
  by (cases a; cases b; simp)

text \<open>The constants are ordered by their number.\<close>

instantiation field :: linorder
begin

definition less_eq_field :: "field \<Rightarrow> field \<Rightarrow> bool" where
  "less_eq_field a b \<longleftrightarrow> field_index a \<le> field_index b"

definition less_field :: "field \<Rightarrow> field \<Rightarrow> bool" where
  "less_field a b \<longleftrightarrow> field_index a < field_index b"

instance
  by standard (auto simp: less_eq_field_def less_field_def intro: field_index_inject)

end

definition sectionForField :: "field \<Rightarrow> field" where
  "sectionForField t =
     (if fieldInterfaceSection < t \<and> t < fieldPeerSection then fieldInterfaceSection
      else if fieldPeerSection < t \<and> t < fieldInvalid then fieldPeerSection
      else fieldInvalid)"

text \<open>The \<open>switch\<close> over names: the first that is the same.\<close>

fun first_same :: "string \<Rightarrow> stringSpan \<Rightarrow> (string \<times> field) list \<Rightarrow> field option" where
  "first_same mem s [] = Some fieldInvalid"
| "first_same mem s ((name, f) # names) =
     do { same \<leftarrow> isCaselessSame mem s name; if same then Some f else first_same mem s names }"

definition span_field :: "string \<Rightarrow> stringSpan \<Rightarrow> field option" where
  "span_field mem s = first_same mem s
     [(''PrivateKey'', fieldPrivateKey), (''ListenPort'', fieldListenPort), (''Address'', fieldAddress),
      (''DNS'', fieldDNS), (''MTU'', fieldMTU), (''Table'', fieldTable), (''PublicKey'', fieldPublicKey),
      (''PresharedKey'', fieldPresharedKey), (''AllowedIPs'', fieldAllowedIPs), (''Endpoint'', fieldEndpoint),
      (''PersistentKeepalive'', fieldPersistentKeepalive), (''PreUp'', fieldPreUp), (''PostUp'', fieldPostUp),
      (''PreDown'', fieldPreDown), (''PostDown'', fieldPostDown)]"

definition sectionType :: "string \<Rightarrow> stringSpan \<Rightarrow> field option" where
  "sectionType mem s = first_same mem s [(''[Peer]'', fieldPeerSection), (''[Interface]'', fieldInterfaceSection)]"

section \<open>Highlighting\<close>

text \<open>Spans are appended with their offset from the start of the text, \<open>o\<close> in the code.\<close>

definition hsa_append :: "stringSpan \<Rightarrow> highlight \<Rightarrow> highlightSpan list \<Rightarrow> highlightSpan list" where
  "hsa_append s t hsa = (if slen s = 0 then hsa else hsa @ [\<lparr>hs_t = t, hs_s = sp s, hs_len = slen s\<rparr>])"

fun find_slash :: "string \<Rightarrow> stringSpan \<Rightarrow> nat \<Rightarrow> nat \<Rightarrow> nat option" where
  "find_slash mem s slash 0 = Some slash"
| "find_slash mem s slash (Suc k) =
     do { c \<leftarrow> at mem s slash; if c = CHR ''/'' then Some slash else find_slash mem s (Suc slash) k }"

definition highlightMultivalueValue ::
  "string \<Rightarrow> stringSpan \<Rightarrow> field \<Rightarrow> highlightSpan list \<Rightarrow> highlightSpan list option" where
  "highlightMultivalueValue mem s section hsa =
     (if section = fieldDNS then
        do { ip \<leftarrow> or_else (isValidIPv4 mem s) (isValidIPv6 mem s);
             if ip then Some (hsa_append s highlightIP hsa)
             else do { host \<leftarrow> isValidHostname mem s;
                       Some (hsa_append s (if host then highlightHost else highlightError) hsa) } }
      else if section = fieldAddress \<or> section = fieldAllowedIPs then
        do { ok \<leftarrow> isValidNetwork mem s;
             if \<not> ok then Some (hsa_append s highlightError hsa)
             else do {
               slash \<leftarrow> find_slash mem s 0 (slen s);
               if slash = slen s then Some (hsa_append s highlightIP hsa)
               else Some (hsa_append \<lparr>sp = sp s + (slash + 1), slen = slen s - slash - 1\<rparr> highlightCidr
                 (hsa_append \<lparr>sp = sp s + slash, slen = 1\<rparr> highlightDelimiter
                 (hsa_append \<lparr>sp = sp s, slen = slash\<rparr> highlightIP hsa))) } }
      else Some (hsa_append s highlightError hsa))"

text \<open>The loop of \<open>highlightMultivalue\<close>: the current span, its length up to the last byte that is not
  blank, and the spans so far.\<close>

fun multivalue_loop :: "string \<Rightarrow> stringSpan \<Rightarrow> field \<Rightarrow> nat \<Rightarrow> nat \<Rightarrow> stringSpan \<Rightarrow> nat \<Rightarrow> highlightSpan list \<Rightarrow>
    (stringSpan \<times> nat \<times> highlightSpan list) option" where
  "multivalue_loop mem s section i 0 cur lenAtLastSpace hsa = Some (cur, lenAtLastSpace, hsa)"
| "multivalue_loop mem s section i (Suc k) cur lenAtLastSpace hsa =
     do {
       c \<leftarrow> at mem s i;
       if c = CHR '','' then
         do { hsa \<leftarrow> highlightMultivalueValue mem (cur \<lparr>slen := lenAtLastSpace\<rparr>) section hsa;
              multivalue_loop mem s section (Suc i) k \<lparr>sp = sp s + (i + 1), slen = 0\<rparr> 0
                (hsa_append \<lparr>sp = sp s + i, slen = 1\<rparr> highlightDelimiter hsa) }
       else if c = CHR '' '' \<or> c = CHR 0x09 then
         (if sp s + i = sp cur \<and> slen cur = 0
          then multivalue_loop mem s section (Suc i) k (cur \<lparr>sp := sp cur + 1\<rparr>) lenAtLastSpace hsa
          else multivalue_loop mem s section (Suc i) k (cur \<lparr>slen := slen cur + 1\<rparr>) lenAtLastSpace hsa)
       else multivalue_loop mem s section (Suc i) k (cur \<lparr>slen := slen cur + 1\<rparr>) (slen cur + 1) hsa }"

definition highlightMultivalue ::
  "string \<Rightarrow> stringSpan \<Rightarrow> field \<Rightarrow> highlightSpan list \<Rightarrow> highlightSpan list option" where
  "highlightMultivalue mem s section hsa =
     do {
       (cur, lenAtLastSpace, hsa) \<leftarrow> multivalue_loop mem s section 0 (slen s) \<lparr>sp = sp s, slen = 0\<rparr> 0 hsa;
       if lenAtLastSpace \<noteq> 0 then highlightMultivalueValue mem (cur \<lparr>slen := lenAtLastSpace\<rparr>) section hsa
       else if hsa = [] then None
       else if hs_t (last hsa) = highlightDelimiter
       then Some (butlast hsa @ [(last hsa) \<lparr>hs_t := highlightError\<rparr>])
       else Some hsa }"

text \<open>The search for the last colon, from the end.\<close>

fun find_colon :: "string \<Rightarrow> stringSpan \<Rightarrow> nat \<Rightarrow> nat option" where
  "find_colon mem s 0 = Some 0"
| "find_colon mem s (Suc colon) =
     do { c \<leftarrow> at mem s colon; if c = CHR '':'' then Some colon else find_colon mem s colon }"

definition highlight_valid :: "stringSpan \<Rightarrow> bool option \<Rightarrow> highlight \<Rightarrow> highlightSpan list \<Rightarrow> highlightSpan list option" where
  "highlight_valid s valid t hsa = do { v \<leftarrow> valid; Some (hsa_append s (validateHighlight v t) hsa) }"

definition highlightValue ::
  "string \<Rightarrow> stringSpan \<Rightarrow> field \<Rightarrow> highlightSpan list \<Rightarrow> highlightSpan list option" where
  "highlightValue mem s section hsa =
     (case section of
        fieldPrivateKey \<Rightarrow> highlight_valid s (isValidKey mem s) highlightPrivateKey hsa
      | fieldPublicKey \<Rightarrow> highlight_valid s (isValidKey mem s) highlightPublicKey hsa
      | fieldPresharedKey \<Rightarrow> highlight_valid s (isValidKey mem s) highlightPresharedKey hsa
      | fieldMTU \<Rightarrow> highlight_valid s (isValidMTU mem s) highlightMTU hsa
      | fieldTable \<Rightarrow> highlight_valid s (isValidTable mem s) highlightTable hsa
      | fieldPreUp \<Rightarrow> highlight_valid s (Some (isValidPrePostUpDown s)) highlightCmd hsa
      | fieldPostUp \<Rightarrow> highlight_valid s (Some (isValidPrePostUpDown s)) highlightCmd hsa
      | fieldPreDown \<Rightarrow> highlight_valid s (Some (isValidPrePostUpDown s)) highlightCmd hsa
      | fieldPostDown \<Rightarrow> highlight_valid s (Some (isValidPrePostUpDown s)) highlightCmd hsa
      | fieldListenPort \<Rightarrow> highlight_valid s (isValidPort mem s) highlightPort hsa
      | fieldPersistentKeepalive \<Rightarrow> highlight_valid s (isValidPersistentKeepAlive mem s) highlightKeepalive hsa
      | fieldEndpoint \<Rightarrow>
          do { ok \<leftarrow> isValidEndpoint mem s;
               if \<not> ok then Some (hsa_append s highlightError hsa)
               else do {
                 colon \<leftarrow> find_colon mem s (slen s);
                 Some (hsa_append \<lparr>sp = sp s + (colon + 1), slen = slen s - colon - 1\<rparr> highlightPort
                   (hsa_append \<lparr>sp = sp s + colon, slen = 1\<rparr> highlightDelimiter
                   (hsa_append \<lparr>sp = sp s, slen = colon\<rparr> highlightHost hsa))) } }
      | fieldAddress \<Rightarrow> highlightMultivalue mem s section hsa
      | fieldDNS \<Rightarrow> highlightMultivalue mem s section hsa
      | fieldAllowedIPs \<Rightarrow> highlightMultivalue mem s section hsa
      | _ \<Rightarrow> Some (hsa_append s highlightError hsa))"

datatype on_state = onNone | onKey | onValue | onComment | onSection

record scanner =
  ret :: "highlightSpan list"
  currentSpan :: stringSpan
  currentSection :: field
  currentField :: field
  state :: on_state
  lenAtLastSpace :: nat
  equalsLocation :: nat

text \<open>What is done at the end of a line, at the start of a comment and at the end of the text.\<close>

definition end_item :: "string \<Rightarrow> scanner \<Rightarrow> scanner option" where
  "end_item mem r =
     (case state r of
        onKey \<Rightarrow>
          Some (r \<lparr>currentSpan := (currentSpan r) \<lparr>slen := lenAtLastSpace r\<rparr>,
            ret := hsa_append ((currentSpan r) \<lparr>slen := lenAtLastSpace r\<rparr>) highlightError (ret r)\<rparr>)
      | onValue \<Rightarrow>
          if slen (currentSpan r) \<noteq> 0 then
            do { hsa \<leftarrow> highlightValue mem ((currentSpan r) \<lparr>slen := lenAtLastSpace r\<rparr>) (currentField r)
                   (hsa_append \<lparr>sp = equalsLocation r, slen = 1\<rparr> highlightDelimiter (ret r));
                 Some (r \<lparr>currentSpan := (currentSpan r) \<lparr>slen := lenAtLastSpace r\<rparr>, ret := hsa\<rparr>) }
          else Some (r \<lparr>ret := hsa_append \<lparr>sp = equalsLocation r, slen = 1\<rparr> highlightError (ret r)\<rparr>)
      | onSection \<Rightarrow>
          do { section \<leftarrow> sectionType mem ((currentSpan r) \<lparr>slen := lenAtLastSpace r\<rparr>);
               Some (r \<lparr>currentSpan := (currentSpan r) \<lparr>slen := lenAtLastSpace r\<rparr>, currentSection := section,
                 ret := hsa_append ((currentSpan r) \<lparr>slen := lenAtLastSpace r\<rparr>)
                   (validateHighlight (section \<noteq> fieldInvalid) highlightSection) (ret r)\<rparr>) }
      | onComment \<Rightarrow> Some (r \<lparr>ret := hsa_append (currentSpan r) highlightComment (ret r)\<rparr>)
      | onNone \<Rightarrow> Some r)"

text \<open>The turn of the loop for byte \<open>i\<close> of the text.\<close>

definition scan_byte :: "string \<Rightarrow> nat \<Rightarrow> char \<Rightarrow> scanner \<Rightarrow> scanner option" where
  "scan_byte mem i c r =
     (if c = newline \<or> state r \<noteq> onComment \<and> c = CHR ''#'' then
        do { r \<leftarrow> end_item mem r;
             let r = r \<lparr>lenAtLastSpace := 0, currentField := fieldInvalid\<rparr> in
             Some (if c = CHR ''#'' then r \<lparr>currentSpan := \<lparr>sp = i, slen = 1\<rparr>, state := onComment\<rparr>
                   else r \<lparr>currentSpan := \<lparr>sp = i + 1, slen = 0\<rparr>, state := onNone\<rparr>) }
      else if state r = onComment then
        Some (r \<lparr>currentSpan := (currentSpan r) \<lparr>slen := slen (currentSpan r) + 1\<rparr>\<rparr>)
      else if c = CHR '' '' \<or> c = CHR 0x09 then
        (if i = sp (currentSpan r) \<and> slen (currentSpan r) = 0
         then Some (r \<lparr>currentSpan := (currentSpan r) \<lparr>sp := sp (currentSpan r) + 1\<rparr>\<rparr>)
         else Some (r \<lparr>currentSpan := (currentSpan r) \<lparr>slen := slen (currentSpan r) + 1\<rparr>\<rparr>))
      else if c = CHR ''='' \<and> state r = onKey then
        do { let key = (currentSpan r) \<lparr>slen := lenAtLastSpace r\<rparr>;
             f \<leftarrow> span_field mem key;
             let section = sectionForField f;
             Some (r \<lparr>ret := hsa_append key
                  (if section = fieldInvalid \<or> f = fieldInvalid \<or> section \<noteq> currentSection r
                   then highlightError else highlightField) (ret r),
                currentField := f, equalsLocation := i,
                currentSpan := \<lparr>sp = i + 1, slen = 0\<rparr>, state := onValue\<rparr>) }
      else
        (let r = (if state r = onNone then r \<lparr>state := (if c = CHR ''['' then onSection else onKey)\<rparr> else r) in
         Some (r \<lparr>currentSpan := (currentSpan r) \<lparr>slen := slen (currentSpan r) + 1\<rparr>,
           lenAtLastSpace := slen (currentSpan r) + 1\<rparr>)))"

fun scan_loop :: "string \<Rightarrow> nat \<Rightarrow> nat \<Rightarrow> scanner \<Rightarrow> scanner option" where
  "scan_loop mem i 0 r = end_item mem r"
| "scan_loop mem i (Suc k) r =
     do { c \<leftarrow> at mem \<lparr>sp = 0, slen = i + Suc k\<rparr> i; r \<leftarrow> scan_byte mem i c r; scan_loop mem (Suc i) k r }"

definition scan_start :: scanner where
  "scan_start = \<lparr>ret = [], currentSpan = \<lparr>sp = 0, slen = 0\<rparr>, currentSection = fieldInvalid,
     currentField = fieldInvalid, state = onNone, lenAtLastSpace = 0, equalsLocation = 0\<rparr>"

definition highlightConfig :: "string \<Rightarrow> highlightSpan list option" where
  "highlightConfig config =
     map_option ret (scan_loop (config @ [CHR 0x00]) 0 (length config) scan_start)"


section \<open>Every read is inside the buffer\<close>

text \<open>\<open>wp m P\<close>: \<open>m\<close> makes no read outside the buffer and its value satisfies \<open>P\<close>.\<close>

definition wp :: "'a option \<Rightarrow> ('a \<Rightarrow> bool) \<Rightarrow> bool" where
  "wp m P = (case m of None \<Rightarrow> False | Some x \<Rightarrow> P x)"

lemma wp_Some [simp]: "wp (Some x) P = P x"
  by (simp add: wp_def)

lemma wp_bind [simp]: "wp (m \<bind> f) P = wp m (\<lambda>x. wp (f x) P)"
  by (cases m) (simp_all add: wp_def)

lemma wp_if [simp]: "wp (if b then m else n) P = ((b \<longrightarrow> wp m P) \<and> (\<not> b \<longrightarrow> wp n P))"
  by simp

lemma wp_case_option [simp]:
  "wp (case x of None \<Rightarrow> m | Some y \<Rightarrow> f y) P = ((x = None \<longrightarrow> wp m P) \<and> (\<forall>y. x = Some y \<longrightarrow> wp (f y) P))"
  by (cases x) simp_all

lemma wp_mono: "wp m P \<Longrightarrow> (\<And>x. P x \<Longrightarrow> Q x) \<Longrightarrow> wp m Q"
  by (simp add: wp_def split: option.splits)

lemma wp_weaken: "wp m (\<lambda>_. True) \<Longrightarrow> (\<And>x. Q x) \<Longrightarrow> wp m Q"
  by (rule wp_mono)

lemma wp_Some_iff: "wp m P \<longleftrightarrow> (\<exists>x. m = Some x \<and> P x)"
  by (simp add: wp_def split: option.splits)

text \<open>A span with at least the final zero byte behind it.\<close>

definition inside :: "string \<Rightarrow> stringSpan \<Rightarrow> bool" where
  "inside mem s \<longleftrightarrow> sp s + slen s < length mem"

named_theorems reads \<open>functions that only read inside the buffer\<close>

lemma wp_at [simp]: "inside mem s \<Longrightarrow> i \<le> slen s \<Longrightarrow> wp (at mem s i) P = P (mem ! (sp s + i))"
  by (simp add: at_def inside_def)

lemma inside_sub [intro]: "inside mem s \<Longrightarrow> sp s \<le> p \<Longrightarrow> p + n \<le> sp s + slen s \<Longrightarrow> inside mem \<lparr>sp = p, slen = n\<rparr>"
  by (simp add: inside_def)

lemma span_all_reads [reads]: "inside mem s \<Longrightarrow> i + k \<le> slen s + 1 \<Longrightarrow> wp (span_all P mem s i k) (\<lambda>_. True)"
  by (induction k arbitrary: i) auto

lemma isSame_reads [reads]: "inside mem s \<Longrightarrow> wp (isSame mem s c) (\<lambda>_. True)"
  by (simp add: isSame_def span_all_reads)

lemma isCaselessSame_reads [reads]: "inside mem s \<Longrightarrow> wp (isCaselessSame mem s c) (\<lambda>_. True)"
  by (simp add: isCaselessSame_def span_all_reads)

lemma isValidKey_reads [reads]: "inside mem s \<Longrightarrow> wp (isValidKey mem s) (\<lambda>_. True)"
  by (auto simp: isValidKey_def intro: span_all_reads wp_mono [OF span_all_reads])

lemma hostname_loop_reads [reads]: "inside mem s \<Longrightarrow> i + k \<le> slen s + 1 \<Longrightarrow> wp (hostname_loop mem s i k d e) (\<lambda>_. True)"
  by (induction k arbitrary: i d e) auto

lemma isValidHostname_reads [reads]: "inside mem s \<Longrightarrow> wp (isValidHostname mem s) (\<lambda>_. True)"
  by (simp add: isValidHostname_def hostname_loop_reads)

lemma octet_loop_reads:
  "inside mem s \<Longrightarrow> pos + j \<le> slen s \<Longrightarrow> wp (octet_loop mem s pos k j v) (\<lambda>(j', v'). pos + j' \<le> slen s)"
  by (induction k arbitrary: j v) auto

lemma ipv4_loop_reads [reads]: "inside mem s \<Longrightarrow> wp (ipv4_loop mem s k pos) (\<lambda>_. True)"
proof (induction k arbitrary: pos)
  case (Suc k)
  show ?case
    using octet_loop_reads [OF Suc.prems, of pos 0 3 0] Suc
    by (auto elim!: wp_mono)
qed simp

lemma isValidIPv4_reads [reads]: "inside mem s \<Longrightarrow> wp (isValidIPv4 mem s) (\<lambda>_. True)"
  by (simp add: isValidIPv4_def ipv4_loop_reads)

lemma hex_loop_reads: "inside mem s \<Longrightarrow> pos + j \<le> slen s \<Longrightarrow> wp (hex_loop mem s pos k j) (\<lambda>j'. pos + j' \<le> slen s)"
  by (induction k arbitrary: j) auto

lemma ipv6_loop_reads [reads]: "inside mem s \<Longrightarrow> wp (ipv6_loop mem s i pos seen) (\<lambda>_. True)"
proof (induction mem s i pos seen rule: ipv6_loop.induct)
  case (1 mem s i pos seen)
  show ?case
  proof (cases "pos < slen s")
    case True
    obtain j where j: "hex_loop mem s pos 4 0 = Some j" "pos + j \<le> slen s"
      using hex_loop_reads [OF 1(3), of pos 0 4] True by (auto simp: wp_Some_iff)
    have at: "at mem s i = Some (mem ! (sp s + i))" if "i \<le> slen s" for i
      using that 1(3) by (simp add: at_def inside_def)
    have v4: "wp (isValidIPv4 mem \<lparr>sp = sp s + pos, slen = slen s - pos\<rparr>) (\<lambda>_. True)"
      using True 1(3) by (intro isValidIPv4_reads) auto
    note IH1 = 1(1) [OF _ at _ _ _ 1(3)] and IH2 = 1(2) [OF _ at _ j(1) _ _ _ at _ 1(3)]
    show ?thesis
      unfolding ipv6_loop.simps [of mem s i pos seen]
      using True IH1 IH2 v4 j at by simp
  qed (simp add: ipv6_loop.simps)
qed

lemma isValidIPv6_reads [reads]: "inside mem s \<Longrightarrow> wp (isValidIPv6 mem s) (\<lambda>_. True)"
  by (simp add: isValidIPv6_def ipv6_loop_reads)

lemma uint_loop_reads:
  "inside mem s \<Longrightarrow> i + k \<le> slen s + 1 \<Longrightarrow> wp (uint_loop digit base mem s i k v) (\<lambda>_. True)"
  by (induction k arbitrary: i v) auto

lemma isValidUint_reads [reads]: "inside mem s \<Longrightarrow> wp (isValidUint mem s h mn mx) (\<lambda>_. True)"
  by (auto simp: isValidUint_def intro!: wp_weaken [OF uint_loop_reads] split: option.split)

lemma or_else_reads: "wp a (\<lambda>_. True) \<Longrightarrow> wp b (\<lambda>_. True) \<Longrightarrow> wp (or_else a b) (\<lambda>_. True)"
  by (auto simp: or_else_def elim: wp_mono)

lemma isValidPort_reads [reads]: "inside mem s \<Longrightarrow> wp (isValidPort mem s) (\<lambda>_. True)"
  and isValidMTU_reads [reads]: "inside mem s \<Longrightarrow> wp (isValidMTU mem s) (\<lambda>_. True)"
  by (simp_all add: isValidPort_def isValidMTU_def isValidUint_reads)

lemma isValidTable_reads [reads]: "inside mem s \<Longrightarrow> wp (isValidTable mem s) (\<lambda>_. True)"
  by (simp add: isValidTable_def or_else_reads isSame_reads isValidUint_reads)

lemma isValidPersistentKeepAlive_reads [reads]: "inside mem s \<Longrightarrow> wp (isValidPersistentKeepAlive mem s) (\<lambda>_. True)"
  by (auto simp: isValidPersistentKeepAlive_def isValidUint_reads intro: wp_mono [OF isSame_reads])

lemma isValidScope_reads [reads]: "inside mem s \<Longrightarrow> wp (isValidScope mem s) (\<lambda>_. True)"
  by (simp add: isValidScope_def span_all_reads)

lemma bracket_loop_reads:
  "inside mem s \<Longrightarrow> i + k = slen s \<Longrightarrow> sp s \<le> sp h \<Longrightarrow> sp h + slen h \<le> sp s + i \<Longrightarrow>
   wp (bracket_loop mem s i k seen h) (\<lambda>_. True)"
proof (induction k arbitrary: i seen h)
  case (Suc k)
  then have "inside mem h"
    by (simp add: inside_def)
  moreover have "wp (isValidPort mem \<lparr>sp = sp s + (i + 2), slen = slen s - i - 2\<rparr>) (\<lambda>_. True)" if "i \<noteq> slen s - 1"
    using that Suc.prems by (intro isValidPort_reads) auto
  ultimately show ?case
    using Suc by (auto intro!: wp_weaken [OF isValidIPv6_reads] wp_weaken [OF isValidScope_reads])
qed simp

lemma host_loop_reads: "inside mem s \<Longrightarrow> i + k = slen s \<Longrightarrow> wp (host_loop mem s i k) (\<lambda>_. True)"
proof (induction k arbitrary: i)
  case (Suc k)
  have "wp (isValidPort mem \<lparr>sp = sp s + (i + 1), slen = slen s - i - 1\<rparr>) (\<lambda>_. True)"
    using Suc.prems by (intro isValidPort_reads) auto
  moreover have "inside mem \<lparr>sp = sp s, slen = i\<rparr>"
    using Suc.prems by (simp add: inside_def)
  ultimately show ?case
    using Suc by (auto intro!: wp_weaken [OF or_else_reads] isValidIPv4_reads isValidHostname_reads elim!: wp_weaken)
qed simp

lemma isValidEndpoint_reads [reads]: "inside mem s \<Longrightarrow> wp (isValidEndpoint mem s) (\<lambda>_. True)"
  by (simp add: isValidEndpoint_def bracket_loop_reads host_loop_reads)

lemma network_loop_reads: "inside mem s \<Longrightarrow> i + k = slen s \<Longrightarrow> wp (network_loop mem s i k) (\<lambda>_. True)"
proof (induction k arbitrary: i)
  case (Suc k)
  have "wp (uint_loop dec_digit 10 mem \<lparr>sp = sp s + (i + 1), slen = slen s - i - 1\<rparr> 0 (slen s - i - 1) 0) (\<lambda>_. True)"
    using Suc.prems by (intro uint_loop_reads) auto
  moreover have "inside mem \<lparr>sp = sp s, slen = i\<rparr>"
    using Suc.prems by (simp add: inside_def)
  ultimately show ?case
    using Suc by (auto simp: Let_def intro!: wp_weaken [OF isValidIPv4_reads] wp_weaken [OF isValidIPv6_reads] elim!: wp_weaken)
qed (simp add: or_else_reads isValidIPv4_reads isValidIPv6_reads)

lemma isValidNetwork_reads [reads]: "inside mem s \<Longrightarrow> wp (isValidNetwork mem s) (\<lambda>_. True)"
  by (simp add: isValidNetwork_def network_loop_reads)

lemma first_same_reads: "inside mem s \<Longrightarrow> wp (first_same mem s names) (\<lambda>_. True)"
  by (induction names) (auto intro: wp_mono [OF isCaselessSame_reads])

lemma span_field_reads [reads]: "inside mem s \<Longrightarrow> wp (span_field mem s) (\<lambda>_. True)"
  and sectionType_reads [reads]: "inside mem s \<Longrightarrow> wp (sectionType mem s) (\<lambda>_. True)"
  by (simp_all add: span_field_def sectionType_def first_same_reads del: first_same.simps)

section \<open>The spans\<close>

text \<open>The spans are not empty, in the order of the text and disjoint, and end before byte \<open>n\<close>.\<close>

definition span_end :: "highlightSpan \<Rightarrow> nat" where
  "span_end h = hs_s h + hs_len h"

definition laid :: "nat \<Rightarrow> highlightSpan list \<Rightarrow> bool" where
  "laid n hsa \<longleftrightarrow> sorted_wrt (\<lambda>a b. span_end a \<le> hs_s b) hsa \<and> list_all (\<lambda>h. 0 < hs_len h \<and> span_end h \<le> n) hsa"

lemma laid_Nil [simp]: "laid n []"
  by (simp add: laid_def)

lemma laid_mono: "laid m hsa \<Longrightarrow> m \<le> n \<Longrightarrow> laid n hsa"
  by (fastforce simp: laid_def list_all_iff)

lemma laid_append:
  "laid m hsa \<Longrightarrow> m \<le> sp s \<Longrightarrow> sp s + slen s \<le> n \<Longrightarrow> laid n (hsa_append s t hsa)"
  by (fastforce simp: laid_def hsa_append_def list_all_iff sorted_wrt_append span_end_def)

lemma laid_change_last:
  "laid n hsa \<Longrightarrow> hsa \<noteq> [] \<Longrightarrow> laid n (butlast hsa @ [(last hsa) \<lparr>hs_t := t\<rparr>])"
  by (cases hsa rule: rev_cases) (auto simp: laid_def sorted_wrt_append span_end_def)

lemma laid_three:
  assumes "laid (sp s) hsa" "i < slen s" "sp s + slen s \<le> n"
  shows "laid n (hsa_append \<lparr>sp = sp s + (i + 1), slen = slen s - i - 1\<rparr> t3
    (hsa_append \<lparr>sp = sp s + i, slen = 1\<rparr> t2 (hsa_append \<lparr>sp = sp s, slen = i\<rparr> t1 hsa)))"
proof -
  have "laid (sp s + i) (hsa_append \<lparr>sp = sp s, slen = i\<rparr> t1 hsa)"
    using assms by (intro laid_append [of "sp s"]) auto
  then have "laid (sp s + i + 1) (hsa_append \<lparr>sp = sp s + i, slen = 1\<rparr> t2 (hsa_append \<lparr>sp = sp s, slen = i\<rparr> t1 hsa))"
    by (rule laid_append) auto
  then show ?thesis
    by (rule laid_append) (use assms in auto)
qed

lemma find_slash_bound:
  "inside mem s \<Longrightarrow> i + k = slen s \<Longrightarrow> wp (find_slash mem s i k) (\<lambda>j. j \<le> slen s)"
  by (induction k arbitrary: i) auto

lemma find_colon_bound: "inside mem s \<Longrightarrow> k \<le> slen s \<Longrightarrow> 0 < k \<Longrightarrow> wp (find_colon mem s k) (\<lambda>j. j < slen s)"
proof (induction k)
  case (Suc k)
  then show ?case by (cases k) auto
qed simp

lemma laid_one [intro]: "laid (sp s) hsa \<Longrightarrow> sp s + slen s \<le> n \<Longrightarrow> laid n (hsa_append s t hsa)"
  by (rule laid_append) auto

lemma highlightMultivalueValue_laid:
  assumes "inside mem s" "laid (sp s) hsa"
  shows "wp (highlightMultivalueValue mem s sec hsa) (laid (sp s + slen s))"
proof -
  have slash: "wp (find_slash mem s 0 (slen s)) (\<lambda>j. j \<le> slen s)"
    using assms by (intro find_slash_bound) auto
  have ip: "wp (or_else (isValidIPv4 mem s) (isValidIPv6 mem s)) (\<lambda>_. True)"
    using assms by (intro or_else_reads isValidIPv4_reads isValidIPv6_reads)
  have three: "laid (sp s + slen s) (hsa_append \<lparr>sp = sp s + (i + 1), slen = slen s - i - 1\<rparr> t3
    (hsa_append \<lparr>sp = sp s + i, slen = 1\<rparr> t2 (hsa_append \<lparr>sp = sp s, slen = i\<rparr> t1 hsa)))"
    if "i \<le> slen s" "i \<noteq> slen s" for i t1 t2 t3
    using that assms by (intro laid_three) auto
  have one: "laid (sp s + slen s) (hsa_append s t hsa)" for t
    using assms by auto
  show ?thesis
    using assms ip slash three one
    by (auto simp: highlightMultivalueValue_def simp del: add_Suc_right
        intro!: wp_weaken [OF isValidHostname_reads] wp_weaken [OF isValidNetwork_reads] elim!: wp_mono)
qed

lemma hsa_append_not_Nil [simp]: "hsa \<noteq> [] \<Longrightarrow> hsa_append s t hsa \<noteq> []"
  by (simp add: hsa_append_def)

lemma highlightMultivalueValue_not_Nil:
  "hsa \<noteq> [] \<Longrightarrow> highlightMultivalueValue mem s sec hsa = Some hsa' \<Longrightarrow> hsa' \<noteq> []"
  by (auto simp: highlightMultivalueValue_def Option.bind_eq_Some_conv split: if_splits)

text \<open>Between two values: what is kept by the loop over a list of values.\<close>

definition multi_inv :: "stringSpan \<Rightarrow> nat \<Rightarrow> stringSpan \<Rightarrow> nat \<Rightarrow> highlightSpan list \<Rightarrow> bool" where
  "multi_inv s i cur l hsa \<longleftrightarrow>
     sp s \<le> sp cur \<and> sp cur + slen cur \<le> sp s + i \<and> l \<le> slen cur \<and> laid (sp cur) hsa \<and> hsa \<noteq> []"

lemma multivalue_loop_inv:
  assumes "inside mem s" "i + k = slen s" "multi_inv s i cur l hsa"
  shows "wp (multivalue_loop mem s sec i k cur l hsa) (\<lambda>(cur, l, hsa). multi_inv s (slen s) cur l hsa)"
  using assms(2,3)
proof (induction k arbitrary: i cur l hsa)
  case (Suc k)
  have "wp (highlightMultivalueValue mem (cur \<lparr>slen := l\<rparr>) sec hsa)
      (\<lambda>hsa'. laid (sp cur + l) hsa' \<and> hsa' \<noteq> [])"
  proof -
    have "wp (highlightMultivalueValue mem (cur \<lparr>slen := l\<rparr>) sec hsa) (laid (sp cur + l))"
      using highlightMultivalueValue_laid [of mem "cur \<lparr>slen := l\<rparr>" hsa sec] Suc.prems assms(1)
      by (simp add: inside_def multi_inv_def)
    then show ?thesis
      using Suc.prems highlightMultivalueValue_not_Nil by (auto simp: wp_Some_iff multi_inv_def)
  qed
  moreover have "laid (Suc (sp s + i)) (hsa_append \<lparr>sp = sp s + i, slen = Suc 0\<rparr> highlightDelimiter hsa')"
    if "laid (sp cur + l) hsa'" for hsa'
    using that Suc.prems by (intro laid_append [of "sp cur + l"]) (auto simp: multi_inv_def)
  ultimately have comma: "wp (highlightMultivalueValue mem (cur \<lparr>slen := l\<rparr>) sec hsa)
      (\<lambda>hsa'. multi_inv s (Suc i) \<lparr>sp = sp s + (i + 1), slen = 0\<rparr> 0
         (hsa_append \<lparr>sp = sp s + i, slen = 1\<rparr> highlightDelimiter hsa'))"
    by (elim wp_mono) (auto simp: multi_inv_def)
  have more: "multi_inv s (Suc i) (cur \<lparr>slen := slen cur + 1\<rparr>) l hsa"
    "multi_inv s (Suc i) (cur \<lparr>slen := slen cur + 1\<rparr>) (slen cur + 1) hsa"
    using Suc.prems by (auto simp: multi_inv_def)
  have skip: "multi_inv s (Suc i) (cur \<lparr>sp := sp cur + 1\<rparr>) l hsa" if "sp s + i = sp cur" "slen cur = 0"
    using Suc.prems that by (auto simp: multi_inv_def elim: laid_mono)
  note step = Suc.IH [of "Suc i"]
  show ?case
    using Suc.prems(1) assms(1) comma more skip
    by (auto simp del: One_nat_def add_Suc_right intro!: step elim!: wp_mono)
qed simp

lemma highlightMultivalue_laid:
  assumes "inside mem s" "laid (sp s) hsa" "hsa \<noteq> []"
  shows "wp (highlightMultivalue mem s sec hsa) (laid (sp s + slen s))"
proof -
  have "multi_inv s 0 \<lparr>sp = sp s, slen = 0\<rparr> 0 hsa"
    using assms by (simp add: multi_inv_def)
  then obtain cur l hsa' where run: "multivalue_loop mem s sec 0 (slen s) \<lparr>sp = sp s, slen = 0\<rparr> 0 hsa = Some (cur, l, hsa')"
    and inv: "multi_inv s (slen s) cur l hsa'"
    using multivalue_loop_inv [OF assms(1), of 0 "slen s"] by (fastforce simp: wp_Some_iff)
  have "wp (highlightMultivalueValue mem (cur \<lparr>slen := l\<rparr>) sec hsa') (laid (sp cur + l))"
    using highlightMultivalueValue_laid [of mem "cur \<lparr>slen := l\<rparr>" hsa' sec] inv assms(1)
    by (simp add: inside_def multi_inv_def)
  moreover have "laid (sp s + slen s) hsa'"
    using inv by (auto simp: multi_inv_def elim: laid_mono)
  ultimately show ?thesis
    using inv by (auto simp: highlightMultivalue_def run multi_inv_def intro: laid_change_last elim!: wp_mono laid_mono)
qed

lemma highlight_valid_laid:
  assumes "laid (sp s) hsa" "wp valid (\<lambda>_. True)"
  shows "wp (highlight_valid s valid t hsa) (laid (sp s + slen s))"
  using assms by (auto simp: highlight_valid_def elim!: wp_mono)

lemma highlightValue_laid:
  assumes "inside mem s" "laid (sp s) hsa" "hsa \<noteq> []" "0 < slen s"
  shows "wp (highlightValue mem s sec hsa) (laid (sp s + slen s))"
proof -
  have "wp (isValidEndpoint mem s) (\<lambda>_. True)" "wp (find_colon mem s (slen s)) (\<lambda>j. j < slen s)"
    using assms by (intro isValidEndpoint_reads find_colon_bound; simp)+
  moreover have "laid (sp s + slen s) (hsa_append \<lparr>sp = sp s + (i + 1), slen = slen s - i - 1\<rparr> t3
    (hsa_append \<lparr>sp = sp s + i, slen = 1\<rparr> t2 (hsa_append \<lparr>sp = sp s, slen = i\<rparr> t1 hsa)))"
    if "i < slen s" for i t1 t2 t3
    using that assms by (intro laid_three) auto
  ultimately have endpoint: "wp (highlightValue mem s fieldEndpoint hsa) (laid (sp s + slen s))"
    using assms by (auto simp: highlightValue_def simp del: add_Suc_right One_nat_def elim!: wp_mono)
  note valid = highlight_valid_laid [OF assms(2)] and multi = highlightMultivalue_laid [OF assms(1-3)]
  show ?thesis
    by (cases sec) (simp_all add: endpoint, simp_all add: highlightValue_def valid multi reads [OF assms(1)] assms(2) laid_one)
qed

text \<open>What holds before byte \<open>i\<close> of the text.\<close>

definition scan_inv :: "nat \<Rightarrow> scanner \<Rightarrow> bool" where
  "scan_inv i r \<longleftrightarrow>
     sp (currentSpan r) + slen (currentSpan r) \<le> i \<and>
     (slen (currentSpan r) = 0 \<longrightarrow> sp (currentSpan r) = i) \<and>
     (case state r of
        onNone \<Rightarrow> slen (currentSpan r) = 0 \<and> laid i (ret r)
      | onComment \<Rightarrow> laid (sp (currentSpan r)) (ret r)
      | onValue \<Rightarrow> laid (equalsLocation r) (ret r) \<and> equalsLocation r < sp (currentSpan r) \<and>
          (slen (currentSpan r) \<noteq> 0 \<longrightarrow> 0 < lenAtLastSpace r \<and> lenAtLastSpace r \<le> slen (currentSpan r))
      | _ \<Rightarrow> laid (sp (currentSpan r)) (ret r) \<and> 0 < lenAtLastSpace r \<and> lenAtLastSpace r \<le> slen (currentSpan r))"

lemma end_item_laid:
  assumes "scan_inv i r" "i < length mem"
  shows "wp (end_item mem r) (\<lambda>r'. laid i (ret r'))"
proof (cases "state r")
  case onKey
  then show ?thesis
    using assms by (auto simp: end_item_def scan_inv_def intro: laid_append)
next
  case onValue
  let ?s = "(currentSpan r) \<lparr>slen := lenAtLastSpace r\<rparr>"
  let ?eq = "hsa_append \<lparr>sp = equalsLocation r, slen = 1\<rparr>"
  have eq: "laid (sp (currentSpan r)) (?eq t (ret r))" for t
    using assms onValue by (intro laid_append [of "equalsLocation r"]) (auto simp: scan_inv_def)
  show ?thesis
  proof (cases "slen (currentSpan r) = 0")
    case True
    then show ?thesis
      using onValue eq assms by (auto simp: end_item_def scan_inv_def)
  next
    case False
    then have "wp (highlightValue mem ?s (currentField r) (?eq highlightDelimiter (ret r))) (laid (sp ?s + slen ?s))"
      using assms onValue eq
      by (intro highlightValue_laid) (auto simp: scan_inv_def inside_def hsa_append_def)
    then show ?thesis
      using onValue False assms by (auto simp: end_item_def scan_inv_def elim!: wp_mono laid_mono)
  qed
next
  case onSection
  then have "wp (sectionType mem ((currentSpan r) \<lparr>slen := lenAtLastSpace r\<rparr>)) (\<lambda>_. True)"
    using assms by (intro sectionType_reads) (auto simp: scan_inv_def inside_def)
  then show ?thesis
    using onSection assms by (auto simp: end_item_def scan_inv_def intro: laid_append elim!: wp_mono)
qed (use assms in \<open>auto simp: end_item_def scan_inv_def intro: laid_append\<close>)

lemma scan_byte_blank:
  assumes "scan_inv i r" "c \<noteq> newline" "c \<noteq> CHR ''#''" "state r \<noteq> onComment" "c = CHR '' '' \<or> c = CHR 0x09"
  shows "wp (scan_byte mem i c r) (scan_inv (Suc i))"
proof (cases "slen (currentSpan r) = 0")
  case True
  then have sp: "sp (currentSpan r) = i"
    using assms(1) by (simp add: scan_inv_def)
  then have "scan_byte mem i c r = Some (r \<lparr>currentSpan := (currentSpan r) \<lparr>sp := Suc i\<rparr>\<rparr>)"
    using assms(2-) True by (simp add: scan_byte_def)
  moreover have "laid i (ret r) \<Longrightarrow> laid (Suc i) (ret r)"
    by (rule laid_mono) auto
  ultimately show ?thesis
    using assms(1,4) True sp by (cases "state r") (auto simp: scan_inv_def)
next
  case False
  then have "scan_byte mem i c r = Some (r \<lparr>currentSpan := (currentSpan r) \<lparr>slen := slen (currentSpan r) + 1\<rparr>\<rparr>)"
    using assms(2-) by (simp add: scan_byte_def)
  then show ?thesis
    using assms(1,4) False by (cases "state r") (auto simp: scan_inv_def)
qed

lemma scan_byte_plain:
  assumes "scan_inv i r" "c \<noteq> newline" "c \<noteq> CHR ''#''" "state r \<noteq> onComment" "\<not> (c = CHR '' '' \<or> c = CHR 0x09)"
    "\<not> (c = CHR ''='' \<and> state r = onKey)"
  shows "wp (scan_byte mem i c r) (scan_inv (Suc i))"
proof -
  let ?st = "if state r = onNone then if c = CHR ''['' then onSection else onKey else state r"
  have "scan_byte mem i c r =
      Some (r \<lparr>state := ?st, currentSpan := (currentSpan r) \<lparr>slen := slen (currentSpan r) + 1\<rparr>,
        lenAtLastSpace := slen (currentSpan r) + 1\<rparr>)"
    using assms(2-) by (cases "state r") (simp_all add: scan_byte_def Let_def)
  then show ?thesis
    using assms(1,4) by (cases "state r") (simp_all add: scan_inv_def)
qed

lemma scan_byte_comment:
  assumes "scan_inv i r" "c \<noteq> newline" "state r = onComment"
  shows "wp (scan_byte mem i c r) (scan_inv (Suc i))"
  using assms by (simp add: scan_byte_def scan_inv_def)

lemma scan_byte_stop:
  assumes "scan_inv i r" "i < length mem" "c = newline \<or> state r \<noteq> onComment \<and> c = CHR ''#''"
  shows "wp (scan_byte mem i c r) (scan_inv (Suc i))"
proof -
  let ?next = "\<lambda>r. let r = r \<lparr>lenAtLastSpace := 0, currentField := fieldInvalid\<rparr> in
    if c = CHR ''#'' then r \<lparr>currentSpan := \<lparr>sp = i, slen = 1\<rparr>, state := onComment\<rparr>
    else r \<lparr>currentSpan := \<lparr>sp = i + 1, slen = 0\<rparr>, state := onNone\<rparr>"
  have "scan_byte mem i c r = do { r \<leftarrow> end_item mem r; Some (?next r) }"
    using assms(3) by (simp add: scan_byte_def Let_def)
  moreover have "scan_inv (Suc i) (?next r')" if "laid i (ret r')" for r'
    using that laid_mono [of i "ret r'" "Suc i"] by (simp add: scan_inv_def Let_def)
  ultimately show ?thesis
    using end_item_laid [OF assms(1,2)] by (simp add: wp_mono)
qed

lemma scan_byte_equals:
  assumes "scan_inv i r" "i < length mem" "c = CHR ''=''" "state r = onKey"
  shows "wp (scan_byte mem i c r) (scan_inv (Suc i))"
proof -
  let ?key = "(currentSpan r) \<lparr>slen := lenAtLastSpace r\<rparr>"
  let ?next = "\<lambda>f. r \<lparr>ret := hsa_append ?key
      (if sectionForField f = fieldInvalid \<or> f = fieldInvalid \<or> sectionForField f \<noteq> currentSection r
       then highlightError else highlightField) (ret r),
    currentField := f, equalsLocation := i, currentSpan := \<lparr>sp = i + 1, slen = 0\<rparr>, state := onValue\<rparr>"
  have "scan_byte mem i c r = do { f \<leftarrow> span_field mem ?key; Some (?next f) }"
    using assms(3,4) by (simp add: scan_byte_def Let_def)
  moreover have "laid i (hsa_append ?key t (ret r))" for t
    using assms(1,4) by (intro laid_one laid_append [of "sp ?key"]) (auto simp: scan_inv_def)
  then have "scan_inv (Suc i) (?next f)" for f
    by (simp add: scan_inv_def)
  moreover have "wp (span_field mem ?key) (\<lambda>_. True)"
    using assms by (intro span_field_reads) (auto simp: scan_inv_def inside_def)
  ultimately show ?thesis
    by (simp add: wp_weaken)
qed

lemma scan_byte_inv:
  assumes "scan_inv i r" "i < length mem"
  shows "wp (scan_byte mem i c r) (scan_inv (Suc i))"
  using scan_byte_stop [OF assms, of c] scan_byte_equals [OF assms, of c] scan_byte_comment [OF assms(1), of c mem]
    scan_byte_blank [OF assms(1), of c mem] scan_byte_plain [OF assms(1), of c mem]
  by blast

lemma scan_loop_laid:
  assumes "scan_inv i r" "i + k < length mem"
  shows "wp (scan_loop mem i k r) (\<lambda>r'. laid (i + k) (ret r'))"
  using assms
proof (induction k arbitrary: i r)
  case (Suc k)
  have "wp (scan_byte mem i (mem ! i) r) (scan_inv (Suc i))"
    using Suc.prems by (intro scan_byte_inv) auto
  then show ?case
    using Suc.prems Suc.IH [of "Suc i"] by (auto simp: inside_def elim!: wp_mono)
qed (simp add: end_item_laid)

text \<open>C35: highlighting a configuration never reads outside the text and the zero byte behind it,
  whatever the text is, and never indexes an empty list of spans.  The spans it returns are not empty, in
  the order of the text, disjoint, and end inside the text.\<close>

theorem highlightConfig_spans: "\<exists>hsa. highlightConfig config = Some hsa \<and> laid (length config) hsa"
proof -
  have "scan_inv 0 scan_start"
    by (simp add: scan_inv_def scan_start_def)
  then have "wp (scan_loop (config @ [CHR 0x00]) 0 (length config) scan_start) (\<lambda>r. laid (length config) (ret r))"
    using scan_loop_laid [of 0 scan_start "length config"] by simp
  then show ?thesis
    by (auto simp: highlightConfig_def wp_Some_iff)
qed

end
