(* ===== verification/Highlighter_Accept.thy ===== *)
theory Highlighter_Accept
  imports Highlighter Conf_Parser
begin

text \<open>
  Which values the highlighter of \<open>ui/syntax/highlighter.go\<close> accepts, compared with the parser of the
  configuration: keys, IPv4 addresses and host names.  A value is a span of a buffer with at least one
  byte behind it.
\<close>

section \<open>A span as a text\<close>

text \<open>The buffer around the text \<open>t\<close>, and its span.\<close>

definition around :: "string \<Rightarrow> string \<Rightarrow> char \<Rightarrow> string \<Rightarrow> string" where
  "around pre t z post = pre @ t @ z # post"

definition span_of :: "string \<Rightarrow> string \<Rightarrow> stringSpan" where
  "span_of pre t = \<lparr>sp = length pre, slen = length t\<rparr>"

lemma slen_span_of [simp]: "slen (span_of pre t) = length t"
  by (simp add: span_of_def)

lemma at_around [simp]: "i < length t \<Longrightarrow> at (around pre t z post) (span_of pre t) i = Some (t ! i)"
  by (simp add: at_def around_def span_of_def nth_append)

lemma at_around_end [simp]: "at (around pre t z post) (span_of pre t) (length t) = Some z"
  by (simp add: at_def around_def span_of_def nth_append)

lemma at_drop:
  "drop pos t = xs @ c # ys \<Longrightarrow> at (around pre t z post) (span_of pre t) (pos + length xs) = Some c \<and> pos + length xs < length t"
proof -
  assume d: "drop pos t = xs @ c # ys"
  then have len: "pos + length xs < length t"
    using arg_cong [OF d, of length] unfolding length_drop length_append list.size by linarith
  moreover have "t ! (pos + length xs) = c"
    using d len by (metis nth_append_length nth_drop less_imp_le_nat add_leD1)
  ultimately show ?thesis by simp
qed

lemma span_all_around:
  "i + k \<le> length t \<Longrightarrow> span_all P (around pre t z post) (span_of pre t) i k = Some (\<forall>j\<in>{i..<i + k}. P j (t ! j))"
proof (induction k arbitrary: i)
  case (Suc k)
  have "{i..<i + Suc k} = insert i {Suc i..<Suc i + k}" by auto
  with Suc show ?case by simp
qed simp

section \<open>IPv4 addresses\<close>

lemma isDecimal_is_digit: "isDecimal c = is_digit c"
  by (simp add: isDecimal_def is_digit_def)

text \<open>One octet: the digits at the position, at most three.\<close>

fun three_digits :: "nat \<Rightarrow> string \<Rightarrow> nat \<Rightarrow> nat \<Rightarrow> nat \<times> nat" where
  "three_digits 0 r j v = (j, v)"
| "three_digits (Suc k) [] j v = (j, v)"
| "three_digits (Suc k) (c # r) j v = (if is_digit c then three_digits k r (Suc j) (10 * v + (code c - 48)) else (j, v))"

lemma octet_loop_list:
  "drop (pos + j) t = r \<Longrightarrow>
   octet_loop (around pre t z post) (span_of pre t) pos k j v = Some (three_digits k r j v)"
proof (induction k r j v rule: three_digits.induct)
  case (3 k c r j v)
  have "at (around pre t z post) (span_of pre t) (pos + j) = Some c" "pos + j < length t"
    using at_drop [of "pos + j" t "[]" c r] 3(2) by auto
  moreover have "drop (pos + Suc j) t = r"
    using 3(2) by (metis add_Suc_right drop_Suc list.sel(3) tl_drop)
  ultimately show ?case
    using 3 by (simp add: isDecimal_is_digit)
qed simp_all

lemma char_eq_code: "c = d \<longleftrightarrow> code c = code d"
  by (metis char_of_char)

lemma parseIPv4Fields_after_octet:
  assumes "length fs = 3 - k" "k < 4" "r = [] \<or> \<not> is_digit (hd r)"
  shows "parseIPv4Fields r False v d fs =
    (if r = [] \<and> k = 0 then Some (fs @ [of_nat v])
     else if r = [] \<or> hd r \<noteq> CHR ''.'' \<or> tl r = [] \<or> k = 0 then None
     else parseIPv4Fields (tl r) True 0 0 (fs @ [of_nat v]))"
  using assms by (cases r) auto

lemma parseIPv4Fields_is_digit:
  "is_digit c \<Longrightarrow> parseIPv4Fields (c # s) start v d fs =
    (if d = 1 \<and> v = 0 \<or> 255 < 10 * v + (code c - 48) then None
     else parseIPv4Fields s False (10 * v + (code c - 48)) (Suc d) fs)"
  by (simp add: is_digit_def Let_def mult.commute)

lemma digit_code: "is_digit c \<Longrightarrow> code c - 48 = 0 \<longleftrightarrow> c = CHR ''0''"
  by (auto simp: is_digit_def char_eq_code)

lemma ipv4_octet:
  assumes "length fs = 3 - k" "k < 4" "r \<noteq> []"
  shows "parseIPv4Fields r True 0 0 fs =
    (let (j, v) = three_digits 3 r 0 0 in
     if j = 0 \<or> 1 < j \<and> hd r = CHR ''0'' \<or> 255 < v then None
     else if j = length r \<and> k = 0 then Some (fs @ [of_nat v])
     else if j = length r \<or> r ! j \<noteq> CHR ''.'' \<or> j + 1 = length r \<or> k = 0 then None
     else parseIPv4Fields (drop (j + 1) r) True 0 0 (fs @ [of_nat v]))"
proof -
  note digits = parseIPv4Fields_is_digit and after = parseIPv4Fields_after_octet [OF assms(1,2)]
  obtain c0 r1 where r: "r = c0 # r1"
    using assms(3) by (cases r) auto
  show ?thesis
  proof (cases "is_digit c0")
    case False
    then show ?thesis by (auto simp: r numeral_3_eq_3)
  next
    case d0: True
    then have v0: "code c0 - 48 \<le> 9" unfolding is_digit_def by linarith
    show ?thesis
    proof (cases "r1 = [] \<or> \<not> is_digit (hd r1)")
      case True
      then show ?thesis
        using d0 v0 after [OF True] by (cases r1) (simp_all add: digits r numeral_3_eq_3 del: parseIPv4Fields.simps of_nat_add of_nat_mult)
    next
      case False
      then obtain c1 r2 where r1: "r1 = c1 # r2" and d1: "is_digit c1"
        by (cases r1) auto
      note zero = digit_code [OF d0]
      show ?thesis
      proof (cases "r2 = [] \<or> \<not> is_digit (hd r2)")
        case True
        then show ?thesis
          using d0 d1 v0 zero after [OF True] by (cases r2) (simp_all add: digits r r1 numeral_3_eq_3 del: parseIPv4Fields.simps of_nat_add of_nat_mult)
      next
        case False
        then obtain c2 r3 where r2: "r2 = c2 # r3" and d2: "is_digit c2"
          by (cases r2) auto
        show ?thesis
        proof (cases "r3 = [] \<or> \<not> is_digit (hd r3)")
          case True
          then show ?thesis
            using d0 d1 d2 v0 zero after [OF True] by (cases r3) (simp_all add: digits r r1 r2 numeral_3_eq_3 del: parseIPv4Fields.simps of_nat_add of_nat_mult)
        next
          case False
          then obtain c3 r4 where r3: "r3 = c3 # r4" and d3: "is_digit c3"
            by (cases r3) auto
          then show ?thesis
            using d0 d1 d2 v0 zero by (auto simp: digits r r1 r2 r3 numeral_3_eq_3 is_digit_def simp del: parseIPv4Fields.simps)
        qed
      qed
    qed
  qed
qed

lemma three_digits_bounds: "three_digits k r j v = (j', v') \<Longrightarrow> j \<le> j' \<and> j' \<le> j + k \<and> j' \<le> j + length r"
  by (induction k r j v rule: three_digits.induct) (auto split: if_splits)

lemma ipv4_loop_list:
  assumes "length fs = 4 - k" "0 < k" "k \<le> 4" "drop pos t \<noteq> []"
  shows "ipv4_loop (around pre t z post) (span_of pre t) k pos =
    Some (parseIPv4Fields (drop pos t) True 0 0 fs \<noteq> None)"
  using assms
proof (induction k arbitrary: pos fs)
  case (Suc k)
  obtain j v where jv: "three_digits 3 (drop pos t) 0 0 = (j, v)"
    by fastforce
  have pos: "pos < length t" and at: "at (around pre t z post) (span_of pre t) pos = Some (hd (drop pos t))"
    using Suc.prems(4) by (simp_all add: hd_drop_conv_nth)
  have j: "j \<le> length (drop pos t)"
    using three_digits_bounds [OF jv] by simp
  have atj: "at (around pre t z post) (span_of pre t) (pos + j) = Some (if j = length (drop pos t) then z else drop pos t ! j)"
    using j pos by (auto simp: less_diff_conv add.commute)
  have more: "ipv4_loop (around pre t z post) (span_of pre t) k (pos + j + 1) =
      Some (parseIPv4Fields (drop (j + 1) (drop pos t)) True 0 0 (fs @ [of_nat v]) \<noteq> None)"
    if "0 < k" "drop (j + 1) (drop pos t) \<noteq> []"
    using Suc.IH [of "fs @ [of_nat v]" "pos + j + 1"] that Suc.prems by (simp add: add.commute add.left_commute)
  have done': "ipv4_loop (around pre t z post) (span_of pre t) k (pos + j + 1) = Some False"
    if "k = 0 \<or> length t \<le> pos + j + 1"
    using that by (cases k) auto
  have "Suc j = length t - pos \<Longrightarrow> length t \<le> pos + j + 1"
    by arith
  note done' = done' done' [OF disjI2, OF this]
  have "length fs = 3 - k" "k < 4"
    using Suc.prems by auto
  note parse = ipv4_octet [OF this Suc.prems(4), unfolded jv Let_def prod.case]
  have oct: "octet_loop (around pre t z post) (span_of pre t) pos 3 0 0 = Some (j, v)"
    using octet_loop_list [of pos 0 t "drop pos t"] jv by simp
  show ?case
    using pos j more done' by (auto simp: oct at atj parse)
qed simp

text \<open>An IPv4 address is highlighted as valid exactly when the parser of the configuration accepts it,
  wherever the value is in the text.\<close>

theorem isValidIPv4_parseIPv4:
  "isValidIPv4 (around pre t z post) (span_of pre t) = Some (parseIPv4 t \<noteq> None)"
  using ipv4_loop_list [of "[]" 4 0 t pre z post]
  by (cases "t = []") (simp_all add: isValidIPv4_def parseIPv4_def numeral_eq_Suc)

section \<open>Keys\<close>

lemma or_32: "n OR 32 = (if odd (n div 32) then n else n + 32)" for n :: nat
proof -
  have "n OR 32 = set_bit 5 n"
    by (simp add: set_bit_eq_or)
  then show ?thesis
    by (simp add: set_bit_eq bit_iff_odd)
qed

lemma or_32_letter: "97 \<le> n OR 32 \<and> n OR 32 \<le> 122 \<longleftrightarrow> 65 \<le> n \<and> n \<le> 90 \<or> 97 \<le> n \<and> n \<le> 122" for n :: nat
proof -
  consider "n < 32" | "32 \<le> n" "n < 64" | "64 \<le> n" "n < 96" | "96 \<le> n" "n < 128" | "128 \<le> n"
    by linarith
  then show ?thesis
  proof cases
    case 2
    then have "n div 32 = 1" by (intro div_nat_eqI) auto
    with 2 show ?thesis by (simp add: or_32)
  next
    case 3
    then have "n div 32 = 2" by (intro div_nat_eqI) auto
    with 3 show ?thesis by (simp add: or_32)
  next
    case 4
    then have "n div 32 = 3" by (intro div_nat_eqI) auto
    with 4 show ?thesis by (simp add: or_32)
  qed (simp_all add: or_32)
qed

lemma isAlphabet_iff: "isAlphabet c \<longleftrightarrow> 65 \<le> code c \<and> code c \<le> 90 \<or> 97 \<le> code c \<and> code c \<le> 122"
  unfolding isAlphabet_def or32_def or_32_letter ..

text \<open>The characters of a key, those of the base 64 alphabet.\<close>

definition key_char :: "char \<Rightarrow> bool" where
  "key_char c \<longleftrightarrow> isDecimal c \<or> isAlphabet c \<or> c = CHR ''/'' \<or> c = CHR ''+''"

lemma key_char_value: "key_char c \<longleftrightarrow> base64_value c \<noteq> None"
  unfolding key_char_def isDecimal_def isAlphabet_iff base64_value_def Let_def
  by (simp add: char_eq_code)

lemma base64_char_value: "base64_value c = Some n \<Longrightarrow> n < 64 \<and> c = base64_char n"
  unfolding base64_value_def Let_def by (auto simp: base64_char_def split: if_splits) (auto simp: char_eq_code)

lemma key_char_iff: "key_char c \<longleftrightarrow> (\<exists>n<64. c = base64_char n)"
  using base64_char_value by (auto simp: key_char_value)

lemma key_char_base64_char [simp]: "n < 64 \<Longrightarrow> key_char (base64_char n)"
  by (auto simp: key_char_iff)

lemma last_key_char: "c \<in> set ''AEIMQUYcgkosw480'' \<longleftrightarrow> (\<exists>m<16. c = base64_char (m * 4))"
proof -
  have "''AEIMQUYcgkosw048'' = map (\<lambda>m. base64_char (m * 4)) [0..<16]"
    by code_simp
  then have "set ''AEIMQUYcgkosw048'' = (\<lambda>m. base64_char (m * 4)) ` {..<16}"
    by (metis image_set lessThan_atLeast0 set_upt)
  moreover have "set ''AEIMQUYcgkosw480'' = set ''AEIMQUYcgkosw048''"
    by auto
  ultimately show ?thesis by auto
qed


lemma unat_of_nat_byte: "n < 256 \<Longrightarrow> unat (of_nat n :: byte) = n"
  by (simp add: unat_of_nat)

lemma join_digits: "e < b \<Longrightarrow> (a * b + e) div b = a" "e < b \<Longrightarrow> (a * b + e) mod b = e" for a b e :: nat
  by simp_all

text \<open>Four characters of the alphabet are the encoding of three bytes, and conversely.\<close>

lemma group_of_chars:
  assumes "key_char p" "key_char q" "key_char r" "key_char s"
  obtains a b c where "\<And>bs. base64_Encode (a # b # c # bs) = p # q # r # s # base64_Encode bs"
proof -
  obtain w x y z where "w < 64" "x < 64" "y < 64" "z < 64"
    and chars: "p = base64_char w" "q = base64_char x" "r = base64_char y" "s = base64_char z"
    using assms by (auto simp: key_char_iff)
  then have
    "unat (of_nat (w * 4 + x div 16) :: byte) = w * 4 + x div 16"
    "unat (of_nat (x mod 16 * 16 + y div 4) :: byte) = x mod 16 * 16 + y div 4"
    "unat (of_nat (y mod 4 * 64 + z) :: byte) = y mod 4 * 64 + z"
    by (intro unat_of_nat_byte; linarith)+
  moreover have "(w * 4 + x div 16) div 4 = w" "(w * 4 + x div 16) mod 4 * 16 + (x mod 16 * 16 + y div 4) div 16 = x"
    "(x mod 16 * 16 + y div 4) mod 16 * 4 + (y mod 4 * 64 + z) div 64 = y" "(y mod 4 * 64 + z) mod 64 = z"
    using \<open>w < 64\<close> \<open>x < 64\<close> \<open>y < 64\<close> \<open>z < 64\<close> by (simp_all add: join_digits less_mult_imp_div_less)
  ultimately have "base64_Encode (of_nat (w * 4 + x div 16) # of_nat (x mod 16 * 16 + y div 4) # of_nat (y mod 4 * 64 + z) # bs) =
     p # q # r # s # base64_Encode bs" for bs
    unfolding chars by (simp only: base64_Encode.simps)
  then show ?thesis by (rule that)
qed

lemma groups_of_chars:
  "length t = 4 * n \<Longrightarrow> list_all key_char t \<Longrightarrow>
   \<exists>bs. length bs = 3 * n \<and> (\<forall>bs'. base64_Encode (bs @ bs') = t @ base64_Encode bs')"
proof (induction n arbitrary: t)
  case (Suc n)
  then obtain p q r s u where t: "t = p # q # r # s # u"
    by (cases t rule: base64_groups.cases) auto
  then obtain bs where bs: "length bs = 3 * n" "\<And>bs'. base64_Encode (bs @ bs') = u @ base64_Encode bs'"
    using Suc by auto
  obtain a b c where "\<And>bs. base64_Encode (a # b # c # bs) = p # q # r # s # base64_Encode bs"
    using Suc.prems group_of_chars [of p q r s] by (auto simp: t)
  with bs show ?case
    by (intro exI [of _ "a # b # c # bs"]) (simp add: t del: base64_Encode.simps)
qed simp

lemma chars_of_groups:
  "length bs = 3 * n \<Longrightarrow> \<exists>t. length t = 4 * n \<and> list_all key_char t \<and> base64_Encode (bs @ bs') = t @ base64_Encode bs'"
proof (induction n arbitrary: bs)
  case (Suc n)
  then obtain a b c cs where bs: "bs = a # b # c # cs"
    by (cases bs rule: base64_Encode.cases) auto
  then obtain t where "length t = 4 * n" "list_all key_char t" "base64_Encode (cs @ bs') = t @ base64_Encode bs'"
    using Suc by auto
  then show ?case
    by (intro exI [of _ "base64_char (unat a div 4) # base64_char (unat a mod 4 * 16 + unat b div 16) #
     base64_char (unat b mod 16 * 4 + unat c div 64) # base64_char (unat c mod 64) # t"]) (simp add: bs)
qed simp

lemma isValidKey_around:
  "isValidKey (around pre t z post) (span_of pre t) =
    Some (length t = 44 \<and> list_all key_char (take 42 t) \<and> t ! 42 \<in> set ''AEIMQUYcgkosw480'' \<and> t ! 43 = CHR ''='')"
proof (cases "length t = 44")
  case True
  have "span_all (\<lambda>_ c. isDecimal c \<or> isAlphabet c \<or> c = CHR ''/'' \<or> c = CHR ''+'') (around pre t z post) (span_of pre t) 0 42 =
      Some (list_all key_char (take 42 t))"
    using True by (subst span_all_around) (auto simp: list_all_length key_char_def min_def)
  with True show ?thesis
    unfolding isValidKey_def by simp
qed (simp add: isValidKey_def)

lemma take_two_more: "Suc n < length xs \<Longrightarrow> take (Suc (Suc n)) xs = take n xs @ [xs ! n, xs ! Suc n]"
  by (simp add: take_Suc_conv_app_nth)

lemma key_text:
  "(length t = 44 \<and> list_all key_char (take 42 t) \<and> t ! 42 \<in> set ''AEIMQUYcgkosw480'' \<and> t ! 43 = CHR ''='') \<longleftrightarrow>
   (\<exists>u p q m. length u = 40 \<and> list_all key_char (u @ [p, q]) \<and> m < 16 \<and> t = u @ [p, q, base64_char (m * 4), CHR ''=''])"
  (is "?L \<longleftrightarrow> ?R")
proof
  assume L: ?L
  then obtain m where m: "m < 16" "t ! 42 = base64_char (m * 4)"
    by (auto simp: last_key_char simp del: set_simps)
  have "t = take 42 t @ [t ! 42, t ! 43]"
    using L take_two_more [of 42 t] by simp
  moreover have "take 42 t = take 40 t @ [t ! 40, t ! 41]"
    using L take_two_more [of 40 t] by simp
  ultimately have "t = take 40 t @ [t ! 40, t ! 41, base64_char (m * 4), CHR ''='']"
      "list_all key_char (take 40 t @ [t ! 40, t ! 41])"
    using L m by auto
  then show ?R
    using m L by (intro exI [of _ "take 40 t"] exI [of _ "t ! 40"] exI [of _ "t ! 41"] exI [of _ m]) auto
next
  assume ?R
  then obtain u p q m where "length u = 40" "list_all key_char (u @ [p, q])" "m < 16"
    and "t = u @ [p, q, base64_char (m * 4), CHR ''='']" by auto
  then show ?L
    unfolding last_key_char by (auto simp: nth_append)
qed

lemma key_encoding:
  "(\<exists>k. length k = 32 \<and> base64_Encode k = t) \<longleftrightarrow>
   (\<exists>u p q m. length u = 40 \<and> list_all key_char (u @ [p, q]) \<and> m < 16 \<and> t = u @ [p, q, base64_char (m * 4), CHR ''=''])"
  (is "?L \<longleftrightarrow> ?R")
proof
  assume ?L
  then obtain k where k: "length k = 32" "base64_Encode k = t" by blast
  define a b where "a = k ! 30" and "b = k ! 31"
  have "k = take 30 k @ [a, b]"
    using k(1) take_two_more [of 30 k] by (simp add: a_def b_def)
  moreover obtain u where "length u = 40" "list_all key_char u" "base64_Encode (take 30 k @ [a, b]) = u @ base64_Encode [a, b]"
    using chars_of_groups [of "take 30 k" 10 "[a, b]"] k(1) by auto
  moreover have "unat b mod 16 < 16" by simp
  ultimately show ?R
    using k(2) by (intro exI [of _ u] exI [of _ "base64_char (unat a div 4)"]
      exI [of _ "base64_char (unat a mod 4 * 16 + unat b div 16)"] exI [of _ "unat b mod 16"])
      auto
next
  assume ?R
  then obtain u p q m where u: "length u = 40" "list_all key_char u" and pq: "key_char p" "key_char q" "m < 16"
    and t: "t = u @ [p, q, base64_char (m * 4), CHR ''='']" by auto
  obtain bs where bs: "length bs = 30" "\<And>bs'. base64_Encode (bs @ bs') = u @ base64_Encode bs'"
    using groups_of_chars [of u 10] u by auto
  obtain w x where w: "w < 64" "x < 64" "p = base64_char w" "q = base64_char x"
    using pq by (auto simp: key_char_iff)
  have "unat (of_nat (w * 4 + x div 16) :: byte) = w * 4 + x div 16"
    "unat (of_nat (x mod 16 * 16 + m) :: byte) = x mod 16 * 16 + m"
    using w pq(3) by (intro unat_of_nat_byte; linarith)+
  moreover have "(w * 4 + x div 16) div 4 = w" "(w * 4 + x div 16) mod 4 * 16 + (x mod 16 * 16 + m) div 16 = x"
    "(x mod 16 * 16 + m) mod 16 = m"
    using w pq(3) by (simp_all add: join_digits less_mult_imp_div_less)
  ultimately have "base64_Encode [of_nat (w * 4 + x div 16), of_nat (x mod 16 * 16 + m)] = [p, q, base64_char (m * 4), CHR ''='']"
    unfolding w by (simp only: base64_Encode.simps)
  then have "base64_Encode (bs @ [of_nat (w * 4 + x div 16), of_nat (x mod 16 * 16 + m)]) = t"
    by (simp only: bs t)
  then show ?L
    using bs(1) by (intro exI [of _ "bs @ [of_nat (w * 4 + x div 16), of_nat (x mod 16 * 16 + m)]"]) simp
qed

text \<open>A key is highlighted as valid exactly when it is the text of a key of 32 bytes as the program
  writes it: the encoding without stray bits behind the last byte.  Such a key is also accepted by the
  parser, which reads the same 32 bytes from it.\<close>

theorem isValidKey_canonical:
  "isValidKey (around pre t z post) (span_of pre t) =
    Some (\<exists>k. parseKeyBase64 t = Inr k \<and> Key_String k = t)"
proof -
  have "(\<exists>k. parseKeyBase64 t = Inr k \<and> Key_String k = t) \<longleftrightarrow> (\<exists>k. length k = 32 \<and> base64_Encode k = t)"
    using base64_Decode_Encode
    by (auto simp: parseKeyBase64_def Key_String_def KeyLength_def split: option.splits if_splits)
  then show ?thesis
    unfolding isValidKey_around key_text key_encoding by simp
qed

section \<open>Host names\<close>

definition host_char :: "char \<Rightarrow> bool" where
  "host_char c \<longleftrightarrow> isDecimal c \<or> isAlphabet c \<or> c = CHR ''-'' \<or> c = CHR ''.''"

lemma hostname_loop_list:
  "drop i t = r \<Longrightarrow> i + k = length t \<Longrightarrow>
   hostname_loop (around pre t z post) (span_of pre t) i k d e =
    Some (list_all host_char r \<and> d + int (length (filter isDecimal r)) \<noteq> e - int (length (filter (\<lambda>c. c = CHR ''.'') r)))"
proof (induction k arbitrary: i r d e)
  case (Suc k)
  then have i: "i < length t" by simp
  then have r: "r = t ! i # drop (Suc i) t"
    using Suc.prems(1) by (metis Cons_nth_drop_Suc)
  have "\<not> isDecimal (CHR ''.'')" "\<not> isAlphabet (CHR ''.'')"
    by (simp_all add: isDecimal_def isAlphabet_iff)
  then show ?case
    using i Suc.IH [of "Suc i", OF refl] Suc.prems(2) by (auto simp: r host_char_def)
qed simp

lemma digits_and_dots:
  "length (filter isDecimal t) + length (filter (\<lambda>c. c = CHR ''.'') t) =
    length (filter (\<lambda>c. isDecimal c \<or> c = CHR ''.'') t)"
  by (induction t) (auto simp: isDecimal_def)

lemma all_counted: "length (filter P t) = length t \<longleftrightarrow> list_all P t"
  by (induction t) (auto simp: le_imp_less_Suc length_filter_le less_imp_neq)

text \<open>The host names that are highlighted as valid: 1 to 63 letters, digits, hyphens and dots, no
  hyphen and no dot at either end, and not only digits and dots.  Two dots in a row are accepted: the test
  for them stands behind the branch that handles every dot.\<close>

theorem isValidHostname_iff:
  "isValidHostname (around pre t z post) (span_of pre t) =
    Some (t \<noteq> [] \<and> length t \<le> 63 \<and> list_all host_char t \<and>
      list_all (\<lambda>c. c \<noteq> CHR ''-'' \<and> c \<noteq> CHR ''.'') [hd t, last t] \<and>
      \<not> list_all (\<lambda>c. isDecimal c \<or> c = CHR ''.'') t)"
proof (cases "t = [] \<or> 63 < length t")
  case False
  have "int (length (filter isDecimal t)) \<noteq> int (length t) - int (length (filter (\<lambda>c. c = CHR ''.'') t)) \<longleftrightarrow>
      \<not> list_all (\<lambda>c. isDecimal c \<or> c = CHR ''.'') t"
    unfolding all_counted [symmetric] digits_and_dots [symmetric] by linarith
  then show ?thesis
    using False hostname_loop_list [of 0 t t "length t"]
    by (auto simp: isValidHostname_def hd_conv_nth last_conv_nth)
qed (auto simp: isValidHostname_def)

end
