(* ===== verification/Go_Effects.thy ===== *)
theory Go_Effects
  imports Main
begin

text \<open>
  Functions with effects: a computation takes the state of the world and returns an error or a value and the
  new state, or \<^const>\<open>None\<close> when it has not returned within the turns given to a polling loop.  The
  combinators follow the shapes of Go code: a call whose error is returned, a call whose error is looked at,
  a deferred call.
\<close>

type_synonym ('w, 'e, 'a) io = "'w \<Rightarrow> (('e + 'a) \<times> 'w) option"

definition ret :: "'a \<Rightarrow> ('w, 'e, 'a) io" where
  "ret x w = Some (Inr x, w)"

definition raise :: "'e \<Rightarrow> ('w, 'e, 'a) io" where
  "raise e w = Some (Inl e, w)"

definition diverge :: "('w, 'e, 'a) io" where
  "diverge w = None"

text \<open>\<open>x, err := m; if err != nil { return err }; f\<close>.\<close>

definition andThen :: "('w, 'e, 'a) io \<Rightarrow> ('a \<Rightarrow> ('w, 'e, 'b) io) \<Rightarrow> ('w, 'e, 'b) io" where
  "andThen m f w =
     (case m w of
        None \<Rightarrow> None
      | Some (Inl e, w') \<Rightarrow> Some (Inl e, w')
      | Some (Inr x, w') \<Rightarrow> f x w')"

text \<open>\<open>x, err := m; f\<close>.\<close>

definition attempt :: "('w, 'e, 'a) io \<Rightarrow> ('e + 'a \<Rightarrow> ('w, 'e2, 'b) io) \<Rightarrow> ('w, 'e2, 'b) io" where
  "attempt m f w = (case m w of None \<Rightarrow> None | Some (r, w') \<Rightarrow> f r w')"

text \<open>\<open>m; f\<close>, with the result of \<open>m\<close> ignored.\<close>

definition ignoring :: "('w, 'e, 'a) io \<Rightarrow> ('w, 'e, 'b) io \<Rightarrow> ('w, 'e, 'b) io" where
  "ignoring m f = attempt m (\<lambda>_. f)"

text \<open>\<open>defer c; m\<close>.\<close>

definition deferring :: "('w, 'e, 'a) io \<Rightarrow> ('w, 'e, 'b) io \<Rightarrow> ('w, 'e, 'b) io" where
  "deferring c m = attempt m (\<lambda>r. attempt c (\<lambda>_ w. Some (r, w)))"

definition lift_sum :: "('e + 'a) \<Rightarrow> ('w, 'e, 'a) io" where
  "lift_sum r w = Some (r, w)"

named_theorems io_simps \<open>running computations\<close>

lemma io_run [io_simps]:
  "ret x w = Some (Inr x, w)" "raise e w = Some (Inl e, w)" "diverge w = None" "lift_sum r w = Some (r, w)"
  by (simp_all add: ret_def raise_def diverge_def lift_sum_def)

lemma andThenE:
  assumes "andThen m f w = Some (r, w')"
  obtains e where "m w = Some (Inl e, w')" "r = Inl e"
  | x w1 where "m w = Some (Inr x, w1)" "f x w1 = Some (r, w')"
  using assms by (auto simp: andThen_def split: option.splits sum.splits)

lemma attemptE:
  assumes "attempt m f w = Some (r, w')"
  obtains x w1 where "m w = Some (x, w1)" "f x w1 = Some (r, w')"
  using assms by (auto simp: attempt_def split: option.splits)

text \<open>A property of the worlds that a computation keeps, whatever it returns.\<close>

definition keeps :: "('w \<Rightarrow> 'x) \<Rightarrow> ('w, 'e, 'a) io \<Rightarrow> bool" where
  "keeps obs m \<longleftrightarrow> (\<forall>w r w'. m w = Some (r, w') \<longrightarrow> obs w' = obs w)"

named_theorems keeps_intros \<open>computations that keep an observation\<close>

lemma keepsD: "keeps obs m \<Longrightarrow> m w = Some (r, w') \<Longrightarrow> obs w' = obs w"
  by (simp add: keeps_def)

lemma keeps_basic [keeps_intros]: "keeps obs (ret x)" "keeps obs (raise e)" "keeps obs diverge" "keeps obs (lift_sum r)"
  by (simp_all add: keeps_def io_run)

lemma keeps_andThen [keeps_intros]: "keeps obs m \<Longrightarrow> (\<And>x. keeps obs (f x)) \<Longrightarrow> keeps obs (andThen m f)"
  by (fastforce simp: keeps_def andThen_def split: option.splits sum.splits)

lemma keeps_attempt [keeps_intros]: "keeps obs m \<Longrightarrow> (\<And>r. keeps obs (f r)) \<Longrightarrow> keeps obs (attempt m f)"
  by (fastforce simp: keeps_def attempt_def split: option.splits)

lemma keeps_ignoring [keeps_intros]: "keeps obs m \<Longrightarrow> keeps obs f \<Longrightarrow> keeps obs (ignoring m f)"
  by (simp add: ignoring_def keeps_attempt)

lemma keeps_deferring [keeps_intros]: "keeps obs c \<Longrightarrow> keeps obs m \<Longrightarrow> keeps obs (deferring c m)"
  unfolding deferring_def by (intro keeps_attempt) (simp_all add: keeps_def)

lemma keeps_if [keeps_intros]: "(b \<Longrightarrow> keeps obs m) \<Longrightarrow> (\<not> b \<Longrightarrow> keeps obs n) \<Longrightarrow> keeps obs (if b then m else n)"
  by simp

lemma keeps_case_sum [keeps_intros]:
  "(\<And>a. keeps obs (f a)) \<Longrightarrow> (\<And>b. keeps obs (g b)) \<Longrightarrow> keeps obs (case s of Inl a \<Rightarrow> f a | Inr b \<Rightarrow> g b)"
  by (cases s) simp_all

lemma keeps_case_option [keeps_intros]:
  "keeps obs m \<Longrightarrow> (\<And>x. keeps obs (f x)) \<Longrightarrow> keeps obs (case y of None \<Rightarrow> m | Some x \<Rightarrow> f x)"
  by (cases y) simp_all

text \<open>A computation that returns, whatever the world is.\<close>

definition returns :: "('w, 'e, 'a) io \<Rightarrow> bool" where
  "returns m \<longleftrightarrow> (\<forall>w. m w \<noteq> None)"

named_theorems returns_intros \<open>computations that return\<close>

lemma returnsD: "returns m \<Longrightarrow> \<exists>r w'. m w = Some (r, w')"
  unfolding returns_def by (metis not_Some_eq surj_pair)

lemma returns_basic [returns_intros]: "returns (ret x)" "returns (raise e)" "returns (lift_sum r)"
  by (simp_all add: returns_def io_run)

lemma returns_attempt [returns_intros]: "returns m \<Longrightarrow> (\<And>r. returns (f r)) \<Longrightarrow> returns (attempt m f)"
  by (fastforce simp: returns_def attempt_def split: option.splits)

lemma returns_ignoring [returns_intros]: "returns m \<Longrightarrow> returns f \<Longrightarrow> returns (ignoring m f)"
  by (simp add: ignoring_def returns_attempt)

lemma returns_andThen [returns_intros]: "returns m \<Longrightarrow> (\<And>x. returns (f x)) \<Longrightarrow> returns (andThen m f)"
  by (fastforce simp: returns_def andThen_def split: option.splits sum.splits)

lemma returns_if [returns_intros]: "(b \<Longrightarrow> returns m) \<Longrightarrow> (\<not> b \<Longrightarrow> returns n) \<Longrightarrow> returns (if b then m else n)"
  by simp

lemma returns_case_sum [returns_intros]:
  "(\<And>a. returns (f a)) \<Longrightarrow> (\<And>b. returns (g b)) \<Longrightarrow> returns (case s of Inl a \<Rightarrow> f a | Inr b \<Rightarrow> g b)"
  by (cases s) simp_all

lemma returns_deferring [returns_intros]: "returns c \<Longrightarrow> returns m \<Longrightarrow> returns (deferring c m)"
  unfolding deferring_def by (intro returns_attempt) (simp_all add: returns_def)

end
