(* ===== verification/Manager_Names.thy ===== *)
theory Manager_Names
  imports Conf_Accept Conf_Store
begin

text \<open>
  The names of profiles in \<open>manager/protocol_v1.go\<close>: the display name a user gives a profile, which is
  kept in a comment of the configuration, and the tunnel name derived from it, which has to be a valid
  name that no other configuration uses.
\<close>

section \<open>Packages unicode and utf8\<close>

text \<open>\<open>utf8.DecodeRuneInString\<close>: the code point at the front and its number of bytes.  An invalid
  encoding gives U+FFFD and one byte.\<close>

definition RuneError :: nat where "RuneError = 0xFFFD"

definition cont :: "char \<Rightarrow> bool" where
  "cont c \<longleftrightarrow> 0x80 \<le> code c \<and> code c \<le> 0xBF"

fun DecodeRune :: "string \<Rightarrow> nat \<times> nat" where
  "DecodeRune [] = (RuneError, 0)"
| "DecodeRune (a # s) =
     (let n = code a in
      if n < 0x80 then (n, 1)
      else if 0xC2 \<le> n \<and> n \<le> 0xDF then
        (case s of
           b # _ \<Rightarrow> if cont b then ((n - 0xC0) * 64 + (code b - 0x80), 2) else (RuneError, 1)
         | _ \<Rightarrow> (RuneError, 1))
      else if 0xE0 \<le> n \<and> n \<le> 0xEF then
        (case s of
           b # c # _ \<Rightarrow>
             if cont b \<and> cont c \<and> (n = 0xE0 \<longrightarrow> 0xA0 \<le> code b) \<and> (n = 0xED \<longrightarrow> code b \<le> 0x9F)
             then ((n - 0xE0) * 4096 + (code b - 0x80) * 64 + (code c - 0x80), 3) else (RuneError, 1)
         | _ \<Rightarrow> (RuneError, 1))
      else if 0xF0 \<le> n \<and> n \<le> 0xF4 then
        (case s of
           b # c # d # _ \<Rightarrow>
             if cont b \<and> cont c \<and> cont d \<and> (n = 0xF0 \<longrightarrow> 0x90 \<le> code b) \<and> (n = 0xF4 \<longrightarrow> code b \<le> 0x8F)
             then ((n - 0xF0) * 262144 + (code b - 0x80) * 4096 + (code c - 0x80) * 64 + (code d - 0x80), 4)
             else (RuneError, 1)
         | _ \<Rightarrow> (RuneError, 1))
      else (RuneError, 1))"

lemma DecodeRune_width: "0 < snd (DecodeRune (a # s))"
  by (auto simp: Let_def split: list.split)

text \<open>The code points of a string with their widths, as \<open>range\<close> visits them.\<close>

function runes :: "string \<Rightarrow> (nat \<times> nat) list" where
  "runes [] = []"
| "runes (a # s) = DecodeRune (a # s) # runes (drop (snd (DecodeRune (a # s))) (a # s))"
  by pat_completeness auto
termination
proof (relation "measure length")
  fix a s
  show "(drop (snd (DecodeRune (a # s))) (a # s), a # s) \<in> measure length"
    using DecodeRune_width [of a s] by (simp only: in_measure length_drop) simp
qed simp

definition utf8_ValidString :: "string \<Rightarrow> bool" where
  "utf8_ValidString s \<longleftrightarrow> list_all (\<lambda>(r, w). \<not> (r = RuneError \<and> w = 1)) (runes s)"

definition utf8_RuneCountInString :: "string \<Rightarrow> nat" where
  "utf8_RuneCountInString s = length (runes s)"

definition unicode_IsControl :: "nat \<Rightarrow> bool" where
  "unicode_IsControl r \<longleftrightarrow> r < 0x20 \<or> 0x7F \<le> r \<and> r < 0xA0"

definition unicode_IsSpace :: "nat \<Rightarrow> bool" where
  "unicode_IsSpace r \<longleftrightarrow>
     9 \<le> r \<and> r \<le> 13 \<or> r = 0x20 \<or> r = 0x85 \<or> r = 0xA0 \<or> r = 0x1680 \<or> 0x2000 \<le> r \<and> r \<le> 0x200A \<or>
     r = 0x2028 \<or> r = 0x2029 \<or> r = 0x202F \<or> r = 0x205F \<or> r = 0x3000"

section \<open>Errors\<close>

text \<open>\<open>managerV1RemoteError\<close>: a code and a message; other errors of the manager are kept as they are.\<close>

datatype 'e v1_error = RemoteError string string | OtherError 'e

definition remoteManagerV1Error :: "string \<Rightarrow> string \<Rightarrow> 'e v1_error" where
  "remoteManagerV1Error c m = RemoteError c m"

section \<open>Display names\<close>

definition managerV1DisplayComment :: string where
  "managerV1DisplayComment = ''# WireRoute-Display-Name: ''"

definition managerV1MaximumDisplayRunes :: nat where
  "managerV1MaximumDisplayRunes = 128"

definition managerV1ValidateDisplayName :: "string \<Rightarrow> 'e v1_error + string" where
  "managerV1ValidateDisplayName value0 =
     (let v = strings_TrimSpace value0 in
      if v = [] \<or> \<not> utf8_ValidString v \<or> managerV1MaximumDisplayRunes < utf8_RuneCountInString v
      then Inl (remoteManagerV1Error ''invalidProfileName'' ''Enter a profile name between 1 and 128 characters.'')
      else if list_ex (\<lambda>(r, w). unicode_IsControl r) (runes v)
      then Inl (remoteManagerV1Error ''invalidProfileName'' ''The profile name cannot contain control characters.'')
      else Inr v)"

text \<open>The bytes of a string, for base 64.\<close>

definition bytes_of :: "string \<Rightarrow> byte list" where
  "bytes_of s = map (\<lambda>c. of_nat (code c)) s"

definition string_of :: "byte list \<Rightarrow> string" where
  "string_of bs = map (\<lambda>b. chr (unat b)) bs"

text \<open>The comments from the last one back; the first that holds a display name gives it.\<close>

fun display_loop :: "string list \<Rightarrow> string option" where
  "display_loop [] = None"
| "display_loop (comment # comments) =
     (let line = strings_TrimSpace comment in
      if \<not> strings_HasPrefix line managerV1DisplayComment then display_loop comments
      else case base64_Decode (strings_TrimSpace (strings_TrimPrefix line managerV1DisplayComment)) of
        None \<Rightarrow> display_loop comments
      | Some decoded \<Rightarrow>
          (case managerV1ValidateDisplayName (string_of decoded) :: unit v1_error + string of
             Inl _ \<Rightarrow> display_loop comments
           | Inr v \<Rightarrow> Some v))"

definition managerV1DisplayName :: "Config \<Rightarrow> string" where
  "managerV1DisplayName config =
     (case display_loop (rev (TrailingComments config)) of None \<Rightarrow> Name config | Some v \<Rightarrow> v)"

section \<open>Tunnel names\<close>

text \<open>\<open>IsPunct\<close> is the table of \<open>unicode.IsPunct\<close>, and stays a parameter: a name made of it is checked
  by \<open>TunnelNameIsValid\<close> whatever the table says.\<close>

definition rune_allowed :: "nat \<Rightarrow> bool" where
  "rune_allowed r \<longleftrightarrow>
     97 \<le> r \<and> r \<le> 122 \<or> 65 \<le> r \<and> r \<le> 90 \<or> 48 \<le> r \<and> r \<le> 57 \<or> r \<in> set (map code ''_=+.-'')"

text \<open>The loop over the code points: the text built so far and whether it ends with a separator.\<close>

fun name_builder :: "(nat \<Rightarrow> bool) \<Rightarrow> nat list \<Rightarrow> string \<Rightarrow> bool \<Rightarrow> string" where
  "name_builder IsPunct [] builder lastSeparator = builder"
| "name_builder IsPunct (r # rs) builder lastSeparator =
     (if rune_allowed r then name_builder IsPunct rs (builder @ [chr r]) False
      else if unicode_IsSpace r \<or> IsPunct r then
        (if 0 < length builder \<and> \<not> lastSeparator then name_builder IsPunct rs (builder @ ''-'') True
         else name_builder IsPunct rs builder lastSeparator)
      else name_builder IsPunct rs builder lastSeparator)"

definition shorten :: "string \<Rightarrow> string" where
  "shorten b = (if 32 < length b then strings_TrimRight (take 32 b) ''.-'' else b)"

definition base_name :: "(nat \<Rightarrow> bool) \<Rightarrow> string \<Rightarrow> 'e v1_error + string" where
  "base_name IsPunct displayName =
     (let b = shorten (strings_Trim (name_builder IsPunct (map fst (runes displayName)) [] False) ''.-'');
          b = (if b = [] then ''WireRoute'' else b);
          b = (if \<not> TunnelNameIsValid b then shorten (''WireRoute-'' @ b) else b)
      in if \<not> TunnelNameIsValid b
         then Inl (remoteManagerV1Error ''invalidProfileName'' ''A Windows tunnel name could not be derived from the profile name.'')
         else Inr b)"

definition contains :: "string list \<Rightarrow> string \<Rightarrow> bool" where
  "contains existing candidate \<longleftrightarrow> list_ex (\<lambda>name. strings_EqualFold name candidate) existing"

definition numbered :: "string \<Rightarrow> nat \<Rightarrow> string" where
  "numbered b index =
     (let suffix = ''-'' @ strconv_Itoa index;
          prefix = (if 32 < length b + length suffix then strings_TrimRight (take (32 - length suffix) b) ''.-'' else b)
      in prefix @ suffix)"

fun number_loop :: "string list \<Rightarrow> string \<Rightarrow> nat \<Rightarrow> nat \<Rightarrow> string option" where
  "number_loop existing b index 0 = None"
| "number_loop existing b index (Suc k) =
     (let candidate = numbered b index in
      if TunnelNameIsValid candidate \<and> \<not> contains existing candidate then Some candidate
      else number_loop existing b (Suc index) k)"

text \<open>\<open>existing\<close> is the result of \<open>ListConfigNames\<close>, which can fail.\<close>

definition managerV1AvailableName :: "(nat \<Rightarrow> bool) \<Rightarrow> 'e + string list \<Rightarrow> string \<Rightarrow> 'e v1_error + string" where
  "managerV1AvailableName IsPunct listed_names displayName =
     (case base_name IsPunct displayName of
        Inl err \<Rightarrow> Inl err
      | Inr b \<Rightarrow>
          (case listed_names of
             Inl err \<Rightarrow> Inl (OtherError err)
           | Inr existing \<Rightarrow>
               if \<not> contains existing b then Inr b
               else (case number_loop existing b 2 99998 of
                  None \<Rightarrow> Inl (remoteManagerV1Error ''profileNameConflict'' ''No available Windows tunnel name could be allocated.'')
                | Some candidate \<Rightarrow> Inr candidate)))"

definition managerV1RouteMode :: "Config \<Rightarrow> string" where
  "managerV1RouteMode config =
     (if list_ex (\<lambda>peer. list_ex (\<lambda>prefix. Bits prefix = 0) (AllowedIPs peer)) (Peers config) then ''full'' else ''split'')"

section \<open>The derived name is valid\<close>

text \<open>Trimming at the right keeps a front part that reaches to every character that is not trimmed.\<close>

lemma TrimRight_take:
  obtains m where "strings_TrimRight s cs = take m s" "\<And>i. i < length s \<Longrightarrow> s ! i \<notin> set cs \<Longrightarrow> i < m"
proof
  define m where "m = length s - length (takeWhile (\<lambda>c. c \<in> set cs) (rev s))"
  show "strings_TrimRight s cs = take m s"
    by (simp add: strings_TrimRight_def m_def dropWhile_eq_drop rev_drop)
  fix i assume i: "i < length s" "s ! i \<notin> set cs"
  show "i < m"
  proof (rule ccontr)
    assume "\<not> i < m"
    then have "length s - Suc i < length (takeWhile (\<lambda>c. c \<in> set cs) (rev s))"
      using i(1) by (simp add: m_def)
    then have "takeWhile (\<lambda>c. c \<in> set cs) (rev s) ! (length s - Suc i) \<in> set cs"
      by (meson nth_mem set_takeWhileD)
    with i show False
      using \<open>length s - Suc i < _\<close> by (simp add: takeWhile_nth rev_nth)
  qed
qed

lemma TrimRight_length: "length (strings_TrimRight s cs) \<le> length s"
  using length_dropWhile_le [of _ "rev s"] by (simp add: strings_TrimRight_def)

lemma TrimRight_last: "strings_TrimRight s cs \<noteq> [] \<Longrightarrow> last (strings_TrimRight s cs) \<notin> set cs"
  using hd_dropWhile [of "\<lambda>c. c \<in> set cs" "rev s"] by (simp add: strings_TrimRight_def last_rev)

text \<open>A name of allowed characters without a dot or a hyphen at its ends.\<close>

definition plain_ends :: "string \<Rightarrow> bool" where
  "plain_ends b \<longleftrightarrow> b \<noteq> [] \<and> list_all allowed_name_char b \<and> hd b \<notin> set ''.-'' \<and> last b \<notin> set ''.-''"

lemma TrimRight_plain_ends:
  assumes "b \<noteq> []" "list_all allowed_name_char b" "hd b \<notin> set ''.-''" "0 < k"
  obtains m where "strings_TrimRight (take k b) ''.-'' = take m b" "plain_ends (take m b)"
    "\<And>i. i < length b \<Longrightarrow> i < k \<Longrightarrow> b ! i \<notin> set ''.-'' \<Longrightarrow> i < m"
proof -
  obtain m where m: "strings_TrimRight (take k b) ''.-'' = take m (take k b)"
    "\<And>i. i < length (take k b) \<Longrightarrow> take k b ! i \<notin> set ''.-'' \<Longrightarrow> i < m"
    using TrimRight_take [of "take k b" "''.-''"] by blast
  have "0 < m"
    using m(2) [of 0] assms by (cases b) auto
  then have ne: "take (min m k) b \<noteq> []" "hd (take (min m k) b) = hd b"
    using assms(1,4) by (cases b; auto)+
  have eq: "strings_TrimRight (take k b) ''.-'' = take (min m k) b"
    by (simp add: m(1) min.commute)
  then have "last (take (min m k) b) \<notin> set ''.-''"
    using TrimRight_last [of "take k b" "''.-''"] ne(1) by simp
  then have "plain_ends (take (min m k) b)"
    using assms ne set_take_subset [of "min m k" b] by (auto simp: plain_ends_def list_all_iff)
  then show ?thesis
    using that [of "min m k"] eq m(2) by simp
qed

lemma shorten_plain:
  assumes "plain_ends b"
  obtains m where "shorten b = take m b" "plain_ends (take m b)" "length (take m b) \<le> 32"
    "\<And>i. i < length b \<Longrightarrow> i < 32 \<Longrightarrow> b ! i \<notin> set ''.-'' \<Longrightarrow> i < m"
proof (cases "32 < length b")
  case True
  then obtain m where "shorten b = take m b" "plain_ends (take m b)"
    "\<And>i. i < length b \<Longrightarrow> i < 32 \<Longrightarrow> b ! i \<notin> set ''.-'' \<Longrightarrow> i < m"
    using TrimRight_plain_ends [of b 32] assms by (auto simp: shorten_def plain_ends_def)
  moreover have "length (shorten b) \<le> 32"
    using True TrimRight_length [of "take 32 b" "''.-''"] by (simp add: shorten_def)
  ultimately show ?thesis by (metis that)
next
  case False
  then show ?thesis
    using that [of "length b"] assms by (simp add: shorten_def)
qed

lemma punctuation: "chr 95 = CHR ''_''" "chr 61 = CHR ''=''" "chr 43 = CHR ''+''" "chr 46 = CHR ''.''" "chr 45 = CHR ''-''"
  by code_simp+

lemma name_builder_allowed: "list_all allowed_name_char b \<Longrightarrow> list_all allowed_name_char (name_builder P rs b l)"
proof (induction P rs b l rule: name_builder.induct)
  case (2 P r rs b l)
  have "allowed_name_char (chr r)" if "rune_allowed r"
    using that punctuation by (auto simp: rune_allowed_def allowed_name_char_def)
  moreover have "allowed_name_char (CHR ''-'')"
    by (simp add: allowed_name_char_def)
  ultimately show ?case using 2 by auto
qed simp

lemma Trim_plain_ends:
  assumes "list_all allowed_name_char b" "strings_Trim b ''.-'' \<noteq> []"
  shows "plain_ends (strings_Trim b ''.-'')"
proof -
  let ?d = "dropWhile (\<lambda>c. c \<in> set ''.-'') b"
  have d: "?d \<noteq> []" "hd ?d \<notin> set ''.-''" "list_all allowed_name_char ?d"
    using assms hd_dropWhile [of "\<lambda>c. c \<in> set ''.-''" b] set_dropWhileD [of _ "\<lambda>c. c \<in> set ''.-''" b]
    by (auto simp: strings_Trim_def strings_TrimRight_def list_all_iff)
  then obtain m where "strings_TrimRight (take (length ?d) ?d) ''.-'' = take m ?d" "plain_ends (take m ?d)"
    using TrimRight_plain_ends [of ?d "length ?d"] by auto
  then show ?thesis by (simp add: strings_Trim_def)
qed

lemma valid_plain_ends:
  assumes "plain_ends b" "length b \<le> 32" "4 < length (takeWhile (\<lambda>c. c \<noteq> CHR ''.'') b)"
  shows "TunnelNameIsValid b"
proof -
  have "list_all (\<lambda>r. length r \<le> 4) reservedNames"
    by (simp add: reservedNames_def)
  then have "map lower_byte (takeWhile (\<lambda>c. c \<noteq> CHR ''.'') b) \<notin> set (map (map lower_byte) reservedNames)"
    using assms(3) map_eq_imp_length_eq by (fastforce simp: list_all_iff)
  with assms show ?thesis
    by (auto simp: valid_name_iff plain_ends_def)
qed

text \<open>A name is derived from every display name: the last resort, a prefix, is always enough.\<close>

lemma takeWhile_take_long:
  "j \<le> n \<Longrightarrow> j \<le> length s \<Longrightarrow> (\<And>i. i < j \<Longrightarrow> P (s ! i)) \<Longrightarrow> j \<le> length (takeWhile P (take n s))"
  using nth_length_takeWhile [of P "take n s"] by (cases "length (takeWhile P (take n s)) < j") auto

lemma base_name_ok:
  obtains b where "base_name P displayName = Inr b" "plain_ends b" "TunnelNameIsValid b"
proof -
  define b0 where "b0 = strings_Trim (name_builder P (map fst (runes displayName)) [] False) ''.-''"
  define b1 where "b1 = (if shorten b0 = [] then ''WireRoute'' else shorten b0)"
  have b0: "b0 = [] \<or> plain_ends b0"
    using Trim_plain_ends name_builder_allowed [of "[]"] by (auto simp: b0_def)
  have b1: "plain_ends b1"
  proof (cases "shorten b0 = []")
    case True
    then show ?thesis by (simp add: b1_def plain_ends_def allowed_name_char_def)
  next
    case False
    then have "plain_ends b0" using b0 by (auto simp: shorten_def)
    then obtain m where "shorten b0 = take m b0" "plain_ends (take m b0)"
      by (rule shorten_plain)
    with False show ?thesis by (simp add: b1_def)
  qed
  define b2 where "b2 = (if TunnelNameIsValid b1 then b1 else shorten (''WireRoute-'' @ b1))"
  have base: "TunnelNameIsValid b2 \<Longrightarrow> base_name P displayName = Inr b2"
    unfolding base_name_def Let_def b0_def [symmetric] b1_def [symmetric] b2_def by (simp del: append.simps split: if_splits)
  show ?thesis
  proof (cases "TunnelNameIsValid b1")
    case True
    then show ?thesis
      using base b1 that [of b1] by (simp add: b2_def)
  next
    case False
    let ?w = "''WireRoute-'' @ b1"
    have "plain_ends ?w"
      using b1 by (simp add: plain_ends_def allowed_name_char_def)
    then obtain m where m: "shorten ?w = take m ?w" "plain_ends (take m ?w)" "length (take m ?w) \<le> 32"
      "\<And>i. i < length ?w \<Longrightarrow> i < 32 \<Longrightarrow> ?w ! i \<notin> set ''.-'' \<Longrightarrow> i < m"
      using shorten_plain by blast
    have "8 < m" by (rule m(4)) auto
    moreover have "?w ! i \<noteq> CHR ''.''" if "i < 9" for i
    proof -
      have "?w ! i \<in> set ''WireRoute-''"
        using that nth_mem [of i "''WireRoute-''"] nth_append_left [of i "''WireRoute-''" b1] by simp
      then show ?thesis by auto
    qed
    ultimately have "9 \<le> length (takeWhile (\<lambda>c. c \<noteq> CHR ''.'') (take m ?w))"
      by (intro takeWhile_take_long) auto
    then have "TunnelNameIsValid (shorten ?w)"
      unfolding m(1) by (intro valid_plain_ends m) simp
    then show ?thesis
      using base m(1,2) False that [of "shorten ?w"] by (simp add: b2_def del: append.simps)
  qed
qed

section \<open>The derived name is free\<close>

lemma takeWhile_prefix_dot:
  "CHR ''.'' \<in> set (take m b) \<Longrightarrow> takeWhile (\<lambda>c. c \<noteq> CHR ''.'') (take m b @ s) = takeWhile (\<lambda>c. c \<noteq> CHR ''.'') b"
  using takeWhile_append1 [of "CHR ''.''" "take m b" "\<lambda>c. c \<noteq> CHR ''.''" s]
    takeWhile_append1 [of "CHR ''.''" "take m b" "\<lambda>c. c \<noteq> CHR ''.''" "drop m b"] by simp

lemma numbered_form:
  assumes "plain_ends b" "i < 100000"
  obtains m where "numbered b i = take m b @ ''-'' @ strconv_Itoa i" "plain_ends (take m b)"
    "length (numbered b i) \<le> 32"
proof (cases "32 < length b + length (''-'' @ strconv_Itoa i)")
  case True
  have len: "length (strconv_Itoa i) \<le> 5"
    using length_Itoa [of i 4] assms(2) by simp
  let ?k = "32 - length (''-'' @ strconv_Itoa i)"
  obtain m where m: "strings_TrimRight (take ?k b) ''.-'' = take m b" "plain_ends (take m b)"
    using TrimRight_plain_ends [of b ?k] assms(1) len by (auto simp: plain_ends_def)
  have "length (strings_TrimRight (take ?k b) ''.-'') \<le> ?k"
    using TrimRight_length [of "take ?k b" "''.-''"] by simp
  with m True len that [of m] show ?thesis
    by (simp add: numbered_def Let_def)
next
  case False
  with assms that [of "length b"] show ?thesis
    by (simp add: numbered_def Let_def)
qed

lemma lower_byte_eq: "\<not> (97 \<le> code d \<and> code d \<le> 122) \<Longrightarrow> \<not> (65 \<le> code d \<and> code d \<le> 90) \<Longrightarrow> lower_byte c = d \<longleftrightarrow> c = d"
  by (auto simp: lower_byte_def)

lemma reserved_no_hyphen: "r \<in> set (map (map lower_byte) reservedNames) \<Longrightarrow> CHR ''-'' \<notin> set r"
proof -
  have "list_all (\<lambda>r. CHR ''-'' \<notin> set r) reservedNames"
    by (simp add: reservedNames_def)
  moreover have "lower_byte c = CHR ''-'' \<longleftrightarrow> c = CHR ''-''" for c
    by (rule lower_byte_eq) auto
  ultimately show "r \<in> set (map (map lower_byte) reservedNames) \<Longrightarrow> CHR ''-'' \<notin> set r"
    by (force simp: list_all_iff)
qed

lemma hyphen_allowed: "allowed_name_char (CHR ''-'')"
  by (simp add: allowed_name_char_def)

lemma numbered_valid:
  assumes "plain_ends b" "TunnelNameIsValid b" "i < 100000"
  shows "TunnelNameIsValid (numbered b i)"
proof -
  obtain m where m: "numbered b i = take m b @ ''-'' @ strconv_Itoa i" "plain_ends (take m b)" "length (numbered b i) \<le> 32"
    using numbered_form [OF assms(1,3)] .
  have digits: "allowed_name_char c" "c \<noteq> CHR ''.''" if "c \<in> set (strconv_Itoa i)" for c
    using Itoa_digits [OF that] by (auto simp: is_digit_def allowed_name_char_def)
  let ?w = "takeWhile (\<lambda>c. c \<noteq> CHR ''.'')"
  have "map lower_byte (?w (numbered b i)) \<notin> set (map (map lower_byte) reservedNames)"
  proof (cases "CHR ''.'' \<in> set (take m b)")
    case True
    then have "?w (numbered b i) = ?w b"
      using takeWhile_prefix_dot [OF True] by (simp add: m(1))
    then show ?thesis using assms(2) by (simp add: valid_name_iff)
  next
    case False
    then have "CHR ''.'' \<notin> set (numbered b i)"
      using digits(2) by (auto simp: m(1))
    then have "?w (numbered b i) = numbered b i"
      by (auto simp: takeWhile_eq_all_conv)
    moreover have "CHR ''-'' \<in> set (map lower_byte (numbered b i))"
      by (simp add: m(1) lower_byte_def)
    ultimately show ?thesis using reserved_no_hyphen [of "map lower_byte (numbered b i)"] by argo
  qed
  moreover have "list_all allowed_name_char (numbered b i)"
    using m(2) digits(1) hyphen_allowed by (auto simp: m(1) plain_ends_def list_all_iff)
  moreover have "last (numbered b i) \<noteq> CHR ''.''"
    using digits(2) last_in_set [of "strconv_Itoa i"] by (simp add: m(1))
  moreover have "hd (numbered b i) \<noteq> CHR ''.''"
    using m(2) unfolding m(1) by (cases b; cases m) (simp_all add: plain_ends_def)
  ultimately show ?thesis
    using m(3) by (simp add: valid_name_iff m(1))
qed

text \<open>The number of a numbered name can be read off its end, so the names are different, also when
  case is ignored.\<close>

lemma lower_byte_hyphen: "lower_byte c = CHR ''-'' \<longleftrightarrow> c = CHR ''-''"
  by (rule lower_byte_eq) auto

lemma numbered_inject:
  assumes "plain_ends b" "i < 100000" "j < 100000"
    "map lower_byte (numbered b i) = map lower_byte (numbered b j)"
  shows "i = j"
proof -
  let ?tail = "\<lambda>n. takeWhile (\<lambda>c. c \<noteq> CHR ''-'') (rev (map lower_byte n))"
  have tail: "?tail (numbered b k) = rev (strconv_Itoa k)" if k: "k < 100000" for k
  proof -
    obtain m where "numbered b k = take m b @ ''-'' @ strconv_Itoa k"
      by (rule numbered_form [OF assms(1) k])
    moreover have "map lower_byte (strconv_Itoa k) = strconv_Itoa k"
      using Itoa_digits by (intro map_idI) simp
    moreover have "CHR ''-'' \<notin> set (strconv_Itoa k)"
      by (rule Itoa_not_digit) (simp add: is_digit_def)
    ultimately show ?thesis
      by (auto simp: takeWhile_append lower_byte_hyphen)
  qed
  then have "rev (strconv_Itoa i) = rev (strconv_Itoa j)"
    using assms by metis
  then show ?thesis using Itoa_inject by simp
qed

lemma number_loop_None:
  "number_loop existing b i k = None \<Longrightarrow> j \<in> {i..<i + k} \<Longrightarrow>
   TunnelNameIsValid (numbered b j) \<longrightarrow> contains existing (numbered b j)"
proof (induction k arbitrary: i)
  case (Suc k)
  then show ?case
    by (cases "j = i") (auto simp: Let_def split: if_splits)
qed simp

lemma number_loop_Some:
  "number_loop existing b i k = Some c \<Longrightarrow> TunnelNameIsValid c \<and> \<not> contains existing c"
  by (induction k arbitrary: i) (auto simp: Let_def split: if_splits)

lemma fold_case_valid: "TunnelNameIsValid n \<Longrightarrow> fold_case n = map lower_byte n"
  using valid_name_chars allowed_not_space by (intro fold_case_ascii) blast

lemma number_loop_finds:
  assumes "plain_ends b" "TunnelNameIsValid b" "length existing < 99998"
  shows "number_loop existing b 2 99998 \<noteq> None"
proof
  assume none: "number_loop existing b 2 99998 = None"
  let ?f = "\<lambda>j. fold_case (numbered b j)"
  have f: "?f j = map lower_byte (numbered b j)" if "j < 100000" for j
    using numbered_valid [OF assms(1,2) that] by (rule fold_case_valid)
  have "?f ` {2..<100000} \<subseteq> set (map fold_case existing)"
  proof
    fix x assume "x \<in> ?f ` {2..<100000}"
    then obtain j where j: "x = ?f j" "2 \<le> j" "j < 100000" by auto
    have "contains existing (numbered b j)"
      using number_loop_None [OF none, of j] numbered_valid [OF assms(1,2) j(3)] j by simp
    then show "x \<in> set (map fold_case existing)"
      by (auto simp: contains_def list_ex_iff strings_EqualFold_def j(1) intro: rev_image_eqI)
  qed
  moreover have "inj_on ?f {2..<100000}"
    using numbered_inject [OF assms(1)] by (auto intro!: inj_onI simp: f)
  then have "card (?f ` {2..<100000}) = 99998"
    by (simp add: card_image)
  ultimately show False
    using card_mono [of "set (map fold_case existing)" "?f ` {2..<100000}"] card_length [of "map fold_case existing"] assms(3)
    by simp
qed

text \<open>A tunnel name is found for every display name, as long as fewer than 99998 configurations
  exist: whatever characters the display name has, the name is valid and differs from the name of
  every configuration, also when case is ignored.\<close>

theorem managerV1AvailableName_free:
  assumes "length existing < 99998"
  shows "\<exists>n. managerV1AvailableName IsPunct (Inr existing) displayName = Inr n \<and>
    TunnelNameIsValid n \<and> \<not> contains existing n"
proof -
  obtain b where b: "base_name IsPunct displayName = (Inr b :: 'a v1_error + string)" "plain_ends b" "TunnelNameIsValid b"
    using base_name_ok .
  show ?thesis
  proof (cases "contains existing b")
    case True
    then obtain c where "number_loop existing b 2 99998 = Some c"
      using number_loop_finds [OF b(2,3) assms] by blast
    with True b number_loop_Some [OF this] show ?thesis
      by (simp add: managerV1AvailableName_def)
  qed (simp add: managerV1AvailableName_def b)
qed

theorem managerV1AvailableName_free_witness:
  "\<exists>n. managerV1AvailableName (\<lambda>r. r = 33) (Inr [''con-2'', ''wireroute-con'']) ''CON!'' = (Inr n :: unit v1_error + string) \<and>
    TunnelNameIsValid n \<and> \<not> contains [''con-2'', ''wireroute-con''] n"
  by (rule managerV1AvailableName_free) simp

section \<open>The display name is kept in the configuration\<close>

lemma string_of_bytes_of [simp]: "string_of (bytes_of s) = s"
proof (rule nth_equalityI)
  fix i assume i: "i < length (string_of (bytes_of s))"
  have "unat (of_nat (code (s ! i)) :: byte) = code (s ! i)"
    by (simp add: unat_of_nat)
  with i show "string_of (bytes_of s) ! i = s ! i"
    by (simp add: string_of_def bytes_of_def)
qed (simp add: string_of_def bytes_of_def)

lemma ValidateDisplayName_idem:
  "managerV1ValidateDisplayName x = Inr v \<Longrightarrow> managerV1ValidateDisplayName v = Inr v"
  by (auto simp: managerV1ValidateDisplayName_def Let_def TrimSpace_id TrimSpace_trimmed split: if_splits)

definition display_comment :: "string \<Rightarrow> string" where
  "display_comment v = managerV1DisplayComment @ base64_Encode (bytes_of v)"

lemma display_comment_line:
  assumes "v \<noteq> []"
  shows "strings_TrimSpace (display_comment v) = display_comment v"
    "strings_HasPrefix (display_comment v) managerV1DisplayComment"
    "strings_TrimSpace (strings_TrimPrefix (display_comment v) managerV1DisplayComment) = base64_Encode (bytes_of v)"
proof -
  have ne: "base64_Encode (bytes_of v) \<noteq> []"
    using assms by (simp add: bytes_of_def)
  then have "last (display_comment v) \<in> set (base64_Encode (bytes_of v))"
    by (simp add: display_comment_def)
  then have "trimmed (display_comment v)"
    using ne base64_Encode_plain [of "last (display_comment v)" "bytes_of v"]
    by (intro trimmed_ascii_ends) (auto simp: display_comment_def managerV1DisplayComment_def ascii_space_def)
  then show "strings_TrimSpace (display_comment v) = display_comment v"
    by (rule TrimSpace_id)
  show "strings_HasPrefix (display_comment v) managerV1DisplayComment"
    by (simp add: HasPrefix_iff display_comment_def)
  then show "strings_TrimSpace (strings_TrimPrefix (display_comment v) managerV1DisplayComment) = base64_Encode (bytes_of v)"
    by (simp add: strings_TrimPrefix_def display_comment_def TrimSpace_id trimmed_base64)
qed

lemma DisplayName_comment:
  assumes "managerV1ValidateDisplayName x = Inr v"
  shows "managerV1DisplayName (c \<lparr>TrailingComments := cs @ [display_comment v]\<rparr>) = v"
proof -
  have "v \<noteq> []"
    using assms by (auto simp: managerV1ValidateDisplayName_def Let_def split: if_splits)
  then show ?thesis
    using display_comment_line [of v]
    by (simp add: managerV1DisplayName_def base64_Decode_Encode ValidateDisplayName_idem [OF assms])
qed

text \<open>The comment is one a configuration file can hold, so the configuration stays well formed.\<close>

lemma display_comment_before: "v \<noteq> [] \<Longrightarrow> before_line (display_comment v)"
proof -
  assume "v \<noteq> []"
  then obtain u c where u: "base64_Encode (bytes_of v) = u @ [c]"
    by (cases "base64_Encode (bytes_of v)" rule: rev_cases) (auto simp: bytes_of_def)
  then have c: "c \<noteq> newline \<and> c \<noteq> CHR 0x0D \<and> \<not> ascii_space c"
    using base64_Encode_plain [of c "bytes_of v"] by simp
  have "newline \<notin> set (base64_Encode (bytes_of v))"
    using base64_Encode_plain by blast
  moreover have "strings_TrimRight (tl (display_comment v)) comment_cut = tl (display_comment v)"
    using c by (auto simp: display_comment_def managerV1DisplayComment_def u strings_TrimRight_def comment_cut_def ascii_space_def)
  ultimately show ?thesis
    by (simp add: before_line_def comment_text_def display_comment_def managerV1DisplayComment_def)
qed

lemma wf_config_display_comment:
  assumes "wf_config c" "v \<noteq> []"
  shows "wf_config (c \<lparr>TrailingComments := TrailingComments c @ [display_comment v]\<rparr>)"
proof -
  have "display_comment v \<noteq> []"
    by (simp add: display_comment_def managerV1DisplayComment_def)
  then have "pruned False True (TrailingComments c @ [display_comment v])"
    using assms(1) by (auto simp: wf_config_def pruned_def no_double_blank_def successively_append_iff)
  then show ?thesis
    using assms display_comment_before by (auto simp: wf_config_def)
qed

end
