(* ===== verification/Manager_Services.thy ===== *)
theory Manager_Services
  imports Go_Effects Manager_Names Driver_Config
begin

text \<open>
  \<open>manager/install.go\<close>: the services of the manager and of the tunnels.  The service control manager of Windows is a parameter: a record of its calls, on
  a state of its own.  The stored configurations are those of \<open>Conf_Store\<close>.  A polling loop takes fuel;
  without enough of it there is no result.
\<close>

section \<open>The service control manager\<close>

type_synonym errno = nat

definition ERROR_SERVICE_DOES_NOT_EXIST :: errno where "ERROR_SERVICE_DOES_NOT_EXIST = 1060"

definition ERROR_SERVICE_MARKED_FOR_DELETE :: errno where "ERROR_SERVICE_MARKED_FOR_DELETE = 1072"

datatype svc_state = svcStopped | svcStartPending | svcStopPending | svcRunning | svcOther

datatype start_type = StartAutomatic | StartManual

record mgr_Config =
  StartType :: start_type
  Dependencies :: "string list"
  DisplayName :: string
  SidUnrestricted :: bool

record 's scm =
  scm_Connect :: "'s \<Rightarrow> (errno + unit) \<times> 's"
  scm_OpenService :: "string \<Rightarrow> 's \<Rightarrow> (errno + nat) \<times> 's"
  scm_CreateService :: "string \<Rightarrow> string \<Rightarrow> mgr_Config \<Rightarrow> string list \<Rightarrow> 's \<Rightarrow> (errno + nat) \<times> 's"
  svc_Query :: "nat \<Rightarrow> 's \<Rightarrow> (errno + svc_state) \<times> 's"
  svc_Start :: "nat \<Rightarrow> 's \<Rightarrow> (errno + unit) \<times> 's"
  svc_ControlStop :: "nat \<Rightarrow> 's \<Rightarrow> (errno + unit) \<times> 's"
  svc_Delete :: "nat \<Rightarrow> 's \<Rightarrow> (errno + unit) \<times> 's"
  svc_Close :: "nat \<Rightarrow> 's \<Rightarrow> (errno + unit) \<times> 's"

datatype TunnelState = TunnelUnknown | TunnelStarted | TunnelStopped | TunnelStarting | TunnelStopping

text \<open>Work that a function starts and does not wait for.\<close>

datatype job = TrackTunnel string nat | StopTunnels "string list" | RunUpdate

record 's world =
  files :: fs
  svcs :: 's
  cachedServiceManager :: bool
  trackedTunnels :: "(string \<times> TunnelState) list"
  driverAdapters :: "string list"
  managerServices :: "nat list"
  haveQuit :: bool
  quitManagersChan :: bool
  jobs :: "job list"

text \<open>What stays the same: the calls of the service control manager, the path of the executable, the environment of the store for reading and
  writing (the one of a second write by the same function is \<open>again\<close>), the directory listing, whether
  the code can be run as SYSTEM, when the deadline of a start has passed, the adapters of the driver.\<close>

record 's host =
  the_scm :: "'s scm"
  os_Executable :: "errno + string"
  store :: env
  again :: env
  ReadDir :: "fs \<Rightarrow> store_error + dirent list"
  as_system :: "errno option"
  after_deadline :: "nat \<Rightarrow> bool"
  metrics_path :: "string \<Rightarrow> string"
  OpenAdapter :: "string \<Rightarrow> errno option"
  adapter_Configuration :: "string \<Rightarrow> errno + byte list"

datatype mgr_error =
    Errno errno | StoreError store_error | NameError | ManagerAlreadyRunning | TunnelAlreadyRunning
  | StoppedBeforeStartup | StartupTimedOut | InTransition string | AccessDenied
  | ProfileIdInvalid | ServiceNameUsedByOther | NotOwnedByProfile | TunnelNameNotValid

definition scm_call :: "('s \<Rightarrow> (errno + 'a) \<times> 's) \<Rightarrow> ('s world, mgr_error, 'a) io" where
  "scm_call f w = (case f (svcs w) of (r, s) \<Rightarrow> Some (map_sum Errno id r, w \<lparr>svcs := s\<rparr>))"

definition store_call :: "(fs \<Rightarrow> (store_error + 'a) \<times> fs) \<Rightarrow> ('s world, mgr_error, 'a) io" where
  "store_call f w = (case f (files w) of (r, fs) \<Rightarrow> Some (map_sum StoreError id r, w \<lparr>files := fs\<rparr>))"

definition load_call :: "(fs \<Rightarrow> store_error + 'a) \<Rightarrow> ('s world, mgr_error, 'a) io" where
  "load_call f w = Some (map_sum StoreError id (f (files w)), w)"

definition start_job :: "job \<Rightarrow> ('s world, mgr_error, unit) io" where
  "start_job j w = Some (Inr (), w \<lparr>jobs := jobs w @ [j]\<rparr>)"

definition serviceManager :: "'s host \<Rightarrow> ('s world, mgr_error, unit) io" where
  "serviceManager h w =
     (if cachedServiceManager w then ret () w
      else andThen (scm_call (scm_Connect (the_scm h))) (\<lambda>_ w. Some (Inr (), w \<lparr>cachedServiceManager := True\<rparr>)) w)"

definition executable :: "'s host \<Rightarrow> ('s world, mgr_error, string) io" where
  "executable h = lift_sum (map_sum Errno id (os_Executable h))"

definition service_name :: "string \<Rightarrow> ('s world, mgr_error, string) io" where
  "service_name name = (case ServiceNameOfTunnel name of Inl _ \<Rightarrow> raise NameError | Inr n \<Rightarrow> ret n)"

text \<open>The loop that waits until a deleted service is gone.\<close>

fun wait_deleted :: "'s host \<Rightarrow> string \<Rightarrow> nat \<Rightarrow> ('s world, mgr_error, unit) io" where
  "wait_deleted h serviceName 0 = diverge"
| "wait_deleted h serviceName (Suc fuel) =
     attempt (scm_call (scm_OpenService (the_scm h) serviceName)) (\<lambda>r.
       case r of
         Inl err \<Rightarrow> if err \<noteq> Errno ERROR_SERVICE_MARKED_FOR_DELETE then ret () else wait_deleted h serviceName fuel
       | Inr service \<Rightarrow> ignoring (scm_call (svc_Close (the_scm h) service)) (wait_deleted h serviceName fuel))"

section \<open>The manager service\<close>

definition InstallManager :: "'s host \<Rightarrow> nat \<Rightarrow> ('s world, mgr_error, unit) io" where
  "InstallManager h fuel =
     andThen (serviceManager h) (\<lambda>_. andThen (executable h) (\<lambda>path.
       let serviceName = ''WireGuardManager'';
           close = (\<lambda>service. scm_call (svc_Close (the_scm h) service));
           create =
             andThen (scm_call (scm_CreateService (the_scm h) serviceName path
                 \<lparr>StartType = StartAutomatic, Dependencies = [], DisplayName = ''WireGuard Manager'', SidUnrestricted = False\<rparr>
                 [''/managerservice'']))
               (\<lambda>service. ignoring (scm_call (svc_Start (the_scm h) service)) (close service))
       in attempt (scm_call (scm_OpenService (the_scm h) serviceName)) (\<lambda>r.
            case r of
              Inl _ \<Rightarrow> create
            | Inr service \<Rightarrow>
                attempt (scm_call (svc_Query (the_scm h) service)) (\<lambda>q.
                  case q of
                    Inl err \<Rightarrow> ignoring (close service) (raise err)
                  | Inr state \<Rightarrow>
                      if state \<noteq> svcStopped then
                        ignoring (close service) (if state = svcStartPending then ret () else raise ManagerAlreadyRunning)
                      else
                        attempt (scm_call (svc_Delete (the_scm h) service)) (\<lambda>d.
                          ignoring (close service) (case d of
                            Inl err \<Rightarrow> raise err
                          | Inr _ \<Rightarrow> andThen (wait_deleted h serviceName fuel) (\<lambda>_. create)))))))"

definition UninstallManager :: "'s host \<Rightarrow> ('s world, mgr_error, unit) io" where
  "UninstallManager h =
     andThen (serviceManager h) (\<lambda>_.
     andThen (scm_call (scm_OpenService (the_scm h) ''WireGuardManager'')) (\<lambda>service.
       ignoring (scm_call (svc_ControlStop (the_scm h) service))
         (attempt (scm_call (svc_Delete (the_scm h) service)) (\<lambda>d.
            attempt (scm_call (svc_Close (the_scm h) service)) (\<lambda>c.
              case d of Inl err \<Rightarrow> raise err | Inr _ \<Rightarrow> lift_sum c)))))"

section \<open>Tunnel services\<close>

text \<open>The part of \<open>installTunnel\<close> for a service that is already there.\<close>

definition replace_service :: "'s host \<Rightarrow> nat \<Rightarrow> string \<Rightarrow> nat \<Rightarrow> ('s world, mgr_error, unit) io" where
  "replace_service h fuel serviceName service =
     (let close = scm_call (svc_Close (the_scm h) service) in
      attempt (scm_call (svc_Query (the_scm h) service)) (\<lambda>q.
        if isl q \<and> q \<noteq> Inl (Errno ERROR_SERVICE_MARKED_FOR_DELETE) then ignoring close (raise (projl q))
        else if q \<noteq> Inr svcStopped \<and> q \<noteq> Inl (Errno ERROR_SERVICE_MARKED_FOR_DELETE)
        then ignoring close (raise TunnelAlreadyRunning)
        else
          attempt (scm_call (svc_Delete (the_scm h) service)) (\<lambda>d.
            ignoring close
              (if isl d \<and> d \<noteq> Inl (Errno ERROR_SERVICE_MARKED_FOR_DELETE) then raise (projl d)
               else wait_deleted h serviceName fuel))))"

text \<open>The loop that waits for an ephemeral tunnel to run; \<open>n\<close> counts its turns.\<close>

fun await_running :: "'s host \<Rightarrow> nat \<Rightarrow> nat \<Rightarrow> nat \<Rightarrow> ('s world, mgr_error, unit) io" where
  "await_running h service n 0 = diverge"
| "await_running h service n (Suc fuel) =
     (let stop = scm_call (svc_ControlStop (the_scm h) service);
          del = scm_call (svc_Delete (the_scm h) service) in
      attempt (scm_call (svc_Query (the_scm h) service)) (\<lambda>q.
        case q of
          Inl err \<Rightarrow> ignoring stop (ignoring del (raise err))
        | Inr state \<Rightarrow>
            if state = svcRunning then ret ()
            else if state = svcStopped then ignoring del (raise StoppedBeforeStartup)
            else if after_deadline h n then ignoring stop (ignoring del (raise StartupTimedOut))
            else await_running h service (Suc n) fuel))"

definition installTunnel :: "'s host \<Rightarrow> nat \<Rightarrow> string \<Rightarrow> bool \<Rightarrow> string \<Rightarrow> ('s world, mgr_error, unit) io" where
  "installTunnel h fuel configPath ephemeral metricsPath =
     andThen (serviceManager h) (\<lambda>_.
     andThen (executable h) (\<lambda>path.
     andThen (lift_sum (map_sum StoreError id (NameFromPath configPath))) (\<lambda>name.
     andThen (service_name name) (\<lambda>serviceName.
     andThen (attempt (scm_call (scm_OpenService (the_scm h) serviceName))
         (\<lambda>r. case r of Inl _ \<Rightarrow> ret () | Inr service \<Rightarrow> replace_service h fuel serviceName service)) (\<lambda>_.
     andThen (scm_call (scm_CreateService (the_scm h) serviceName path
         \<lparr>StartType = (if ephemeral then StartManual else StartAutomatic), Dependencies = [''Nsi'', ''TcpIp''],
          DisplayName = ''WireGuard Tunnel: '' @ name, SidUnrestricted = True\<rparr>
         ([''/tunnelservice'', configPath] @ (if metricsPath \<noteq> [] then [metricsPath] else [])))) (\<lambda>service.
     attempt (scm_call (svc_Start (the_scm h) service)) (\<lambda>s.
       case s of
         Inl err \<Rightarrow>
           ignoring (scm_call (svc_Delete (the_scm h) service))
             (ignoring (scm_call (svc_Close (the_scm h) service)) (raise err))
       | Inr _ \<Rightarrow>
           if \<not> ephemeral then start_job (TrackTunnel name service)
           else deferring (scm_call (svc_Close (the_scm h) service)) (await_running h service 0 fuel))))))))"

definition InstallTunnel :: "'s host \<Rightarrow> nat \<Rightarrow> string \<Rightarrow> ('s world, mgr_error, unit) io" where
  "InstallTunnel h fuel configPath = installTunnel h fuel configPath False []"

definition InstallEphemeralTunnel :: "'s host \<Rightarrow> nat \<Rightarrow> string \<Rightarrow> ('s world, mgr_error, unit) io" where
  "InstallEphemeralTunnel h fuel configPath = installTunnel h fuel configPath True (metrics_path h configPath)"

definition UninstallTunnel :: "'s host \<Rightarrow> string \<Rightarrow> ('s world, mgr_error, unit) io" where
  "UninstallTunnel h name =
     andThen (serviceManager h) (\<lambda>_.
     andThen (service_name name) (\<lambda>serviceName.
     attempt (scm_call (scm_OpenService (the_scm h) serviceName)) (\<lambda>r.
       case r of
         Inl err \<Rightarrow> if err = Errno ERROR_SERVICE_DOES_NOT_EXIST then ret () else raise err
       | Inr service \<Rightarrow>
           ignoring (scm_call (svc_ControlStop (the_scm h) service))
             (attempt (scm_call (svc_Delete (the_scm h) service)) (\<lambda>d.
                attempt (scm_call (svc_Close (the_scm h) service)) (\<lambda>c.
                  if isl d \<and> d \<noteq> Inl (Errno ERROR_SERVICE_MARKED_FOR_DELETE) then raise (projl d) else lift_sum c))))))"

section \<open>Persistent tunnels of a profile\<close>

definition wireRoutePersistentProfileComment :: string where
  "wireRoutePersistentProfileComment = ''# WireRoute-Persistent-Profile: ''"

definition normalizeWireRouteProfileID :: "string \<Rightarrow> mgr_error + string" where
  "normalizeWireRouteProfileID value0 =
     (let v = strings_ToLower (strings_TrimSpace value0) in
      if length v \<noteq> 32 then Inl ProfileIdInvalid
      else if list_ex (\<lambda>(character, w). (character < 48 \<or> 57 < character) \<and> (character < 97 \<or> 102 < character)) (runes v)
      then Inl ProfileIdInvalid
      else Inr v)"

definition wireRoutePersistentProfileMatches :: "Config \<Rightarrow> string \<Rightarrow> bool" where
  "wireRoutePersistentProfileMatches config profileID =
     list_ex (\<lambda>comment. strings_EqualFold (strings_TrimSpace comment) (wireRoutePersistentProfileComment @ profileID))
       (TrailingComments config)"

definition DoAsSystem :: "'s host \<Rightarrow> ('s world, mgr_error, 'a) io \<Rightarrow> ('s world, mgr_error, 'a) io" where
  "DoAsSystem h f = (case as_system h of Some err \<Rightarrow> raise (Errno err) | None \<Rightarrow> f)"

text \<open>\<open>os.IsNotExist\<close>.\<close>

definition IsNotExist :: "mgr_error \<Rightarrow> bool" where
  "IsNotExist err \<longleftrightarrow> err = StoreError FileNotFound"

definition mark_profile :: "string \<Rightarrow> Config \<Rightarrow> Config" where
  "mark_profile profileID config =
     config \<lparr>TrailingComments :=
       filter (\<lambda>comment. \<not> strings_HasPrefix (strings_TrimSpace comment) wireRoutePersistentProfileComment)
         (TrailingComments config) @ [wireRoutePersistentProfileComment @ profileID]\<rparr>"

definition install_marked :: "'s host \<Rightarrow> nat \<Rightarrow> Config \<Rightarrow> string \<Rightarrow> Config option \<Rightarrow> ('s world, mgr_error, unit) io" where
  "install_marked h fuel config metricsPath previous =
     andThen (store_call (Save (store h) config True)) (\<lambda>_.
       attempt (andThen (lift_sum (map_sum StoreError id (Path (store h) config)))
                  (\<lambda>path. installTunnel h fuel path False metricsPath)) (\<lambda>r.
         case r of
           Inr _ \<Rightarrow> ret ()
         | Inl err \<Rightarrow>
             ignoring
               (case previous of
                  Some p \<Rightarrow> store_call (Save (again h) p True)
                | None \<Rightarrow> store_call (DeleteName (again h) (Name config)))
               (raise err)))"

definition InstallWireRoutePersistentTunnel ::
  "'s host \<Rightarrow> nat \<Rightarrow> string \<Rightarrow> string \<Rightarrow> ('s world, mgr_error, unit) io" where
  "InstallWireRoutePersistentTunnel h fuel configPath profileID0 =
     andThen (lift_sum (normalizeWireRouteProfileID profileID0)) (\<lambda>profileID.
     andThen (load_call (LoadFromPath (store h) configPath)) (\<lambda>config.
       DoAsSystem h
         (attempt (load_call (LoadFromName (store h) (Name config))) (\<lambda>existing.
            case existing of
              Inr existing \<Rightarrow>
                if \<not> wireRoutePersistentProfileMatches existing profileID then raise ServiceNameUsedByOther
                else install_marked h fuel (mark_profile profileID config) (metrics_path h configPath) (Some existing)
            | Inl loadErr \<Rightarrow>
                if \<not> IsNotExist loadErr then raise loadErr
                else install_marked h fuel (mark_profile profileID config) (metrics_path h configPath) None))))"

definition remove_config :: "'s host \<Rightarrow> string \<Rightarrow> ('s world, mgr_error, unit) io" where
  "remove_config h name =
     attempt (store_call (DeleteName (store h) name)) (\<lambda>r.
       case r of
         Inl err \<Rightarrow> if \<not> IsNotExist err then raise err else ret ()
       | Inr _ \<Rightarrow> ret ())"

definition UninstallWireRoutePersistentTunnel :: "'s host \<Rightarrow> string \<Rightarrow> string \<Rightarrow> ('s world, mgr_error, unit) io" where
  "UninstallWireRoutePersistentTunnel h name profileID0 =
     andThen (lift_sum (normalizeWireRouteProfileID profileID0)) (\<lambda>profileID.
       if \<not> TunnelNameIsValid name then raise TunnelNameNotValid
       else DoAsSystem h
         (andThen (load_call (LoadFromName (store h) name)) (\<lambda>config.
            if \<not> wireRoutePersistentProfileMatches config profileID then raise NotOwnedByProfile
            else andThen (UninstallTunnel h name) (\<lambda>_. remove_config h name))))"

section \<open>What the services leave alone\<close>

text \<open>The stored configurations, the sessions and whether the manager is to quit.\<close>

definition stable :: "'s world \<Rightarrow> fs \<times> nat list \<times> bool \<times> bool" where
  "stable w = (files w, managerServices w, haveQuit w, quitManagersChan w)"

lemma keeps_files: "keeps stable m \<Longrightarrow> keeps files m"
  by (simp add: keeps_def stable_def)

lemma keeps_scm_call [keeps_intros]: "keeps stable (scm_call f)"
  by (auto simp: keeps_def stable_def scm_call_def split: prod.splits)

lemma keeps_start_job [keeps_intros]: "keeps stable (start_job j)"
  by (simp add: keeps_def stable_def start_job_def)

lemma keeps_load_call [keeps_intros]: "keeps obs (load_call f)"
  by (simp add: keeps_def load_call_def)

lemma keeps_serviceManager [keeps_intros]: "keeps stable (serviceManager h)"
proof -
  have "keeps stable (andThen (scm_call (scm_Connect (the_scm h))) (\<lambda>_ w. Some (Inr (), w \<lparr>cachedServiceManager := True\<rparr>)))"
    by (intro keeps_andThen keeps_scm_call) (simp add: keeps_def stable_def)
  then show ?thesis
    by (auto simp: keeps_def serviceManager_def io_run)
qed

lemma keeps_names [keeps_intros]: "keeps stable (executable h)" "keeps stable (service_name n)"
  by (simp_all add: executable_def service_name_def keeps_intros split: sum.split)

lemma keeps_wait_deleted [keeps_intros]: "keeps stable (wait_deleted h n fuel)"
  by (induction fuel) (simp_all add: keeps_intros)

lemma keeps_await_running [keeps_intros]: "keeps stable (await_running h service n fuel)"
  by (induction fuel arbitrary: n) (simp_all add: Let_def keeps_intros)

lemma keeps_replace_service [keeps_intros]: "keeps stable (replace_service h fuel n service)"
  unfolding replace_service_def Let_def by (intro keeps_intros)

lemma keeps_installTunnel [keeps_intros]: "keeps stable (installTunnel h fuel path ephemeral metrics)"
  unfolding installTunnel_def by (intro keeps_intros)

lemma keeps_UninstallTunnel [keeps_intros]: "keeps stable (UninstallTunnel h name)"
  unfolding UninstallTunnel_def by (intro keeps_intros)

section \<open>Lemmas on the store\<close>

lemma same_description:
  "CHR 0x00 \<notin> set m \<Longrightarrow> \<not> different_names (s @ [CHR 0x00]) (m @ [CHR 0x00]) \<Longrightarrow> takeWhile (\<lambda>c. c \<noteq> CHR 0x00) s = m"
proof (induction s arbitrary: m)
  case Nil
  then show ?case by (cases m) (auto split: if_splits)
next
  case (Cons a s)
  then show ?case by (cases m) (auto split: if_splits)
qed

lemma Decrypt_unique:
  assumes "Decrypt d bytes m = Inr x" "Decrypt d bytes n = Inr y"
  shows "m = n"
proof -
  obtain data desc where "unprotect d bytes = Some (data, Some desc)"
    using assms(1) by (auto simp: Decrypt_def split: if_splits option.splits)
  then show ?thesis
    using assms same_description [of m desc] same_description [of n desc]
    by (auto simp: Decrypt_def split: if_splits)
qed

lemma stored_SomeD:
  assumes "drive_path (config_dir e)" "stored e fs n = Some c"
  shows "TunnelNameIsValid n \<and> wf_config c \<and> Name c = n \<and> LoadFromName e n fs = Inr c"
proof -
  have "TunnelNameIsValid n"
    using assms(2) LoadFromName_invalid [of n e fs] by (cases "TunnelNameIsValid n") auto
  with assms show ?thesis
    using FromWgQuickWithUnknownEncoding_wf
    by (auto simp: stored_def LoadFromName_file [OF assms(1)] split: sum.splits option.splits)
qed

text \<open>Of the names that differ only in case at most one has a configuration.\<close>

lemma stored_one_case:
  assumes "drive_path (config_dir e)" "stored e fs m = Some c" "map lower_byte n = map lower_byte m" "n \<noteq> m"
  shows "stored e fs n = None"
proof (rule ccontr)
  assume "stored e fs n \<noteq> None"
  then obtain c' where n: "stored e fs n = Some c'" by blast
  note valid = stored_SomeD [OF assms(1,2)] stored_SomeD [OF assms(1) n]
  have "read_file fs (config_file e n) = read_file fs (config_file e m)"
    using assms(3) config_file_key [of e n m] by (simp add: read_file_def)
  then obtain bytes x y where "Decrypt (api e) bytes m = Inr x" "Decrypt (api e) bytes n = Inr y"
    using valid LoadFromName_file [OF assms(1), of m fs] LoadFromName_file [OF assms(1), of n fs]
    by (auto split: option.splits sum.splits)
  with assms(4) Decrypt_unique show False by blast
qed

lemma stored_Save_other:
  assumes "drive_path (config_dir e)" "Save e c ow fs = (Inr (), fs')" "map lower_byte n \<noteq> map lower_byte (Name c)"
  shows "stored e fs' n = stored e fs n"
  using Save_result [of e c ow fs] assms(2,3) tmp_file_key [of e n "randBytes e"]
  by (intro stored_cong [OF assms(1)]) (auto simp: config_file_key)

text \<open>A file system without faults, on which every valid name has a path that is not too long.\<close>

definition no_faults :: faults where
  "no_faults = \<lparr>descriptor_ok = True, create_ok = True, written = Some, flush_ok = True, rename_ok = True\<rparr>"

definition roomy :: "env \<Rightarrow> bool" where
  "roomy e \<longleftrightarrow> CHR 0x00 \<notin> set (config_dir e) \<and> (\<forall>n. TunnelNameIsValid n \<longrightarrow> utf16_length (config_file e n) \<le> MAX_PATH) \<and>
     (\<forall>d n. TunnelNameIsValid n \<longrightarrow> protect (api e) d n \<noteq> None)"

lemma hex_digit_no_nul: "d < 16 \<Longrightarrow> hex_digit d \<noteq> CHR 0x00" "d < 16 \<Longrightarrow> CHR 0x00 \<noteq> hex_digit d"
proof -
  assume "d < 16"
  then have "code (hex_digit d) \<noteq> code (CHR 0x00)"
    by (simp add: hex_digit_def)
  then show "hex_digit d \<noteq> CHR 0x00" "CHR 0x00 \<noteq> hex_digit d" by metis+
qed

lemma Save_no_faults:
  assumes "roomy e" "outcome e = no_faults" "TunnelNameIsValid (Name c)"
  shows "\<exists>fs'. Save e c True fs = (Inr (), fs')"
proof -
  obtain bytes where "protect (api e) (ToWgQuick c) (Name c) = Some bytes"
    using assms(1,3) unfolding roomy_def by blast
  then have bytes: "Encrypt (api e) (ToWgQuick c) (Name c) = Inr bytes"
    by (simp add: Encrypt_def)
  have "CHR 0x00 \<notin> set (config_file e (Name c))"
    using assms valid_name_no_nul [OF assms(3)]
    by (auto simp: config_file_def filepath_Join_def roomy_def configFileSuffix_def backslash_def)
  moreover have "CHR 0x00 \<notin> set (filepath_Join (config_dir e) (randomFileName (randBytes e)))"
    using assms(1) hex_digit_no_nul
    by (auto simp: filepath_Join_def roomy_def randomFileName_def backslash_def unat_byte_less div_less_iff_less_mult)
  moreover have "utf16_length (config_file e (Name c)) \<le> MAX_PATH"
    using assms by (simp add: roomy_def)
  ultimately show ?thesis
    using assms(2,3) bytes by (simp add: Save_def config_file_def writeLockedDownFile_def no_faults_def rename_file_def Let_def)
qed

section \<open>A failed installation leaves the store as it was\<close>

lemma stored_again: "stored (e \<lparr>randBytes := r, outcome := f\<rparr>) = stored e"
proof (cases e)
  case (fields dir a enc rb out)
  show ?thesis
    unfolding fields fun_eq_iff stored_def LoadFromName_def LoadFromPath_def env.update_convs env.select_convs by simp
qed

lemma load_call_run: "load_call f w = Some (map_sum StoreError id (f (files w)), w)"
  by (simp add: load_call_def)

lemma andThen_Inr: "m w = Some (Inr x, w1) \<Longrightarrow> andThen m f w = f x w1"
  by (simp add: andThen_def)

lemma map_sum_Inl: "map_sum f g x = Inl y \<longleftrightarrow> (\<exists>z. x = Inl z \<and> y = f z)"
  and map_sum_Inr: "map_sum f g x = Inr y' \<longleftrightarrow> (\<exists>z. x = Inr z \<and> y' = g z)"
  by (cases x; auto)+

lemma attempt_files:
  assumes "attempt m f w = Some (r, w')" "keeps files m"
  shows "\<exists>x w1. files w1 = files w \<and> f x w1 = Some (r, w')"
  using assms unfolding attempt_def keeps_def by (auto split: option.splits) blast

text \<open>The three endings of an installation that fails.\<close>

lemma install_marked_failed:
  assumes "install_marked h fuel config metrics previous w = Some (Inl err, w')"
  obtains err' fs' where "Save (store h) config True (files w) = (Inl err', fs')" "files w' = fs'"
  | fs1 r where "Save (store h) config True (files w) = (Inr (), fs1)"
      "(case previous of Some p \<Rightarrow> Save (again h) p True fs1 | None \<Rightarrow> DeleteName (again h) (Name config) fs1) = (r, files w')"
proof -
  obtain s fs1 where s: "Save (store h) config True (files w) = (s, fs1)" by fastforce
  show thesis
  proof (cases s)
    case (Inl err')
    then show thesis
      using assms s that(1) by (auto simp: install_marked_def andThen_def store_call_def)
  next
    case (Inr u)
    define inst where "inst = andThen (lift_sum (map_sum StoreError id (Path (store h) config)))
        (\<lambda>path. installTunnel h fuel path False metrics)"
    define undo :: "('a world, mgr_error, unit) io"
      where "undo = (case previous of Some p \<Rightarrow> store_call (Save (again h) p True)
        | None \<Rightarrow> store_call (DeleteName (again h) (Name config)))"
    have keep: "keeps files inst"
      unfolding inst_def by (rule keeps_files) (intro keeps_intros)
    have "store_call (Save (store h) config True) w = Some (Inr (), w \<lparr>files := fs1\<rparr>)"
      using s Inr by (simp add: store_call_def)
    then have run: "attempt inst (\<lambda>r. case r of Inr _ \<Rightarrow> ret () | Inl err \<Rightarrow> ignoring undo (raise err)) (w \<lparr>files := fs1\<rparr>)
        = Some (Inl err, w')"
      using assms unfolding install_marked_def inst_def undo_def by (simp only: andThen_Inr)
    from attempt_files [OF run keep] obtain x :: "mgr_error + unit" where "\<exists>w1. files w1 = files (w \<lparr>files := fs1\<rparr>) \<and>
      (case x of Inr _ \<Rightarrow> ret () | Inl err \<Rightarrow> ignoring undo (raise err)) w1 = Some (Inl err, w')" ..
    then obtain w1 where "files w1 = files (w \<lparr>files := fs1\<rparr>) \<and>
      (case x of Inr _ \<Rightarrow> ret () | Inl err \<Rightarrow> ignoring undo (raise err)) w1 = Some (Inl err, w')" ..
    then have "\<exists>r. (case previous of Some p \<Rightarrow> Save (again h) p True fs1 | None \<Rightarrow> DeleteName (again h) (Name config) fs1) = (r, files w')"
      by (auto simp: undo_def ignoring_def attempt_def store_call_def io_run split: sum.splits option.splits prod.splits)
    then show thesis using that(2) s Inr by auto
  qed
qed

lemma LoadFromName_missing:
  assumes "drive_path (config_dir e)" "LoadFromName e n fs = Inl FileNotFound"
  shows "TunnelNameIsValid n \<and> read_file fs (config_file e n) = None"
proof (cases "TunnelNameIsValid n")
  case True
  with assms show ?thesis
    by (auto simp: LoadFromName_file Decrypt_def split: option.splits sum.splits if_splits)
qed (use assms in \<open>simp add: LoadFromName_def\<close>)

lemma restore_previous:
  assumes e: "good_env e" "roomy e" and p: "stored e fs (Name config) = Some p"
    and saved: "Save e config True fs = (Inr (), fs1)"
    and undo: "Save (e \<lparr>randBytes := r, outcome := no_faults\<rparr>) p True fs1 = (x, fs2)"
  shows "stored e fs2 n = stored e fs n"
proof -
  let ?a = "e \<lparr>randBytes := r, outcome := no_faults\<rparr>"
  have dir: "drive_path (config_dir e)" "dpapi_inverse (api e)" using e(1) by (simp_all add: good_env_def)
  note p' = stored_SomeD [OF dir(1) p]
  have "roomy ?a" using e(2) by (simp add: roomy_def config_file_def)
  then have "x = Inr ()"
    using Save_no_faults [of ?a p fs1] p' undo by auto
  then have after: "stored e fs2 n = (if n = Name p then Some p
      else if map lower_byte n = map lower_byte (Name p) then None else stored e fs1 n)"
    using stored_Save [of ?a p True fs1 fs2 n] dir p' undo by (simp add: stored_again)
  show ?thesis
    using after p p' stored_one_case [OF dir(1) p, of n] stored_Save_other [OF dir(1) saved, of n] by auto
qed

lemma remove_new:
  assumes e: "good_env e" and miss: "LoadFromName e (Name config) fs = Inl FileNotFound"
    and saved: "Save e config True fs = (Inr (), fs1)"
    and undo: "DeleteName (e \<lparr>randBytes := r, outcome := f\<rparr>) (Name config) fs1 = (x, fs2)"
  shows "stored e fs2 n = stored e fs n"
proof -
  have dir: "drive_path (config_dir e)" using e by (simp add: good_env_def)
  note m = LoadFromName_missing [OF dir miss]
  have "read_file fs1 (config_file e (Name config)) \<noteq> None"
    using Save_result [of e config True fs] saved by auto
  then have undo': "DeleteName e (Name config) fs1 = (Inr (), fs2)"
    using undo m by (auto simp: DeleteName_def os_Remove_def config_file_def)
  have "stored e fs n = None" if "map lower_byte n = map lower_byte (Name config)"
  proof -
    have "read_file fs (config_file e n) = None"
      using m that config_file_key [of e n "Name config"] by (simp add: read_file_def)
    then show ?thesis
      using LoadFromName_file [OF dir, of n fs] LoadFromName_invalid [of n e fs]
      by (cases "TunnelNameIsValid n") (simp_all add: stored_def)
  qed
  then show ?thesis
    using stored_DeleteName(1) [OF dir undo', of n] stored_Save_other [OF dir saved, of n] by auto
qed


text \<open>A computer for the witness: the store of the sample environment is empty, the configuration to be
  installed is in a file elsewhere, and the service control manager refuses every connection.\<close>

definition refusing_scm :: "unit scm" where
  "refusing_scm = \<lparr>scm_Connect = (\<lambda>s. (Inl 5, s)), scm_OpenService = (\<lambda>_ s. (Inl 5, s)),
     scm_CreateService = (\<lambda>_ _ _ _ s. (Inl 5, s)), svc_Query = (\<lambda>_ s. (Inl 5, s)), svc_Start = (\<lambda>_ s. (Inl 5, s)),
     svc_ControlStop = (\<lambda>_ s. (Inl 5, s)), svc_Delete = (\<lambda>_ s. (Inl 5, s)), svc_Close = (\<lambda>_ s. (Inl 5, s))\<rparr>"

definition sample_host :: "unit host" where
  "sample_host = \<lparr>the_scm = refusing_scm, os_Executable = Inr ''w.exe'', store = sample_env,
     again = sample_env \<lparr>randBytes := [7], outcome := no_faults\<rparr>, ReadDir = (\<lambda>_. Inr []), as_system = None,
     after_deadline = (\<lambda>_. True), metrics_path = (\<lambda>_. ''m''), OpenAdapter = (\<lambda>_. None),
     adapter_Configuration = (\<lambda>_. Inl 5)\<rparr>"

definition sample_world :: "unit world" where
  "sample_world = \<lparr>files = plain_file, svcs = (), cachedServiceManager = False, trackedTunnels = [],
     driverAdapters = [], managerServices = [], haveQuit = False, quitManagersChan = False, jobs = []\<rparr>"

lemma sample_env_roomy: "roomy sample_env"
proof -
  have "utf16_length s \<le> Suc (2 * length s)" for s
    using length_filter_le [of _ s] by (simp add: utf16_length_def mult_2 add_mono)
  note bound = this [of "config_file sample_env _"]
  have "utf16_length (config_file sample_env n) \<le> MAX_PATH" if "TunnelNameIsValid n" for n
  proof -
    have "length (config_file sample_env n) \<le> 46"
      using valid_name_length [OF that] by (simp add: config_file_def filepath_Join_def sample_env_def configFileSuffix_def)
    then show ?thesis
      using bound [of n] by (simp add: MAX_PATH_def)
  qed
  then show ?thesis
    using valid_name_no_nul by (auto simp: roomy_def sample_env_def plain_dpapi_def)
qed


lemma UninstallTunnel_files: "UninstallTunnel h name w = Some (r, w') \<Longrightarrow> files w' = files w"
  by (rule keepsD [OF keeps_files [OF keeps_UninstallTunnel]])

text \<open>Uninstalling the persistent tunnel of a profile removes at most the configuration of the given
  name, only when it is marked as owned by the profile, and only after the service has been removed.\<close>

theorem UninstallWireRoutePersistentTunnel_owner:
  assumes "good_env (store h)" "UninstallWireRoutePersistentTunnel h name profileID w = Some (r, w')"
    "stored (store h) (files w') n \<noteq> stored (store h) (files w) n"
  shows "r = Inr () \<and> map lower_byte n = map lower_byte name \<and>
    (\<exists>c pid. stored (store h) (files w) name = Some c \<and> normalizeWireRouteProfileID profileID = Inr pid \<and>
       wireRoutePersistentProfileMatches c pid) \<and> (\<exists>w1. UninstallTunnel h name w = Some (Inr (), w1))"
proof -
  have dir: "drive_path (config_dir (store h))" using assms(1) by (simp add: good_env_def)
  have changed: "files w' \<noteq> files w" using assms(3) by auto
  obtain pid where pid: "normalizeWireRouteProfileID profileID = Inr pid"
    and run: "(if \<not> TunnelNameIsValid name then raise TunnelNameNotValid
       else DoAsSystem h
         (andThen (load_call (LoadFromName (store h) name)) (\<lambda>config.
            if \<not> wireRoutePersistentProfileMatches config pid then raise NotOwnedByProfile
            else andThen (UninstallTunnel h name) (\<lambda>_. remove_config h name)))) w = Some (r, w')"
    using assms(2) changed
    by (auto simp: UninstallWireRoutePersistentTunnel_def remove_config_def io_run elim!: andThenE)
  from run changed have "andThen (load_call (LoadFromName (store h) name)) (\<lambda>config.
      if \<not> wireRoutePersistentProfileMatches config pid then raise NotOwnedByProfile
      else andThen (UninstallTunnel h name) (\<lambda>_. remove_config h name)) w = Some (r, w')"
    by (auto simp: DoAsSystem_def io_run split: if_splits option.splits)
  then obtain c where c: "LoadFromName (store h) name (files w) = Inr c" "wireRoutePersistentProfileMatches c pid"
    and run: "andThen (UninstallTunnel h name) (\<lambda>_. remove_config h name) w = Some (r, w')"
    using changed by (auto simp: load_call_run io_run map_sum_Inr elim!: andThenE split: if_splits)
  from run obtain w1 where w1: "UninstallTunnel h name w = Some (Inr (), w1)" and run: "remove_config h name w1 = Some (r, w')"
    using changed by (elim andThenE) (auto dest: UninstallTunnel_files)
  note same = UninstallTunnel_files [OF w1]
  obtain x fs' where x: "DeleteName (store h) name (files w1) = (x, fs')" by fastforce
  then have w': "files w' = fs'" "r = Inr () \<or> isl x"
    using run by (cases x; auto simp: remove_config_def attempt_def store_call_def io_run split: sum.splits if_splits)+
  have "stored (store h) (files w') n = (if \<not> isl x \<and> map lower_byte n = map lower_byte name then None
      else stored (store h) (files w) n)"
    using x w'(1) same stored_DeleteName [OF dir, of name "files w1"] by (cases x) auto
  with assms(3) have "\<not> isl x" "map lower_byte n = map lower_byte name"
    by (auto split: if_splits)
  then show ?thesis
    using w'(2) c pid w1 by (auto simp: stored_def)
qed

definition owned_host :: "unit host" where
  "owned_host = sample_host \<lparr>the_scm := refusing_scm \<lparr>scm_Connect := (\<lambda>s. (Inr (), s)), scm_OpenService := (\<lambda>_ s. (Inl 1060, s))\<rparr>\<rparr>"

definition owned_world :: "unit world" where
  "owned_world = sample_world \<lparr>files :=
     snd (Save sample_env (mark_profile ''00112233445566778899aabbccddeeff'' minimal_config) True Map.empty)\<rparr>"

theorem UninstallWireRoutePersistentTunnel_owner_witness:
  "\<exists>w' c. UninstallWireRoutePersistentTunnel owned_host ''wg0'' '' 00112233445566778899AABBCCDDEEFF '' owned_world = Some (Inr (), w') \<and>
    stored sample_env (files owned_world) ''wg0'' = Some c \<and>
    wireRoutePersistentProfileMatches c ''00112233445566778899aabbccddeeff''"
proof -
  let ?run = "UninstallWireRoutePersistentTunnel owned_host ''wg0'' '' 00112233445566778899AABBCCDDEEFF '' owned_world"
  have "map_option (\<lambda>(r, w'). (isl r, Option.is_none (stored sample_env (files w') ''wg0''))) ?run = Some (False, True)"
    by code_simp
  then obtain w' where w': "?run = Some (Inr (), w')" "stored sample_env (files w') ''wg0'' = None"
    by (auto simp: Option.is_none_def isl_def) (metis old.unit.exhaust sum.exhaust)
  have before: "\<not> Option.is_none (stored sample_env (files owned_world) ''wg0'')"
    by code_simp
  have host: "store owned_host = sample_env"
    by (simp add: owned_host_def sample_host_def)
  have "normalizeWireRouteProfileID '' 00112233445566778899AABBCCDDEEFF '' = Inr ''00112233445566778899aabbccddeeff''"
    by code_simp
  then show ?thesis
    using UninstallWireRoutePersistentTunnel_owner [OF _ w'(1), of "''wg0''"] w' before
    by (auto simp: host sample_env_good Option.is_none_def)
qed

end
