(* ===== verification/Manager_Session.thy ===== *)
theory Manager_Session
  imports Manager_Services
begin

text \<open>
  A session of the manager: the operations of \<open>ManagerService\<close> and the server of \<open>manager/ipc_server.go\<close>,
  with the client of \<open>manager/ipc_client.go\<close>.  The two streams of \<open>gob\<close> values between them are lists of
  values; a decoder fails at the end of its list and on a value of another type.
\<close>

section \<open>The state of all tunnels\<close>

fun global_state :: "TunnelState list \<Rightarrow> TunnelState \<Rightarrow> TunnelState" where
  "global_state [] state = state"
| "global_state (s # ss) state =
     (if s = TunnelStarting then TunnelStarting
      else if s = TunnelStopping then TunnelStopping
      else if s = TunnelStarted \<or> s = TunnelUnknown then global_state ss TunnelStarted
      else global_state ss state)"

definition trackedTunnelsGlobalState :: "'s world \<Rightarrow> TunnelState" where
  "trackedTunnelsGlobalState w = global_state (map snd (trackedTunnels w)) TunnelStopped"

section \<open>The operations\<close>

text \<open>\<open>elevatedToken\<close> is 0 in a session of a user without administrator rights.\<close>

record session =
  sid :: nat
  elevatedToken :: nat

definition ERROR_ACCESS_DENIED :: errno where "ERROR_ACCESS_DENIED = 5"

definition redacted :: "session \<Rightarrow> Config \<Rightarrow> Config" where
  "redacted s c = (if elevatedToken s = 0 then Redact c else c)"

definition StoredConfig :: "'s host \<Rightarrow> session \<Rightarrow> string \<Rightarrow> ('s world, mgr_error, Config) io" where
  "StoredConfig h s tunnelName =
     andThen (load_call (LoadFromName (store h) tunnelName)) (\<lambda>c. ret (redacted s c))"

definition findDriverAdapter :: "'s host \<Rightarrow> string \<Rightarrow> ('s world, mgr_error, unit) io" where
  "findDriverAdapter h tunnelName w =
     (if tunnelName \<in> set (driverAdapters w) then ret () w
      else case OpenAdapter h tunnelName of
             Some err \<Rightarrow> raise (Errno err) w
           | None \<Rightarrow> Some (Inr (), w \<lparr>driverAdapters := tunnelName # driverAdapters w\<rparr>))"

definition releaseDriverAdapter :: "string \<Rightarrow> ('s world, mgr_error, unit) io" where
  "releaseDriverAdapter tunnelName w = Some (Inr (), w \<lparr>driverAdapters := removeAll tunnelName (driverAdapters w)\<rparr>)"

text \<open>A configuration of the driver that points outside its memory has no result.\<close>

definition RuntimeConfig :: "'s host \<Rightarrow> session \<Rightarrow> string \<Rightarrow> ('s world, mgr_error, Config) io" where
  "RuntimeConfig h s tunnelName =
     andThen (load_call (LoadFromName (store h) tunnelName)) (\<lambda>storedConfig.
     andThen (findDriverAdapter h tunnelName) (\<lambda>_.
       case adapter_Configuration h tunnelName of
         Inl err \<Rightarrow> ignoring (releaseDriverAdapter tunnelName) (raise (Errno err))
       | Inr mem \<Rightarrow>
           (case FromDriverConfiguration mem storedConfig of
              None \<Rightarrow> diverge
            | Some c \<Rightarrow> ret (redacted s c))))"

text \<open>The tunnels to stop and one that has not finished starting, in the order in which the map of the
  tracked tunnels is visited.\<close>

fun start_scan :: "env \<Rightarrow> fs \<Rightarrow> Config \<Rightarrow> (string \<times> TunnelState) list \<Rightarrow> string list \<Rightarrow> string list \<times> string" where
  "start_scan e fs c [] tt = (tt, [])"
| "start_scan e fs c ((t, state) # rest) tt =
     (case LoadFromName e t fs of
        Inl _ \<Rightarrow> start_scan e fs c rest tt
      | Inr c2 \<Rightarrow>
          if \<not> IntersectsWith c c2 then start_scan e fs c rest tt
          else if 0 < length t \<and> (state = TunnelStarting \<or> state = TunnelUnknown) then (tt @ [t], t)
          else start_scan e fs c rest (tt @ [t]))"

definition Start :: "'s host \<Rightarrow> nat \<Rightarrow> session \<Rightarrow> string \<Rightarrow> ('s world, mgr_error, unit) io" where
  "Start h fuel s tunnelName =
     andThen (load_call (LoadFromName (store h) tunnelName)) (\<lambda>c.
     andThen (\<lambda>w. Some (Inr (start_scan (store h) (files w) c (trackedTunnels w) []), w)) (\<lambda>(tt, inTransition).
       if length inTransition \<noteq> 0 then raise (InTransition inTransition)
       else andThen (start_job (StopTunnels tt)) (\<lambda>_.
            andThen (lift_sum (map_sum StoreError id (Path (store h) c))) (\<lambda>path. InstallTunnel h fuel path))))"

definition Stop :: "'s host \<Rightarrow> string \<Rightarrow> ('s world, mgr_error, unit) io" where
  "Stop h tunnelName =
     attempt (UninstallTunnel h tunnelName) (\<lambda>r.
       case r of
         Inr _ \<Rightarrow> ret ()
       | Inl err \<Rightarrow>
           if err = Errno ERROR_SERVICE_DOES_NOT_EXIST then
             attempt (load_call (LoadFromName (store h) tunnelName)) (\<lambda>c.
               case c of Inr _ \<Rightarrow> ret () | Inl _ \<Rightarrow> raise err)
           else raise err)"

fun wait_stopped :: "'s host \<Rightarrow> string \<Rightarrow> nat \<Rightarrow> ('s world, mgr_error, unit) io" where
  "wait_stopped h serviceName 0 = diverge"
| "wait_stopped h serviceName (Suc fuel) =
     attempt (scm_call (scm_OpenService (the_scm h) serviceName)) (\<lambda>r.
       case r of
         Inr service \<Rightarrow> ignoring (scm_call (svc_Close (the_scm h) service)) (wait_stopped h serviceName fuel)
       | Inl err \<Rightarrow> if err = Errno ERROR_SERVICE_MARKED_FOR_DELETE then wait_stopped h serviceName fuel else ret ())"

definition WaitForStop :: "'s host \<Rightarrow> nat \<Rightarrow> string \<Rightarrow> ('s world, mgr_error, unit) io" where
  "WaitForStop h fuel tunnelName =
     andThen (service_name tunnelName) (\<lambda>serviceName. andThen (serviceManager h) (\<lambda>_. wait_stopped h serviceName fuel))"

definition Delete :: "'s host \<Rightarrow> session \<Rightarrow> string \<Rightarrow> ('s world, mgr_error, unit) io" where
  "Delete h s tunnelName =
     (if elevatedToken s = 0 then raise (Errno ERROR_ACCESS_DENIED)
      else andThen (Stop h tunnelName) (\<lambda>_. store_call (DeleteName (store h) tunnelName)))"

fun state_of :: "svc_state \<Rightarrow> TunnelState" where
  "state_of svcStopped = TunnelStopped"
| "state_of svcStopPending = TunnelStopping"
| "state_of svcRunning = TunnelStarted"
| "state_of svcStartPending = TunnelStarting"
| "state_of svcOther = TunnelUnknown"

definition State :: "'s host \<Rightarrow> string \<Rightarrow> ('s world, mgr_error, TunnelState) io" where
  "State h tunnelName =
     andThen (service_name tunnelName) (\<lambda>serviceName.
     andThen (serviceManager h) (\<lambda>_.
     attempt (scm_call (scm_OpenService (the_scm h) serviceName)) (\<lambda>r.
       case r of
         Inl _ \<Rightarrow> ret TunnelStopped
       | Inr service \<Rightarrow>
           deferring (scm_call (svc_Close (the_scm h) service))
             (attempt (scm_call (svc_Query (the_scm h) service)) (\<lambda>q.
                case q of Inl _ \<Rightarrow> ret TunnelUnknown | Inr status \<Rightarrow> ret (state_of status))))))"

text \<open>\<open>state, _ := s.State(name)\<close>: the zero value of a state is \<open>TunnelUnknown\<close>.\<close>

definition state_or_unknown :: "'s host \<Rightarrow> string \<Rightarrow> ('s world, mgr_error, TunnelState) io" where
  "state_or_unknown h tunnelName =
     attempt (State h tunnelName) (\<lambda>r. case r of Inl _ \<Rightarrow> ret TunnelUnknown | Inr st \<Rightarrow> ret st)"

text \<open>The work that \<open>Start\<close> leaves to a goroutine: stop the tunnels, and once more those that still run.\<close>

fun stop_all :: "'s host \<Rightarrow> string list \<Rightarrow> ('s world, mgr_error, unit) io" where
  "stop_all h [] = ret ()"
| "stop_all h (t # tt) = ignoring (Stop h t) (stop_all h tt)"

fun stop_zombies :: "'s host \<Rightarrow> string list \<Rightarrow> ('s world, mgr_error, unit) io" where
  "stop_zombies h [] = ret ()"
| "stop_zombies h (t # tt) =
     attempt (State h t) (\<lambda>r.
       if r = Inr TunnelStarted \<or> r = Inr TunnelStarting then ignoring (Stop h t) (stop_zombies h tt)
       else stop_zombies h tt)"

definition stop_intersecting :: "'s host \<Rightarrow> string list \<Rightarrow> ('s world, mgr_error, unit) io" where
  "stop_intersecting h tt = andThen (stop_all h tt) (\<lambda>_. stop_zombies h tt)"

definition Create :: "'s host \<Rightarrow> session \<Rightarrow> Config \<Rightarrow> ('s world, mgr_error, string) io" where
  "Create h s tunnelConfig =
     (if elevatedToken s = 0 then raise (Errno ERROR_ACCESS_DENIED)
      else andThen (store_call (Save (store h) tunnelConfig True)) (\<lambda>_. ret (Name tunnelConfig)))"

definition config_names :: "'s host \<Rightarrow> fs \<Rightarrow> store_error + string list" where
  "config_names h fs = map_sum id ListConfigNames (ReadDir h fs)"

definition Tunnels :: "'s host \<Rightarrow> ('s world, mgr_error, string list) io" where
  "Tunnels h = load_call (config_names h)"

fun uninstall_all :: "'s host \<Rightarrow> string list \<Rightarrow> ('s world, mgr_error, unit) io" where
  "uninstall_all h [] = ret ()"
| "uninstall_all h (n # ns) = ignoring (UninstallTunnel h n) (uninstall_all h ns)"

definition leave :: "session \<Rightarrow> ('s world, mgr_error, unit) io" where
  "leave s w = Some (Inr (), w \<lparr>managerServices := removeAll (sid s) (managerServices w)\<rparr>)"

definition quit_managers :: "('s world, mgr_error, unit) io" where
  "quit_managers w = Some (Inr (), w \<lparr>quitManagersChan := True\<rparr>)"

definition Quit :: "'s host \<Rightarrow> session \<Rightarrow> bool \<Rightarrow> ('s world, mgr_error, bool) io" where
  "Quit h s stopTunnelsOnQuit w =
     (if elevatedToken s = 0 then raise (Errno ERROR_ACCESS_DENIED) w
      else if haveQuit w then ret True w
      else andThen (leave s) (\<lambda>_.
           andThen (if stopTunnelsOnQuit then andThen (load_call (config_names h)) (uninstall_all h) else ret ()) (\<lambda>_.
           andThen quit_managers (\<lambda>_. ret False))) (w \<lparr>haveQuit := True\<rparr>))"

definition Update :: "session \<Rightarrow> ('s world, mgr_error, unit) io" where
  "Update s = (if elevatedToken s = 0 then ret () else start_job RunUpdate)"

section \<open>The server\<close>

datatype MethodType =
    StoredConfigMethodType | RuntimeConfigMethodType | StartMethodType | StopMethodType | WaitForStopMethodType
  | DeleteMethodType | StateMethodType | GlobalStateMethodType | CreateMethodType | TunnelsMethodType
  | QuitMethodType | UpdateStateMethodType | UpdateMethodType

datatype NotificationType =
    TunnelChangeNotificationType | TunnelsChangeNotificationType | ManagerStoppingNotificationType
  | UpdateFoundNotificationType | UpdateProgressNotificationType

datatype UpdateState = UpdateStateUnknown | UpdateStateFoundUpdate | UpdateStateUpdatesDisabledUnofficialBuild

text \<open>The values on the streams.\<close>

datatype gob =
    GMethod MethodType | GString string | GConfig Config | GState TunnelState | GTunnel string
  | GTunnels "string list" | GBool bool | GUpdateState UpdateState | GUint64 "64 word"
  | GNotification NotificationType

text \<open>\<open>errToString\<close>; \<open>msg\<close> gives the text of an error.\<close>

definition errToString :: "(mgr_error \<Rightarrow> string) \<Rightarrow> mgr_error + 'a \<Rightarrow> string" where
  "errToString msg r = (case r of Inl err \<Rightarrow> msg err | Inr _ \<Rightarrow> [])"

definition zero_Config :: Config where
  "zero_Config = \<lparr>Name = [], config_Interface = zero_Interface, Peers = [], TrailingComments = []\<rparr>"

text \<open>The calls of a client with their arguments.\<close>

datatype rpc =
    CallStoredConfig string | CallRuntimeConfig string | CallStart string | CallStop string | CallWaitForStop string
  | CallDelete string | CallState string | CallGlobalState | CallCreate Config | CallTunnels | CallQuit bool
  | CallUpdateState | CallUpdate

text \<open>A decoder takes the first value of its stream when it has the type asked for.\<close>

fun as_string :: "gob \<Rightarrow> string option" where "as_string (GString x) = Some x" | "as_string _ = None"
fun as_method :: "gob \<Rightarrow> MethodType option" where "as_method (GMethod x) = Some x" | "as_method _ = None"
fun as_config :: "gob \<Rightarrow> Config option" where "as_config (GConfig x) = Some x" | "as_config _ = None"
fun as_state :: "gob \<Rightarrow> TunnelState option" where "as_state (GState x) = Some x" | "as_state _ = None"
fun as_tunnel :: "gob \<Rightarrow> string option" where "as_tunnel (GTunnel x) = Some x" | "as_tunnel _ = None"
fun as_tunnels :: "gob \<Rightarrow> string list option" where "as_tunnels (GTunnels x) = Some x" | "as_tunnels _ = None"
fun as_bool :: "gob \<Rightarrow> bool option" where "as_bool (GBool x) = Some x" | "as_bool _ = None"
fun as_update_state :: "gob \<Rightarrow> UpdateState option" where
  "as_update_state (GUpdateState x) = Some x" | "as_update_state _ = None"
fun as_uint64 :: "gob \<Rightarrow> 64 word option" where "as_uint64 (GUint64 x) = Some x" | "as_uint64 _ = None"
fun as_notification :: "gob \<Rightarrow> NotificationType option" where
  "as_notification (GNotification x) = Some x" | "as_notification _ = None"

definition decode :: "('v \<Rightarrow> 'a option) \<Rightarrow> 'v list \<Rightarrow> ('a \<times> 'v list) option" where
  "decode f gs = (case gs of [] \<Rightarrow> None | g # gs' \<Rightarrow> (case f g of None \<Rightarrow> None | Some x \<Rightarrow> Some (x, gs')))"

definition decoding ::
  "('v \<Rightarrow> 'a option) \<Rightarrow> ('a \<Rightarrow> 'v list \<Rightarrow> ('b \<times> 'v list) option) \<Rightarrow> 'v list \<Rightarrow> ('b \<times> 'v list) option" where
  "decoding f k gs = (case decode f gs of None \<Rightarrow> None | Some (x, gs') \<Rightarrow> k x gs')"

lemma decoding_Cons [simp]: "decoding f k (g # gs) = (case f g of None \<Rightarrow> None | Some x \<Rightarrow> k x gs)"
  by (simp add: decoding_def decode_def split: option.split)

lemma decoding_Nil [simp]: "decoding f k [] = None"
  by (simp add: decoding_def decode_def)

definition decoded :: "'b \<Rightarrow> 'v list \<Rightarrow> ('b \<times> 'v list) option" where
  [simp]: "decoded x gs = Some (x, gs)"

lemma decoding_length:
  assumes "decoding f k gs = Some (y, gs')" "\<And>x gs1. k x gs1 = Some (y, gs') \<Longrightarrow> length gs' \<le> length gs1"
  shows "length gs' < length gs"
proof (cases gs)
  case (Cons g gs1)
  with assms(1) obtain x where "k x gs1 = Some (y, gs')" by (auto split: option.splits)
  with assms(2) [of x gs1] Cons show ?thesis by simp
qed (use assms(1) in simp)

text \<open>The arguments of a method.\<close>

fun read_call :: "MethodType \<Rightarrow> gob list \<Rightarrow> (rpc \<times> gob list) option" where
  "read_call StoredConfigMethodType = decoding as_string (\<lambda>n. decoded (CallStoredConfig n))"
| "read_call RuntimeConfigMethodType = decoding as_string (\<lambda>n. decoded (CallRuntimeConfig n))"
| "read_call StartMethodType = decoding as_string (\<lambda>n. decoded (CallStart n))"
| "read_call StopMethodType = decoding as_string (\<lambda>n. decoded (CallStop n))"
| "read_call WaitForStopMethodType = decoding as_string (\<lambda>n. decoded (CallWaitForStop n))"
| "read_call DeleteMethodType = decoding as_string (\<lambda>n. decoded (CallDelete n))"
| "read_call StateMethodType = decoding as_string (\<lambda>n. decoded (CallState n))"
| "read_call GlobalStateMethodType = decoded CallGlobalState"
| "read_call CreateMethodType = decoding as_config (\<lambda>c. decoded (CallCreate c))"
| "read_call TunnelsMethodType = decoded CallTunnels"
| "read_call QuitMethodType = decoding as_bool (\<lambda>b. decoded (CallQuit b))"
| "read_call UpdateStateMethodType = decoded CallUpdateState"
| "read_call UpdateMethodType = decoded CallUpdate"

text \<open>What the server does for a call: it runs the operation and encodes the result.  \<open>us\<close> is the state of the
  update check.\<close>

definition reply :: "('e + 'a \<Rightarrow> gob list) \<Rightarrow> ('w, 'e, 'a) io \<Rightarrow> 'w \<Rightarrow> (gob list \<times> 'w) option" where
  "reply enc m w = (case m w of None \<Rightarrow> None | Some (r, w') \<Rightarrow> Some (enc r, w'))"

definition enc_error :: "(mgr_error \<Rightarrow> string) \<Rightarrow> mgr_error + 'a \<Rightarrow> gob list" where
  "enc_error msg r = [GString (errToString msg r)]"

definition enc_value :: "(mgr_error \<Rightarrow> string) \<Rightarrow> ('a \<Rightarrow> gob) \<Rightarrow> 'a \<Rightarrow> mgr_error + 'a \<Rightarrow> gob list" where
  "enc_value msg g zero r = [g (case r of Inl _ \<Rightarrow> zero | Inr x \<Rightarrow> x), GString (errToString msg r)]"

fun serve_call ::
  "'s host \<Rightarrow> nat \<Rightarrow> (mgr_error \<Rightarrow> string) \<Rightarrow> UpdateState \<Rightarrow> session \<Rightarrow> rpc \<Rightarrow> 's world \<Rightarrow> (gob list \<times> 's world) option" where
  "serve_call h fuel msg us s (CallStoredConfig n) w = reply (enc_value msg GConfig zero_Config) (StoredConfig h s n) w"
| "serve_call h fuel msg us s (CallRuntimeConfig n) w = reply (enc_value msg GConfig zero_Config) (RuntimeConfig h s n) w"
| "serve_call h fuel msg us s (CallStart n) w = reply (enc_error msg) (Start h fuel s n) w"
| "serve_call h fuel msg us s (CallStop n) w = reply (enc_error msg) (Stop h n) w"
| "serve_call h fuel msg us s (CallWaitForStop n) w = reply (enc_error msg) (WaitForStop h fuel n) w"
| "serve_call h fuel msg us s (CallDelete n) w = reply (enc_error msg) (Delete h s n) w"
| "serve_call h fuel msg us s (CallState n) w = reply (enc_value msg GState TunnelUnknown) (State h n) w"
| "serve_call h fuel msg us s CallGlobalState w = Some ([GState (trackedTunnelsGlobalState w)], w)"
| "serve_call h fuel msg us s (CallCreate c) w = reply (enc_value msg GTunnel []) (Create h s c) w"
| "serve_call h fuel msg us s CallTunnels w = reply (enc_value msg GTunnels []) (Tunnels h) w"
| "serve_call h fuel msg us s (CallQuit b) w = reply (enc_value msg GBool False) (Quit h s b) w"
| "serve_call h fuel msg us s CallUpdateState w = Some ([GUpdateState us], w)"
| "serve_call h fuel msg us s CallUpdate w = reply (\<lambda>_. []) (Update s) w"

lemma read_call_length: "read_call m gs = Some (c, gs') \<Longrightarrow> length gs' \<le> length gs"
  by (cases m) (auto dest!: decoding_length)

text \<open>\<open>ServeConn\<close>: requests are answered in turn until one cannot be decoded.\<close>

function ServeConn ::
  "'s host \<Rightarrow> nat \<Rightarrow> (mgr_error \<Rightarrow> string) \<Rightarrow> UpdateState \<Rightarrow> session \<Rightarrow> gob list \<Rightarrow> 's world \<Rightarrow> (gob list \<times> 's world) option" where
  "ServeConn h fuel msg us s gs w =
     (case gs of
        GMethod m # gs1 \<Rightarrow>
          (case read_call m gs1 of
             None \<Rightarrow> Some ([], w)
           | Some (c, gs2) \<Rightarrow>
               (case serve_call h fuel msg us s c w of
                  None \<Rightarrow> None
                | Some (out, w1) \<Rightarrow>
                    (case ServeConn h fuel msg us s gs2 w1 of
                       None \<Rightarrow> None
                     | Some (out2, w2) \<Rightarrow> Some (out @ out2, w2))))
      | _ \<Rightarrow> Some ([], w))"
  by pat_completeness auto
termination
  by (relation "measure (\<lambda>(h, fuel, msg, us, s, gs, w). length gs)") (auto dest: read_call_length)

declare ServeConn.simps [simp del]

section \<open>The client\<close>

text \<open>What a client encodes for a call.\<close>

fun rpc_request :: "rpc \<Rightarrow> gob list" where
  "rpc_request (CallStoredConfig n) = [GMethod StoredConfigMethodType, GString n]"
| "rpc_request (CallRuntimeConfig n) = [GMethod RuntimeConfigMethodType, GString n]"
| "rpc_request (CallStart n) = [GMethod StartMethodType, GString n]"
| "rpc_request (CallStop n) = [GMethod StopMethodType, GString n]"
| "rpc_request (CallWaitForStop n) = [GMethod WaitForStopMethodType, GString n]"
| "rpc_request (CallDelete n) = [GMethod DeleteMethodType, GString n]"
| "rpc_request (CallState n) = [GMethod StateMethodType, GString n]"
| "rpc_request CallGlobalState = [GMethod GlobalStateMethodType]"
| "rpc_request (CallCreate c) = [GMethod CreateMethodType, GConfig c]"
| "rpc_request CallTunnels = [GMethod TunnelsMethodType]"
| "rpc_request (CallQuit b) = [GMethod QuitMethodType, GBool b]"
| "rpc_request CallUpdateState = [GMethod UpdateStateMethodType]"
| "rpc_request CallUpdate = [GMethod UpdateMethodType]"

text \<open>The result of a call at the client: a value and the text of an error, \<^const>\<open>None\<close> for nil.\<close>

datatype answer =
    AConfig Config "string option" | AError "string option" | AState TunnelState "string option"
  | AGlobalState TunnelState | ATunnel string "string option" | ATunnels "string list" "string option"
  | AQuit bool "string option" | AUpdateState UpdateState | ANone

definition rpcDecodeError :: "(string option \<Rightarrow> 'b) \<Rightarrow> gob list \<Rightarrow> ('b \<times> gob list) option" where
  "rpcDecodeError k = decoding as_string (\<lambda>str. decoded (k (if length str = 0 then None else Some str)))"

fun decode_answer :: "rpc \<Rightarrow> gob list \<Rightarrow> (answer \<times> gob list) option" where
  "decode_answer (CallStoredConfig n) = decoding as_config (\<lambda>c. rpcDecodeError (AConfig c))"
| "decode_answer (CallRuntimeConfig n) = decoding as_config (\<lambda>c. rpcDecodeError (AConfig c))"
| "decode_answer (CallStart n) = rpcDecodeError AError"
| "decode_answer (CallStop n) = rpcDecodeError AError"
| "decode_answer (CallWaitForStop n) = rpcDecodeError AError"
| "decode_answer (CallDelete n) = rpcDecodeError AError"
| "decode_answer (CallState n) = decoding as_state (\<lambda>st. rpcDecodeError (AState st))"
| "decode_answer CallGlobalState = decoding as_state (\<lambda>st. decoded (AGlobalState st))"
| "decode_answer (CallCreate c) = decoding as_tunnel (\<lambda>t. rpcDecodeError (ATunnel t))"
| "decode_answer CallTunnels = decoding as_tunnels (\<lambda>ts. rpcDecodeError (ATunnels ts))"
| "decode_answer (CallQuit b) = decoding as_bool (\<lambda>q. rpcDecodeError (AQuit q))"
| "decode_answer CallUpdateState = decoding as_update_state (\<lambda>u. decoded (AUpdateState u))"
| "decode_answer CallUpdate = decoded ANone"

text \<open>The answers to a sequence of calls.\<close>

fun decode_answers :: "rpc list \<Rightarrow> gob list \<Rightarrow> (answer list \<times> gob list) option" where
  "decode_answers [] gs = Some ([], gs)"
| "decode_answers (c # cs) gs =
     (case decode_answer c gs of
        None \<Rightarrow> None
      | Some (a, gs') \<Rightarrow> map_option (apfst ((#) a)) (decode_answers cs gs'))"

section \<open>The contract\<close>

text \<open>The calls as the operations themselves, without streams.\<close>

definition outcome_of :: "(mgr_error \<Rightarrow> string) \<Rightarrow> ('a \<Rightarrow> string option \<Rightarrow> answer) \<Rightarrow> 'a \<Rightarrow> mgr_error + 'a \<Rightarrow> answer" where
  "outcome_of msg k zero r = (case r of Inl err \<Rightarrow> k zero (Some (msg err)) | Inr x \<Rightarrow> k x None)"

fun direct_call ::
  "'s host \<Rightarrow> nat \<Rightarrow> (mgr_error \<Rightarrow> string) \<Rightarrow> UpdateState \<Rightarrow> session \<Rightarrow> rpc \<Rightarrow> 's world \<Rightarrow> (answer \<times> 's world) option" where
  "direct_call h fuel msg us s (CallStoredConfig n) w = map_option (apfst (outcome_of msg AConfig zero_Config)) (StoredConfig h s n w)"
| "direct_call h fuel msg us s (CallRuntimeConfig n) w = map_option (apfst (outcome_of msg AConfig zero_Config)) (RuntimeConfig h s n w)"
| "direct_call h fuel msg us s (CallStart n) w = map_option (apfst (outcome_of msg (\<lambda>_. AError) ())) (Start h fuel s n w)"
| "direct_call h fuel msg us s (CallStop n) w = map_option (apfst (outcome_of msg (\<lambda>_. AError) ())) (Stop h n w)"
| "direct_call h fuel msg us s (CallWaitForStop n) w = map_option (apfst (outcome_of msg (\<lambda>_. AError) ())) (WaitForStop h fuel n w)"
| "direct_call h fuel msg us s (CallDelete n) w = map_option (apfst (outcome_of msg (\<lambda>_. AError) ())) (Delete h s n w)"
| "direct_call h fuel msg us s (CallState n) w = map_option (apfst (outcome_of msg AState TunnelUnknown)) (State h n w)"
| "direct_call h fuel msg us s CallGlobalState w = Some (AGlobalState (trackedTunnelsGlobalState w), w)"
| "direct_call h fuel msg us s (CallCreate c) w = map_option (apfst (outcome_of msg ATunnel [])) (Create h s c w)"
| "direct_call h fuel msg us s CallTunnels w = map_option (apfst (outcome_of msg ATunnels [])) (Tunnels h w)"
| "direct_call h fuel msg us s (CallQuit b) w = map_option (apfst (outcome_of msg AQuit False)) (Quit h s b w)"
| "direct_call h fuel msg us s CallUpdateState w = Some (AUpdateState us, w)"
| "direct_call h fuel msg us s CallUpdate w = map_option (apfst (\<lambda>_. ANone)) (Update s w)"

fun direct_calls ::
  "'s host \<Rightarrow> nat \<Rightarrow> (mgr_error \<Rightarrow> string) \<Rightarrow> UpdateState \<Rightarrow> session \<Rightarrow> rpc list \<Rightarrow> 's world \<Rightarrow> (answer list \<times> 's world) option" where
  "direct_calls h fuel msg us s [] w = Some ([], w)"
| "direct_calls h fuel msg us s (c # cs) w =
     (case direct_call h fuel msg us s c w of
        None \<Rightarrow> None
      | Some (a, w1) \<Rightarrow> map_option (apfst ((#) a)) (direct_calls h fuel msg us s cs w1))"

lemma read_request: "rpc_request c @ gs = GMethod m # gs1 \<Longrightarrow> read_call m gs1 = Some (c, gs)"
  by (cases c) auto

lemma request_method: "\<exists>m gs1. rpc_request c @ gs = GMethod m # gs1"
  by (cases c) auto

lemma serve_call_decode:
  assumes "\<And>e. msg e \<noteq> []"
  shows "map_option (\<lambda>(out, w'). (decode_answer c (out @ gs), w')) (serve_call h fuel msg us s c w) =
    map_option (\<lambda>(a, w'). (Some (a, gs), w')) (direct_call h fuel msg us s c w)"
  using assms
  by (cases c) (auto simp: reply_def enc_value_def enc_error_def outcome_of_def errToString_def
      rpcDecodeError_def apfst_def map_prod_def split: option.splits sum.splits)

lemma ServeConn_request:
  "ServeConn h fuel msg us s (rpc_request c @ gs) w =
    (case serve_call h fuel msg us s c w of
       None \<Rightarrow> None | Some (out, w1) \<Rightarrow> map_option (apfst ((@) out)) (ServeConn h fuel msg us s gs w1))"
proof -
  obtain m gs1 where m: "rpc_request c @ gs = GMethod m # gs1"
    using request_method by blast
  show ?thesis
    unfolding m ServeConn.simps [of h fuel msg us s "GMethod m # gs1" w]
    by (auto simp: read_request [OF m] apfst_def map_prod_def split: option.split)
qed

text \<open>C23: the remote calls are transparent: whatever calls a client makes in a session, the answers it decodes
  are the results of the operations themselves, run in that order on the state of the manager, with the
  text of an error in the place of the error; no value is left over on the stream, so an answer is never
  taken for that of another call.\<close>

theorem ServeConn_refines:
  assumes "\<And>err. msg err \<noteq> []"
  shows "map_option (\<lambda>(out, w'). (decode_answers cs out, w')) (ServeConn h fuel msg us s (concat (map rpc_request cs)) w) =
    map_option (\<lambda>(as, w'). (Some (as, []), w')) (direct_calls h fuel msg us s cs w)"
proof (induction cs arbitrary: w)
  case Nil
  then show ?case by (simp add: ServeConn.simps)
next
  case (Cons c cs)
  note call = serve_call_decode [where msg = msg and c = c and h = h and fuel = fuel and us = us and s = s and w = w, OF assms]
  show ?case
  proof (cases "serve_call h fuel msg us s c w")
    case None
    then have "direct_call h fuel msg us s c w = None"
      using call by simp
    with None show ?thesis by (simp add: ServeConn_request)
  next
    case (Some p)
    then obtain out w1 where p: "serve_call h fuel msg us s c w = Some (out, w1)" by (cases p) auto
    obtain a where d: "direct_call h fuel msg us s c w = Some (a, w1)"
      using call [of "[]"] by (cases "direct_call h fuel msg us s c w") (auto simp: p)
    have a: "decode_answer c (out @ gs) = Some (a, gs)" for gs
      using call [of gs] by (simp add: p d)
    show ?thesis
      using Cons.IH [of w1]
      by (cases "ServeConn h fuel msg us s (concat (map rpc_request cs)) w1";
          cases "direct_calls h fuel msg us s cs w1")
        (auto simp: ServeConn_request p a d apfst_def map_prod_def split: option.splits)
  qed
qed


section \<open>Sessions without administrator rights\<close>

lemma Redact_idem: "Redact (Redact c) = Redact c"
  by (intro Config.equality Interface.equality)
    (auto simp: Redact_def Let_def redact_peer_def enumerate_eq_zip intro!: nth_equalityI Peer.equality)

fun redacted_value :: "gob \<Rightarrow> bool" where
  "redacted_value (GConfig c) \<longleftrightarrow> Redact c = c"
| "redacted_value _ \<longleftrightarrow> True"

lemma keeps_findDriverAdapter [keeps_intros]: "keeps stable (findDriverAdapter h n)"
  by (auto simp: keeps_def stable_def findDriverAdapter_def io_run split: if_splits option.splits)

lemma keeps_releaseDriverAdapter [keeps_intros]: "keeps stable (releaseDriverAdapter n)"
  by (simp add: keeps_def stable_def releaseDriverAdapter_def)

lemma keeps_Stop [keeps_intros]: "keeps stable (Stop h n)"
  unfolding Stop_def by (intro keeps_intros)

lemma keeps_wait_stopped [keeps_intros]: "keeps stable (wait_stopped h n fuel)"
  by (induction fuel) (simp_all add: keeps_intros)

lemma keeps_operations [keeps_intros]:
  "keeps stable (StoredConfig h s n)" "keeps stable (RuntimeConfig h s n)"
  "keeps stable (WaitForStop h fuel n)" "keeps stable (State h n)" "keeps stable (Tunnels h)" "keeps stable (Update s)"
  unfolding StoredConfig_def RuntimeConfig_def WaitForStop_def State_def Tunnels_def Update_def
  by (intro keeps_intros)+

lemma keeps_scan [keeps_intros]: "keeps obs (\<lambda>w. Some (Inr (f w), w))"
  by (simp add: keeps_def)

lemma keeps_Start [keeps_intros]: "keeps stable (Start h fuel s n)"
  unfolding Start_def InstallTunnel_def case_prod_beta by (intro keeps_intros)

lemma reply_stable: "keeps stable m \<Longrightarrow> reply enc m w = Some (out, w') \<Longrightarrow> stable w' = stable w"
  by (auto simp: reply_def keeps_def split: option.splits)

lemma reply_redacted:
  assumes "reply (enc_value msg GConfig zero_Config) m w = Some (out, w')"
    and "\<And>c w'. m w = Some (Inr c, w') \<Longrightarrow> Redact c = c"
  shows "list_all redacted_value out"
  using assms by (auto simp: reply_def enc_value_def zero_Config_def Redact_def zero_Interface_def split: option.splits sum.splits)

lemma StoredConfig_redacted: "elevatedToken s = 0 \<Longrightarrow> StoredConfig h s n w = Some (Inr c, w') \<Longrightarrow> Redact c = c"
  by (auto simp: StoredConfig_def redacted_def io_run Redact_idem elim!: andThenE)

lemma RuntimeConfig_redacted: "elevatedToken s = 0 \<Longrightarrow> RuntimeConfig h s n w = Some (Inr c, w') \<Longrightarrow> Redact c = c"
  by (auto simp: RuntimeConfig_def redacted_def ignoring_def io_run Redact_idem elim!: andThenE attemptE
      split: sum.splits option.splits)

lemma denied_stable [keeps_intros]:
  assumes "elevatedToken s = 0"
  shows "keeps stable (Delete h s n)" "keeps stable (Create h s c)" "keeps stable (Quit h s b)"
  using assms by (auto simp: Delete_def Create_def Quit_def keeps_def io_run)

lemma serve_call_stable:
  assumes "elevatedToken s = 0" "serve_call h fuel msg us s c w = Some (out, w')"
  shows "stable w' = stable w"
  using assms
  by (cases c) (auto simp: elim!: reply_stable [rotated] intro!: keeps_intros)

lemma serve_call_redacted:
  assumes "elevatedToken s = 0" "serve_call h fuel msg us s c w = Some (out, w')"
  shows "list_all redacted_value out"
proof (cases c)
  case (CallStoredConfig n)
  with assms(2) have "reply (enc_value msg GConfig zero_Config) (StoredConfig h s n) w = Some (out, w')" by simp
  then show ?thesis
    by (rule reply_redacted) (rule StoredConfig_redacted [OF assms(1)])
next
  case (CallRuntimeConfig n)
  with assms(2) have "reply (enc_value msg GConfig zero_Config) (RuntimeConfig h s n) w = Some (out, w')" by simp
  then show ?thesis
    by (rule reply_redacted) (rule RuntimeConfig_redacted [OF assms(1)])
qed (use assms in \<open>auto simp: reply_def enc_error_def enc_value_def split: option.splits\<close>)



theorem ServeConn_refines_witness:
  "map_option (\<lambda>(out, w'). (decode_answers [CallTunnels, CallStop ''a'', CallQuit True] out, w'))
      (ServeConn sample_host 1 (\<lambda>_. ''error'') UpdateStateUnknown \<lparr>sid = 1, elevatedToken = 0\<rparr>
        (concat (map rpc_request [CallTunnels, CallStop ''a'', CallQuit True])) sample_world) =
    map_option (\<lambda>(as, w'). (Some (as, []), w'))
      (direct_calls sample_host 1 (\<lambda>_. ''error'') UpdateStateUnknown \<lparr>sid = 1, elevatedToken = 0\<rparr>
        [CallTunnels, CallStop ''a'', CallQuit True] sample_world)"
  by (rule ServeConn_refines) simp

text \<open>When the configurations cannot be listed, \<open>Quit\<close> fails and leaves \<open>haveQuit\<close> set: from then on every
  \<open>Quit\<close> reports that the manager has already been told to quit, and none tells it.\<close>

theorem Quit_stuck:
  assumes "elevatedToken s \<noteq> 0" "haveQuit w = False" "ReadDir h (files w) = Inl err"
  shows "\<exists>w1. Quit h s True w = Some (Inl (StoreError err), w1) \<and> quitManagersChan w1 = quitManagersChan w \<and>
    (\<forall>s' b. elevatedToken s' \<noteq> 0 \<longrightarrow> Quit h s' b w1 = Some (Inr True, w1))"
  using assms by (auto simp: Quit_def leave_def andThen_def load_call_def config_names_def io_run)

section \<open>Notifications\<close>

text \<open>What the server tells its clients; an error is its text.  Each notification is written to the events
  stream of a session as a whole, under the lock of the session; the lists below are in the order of these
  writes.\<close>

datatype notification =
    TunnelChange string TunnelState TunnelState "string option" | TunnelsChange | ManagerStopping
  | UpdateFound UpdateState | UpdateProgress string u64 u64 "string option" bool

definition error_text :: "string option \<Rightarrow> string" where
  "error_text err = (case err of None \<Rightarrow> [] | Some str \<Rightarrow> str)"

fun notification_values :: "notification \<Rightarrow> gob list" where
  "notification_values (TunnelChange name state globalState err) =
     [GNotification TunnelChangeNotificationType, GString name, GState state, GState globalState, GString (error_text err)]"
| "notification_values TunnelsChange = [GNotification TunnelsChangeNotificationType]"
| "notification_values ManagerStopping = [GNotification ManagerStoppingNotificationType]"
| "notification_values (UpdateFound state) = [GNotification UpdateFoundNotificationType, GUpdateState state]"
| "notification_values (UpdateProgress activity bytesDownloaded bytesTotal err complete) =
     [GNotification UpdateProgressNotificationType, GString activity, GUint64 bytesDownloaded, GUint64 bytesTotal,
      GString (error_text err), GBool complete]"

fun admin_only :: "notification \<Rightarrow> bool" where
  "admin_only (UpdateProgress _ _ _ _ _) \<longleftrightarrow> True"
| "admin_only _ \<longleftrightarrow> False"

record listener =
  of_session :: session
  events :: "gob list option"

definition notifyAll :: "bool \<Rightarrow> gob list \<Rightarrow> listener list \<Rightarrow> listener list" where
  "notifyAll adminOnly vs =
     map (\<lambda>m. if elevatedToken (of_session m) = 0 \<and> adminOnly then m
              else m \<lparr>events := map_option (\<lambda>es. es @ vs) (events m)\<rparr>)"

definition notify :: "notification \<Rightarrow> listener list \<Rightarrow> listener list" where
  "notify n = notifyAll (admin_only n) (notification_values n)"

text \<open>The loop of the client: the notifications that reach the callbacks.\<close>

definition decoding_error :: "(string option \<Rightarrow> gob list \<Rightarrow> ('b \<times> gob list) option) \<Rightarrow> gob list \<Rightarrow> ('b \<times> gob list) option" where
  "decoding_error k = decoding as_string (\<lambda>errStr. k (if 0 < length errStr then Some errStr else None))"

fun read_notification :: "NotificationType \<Rightarrow> gob list \<Rightarrow> (notification \<times> gob list) option" where
  "read_notification TunnelChangeNotificationType =
     decoding as_string (\<lambda>tunnel. decoding as_state (\<lambda>state. decoding as_state (\<lambda>globalState.
     decoding_error (\<lambda>err. decoded (TunnelChange tunnel state globalState err)))))"
| "read_notification TunnelsChangeNotificationType = decoded TunnelsChange"
| "read_notification ManagerStoppingNotificationType = decoded ManagerStopping"
| "read_notification UpdateFoundNotificationType = decoding as_update_state (\<lambda>state. decoded (UpdateFound state))"
| "read_notification UpdateProgressNotificationType =
     decoding as_string (\<lambda>activity. decoding as_uint64 (\<lambda>bytesDownloaded. decoding as_uint64 (\<lambda>bytesTotal.
     decoding_error (\<lambda>err. decoding as_bool (\<lambda>complete.
       decoded (UpdateProgress activity bytesDownloaded bytesTotal err complete))))))"

fun skipped :: "notification \<Rightarrow> bool" where
  "skipped (TunnelChange tunnel state globalState err) \<longleftrightarrow> length tunnel = 0 \<or> state = TunnelUnknown"
| "skipped _ \<longleftrightarrow> False"

lemma decoding_shorter:
  "decoding f k gs = Some (y, gs') \<Longrightarrow> (\<And>x gs1. k x gs1 = Some (y, gs') \<Longrightarrow> length gs' \<le> length gs1) \<Longrightarrow> length gs' \<le> length gs"
  using decoding_length [of f k gs y gs'] by simp

lemma read_notification_length: "read_notification t gs = Some (n, gs') \<Longrightarrow> length gs' \<le> length gs"
  by (cases t) (auto simp: decoding_error_def elim!: decoding_shorter)

function client_events :: "gob list \<Rightarrow> notification list" where
  "client_events gs =
     (case decode as_notification gs of
        None \<Rightarrow> []
      | Some (t, gs1) \<Rightarrow>
          (case read_notification t gs1 of
             None \<Rightarrow> []
           | Some (n, gs2) \<Rightarrow> if skipped n then client_events gs2 else n # client_events gs2))"
  by pat_completeness auto
termination
  by (relation "measure length")
    (auto simp: decode_def less_Suc_eq_le dest!: read_notification_length split: list.splits option.splits)

declare client_events.simps [simp del]

text \<open>An error has a text.\<close>

fun proper :: "notification \<Rightarrow> bool" where
  "proper (TunnelChange _ _ _ err) \<longleftrightarrow> err \<noteq> Some []"
| "proper (UpdateProgress _ _ _ err _) \<longleftrightarrow> err \<noteq> Some []"
| "proper _ \<longleftrightarrow> True"

lemma client_events_Cons:
  assumes "proper n"
  shows "client_events (notification_values n @ gs) = (if skipped n then client_events gs else n # client_events gs)"
  using assms
  by (subst client_events.simps, cases n)
    (auto simp: decode_def decoding_error_def error_text_def split: option.split)

lemma client_events_sent:
  "list_all proper ns \<Longrightarrow> client_events (concat (map notification_values ns)) = filter (\<lambda>n. \<not> skipped n) ns"
  by (induction ns) (auto simp: client_events_Cons client_events.simps [of "[]"] decode_def)

definition sent_to :: "session \<Rightarrow> notification \<Rightarrow> bool" where
  "sent_to s n \<longleftrightarrow> \<not> (elevatedToken s = 0 \<and> admin_only n)"

lemma notify_listener:
  "notify n ls = map (\<lambda>m. m \<lparr>events := map_option (\<lambda>es. es @ (if sent_to (of_session m) n then notification_values n else [])) (events m)\<rparr>) ls"
  by (auto simp: notify_def notifyAll_def sent_to_def option.map_ident)

lemma fold_notify:
  "fold notify ns ls = map (\<lambda>m. m \<lparr>events := map_option (\<lambda>es. es @ concat (map notification_values (filter (sent_to (of_session m)) ns))) (events m)\<rparr>) ls"
  by (induction ns arbitrary: ls) (auto simp: notify_listener option.map_comp comp_def option.map_ident)

text \<open>Every session is told what it may know, in order, and nothing else: after any sequence of
  notifications the callbacks of the client of each session have seen the notifications for it, less the
  progress of an update when the session has no administrator rights and the changes without a tunnel or
  with an unknown state.\<close>

theorem notify_delivered:
  assumes "list_all proper ns"
  shows "map (\<lambda>m. map_option client_events (events m)) (fold notify ns (map (\<lambda>s. \<lparr>of_session = s, events = Some []\<rparr>) ss)) =
    map (\<lambda>s. Some (filter (\<lambda>n. \<not> skipped n \<and> \<not> (elevatedToken s = 0 \<and> admin_only n)) ns)) ss"
proof -
  have "list_all proper (filter (sent_to s) ns)" for s
    using assms by (auto simp: list_all_iff)
  then show ?thesis
    by (simp add: fold_notify client_events_sent sent_to_def comp_def conj_commute)
qed

theorem notify_delivered_witness:
  "map (\<lambda>m. map_option client_events (events m))
      (fold notify [TunnelsChange, TunnelChange ''a'' TunnelStarted TunnelStarted None, UpdateProgress ''x'' 1 2 None False]
        (map (\<lambda>s. \<lparr>of_session = s, events = Some []\<rparr>) [\<lparr>sid = 1, elevatedToken = 0\<rparr>, \<lparr>sid = 2, elevatedToken = 7\<rparr>])) =
    [Some [TunnelsChange, TunnelChange ''a'' TunnelStarted TunnelStarted None],
     Some [TunnelsChange, TunnelChange ''a'' TunnelStarted TunnelStarted None, UpdateProgress ''x'' 1 2 None False]]"
  by (subst notify_delivered) simp_all

end
