(* ===== verification/Manager_Protocol.thy ===== *)
theory Manager_Protocol
  imports Manager_Session "HOL-Library.Multiset"
begin

text \<open>
  \<open>manager/protocol_v1.go\<close>: the framed protocol between the manager and its window.  The JSON package
  decodes into Go types by their tags; its functions for the types of the protocol are parameters
  (\<open>json\<close>), as are the public key of a private key, the table of punctuation and the texts of errors.
\<close>

section \<open>Frames\<close>

definition managerV1MaximumFrameLength :: nat where
  "managerV1MaximumFrameLength = 1024 * 1024"

datatype frame_error =
    UnexpectedEOF | FrameLengthInvalid | JsonInvalid | ExtraData | ErrShortWrite | WriteFailed errno

text \<open>\<open>io.ReadFull\<close>: exactly \<open>n\<close> bytes and what follows them.\<close>

definition ReadFull :: "nat \<Rightarrow> byte list \<Rightarrow> (byte list \<times> byte list) option" where
  "ReadFull n r = (if length r < n then None else Some (take n r, drop n r))"

text \<open>A decoder for one type gives the value at the front and the bytes after it; \<open>at_EOF\<close> tells that
  no value follows.\<close>

definition readManagerV1Frame ::
  "(byte list \<Rightarrow> ('v \<times> byte list) option) \<Rightarrow> (byte list \<Rightarrow> bool) \<Rightarrow> byte list \<Rightarrow> frame_error + 'v \<times> byte list" where
  "readManagerV1Frame dec at_EOF reader =
     (case ReadFull 4 reader of
        None \<Rightarrow> Inl UnexpectedEOF
      | Some (header, reader1) \<Rightarrow>
          let len = le_value header in
          if len = 0 \<or> managerV1MaximumFrameLength < len then Inl FrameLengthInvalid
          else case ReadFull len reader1 of
            None \<Rightarrow> Inl UnexpectedEOF
          | Some (payload, reader2) \<Rightarrow>
              (case dec payload of
                 None \<Rightarrow> Inl JsonInvalid
               | Some (v, rest) \<Rightarrow> if \<not> at_EOF rest then Inl ExtraData else Inr (v, reader2)))"

text \<open>What has been written to a pipe, and the number of calls of \<open>Write\<close> so far.  \<open>Write i n\<close> is the result of
  call number \<open>i\<close> with \<open>n\<close> bytes: an error, or how many were written.\<close>

record sink =
  sent :: "byte list"
  calls :: nat

type_synonym sink_write = "nat \<Rightarrow> nat \<Rightarrow> errno + nat"

function writeManagerV1Bytes :: "sink_write \<Rightarrow> byte list \<Rightarrow> sink \<Rightarrow> frame_error option \<times> sink" where
  "writeManagerV1Bytes wr data k =
     (if length data = 0 then (None, k)
      else case wr (calls k) (length data) of
        Inl err \<Rightarrow> (Some (WriteFailed err), k \<lparr>calls := Suc (calls k)\<rparr>)
      | Inr n \<Rightarrow>
          if n = 0 then (Some ErrShortWrite, k \<lparr>calls := Suc (calls k)\<rparr>)
          else writeManagerV1Bytes wr (drop n data) \<lparr>sent = sent k @ take n data, calls = Suc (calls k)\<rparr>)"
  by pat_completeness auto
termination
  by (relation "measure (\<lambda>(wr, data, k). length data)") auto

declare writeManagerV1Bytes.simps [simp del]

definition writeManagerV1Frame ::
  "('v \<Rightarrow> byte list option) \<Rightarrow> sink_write \<Rightarrow> 'v \<Rightarrow> sink \<Rightarrow> frame_error option \<times> sink" where
  "writeManagerV1Frame Marshal wr v k =
     (case Marshal v of
        None \<Rightarrow> (Some JsonInvalid, k)
      | Some payload \<Rightarrow>
          if length payload = 0 \<or> managerV1MaximumFrameLength < length payload then (Some FrameLengthInvalid, k)
          else (case writeManagerV1Bytes wr (le_bytes 4 (unat (of_nat (length payload) :: u32))) k of
             (Some err, k1) \<Rightarrow> (Some err, k1)
           | (None, k1) \<Rightarrow> writeManagerV1Bytes wr payload k1))"

lemma writeManagerV1Bytes_sent:
  "writeManagerV1Bytes wr data k = (None, k') \<Longrightarrow> sent k' = sent k @ data"
proof (induction wr data k arbitrary: k' rule: writeManagerV1Bytes.induct)
  case (1 wr data k)
  note run = 1(2) [unfolded writeManagerV1Bytes.simps [of wr data k]]
  show ?case
  proof (cases "length data = 0")
    case False
    then obtain n where n: "wr (calls k) (length data) = Inr n" "n \<noteq> 0"
        "writeManagerV1Bytes wr (drop n data) \<lparr>sent = sent k @ take n data, calls = Suc (calls k)\<rparr> = (None, k')"
      using run by (auto split: sum.splits if_splits)
    then show ?thesis
      using 1(1) [OF False n] by simp
  qed (use run in simp)
qed

text \<open>Even a write that fails leaves nothing but a front part of the data.\<close>

lemma writeManagerV1Bytes_prefix:
  "writeManagerV1Bytes wr data k = (e, k') \<Longrightarrow> \<exists>n. sent k' = sent k @ take n data"
proof (induction wr data k arbitrary: e k' rule: writeManagerV1Bytes.induct)
  case (1 wr data k)
  note run = 1(2) [unfolded writeManagerV1Bytes.simps [of wr data k]]
  show ?case
  proof (cases "\<exists>n. length data \<noteq> 0 \<and> wr (calls k) (length data) = Inr n \<and> n \<noteq> 0")
    case True
    then obtain n where n: "length data \<noteq> 0" "wr (calls k) (length data) = Inr n" "n \<noteq> 0" by blast
    then obtain m where "sent k' = sent k @ take n data @ take m (drop n data)"
      using 1(1) [OF n, of e k'] run by auto
    then have "sent k' = sent k @ take (n + m) data"
      by (simp add: take_add)
    then show ?thesis ..
  next
    case False
    then have "sent k' = sent k"
      using run by (auto split: sum.splits if_splits)
    then show ?thesis
      by (intro exI [of _ 0]) simp
  qed
qed

lemma frame_length: "length payload \<le> managerV1MaximumFrameLength \<Longrightarrow>
    le_value (le_bytes 4 (unat (of_nat (length payload) :: u32))) = length payload"
  by (simp add: le_value_bytes unat_of_nat managerV1MaximumFrameLength_def)

text \<open>C36: a frame that is written without an error, in whatever pieces the pipe takes it, is read back as the
  value the JSON package makes of its payload, and the reader then stands at the first byte after the
  frame; a frame has at most 4 bytes more than 1 MiB.\<close>

theorem readManagerV1Frame_write:
  assumes "Marshal v = Some payload" "dec payload = Some (v', rest)" "at_EOF rest"
    and "writeManagerV1Frame Marshal wr v k = (None, k')"
  shows "\<exists>frame. sent k' = sent k @ frame \<and> length frame \<le> 4 + 1048576 \<and>
    readManagerV1Frame dec at_EOF (frame @ after) = Inr (v', after)"
proof -
  let ?header = "le_bytes 4 (unat (of_nat (length payload) :: u32))"
  have len: "length payload \<noteq> 0" "length payload \<le> managerV1MaximumFrameLength"
    and "\<exists>k1. writeManagerV1Bytes wr ?header k = (None, k1) \<and> writeManagerV1Bytes wr payload k1 = (None, k')"
    using assms(1,4) by (auto simp: writeManagerV1Frame_def split: if_splits prod.splits option.splits)
  then have sent: "sent k' = sent k @ ?header @ payload"
    using writeManagerV1Bytes_sent by fastforce
  have "readManagerV1Frame dec at_EOF ((?header @ payload) @ after) = Inr (v', after)"
    using len assms(2,3) frame_length [OF len(2)]
    by (simp add: readManagerV1Frame_def ReadFull_def Let_def)
  with sent len show ?thesis
    by (intro exI [of _ "?header @ payload"]) (simp add: managerV1MaximumFrameLength_def)
qed

theorem readManagerV1Frame_write_witness:
  "\<exists>k' frame. writeManagerV1Frame Some (\<lambda>i n. Inr 1) [1, 2, 3] \<lparr>sent = [9], calls = 0\<rparr> = (None, k') \<and>
    sent k' = [9] @ frame \<and>
    readManagerV1Frame (\<lambda>bs. Some (bs, [])) (\<lambda>rest. rest = []) (frame @ [7]) = Inr ([1, 2, 3], [7])"
proof -
  let ?w = "writeManagerV1Frame Some (\<lambda>i n. Inr 1) [1, 2, 3 :: byte] \<lparr>sent = [9], calls = 0\<rparr>"
  have "fst ?w = None" by code_simp
  then obtain k' where w: "?w = (None, k')" by (cases ?w) auto
  then show ?thesis
    using readManagerV1Frame_write [of Some "[1, 2, 3]" "[1, 2, 3]" "\<lambda>bs. Some (bs, [])" "[1, 2, 3]" "[]" "\<lambda>rest. rest = []", OF refl refl refl w]
    by auto
qed

section \<open>Messages\<close>

definition managerV1Protocol :: string where "managerV1Protocol = ''wireroute-manager''"

definition managerV1Version :: int where "managerV1Version = 1"

record managerV1Request =
  req_Version :: int
  RequestID :: int
  Method :: string
  Parameters :: "byte list"

record managerV1Error =
  Code :: string
  Message :: string

record managerV1HelloRequest =
  Protocol :: string
  MinimumVersion :: int
  MaximumVersion :: int
  ClientVersion :: string
  Architecture :: string

record managerV1Capabilities =
  CanListProfiles :: bool
  CanReadProfileDetails :: bool
  CanReadTunnelState :: bool
  CanImportProfiles :: bool
  CanStartTunnels :: bool
  CanStopTunnels :: bool
  CanQuitManager :: bool

record managerV1HelloResponse =
  hello_Protocol :: string
  SelectedVersion :: int
  ManagerVersion :: string
  Capabilities :: managerV1Capabilities

record managerV1ProfileSummary =
  summary_Name :: string
  summary_DisplayName :: string
  summary_State :: string
  summary_RouteMode :: string
  InterfacePublicKey :: string

record managerV1TunnelStateResponse =
  state_Name :: string
  state_State :: string

record managerV1ImportProfileRequest =
  import_DisplayName :: string
  WgQuickConfiguration :: string

record managerV1DNS =
  Address :: string
  Route :: string

record managerV1Peer =
  v1_PublicKey :: string
  HasPresharedKey :: bool
  v1_AllowedIPs :: "string list"
  v1_Endpoint :: "string option"
  v1_PersistentKeepalive :: "u16 option"

record managerV1ProfileDetail =
  detail_Name :: string
  detail_DisplayName :: string
  InterfaceAddresses :: "string list"
  DNSServers :: "managerV1DNS list"
  DNSSearchDomains :: "string list"
  detail_Peers :: "managerV1Peer list"
  DetectedRouteMode :: string
  HasHooks :: bool

datatype v1_result =
    HelloResult managerV1HelloResponse | ListResult "managerV1ProfileSummary list" | DetailResult managerV1ProfileDetail
  | ImportResult managerV1ProfileSummary | StateResult managerV1TunnelStateResponse | QuitResult bool

record managerV1Response =
  resp_Version :: int
  resp_RequestID :: int
  Result :: "v1_result option"
  resp_Error :: "managerV1Error option"

type_synonym 'v decoder = "byte list \<Rightarrow> ('v \<times> byte list) option"

record json =
  json_Request :: "managerV1Request decoder"
  json_Hello :: "managerV1HelloRequest decoder"
  json_Empty :: "unit decoder"
  json_Name :: "string decoder"
  json_Import :: "managerV1ImportProfileRequest decoder"
  json_Quit :: "bool decoder"
  json_EOF :: "byte list \<Rightarrow> bool"
  Marshal_Response :: "managerV1Response \<Rightarrow> byte list option"

record v1_env =
  the_json :: json
  Public :: "Key \<Rightarrow> Key"
  IsPunct :: "nat \<Rightarrow> bool"
  version_Number :: string
  error_String :: "mgr_error \<Rightarrow> string"
  parse_error_String :: "parse_error \<Rightarrow> string"

definition decodeManagerV1Parameters :: "'v decoder \<Rightarrow> (byte list \<Rightarrow> bool) \<Rightarrow> byte list \<Rightarrow> mgr_error v1_error + 'v" where
  "decodeManagerV1Parameters dec at_EOF raw =
     (if length raw = 0 then Inl (remoteManagerV1Error ''invalidRequest'' ''The request parameters are missing.'')
      else case dec raw of
        None \<Rightarrow> Inl (remoteManagerV1Error ''invalidRequest'' ''The request parameters are invalid.'')
      | Some (v, rest) \<Rightarrow>
          if \<not> at_EOF rest then Inl (remoteManagerV1Error ''invalidRequest'' ''The request parameters contain extra data.'')
          else Inr v)"

section \<open>Profiles\<close>

fun managerV1State :: "TunnelState \<Rightarrow> string" where
  "managerV1State TunnelStopped = ''stopped''"
| "managerV1State TunnelStarting = ''starting''"
| "managerV1State TunnelStarted = ''started''"
| "managerV1State TunnelStopping = ''stopping''"
| "managerV1State TunnelUnknown = ''unknown''"

definition managerV1Summary :: "v1_env \<Rightarrow> Config \<Rightarrow> TunnelState \<Rightarrow> managerV1ProfileSummary" where
  "managerV1Summary v config state =
     \<lparr>summary_Name = Name config, summary_DisplayName = managerV1DisplayName config,
      summary_State = managerV1State state, summary_RouteMode = managerV1RouteMode config,
      InterfacePublicKey = Key_String (Public v (PrivateKey (config_Interface config)))\<rparr>"

text \<open>\<open>sort.Slice\<close>: names that the order does not tell apart stay as they were listed, as in the insertion
  sort that Go uses for short slices.\<close>

fun insert_by :: "('a \<Rightarrow> 'a \<Rightarrow> bool) \<Rightarrow> 'a \<Rightarrow> 'a list \<Rightarrow> 'a list" where
  "insert_by lt x [] = [x]"
| "insert_by lt x (y # ys) = (if lt y x then y # insert_by lt x ys else x # y # ys)"

definition sort_Slice :: "('a \<Rightarrow> 'a \<Rightarrow> bool) \<Rightarrow> 'a list \<Rightarrow> 'a list" where
  "sort_Slice lt xs = foldr (insert_by lt) xs []"

text \<open>An operation of \<open>ManagerService\<close>: its errors are no \<open>managerV1RemoteError\<close>.\<close>

definition manager :: "('w, 'e, 'a) io \<Rightarrow> ('w, 'e v1_error, 'a) io" where
  "manager m w = map_option (apfst (map_sum OtherError id)) (m w)"

fun list_loop :: "v1_env \<Rightarrow> 's host \<Rightarrow> string list \<Rightarrow> managerV1ProfileSummary list \<Rightarrow> ('s world, mgr_error, managerV1ProfileSummary list) io" where
  "list_loop v h [] profiles = ret profiles"
| "list_loop v h (name # names) profiles =
     attempt (load_call (LoadFromName (store h) name)) (\<lambda>r.
       case r of
         Inl _ \<Rightarrow> list_loop v h names profiles
       | Inr config \<Rightarrow> andThen (state_or_unknown h name) (\<lambda>state. list_loop v h names (profiles @ [managerV1Summary v config state])))"

definition listProfiles :: "v1_env \<Rightarrow> 's host \<Rightarrow> ('s world, mgr_error, managerV1ProfileSummary list) io" where
  "listProfiles v h = andThen (load_call (config_names h)) (\<lambda>names. list_loop v h (sort_Slice TunnelNameIsLess names) [])"

text \<open>The inner loop ends at the first prefix that contains the server, the outer one goes on.\<close>

definition dns_route :: "Peer list \<Rightarrow> addr \<Rightarrow> string" where
  "dns_route peers dns =
     fold (\<lambda>peer route. if list_ex (\<lambda>allowedIP. prefix_Contains allowedIP dns) (AllowedIPs peer) then ''throughTunnel'' else route)
       peers ''outsideTunnel''"

definition has_hooks :: "Config \<Rightarrow> bool" where
  "has_hooks config \<longleftrightarrow>
     (let i = config_Interface config in PreUp i \<noteq> [] \<or> PostUp i \<noteq> [] \<or> PreDown i \<noteq> [] \<or> PostDown i \<noteq> [])"

definition peer_item :: "Peer \<Rightarrow> managerV1Peer" where
  "peer_item peer =
     \<lparr>v1_PublicKey = Key_String (PublicKey peer), HasPresharedKey = (\<not> IsZero (PresharedKey peer)),
      v1_AllowedIPs = map prefix_String (AllowedIPs peer),
      v1_Endpoint = (if \<not> Endpoint_IsEmpty (peer_Endpoint peer) then Some (Endpoint_String (peer_Endpoint peer)) else None),
      v1_PersistentKeepalive = (if PersistentKeepalive peer \<noteq> 0 then Some (PersistentKeepalive peer) else None)\<rparr>"

definition profile_detail :: "Config \<Rightarrow> managerV1ProfileDetail" where
  "profile_detail config =
     (let i = config_Interface config in
      \<lparr>detail_Name = Name config, detail_DisplayName = managerV1DisplayName config,
       InterfaceAddresses = map prefix_String (Addresses i),
       DNSServers = map (\<lambda>dns. \<lparr>Address = addr_String dns, Route = dns_route (Peers config) dns\<rparr>) (DNS i),
       DNSSearchDomains = DNSSearch i, detail_Peers = map peer_item (Peers config),
       DetectedRouteMode = managerV1RouteMode config, HasHooks = has_hooks config\<rparr>)"

definition getProfile :: "'s host \<Rightarrow> string \<Rightarrow> ('s world, mgr_error v1_error, managerV1ProfileDetail) io" where
  "getProfile h name =
     attempt (load_call (LoadFromName (store h) name)) (\<lambda>r.
       case r of
         Inl _ \<Rightarrow> raise (remoteManagerV1Error ''profileNotFound'' ''The profile does not exist.'')
       | Inr config \<Rightarrow> ret (profile_detail config))"

definition importProfile :: "v1_env \<Rightarrow> 's host \<Rightarrow> session \<Rightarrow> managerV1ImportProfileRequest \<Rightarrow> ('s world, mgr_error v1_error, managerV1ProfileSummary) io" where
  "importProfile v h s request =
     (if elevatedToken s = 0 then raise (remoteManagerV1Error ''accessDenied'' ''This session cannot import profiles.'')
      else andThen (lift_sum (managerV1ValidateDisplayName (import_DisplayName request))) (\<lambda>displayName.
        if length (WgQuickConfiguration request) = 0 \<or> managerV1MaximumFrameLength < length (WgQuickConfiguration request)
        then raise (remoteManagerV1Error ''invalidProfile'' ''The WireGuard configuration is empty or too large.'')
        else
          andThen (\<lambda>w. Some (managerV1AvailableName (IsPunct v) (map_sum StoreError id (config_names h (files w))) displayName, w)) (\<lambda>name.
            case FromWgQuick (WgQuickConfiguration request) name of
              Inl err \<Rightarrow> raise (remoteManagerV1Error ''invalidProfile'' (parse_error_String v err))
            | Inr config \<Rightarrow>
                if has_hooks config
                then raise (remoteManagerV1Error ''hooksNotAllowed''
                  ''Configuration hooks require a separate privileged review and cannot be imported here.'')
                else
                  let config = config \<lparr>TrailingComments := TrailingComments config @
                        [managerV1DisplayComment @ base64_Encode (bytes_of displayName)]\<rparr>
                  in andThen (manager (store_call (Save (store h) config False))) (\<lambda>_.
                       ret (managerV1Summary v config TunnelStopped)))))"

section \<open>The server\<close>

definition parameters :: "v1_env \<Rightarrow> (json \<Rightarrow> 'v decoder) \<Rightarrow> byte list \<Rightarrow> ('s world, mgr_error v1_error, 'v) io" where
  "parameters v dec raw = lift_sum (decodeManagerV1Parameters (dec (the_json v)) (json_EOF (the_json v)) raw)"

definition state_response :: "'s host \<Rightarrow> string \<Rightarrow> ('s world, mgr_error v1_error, v1_result) io" where
  "state_response h name =
     andThen (manager (state_or_unknown h name)) (\<lambda>state. ret (StateResult \<lparr>state_Name = name, state_State = managerV1State state\<rparr>))"

definition dispatch :: "v1_env \<Rightarrow> 's host \<Rightarrow> nat \<Rightarrow> session \<Rightarrow> string \<Rightarrow> byte list \<Rightarrow> ('s world, mgr_error v1_error, v1_result) io" where
  "dispatch v h fuel s name raw =
     (if name = ''hello'' then
        andThen (parameters v json_Hello raw) (\<lambda>request.
          if Protocol request \<noteq> managerV1Protocol \<or> managerV1Version < MinimumVersion request \<or> MaximumVersion request < managerV1Version
          then raise (remoteManagerV1Error ''incompatibleProtocol'' ''The client and manager do not share a compatible protocol version.'')
          else
            let canWrite = (elevatedToken s \<noteq> 0) in
            ret (HelloResult \<lparr>hello_Protocol = managerV1Protocol, SelectedVersion = managerV1Version,
              ManagerVersion = version_Number v,
              Capabilities = \<lparr>CanListProfiles = True, CanReadProfileDetails = True, CanReadTunnelState = True,
                CanImportProfiles = canWrite, CanStartTunnels = canWrite, CanStopTunnels = canWrite, CanQuitManager = canWrite\<rparr>\<rparr>))
      else if name = ''profiles.list'' then
        andThen (parameters v json_Empty raw) (\<lambda>_. andThen (manager (listProfiles v h)) (\<lambda>ps. ret (ListResult ps)))
      else if name = ''profiles.get'' then
        andThen (parameters v json_Name raw) (\<lambda>n. andThen (getProfile h n) (\<lambda>p. ret (DetailResult p)))
      else if name = ''profiles.import'' then
        andThen (parameters v json_Import raw) (\<lambda>request. andThen (importProfile v h s request) (\<lambda>p. ret (ImportResult p)))
      else if name = ''tunnel.state'' then
        andThen (parameters v json_Name raw) (\<lambda>n. andThen (manager (State h n)) (\<lambda>state.
          ret (StateResult \<lparr>state_Name = n, state_State = managerV1State state\<rparr>)))
      else if name = ''tunnel.start'' then
        andThen (parameters v json_Name raw) (\<lambda>n.
          if elevatedToken s = 0 then raise (remoteManagerV1Error ''accessDenied'' ''This session cannot start tunnels.'')
          else andThen (manager (Start h fuel s n)) (\<lambda>_. state_response h n))
      else if name = ''tunnel.stop'' then
        andThen (parameters v json_Name raw) (\<lambda>n.
          if elevatedToken s = 0 then raise (remoteManagerV1Error ''accessDenied'' ''This session cannot stop tunnels.'')
          else andThen (manager (Stop h n)) (\<lambda>_. state_response h n))
      else if name = ''manager.quit'' then
        andThen (parameters v json_Quit raw) (\<lambda>stopTunnels.
          if elevatedToken s = 0 then raise (remoteManagerV1Error ''accessDenied'' ''This session cannot quit the manager.'')
          else andThen (manager (Quit h s stopTunnels)) (\<lambda>alreadyQuit. ret (QuitResult alreadyQuit)))
      else raise (remoteManagerV1Error ''methodNotFound'' ''The requested manager method is not available.''))"

definition error_response :: "v1_env \<Rightarrow> mgr_error v1_error \<Rightarrow> managerV1Error" where
  "error_response v err =
     (case err of
        RemoteError c m \<Rightarrow> \<lparr>Code = c, Message = m\<rparr>
      | OtherError e \<Rightarrow> \<lparr>Code = ''managerError'', Message = error_String v e\<rparr>)"

text \<open>One request: the response and whether the hello has completed.\<close>

definition handle_request ::
  "v1_env \<Rightarrow> 's host \<Rightarrow> nat \<Rightarrow> session \<Rightarrow> bool \<Rightarrow> managerV1Request \<Rightarrow> 's world \<Rightarrow> (managerV1Response \<times> bool \<times> 's world) option" where
  "handle_request v h fuel s helloCompleted request w =
     (let response = \<lparr>resp_Version = managerV1Version, resp_RequestID = RequestID request, Result = None, resp_Error = None\<rparr>;
          failed = (\<lambda>c m. Some (response \<lparr>resp_Error := Some \<lparr>Code = c, Message = m\<rparr>\<rparr>, helloCompleted, w))
      in if req_Version request \<noteq> managerV1Version then
           failed ''unsupportedVersion'' ''The manager protocol version is not supported.''
         else if RequestID request \<le> 0 then
           failed ''invalidRequest'' ''The request identifier must be positive.''
         else if helloCompleted \<and> Method request = ''hello'' then
           failed ''invalidRequest'' ''The manager hello request has already completed.''
         else if \<not> helloCompleted \<and> Method request \<noteq> ''hello'' then
           failed ''helloRequired'' ''The manager hello request must complete first.''
         else case dispatch v h fuel s (Method request) (Parameters request) w of
           None \<Rightarrow> None
         | Some (Inl err, w1) \<Rightarrow> Some (response \<lparr>resp_Error := Some (error_response v err)\<rparr>, helloCompleted, w1)
         | Some (Inr result, w1) \<Rightarrow>
             Some (response \<lparr>Result := Some result\<rparr>, helloCompleted \<or> Method request = ''hello'', w1))"

definition next_request :: "v1_env \<Rightarrow> byte list \<Rightarrow> frame_error + managerV1Request \<times> byte list" where
  "next_request v = readManagerV1Frame (json_Request (the_json v)) (json_EOF (the_json v))"

lemma readManagerV1Frame_shorter: "readManagerV1Frame dec at_EOF reader = Inr (x, reader') \<Longrightarrow> length reader' < length reader"
  by (auto simp: readManagerV1Frame_def ReadFull_def Let_def split: if_splits option.splits)

function serve ::
  "v1_env \<Rightarrow> 's host \<Rightarrow> nat \<Rightarrow> session \<Rightarrow> sink_write \<Rightarrow> bool \<Rightarrow> byte list \<Rightarrow> sink \<Rightarrow> 's world \<Rightarrow> (sink \<times> 's world) option" where
  "serve v h fuel s wr helloCompleted reader k w =
     (case next_request v reader of
        Inl _ \<Rightarrow> Some (k, w)
      | Inr (request, reader1) \<Rightarrow>
          (case handle_request v h fuel s helloCompleted request w of
             None \<Rightarrow> None
           | Some (response, helloCompleted1, w1) \<Rightarrow>
               (case writeManagerV1Frame (Marshal_Response (the_json v)) wr response k of
                  (Some _, k1) \<Rightarrow> Some (k1, w1)
                | (None, k1) \<Rightarrow> serve v h fuel s wr helloCompleted1 reader1 k1 w1)))"
  by pat_completeness auto
termination
  by (relation "measure (\<lambda>(v, h, fuel, s, wr, b, reader, k, w). length reader)")
    (auto simp: next_request_def dest: readManagerV1Frame_shorter)

declare serve.simps [simp del]

section \<open>Sessions without administrator rights\<close>

text \<open>What an observer of the computer sees: the stored configurations, the sessions, whether the manager is to
  quit, the tunnels it tracks, the work it has started, and \<open>obs\<close> of the services.\<close>

definition watched :: "('s \<Rightarrow> 'x) \<Rightarrow> 's world \<Rightarrow> fs \<times> nat list \<times> bool \<times> bool \<times> (string \<times> TunnelState) list \<times> job list \<times> 'x" where
  "watched obs w = (files w, managerServices w, haveQuit w, quitManagersChan w, trackedTunnels w, jobs w, obs (svcs w))"

text \<open>Connecting, opening, querying and closing do not change what \<open>obs\<close> shows of the services.\<close>

definition queries_keep :: "'s scm \<Rightarrow> ('s \<Rightarrow> 'x) \<Rightarrow> bool" where
  "queries_keep m obs \<longleftrightarrow>
     (\<forall>st. obs (snd (scm_Connect m st)) = obs st) \<and> (\<forall>n st. obs (snd (scm_OpenService m n st)) = obs st) \<and>
     (\<forall>i st. obs (snd (svc_Query m i st)) = obs st) \<and> (\<forall>i st. obs (snd (svc_Close m i st)) = obs st)"

lemma keeps_watched_call: "(\<And>st. obs (snd (f st)) = obs st) \<Longrightarrow> keeps (watched obs) (scm_call f)"
  unfolding keeps_def scm_call_def watched_def by (auto split: prod.splits) (metis snd_conv)

lemma keeps_queries:
  assumes "queries_keep (the_scm h) obs"
  shows "keeps (watched obs) (serviceManager h)" "keeps (watched obs) (scm_call (scm_OpenService (the_scm h) n))"
    "keeps (watched obs) (scm_call (svc_Query (the_scm h) i))" "keeps (watched obs) (scm_call (svc_Close (the_scm h) i))"
proof -
  have "keeps (watched obs) (scm_call (scm_Connect (the_scm h)))"
    using assms by (intro keeps_watched_call) (simp add: queries_keep_def)
  then have "keeps (watched obs) (andThen (scm_call (scm_Connect (the_scm h))) (\<lambda>_ w. Some (Inr (), w \<lparr>cachedServiceManager := True\<rparr>)))"
    by (intro keeps_andThen) (simp_all add: keeps_def watched_def)
  then show "keeps (watched obs) (serviceManager h)"
    by (auto simp: keeps_def serviceManager_def io_run)
  show "keeps (watched obs) (scm_call (scm_OpenService (the_scm h) n))"
    "keeps (watched obs) (scm_call (svc_Query (the_scm h) i))" "keeps (watched obs) (scm_call (svc_Close (the_scm h) i))"
    using assms by (auto intro!: keeps_watched_call simp: queries_keep_def)
qed

lemma keeps_manager [keeps_intros]: "keeps obs m \<Longrightarrow> keeps obs (manager m)"
  by (auto simp: keeps_def manager_def)

lemma keeps_watched_service_name: "keeps (watched obs) (service_name n)"
  by (simp add: service_name_def keeps_intros split: sum.split)

lemma keeps_reading:
  assumes "queries_keep (the_scm h) obs"
  shows "keeps (watched obs) (State h n)" "keeps (watched obs) (state_or_unknown h n)"
    "keeps (watched obs) (list_loop v h names ps)" "keeps (watched obs) (getProfile h n)"
proof -
  note q = keeps_queries [OF assms] keeps_watched_service_name
  show st: "keeps (watched obs) (State h n)" for n
    unfolding State_def by (intro keeps_intros q)
  show un: "keeps (watched obs) (state_or_unknown h n)" for n
    unfolding state_or_unknown_def by (intro keeps_intros st)
  show "keeps (watched obs) (list_loop v h names ps)"
    by (induction names arbitrary: ps) (auto intro!: keeps_intros un)
  show "keeps (watched obs) (getProfile h n)"
    unfolding getProfile_def by (intro keeps_intros)
qed

lemma keeps_parameters [keeps_intros]: "keeps obs (parameters v dec raw)"
  unfolding parameters_def by (rule keeps_basic)

lemma dispatch_unprivileged:
  assumes "elevatedToken s = 0" "queries_keep (the_scm h) obs"
  shows "keeps (watched obs) (dispatch v h fuel s name raw)"
  unfolding dispatch_def Let_def listProfiles_def importProfile_def
  by (simp only: assms(1) simp_thms if_True, intro keeps_intros keeps_reading [OF assms(2)])

lemma handle_request_unprivileged:
  assumes "elevatedToken s = 0" "queries_keep (the_scm h) obs"
    and "handle_request v h fuel s hello req w = Some (response, hello', w')"
  shows "watched obs w' = watched obs w"
  using assms(3) keepsD [OF dispatch_unprivileged [OF assms(1,2)]]
  by (auto simp: handle_request_def Let_def split: if_splits option.splits sum.splits)

text \<open>C9: a client without administrator rights can read but not act: whatever bytes it sends, the stored
  configurations, the sessions, the tracked tunnels, the work that the manager has started and the services
  are as before, and the manager is not told to quit.\<close>

theorem serve_unprivileged:
  assumes "elevatedToken s = 0" "queries_keep (the_scm h) obs"
    and "serve v h fuel s wr hello reader k w = Some (k', w')"
  shows "watched obs w' = watched obs w"
  using assms
proof (induction v h fuel s wr hello reader k w arbitrary: k' w' rule: serve.induct)
  case (1 v h fuel s wr hello reader k w)
  note run = 1(4) [unfolded serve.simps [of v h fuel s wr hello reader k w]]
  show ?case
  proof (cases "next_request v reader")
    case (Inr rr)
    obtain req reader1 where rr: "rr = (req, reader1)" by fastforce
    obtain response hello1 w1 where hr: "handle_request v h fuel s hello req w = Some (response, hello1, w1)"
      using run by (auto simp: Inr rr split: option.splits)
    note same = handle_request_unprivileged [OF 1(2,3) hr]
    obtain e k1 where wf: "writeManagerV1Frame (Marshal_Response (the_json v)) wr response k = (e, k1)" by fastforce
    show ?thesis
    proof (cases e)
      case None
      have "serve v h fuel s wr hello1 reader1 k1 w1 = Some (k', w')"
        using run by (simp add: Inr rr hr wf None)
      then show ?thesis
        using 1(1) [OF Inr rr [symmetric] hr refl refl wf [symmetric] None 1(2,3)] same by simp
    qed (use run same in \<open>simp add: Inr rr hr wf\<close>)
  qed (use run in simp)
qed

definition sample_json :: json where
  "sample_json =
     \<lparr>json_Request = (\<lambda>bs. Some (\<lparr>req_Version = 1, RequestID = int (unat (hd bs)), Method = ''hello'', Parameters = bs\<rparr>, [])),
      json_Hello = (\<lambda>bs. Some (\<lparr>Protocol = managerV1Protocol, MinimumVersion = 1, MaximumVersion = 1, ClientVersion = [], Architecture = []\<rparr>, [])),
      json_Empty = (\<lambda>bs. Some ((), [])), json_Name = (\<lambda>bs. Some (string_of bs, [])), json_Import = (\<lambda>bs. None),
      json_Quit = (\<lambda>bs. Some (True, [])), json_EOF = (\<lambda>rest. rest = []), Marshal_Response = (\<lambda>r. Some [of_int (resp_RequestID r)])\<rparr>"

definition sample_v1 :: v1_env where
  "sample_v1 = \<lparr>the_json = sample_json, Public = id, IsPunct = (\<lambda>_. False), version_Number = ''1'',
     error_String = (\<lambda>_. ''e''), parse_error_String = (\<lambda>_. ''p'')\<rparr>"

theorem serve_unprivileged_witness:
  "\<exists>k' w'. serve sample_v1 sample_host 0 \<lparr>sid = 1, elevatedToken = 0\<rparr> (\<lambda>i n. Inr n) False [1, 0, 0, 0, 5]
      \<lparr>sent = [], calls = 0\<rparr> sample_world = Some (k', w') \<and>
    sent k' = [1, 0, 0, 0, 5] \<and> watched (\<lambda>_. ()) w' = watched (\<lambda>_. ()) sample_world"
    (is "\<exists>k' w'. ?run = Some (k', w') \<and> _")
proof -
  have "map_option (\<lambda>(k, w). sent k) ?run = Some [1, 0, 0, 0, 5]" by code_simp
  then obtain k' w' where run: "?run = Some (k', w')" "sent k' = [1, 0, 0, 0, 5]" by auto
  then show ?thesis
    using serve_unprivileged [OF _ _ run(1), of "\<lambda>_. ()"] by (simp add: queries_keep_def)
qed

section \<open>A session as a list of requests\<close>

text \<open>The requests of a stream, up to the first frame that cannot be read.\<close>

function requests_of :: "v1_env \<Rightarrow> byte list \<Rightarrow> managerV1Request list" where
  "requests_of v reader =
     (case next_request v reader of Inl _ \<Rightarrow> [] | Inr (request, reader1) \<Rightarrow> request # requests_of v reader1)"
  by pat_completeness auto
termination
  by (relation "measure (\<lambda>(v, reader). length reader)") (auto simp: next_request_def dest: readManagerV1Frame_shorter)

declare requests_of.simps [simp del]

fun answer_requests ::
  "v1_env \<Rightarrow> 's host \<Rightarrow> nat \<Rightarrow> session \<Rightarrow> bool \<Rightarrow> managerV1Request list \<Rightarrow> 's world \<Rightarrow> (managerV1Response list \<times> 's world) option" where
  "answer_requests v h fuel s hello [] w = Some ([], w)"
| "answer_requests v h fuel s hello (req # reqs) w =
     (case handle_request v h fuel s hello req w of
        None \<Rightarrow> None
      | Some (response, hello1, w1) \<Rightarrow> map_option (apfst ((#) response)) (answer_requests v h fuel s hello1 reqs w1))"

text \<open>A pipe that takes bytes, and a value whose text fits in a frame.\<close>

definition pipe_open :: "sink_write \<Rightarrow> bool" where
  "pipe_open wr \<longleftrightarrow> (\<forall>i n. 0 < n \<longrightarrow> (\<exists>m. wr i n = Inr m \<and> 0 < m))"

definition fits :: "('v \<Rightarrow> byte list option) \<Rightarrow> 'v \<Rightarrow> bool" where
  "fits Marshal x \<longleftrightarrow> (case Marshal x of None \<Rightarrow> False | Some p \<Rightarrow> 0 < length p \<and> length p \<le> managerV1MaximumFrameLength)"

definition frame_of :: "('v \<Rightarrow> byte list option) \<Rightarrow> 'v \<Rightarrow> byte list" where
  "frame_of Marshal x = (case Marshal x of None \<Rightarrow> [] | Some p \<Rightarrow> le_bytes 4 (length p) @ p)"

lemma writeManagerV1Bytes_open:
  "pipe_open wr \<Longrightarrow> \<exists>k'. writeManagerV1Bytes wr data k = (None, k')"
proof (induction wr data k rule: writeManagerV1Bytes.induct)
  case (1 wr data k)
  show ?case
  proof (cases "length data = 0")
    case False
    then have "0 < length data" by simp
    then obtain n where n: "wr (calls k) (length data) = Inr n" "n \<noteq> 0"
      using 1(2) [unfolded pipe_open_def, rule_format, of "length data" "calls k"] by blast
    then show ?thesis
      using 1(1) [OF False n 1(2)] False by (subst writeManagerV1Bytes.simps) simp
  qed (simp add: writeManagerV1Bytes.simps)
qed

lemma writeManagerV1Frame_open:
  assumes "pipe_open wr" "fits Marshal x"
  shows "\<exists>k'. writeManagerV1Frame Marshal wr x k = (None, k') \<and> sent k' = sent k @ frame_of Marshal x"
proof -
  obtain p where p: "Marshal x = Some p" "0 < length p" "length p \<le> managerV1MaximumFrameLength"
    using assms(2) by (auto simp: fits_def split: option.splits)
  have len: "unat (of_nat (length p) :: u32) = length p"
    using p(3) by (simp add: unat_of_nat managerV1MaximumFrameLength_def)
  obtain k1 where k1: "writeManagerV1Bytes wr (le_bytes 4 (length p)) k = (None, k1)"
    using writeManagerV1Bytes_open [OF assms(1)] by blast
  obtain k2 where k2: "writeManagerV1Bytes wr p k1 = (None, k2)"
    using writeManagerV1Bytes_open [OF assms(1)] by blast
  show ?thesis
    using p k1 k2 writeManagerV1Bytes_sent [OF k1] writeManagerV1Bytes_sent [OF k2]
    by (simp add: writeManagerV1Frame_def frame_of_def len)
qed

text \<open>C24: the server of the protocol, on bytes, is the sequence of its answers to the requests in them: on a
  pipe that takes bytes and with responses that fit in a frame, what it writes is the frames of these
  responses, one for each request and in order, and the manager ends in the same state.\<close>

theorem serve_refines:
  assumes "pipe_open wr" "answer_requests v h fuel s hello (requests_of v reader) w = Some (responses, w')"
    and "list_all (fits (Marshal_Response (the_json v))) responses"
  shows "\<exists>k'. serve v h fuel s wr hello reader k w = Some (k', w') \<and>
    sent k' = sent k @ concat (map (frame_of (Marshal_Response (the_json v))) responses)"
  using assms
proof (induction v reader arbitrary: hello k w responses rule: requests_of.induct)
  case (1 v reader)
  show ?case
  proof (cases "next_request v reader")
    case (Inl e)
    then show ?thesis
      using 1(3) by (simp add: requests_of.simps [of v reader] serve.simps [of v h fuel s wr hello reader])
  next
    case (Inr rr)
    obtain req reader1 where rr: "rr = (req, reader1)" by fastforce
    have "requests_of v reader = req # requests_of v reader1"
      by (simp add: requests_of.simps [of v reader] Inr rr)
    then obtain response hello1 w1 rs where hr: "handle_request v h fuel s hello req w = Some (response, hello1, w1)"
        "answer_requests v h fuel s hello1 (requests_of v reader1) w1 = Some (rs, w')" "responses = response # rs"
      using 1(3) by (auto split: option.splits)
    obtain k1 where k1: "writeManagerV1Frame (Marshal_Response (the_json v)) wr response k = (None, k1)"
        "sent k1 = sent k @ frame_of (Marshal_Response (the_json v)) response"
      using writeManagerV1Frame_open [OF 1(2)] 1(4) hr(3) by fastforce
    obtain k' where "serve v h fuel s wr hello1 reader1 k1 w1 = Some (k', w')"
        "sent k' = sent k1 @ concat (map (frame_of (Marshal_Response (the_json v))) rs)"
      using 1(1) [OF Inr rr [symmetric] 1(2) hr(2)] 1(4) hr(3) by auto
    then show ?thesis
      using k1 hr by (simp add: serve.simps [of v h fuel s wr hello reader] Inr rr)
  qed
qed

definition is_hello :: "managerV1Response \<Rightarrow> bool" where
  "is_hello response \<longleftrightarrow> (case Result response of Some (HelloResult _) \<Rightarrow> True | _ \<Rightarrow> False)"

lemma keeps_world: "keeps (\<lambda>w. w) m \<Longrightarrow> m w = Some (r, w') \<Longrightarrow> w' = w"
  by (rule keepsD [of "\<lambda>w. w"])

lemma dispatch_hello: "keeps (\<lambda>w. w) (dispatch v h fuel s ''hello'' raw)"
  unfolding dispatch_def Let_def by (simp only: simp_thms if_True, intro keeps_intros)

lemma dispatch_HelloResult:
  assumes "dispatch v h fuel s name raw w = Some (Inr result, w')"
  shows "(name = ''hello'') = (\<exists>hr. result = HelloResult hr)"
  using assms
  by (auto simp: dispatch_def Let_def io_run state_response_def elim!: andThenE split: if_splits)

lemma handle_request_shape:
  assumes "handle_request v h fuel s hello req w = Some (response, hello', w')"
  shows "resp_RequestID response = RequestID req" "(Result response = None) = (resp_Error response \<noteq> None)"
    "hello' = (hello \<or> is_hello response)" "hello \<Longrightarrow> \<not> is_hello response"
    "\<not> hello \<Longrightarrow> w' = w" "\<not> hello \<Longrightarrow> \<not> hello' \<Longrightarrow> resp_Error response \<noteq> None"
  using assms dispatch_HelloResult [of v h fuel s "Method req" "Parameters req" w]
    keeps_world [OF dispatch_hello, of v h fuel s "Parameters req" w]
  by (auto simp: handle_request_def Let_def is_hello_def split: if_splits option.splits sum.splits v1_result.splits)

lemma answer_requests_hello:
  assumes "answer_requests v h fuel s hello reqs w = Some (responses, w')"
  shows "map resp_RequestID responses = map RequestID reqs \<and>
    list_all (\<lambda>r. (Result r = None) = (resp_Error r \<noteq> None)) responses \<and>
    length (filter is_hello responses) \<le> (if hello then 0 else 1) \<and>
    (\<not> hello \<longrightarrow> list_all (\<lambda>r. resp_Error r \<noteq> None) (takeWhile (\<lambda>r. \<not> is_hello r) responses)) \<and>
    (\<not> hello \<longrightarrow> \<not> list_ex is_hello responses \<longrightarrow> w' = w)"
  using assms
proof (induction reqs arbitrary: hello w responses)
  case (Cons req reqs)
  obtain response hello1 w1 rs where hr: "handle_request v h fuel s hello req w = Some (response, hello1, w1)"
      "answer_requests v h fuel s hello1 reqs w1 = Some (rs, w')" "responses = response # rs"
    using Cons.prems by (auto split: option.splits)
  note shape = handle_request_shape [OF hr(1)]
  show ?case
    using Cons.IH [OF hr(2)] shape by (cases hello; cases "is_hello response") (auto simp: hr(3))
qed simp

text \<open>C28: the hello comes first, once: every request is answered, in order and under its own identifier,
  with a result or an error and never both; at most one answer is that of a hello; all answers before it
  are errors, and without it nothing has changed.\<close>

theorem answer_requests_hello_first:
  assumes "answer_requests v h fuel s False reqs w = Some (responses, w')"
  shows "map resp_RequestID responses = map RequestID reqs \<and>
    list_all (\<lambda>r. (Result r = None) = (resp_Error r \<noteq> None)) responses \<and>
    length (filter is_hello responses) \<le> 1 \<and>
    list_all (\<lambda>r. resp_Error r \<noteq> None) (takeWhile (\<lambda>r. \<not> is_hello r) responses) \<and>
    (list_ex is_hello responses \<or> w' = w)"
  using answer_requests_hello [OF assms] by auto

theorem answer_requests_hello_first_witness:
  "\<exists>responses w'. answer_requests sample_v1 sample_host 0 \<lparr>sid = 1, elevatedToken = 0\<rparr> False
      [\<lparr>req_Version = 1, RequestID = 3, Method = ''manager.quit'', Parameters = [1]\<rparr>,
       \<lparr>req_Version = 2, RequestID = 4, Method = ''hello'', Parameters = [1]\<rparr>] sample_world = Some (responses, w') \<and>
    map resp_RequestID responses = [3, 4] \<and> length (filter is_hello responses) \<le> 1"
  (is "\<exists>responses w'. ?run = Some (responses, w') \<and> _")
proof -
  have "?run \<noteq> None" by code_simp
  then obtain responses w' where run: "?run = Some (responses, w')" by (cases ?run) auto
  then show ?thesis
    using answer_requests_hello_first [OF run] by simp
qed

theorem serve_refines_witness:
  "\<exists>k' responses w'. answer_requests sample_v1 sample_host 0 \<lparr>sid = 1, elevatedToken = 0\<rparr> False
      (requests_of sample_v1 [1, 0, 0, 0, 7, 1, 0, 0, 0, 8]) sample_world = Some (responses, w') \<and>
    serve sample_v1 sample_host 0 \<lparr>sid = 1, elevatedToken = 0\<rparr> (\<lambda>i n. Inr 1) False [1, 0, 0, 0, 7, 1, 0, 0, 0, 8]
      \<lparr>sent = [], calls = 0\<rparr> sample_world = Some (k', w') \<and>
    sent k' = concat (map (frame_of (Marshal_Response sample_json)) responses)"
  (is "\<exists>k' responses w'. ?run = Some (responses, w') \<and> _")
proof -
  have "?run \<noteq> None" by code_simp
  then obtain responses w' where run: "?run = Some (responses, w')" by (cases ?run) auto
  have "list_all (fits (Marshal_Response (the_json sample_v1))) responses"
    by (simp add: list_all_iff fits_def sample_v1_def sample_json_def managerV1MaximumFrameLength_def)
  then show ?thesis
    using serve_refines [OF _ run, of "\<lambda>i n. Inr 1" "\<lparr>sent = [], calls = 0\<rparr>"] run
    by (simp add: pipe_open_def sample_v1_def)
qed

section \<open>Imports\<close>

lemma contains_lower:
  assumes "\<not> contains names n" "m \<in> set names" "TunnelNameIsValid n" "TunnelNameIsValid m"
  shows "map lower_byte m \<noteq> map lower_byte n"
  using assms by (auto simp: contains_def list_ex_iff strings_EqualFold_def fold_case_valid)

lemma AvailableName_result:
  assumes "managerV1AvailableName punct (Inr existing) displayName = Inr n"
  shows "TunnelNameIsValid n \<and> \<not> contains existing n"
  using assms number_loop_Some
  by (auto simp: managerV1AvailableName_def base_name_def Let_def split: sum.splits if_splits option.splits)

lemma importProfile_steps:
  assumes "importProfile v h s request w = Some (Inr p, w')"
  obtains displayName name config where "elevatedToken s \<noteq> 0"
    "managerV1ValidateDisplayName (import_DisplayName request) = (Inr displayName :: mgr_error v1_error + string)"
    "managerV1AvailableName (IsPunct v) (map_sum StoreError id (config_names h (files w))) displayName = Inr name"
    "FromWgQuick (WgQuickConfiguration request) name = Inr config" "\<not> has_hooks config"
    "Save (store h) (config \<lparr>TrailingComments := TrailingComments config @ [display_comment displayName]\<rparr>) False (files w) = (Inr (), files w')"
    "p = managerV1Summary v (config \<lparr>TrailingComments := TrailingComments config @ [display_comment displayName]\<rparr>) TunnelStopped"
proof -
  have token: "elevatedToken s \<noteq> 0"
    using assms by (cases "elevatedToken s = 0") (simp_all add: importProfile_def io_run)
  obtain displayName where dn: "managerV1ValidateDisplayName (import_DisplayName request) = (Inr displayName :: mgr_error v1_error + string)"
    using assms token by (auto simp: importProfile_def io_run elim!: andThenE)
  obtain name where nm: "managerV1AvailableName (IsPunct v) (map_sum StoreError id (config_names h (files w))) displayName = Inr name"
    using assms token by (auto simp: importProfile_def io_run dn elim!: andThenE split: if_splits)
  obtain config where c: "FromWgQuick (WgQuickConfiguration request) name = Inr config" "\<not> has_hooks config"
    using assms token by (auto simp: importProfile_def io_run dn nm elim!: andThenE split: if_splits sum.splits)
  have "Save (store h) (config \<lparr>TrailingComments := TrailingComments config @ [display_comment displayName]\<rparr>) False (files w) = (Inr (), files w') \<and>
      p = managerV1Summary v (config \<lparr>TrailingComments := TrailingComments config @ [display_comment displayName]\<rparr>) TunnelStopped"
    using assms token
    by (auto simp: importProfile_def io_run dn nm c Let_def display_comment_def manager_def store_call_def map_sum_Inr
        elim!: andThenE split: if_splits prod.splits)
  with token dn nm c that show thesis by blast
qed

text \<open>C5: a profile that is imported is stored under a new, valid tunnel name; what is stored can be read
  back, has no hook command and carries the display name that was asked for; and every profile that was
  stored before, as long as the directory lists it, is still stored and unchanged.\<close>

theorem importProfile_stored:
  assumes "good_env (store h)" "importProfile v h s request w = Some (Inr p, w')" "config_names h (files w) = Inr names"
  shows "elevatedToken s \<noteq> 0 \<and> TunnelNameIsValid (summary_Name p) \<and> \<not> contains names (summary_Name p) \<and>
    (\<exists>c. stored (store h) (files w') (summary_Name p) = Some c \<and> \<not> has_hooks c \<and>
       managerV1DisplayName c = strings_TrimSpace (import_DisplayName request)) \<and>
    (\<forall>n c. n \<in> set names \<and> stored (store h) (files w) n = Some c \<longrightarrow> stored (store h) (files w') n = Some c)"
proof -
  obtain displayName name config where i: "elevatedToken s \<noteq> 0"
    "managerV1ValidateDisplayName (import_DisplayName request) = (Inr displayName :: mgr_error v1_error + string)"
    "managerV1AvailableName (IsPunct v) (map_sum StoreError id (config_names h (files w))) displayName = Inr name"
    "FromWgQuick (WgQuickConfiguration request) name = Inr config" "\<not> has_hooks config"
    "Save (store h) (config \<lparr>TrailingComments := TrailingComments config @ [display_comment displayName]\<rparr>) False (files w) = (Inr (), files w')"
    "p = managerV1Summary v (config \<lparr>TrailingComments := TrailingComments config @ [display_comment displayName]\<rparr>) TunnelStopped"
    using importProfile_steps [OF assms(2)] by metis
  let ?c = "config \<lparr>TrailingComments := TrailingComments config @ [display_comment displayName]\<rparr>"
  have name: "TunnelNameIsValid name" "\<not> contains names name"
    using AvailableName_result [of "IsPunct v", OF i(3) [unfolded assms(3) map_sum.simps id_apply]] by simp_all
  have disp: "displayName \<noteq> []" "displayName = strings_TrimSpace (import_DisplayName request)"
    using i(2) by (auto simp: managerV1ValidateDisplayName_def Let_def split: if_splits)
  have "wf_config config" and nm: "Name config = name"
    using FromWgQuick_wf [OF i(4)] by auto
  then have wf: "wf_config ?c"
    using wf_config_display_comment [OF _ disp(1)] by blast
  have st: "stored (store h) (files w') n = (if n = name then Some ?c
      else if map lower_byte n = map lower_byte name then None else stored (store h) (files w) n)" for n
    using stored_Save [OF _ _ wf i(6), of n] assms(1) nm by (simp add: good_env_def)
  have kept: "stored (store h) (files w') n = Some c" if "n \<in> set names" "stored (store h) (files w) n = Some c" for n c
  proof -
    have "TunnelNameIsValid n"
      using stored_SomeD [OF _ that(2)] assms(1) by (simp add: good_env_def)
    then show ?thesis
      using st [of n] that contains_lower [OF name(2) that(1) name(1)] by auto
  qed
  have "\<not> has_hooks ?c" "managerV1DisplayName ?c = displayName" "summary_Name p = name"
    using i(5,7) DisplayName_comment [OF i(2)] nm by (simp_all add: has_hooks_def managerV1Summary_def)
  with i(1) name disp(2) st [of name] kept show ?thesis by auto
qed

theorem importProfile_stored_witness:
  "\<exists>p w' c. importProfile sample_v1 sample_host \<lparr>sid = 1, elevatedToken = 7\<rparr>
      \<lparr>import_DisplayName = '' Home! '', WgQuickConfiguration = ToWgQuick minimal_config\<rparr> sample_world = Some (Inr p, w') \<and>
    stored sample_env (files w') (summary_Name p) = Some c \<and> managerV1DisplayName c = ''Home!''"
  (is "\<exists>p w' c. ?run = Some (Inr p, w') \<and> _")
proof -
  have "map_option (\<lambda>(r, w'). isl r) ?run = Some False" by code_simp
  then obtain p w' where run: "?run = Some (Inr p, w')" by (auto simp: isl_def) (metis sum.exhaust)
  have "config_names sample_host (files sample_world) = Inr []"
    by (simp add: config_names_def sample_host_def ListConfigNames_def)
  note importProfile_stored [OF _ run this]
  moreover have "good_env (store sample_host)"
    using sample_env_good by (simp add: sample_host_def)
  moreover have "strings_TrimSpace '' Home! '' = ''Home!''" by code_simp
  ultimately show ?thesis
    using run by (auto simp: sample_host_def)
qed

section \<open>What a client may read\<close>

text \<open>The detail of a profile is a function of what may be shown.\<close>

definition same_public :: "Config \<Rightarrow> Config \<Rightarrow> bool" where
  "same_public c d \<longleftrightarrow>
     Name c = Name d \<and> managerV1DisplayName c = managerV1DisplayName d \<and> has_hooks c = has_hooks d \<and>
     (let i = config_Interface c; j = config_Interface d in Addresses i = Addresses j \<and> DNS i = DNS j \<and> DNSSearch i = DNSSearch j) \<and>
     list_all2 (\<lambda>p q. PublicKey p = PublicKey q \<and> IsZero (PresharedKey p) = IsZero (PresharedKey q) \<and> AllowedIPs p = AllowedIPs q \<and>
       peer_Endpoint p = peer_Endpoint q \<and> PersistentKeepalive p = PersistentKeepalive q) (Peers c) (Peers d)"

lemma same_AllowedIPs: "same_public c d \<Longrightarrow> map AllowedIPs (Peers c) = map AllowedIPs (Peers d)"
  by (auto simp: same_public_def list_all2_conv_all_nth intro: nth_equalityI)

lemma dns_route_AllowedIPs:
  "map AllowedIPs ps = map AllowedIPs qs \<Longrightarrow> dns_route ps dns = dns_route qs dns"
proof -
  have "fold (\<lambda>peer route. if list_ex (\<lambda>a. prefix_Contains a dns) (AllowedIPs peer) then ''throughTunnel'' else route) ps r =
      fold (\<lambda>as route. if list_ex (\<lambda>a. prefix_Contains a dns) as then ''throughTunnel'' else route) (map AllowedIPs ps) r" for ps :: "Peer list" and r
    by (simp add: fold_map comp_def)
  then show "map AllowedIPs ps = map AllowedIPs qs \<Longrightarrow> ?thesis"
    by (simp add: dns_route_def)
qed

lemma RouteMode_AllowedIPs:
  "map AllowedIPs (Peers c) = map AllowedIPs (Peers d) \<Longrightarrow> managerV1RouteMode c = managerV1RouteMode d"
proof -
  have "list_ex (\<lambda>peer. list_ex P (AllowedIPs peer)) ps = list_ex (list_ex P) (map AllowedIPs ps)" for P and ps :: "Peer list"
    by (simp add: list_ex_iff)
  then show "map AllowedIPs (Peers c) = map AllowedIPs (Peers d) \<Longrightarrow> ?thesis"
    by (simp add: managerV1RouteMode_def)
qed

text \<open>C37: reading a profile reveals no secret: the detail of two stored configurations is the same whenever
  they agree on the names, addresses, servers, domains, public keys, allowed addresses, endpoints and
  keepalives, on which peers have a preshared key and on whether there are hooks; so it does not depend on
  the private key, the preshared keys or the text of the hooks.\<close>

theorem getProfile_noninterference:
  assumes "LoadFromName (store h) n (files w1) = Inr c" "LoadFromName (store h) n (files w2) = Inr d" "same_public c d"
  shows "\<exists>detail. getProfile h n w1 = Some (Inr detail, w1) \<and> getProfile h n w2 = Some (Inr detail, w2)"
proof -
  note ips = same_AllowedIPs [OF assms(3)]
  have "map peer_item (Peers c) = map peer_item (Peers d)"
    using assms(3) by (auto simp: same_public_def list_all2_conv_all_nth peer_item_def intro!: nth_equalityI)
  then have "profile_detail c = profile_detail d"
    using assms(3) RouteMode_AllowedIPs [OF ips] dns_route_AllowedIPs [OF ips]
    by (simp add: profile_detail_def same_public_def Let_def)
  then show ?thesis
    using assms(1,2) by (simp add: getProfile_def attempt_def load_call_run io_run)
qed

definition secret_config :: Config where
  "secret_config = minimal_config \<lparr>config_Interface := zero_Interface \<lparr>PrivateKey := replicate 32 7\<rparr>\<rparr>"

definition world_with :: "Config \<Rightarrow> unit world" where
  "world_with c = sample_world \<lparr>files := snd (Save sample_env c True Map.empty)\<rparr>"

theorem getProfile_noninterference_witness:
  "\<exists>detail. getProfile sample_host ''wg0'' (world_with minimal_config) = Some (Inr detail, world_with minimal_config) \<and>
    getProfile sample_host ''wg0'' (world_with secret_config) = Some (Inr detail, world_with secret_config)"
proof (rule getProfile_noninterference)
  have saved: "fst (Save sample_env minimal_config True Map.empty) = Inr ()" "fst (Save sample_env secret_config True Map.empty) = Inr ()"
    by code_simp+
  have "wf_config secret_config"
    using minimal_config_wf
    by (simp add: wf_config_def wf_interface_def interface_ok_def interface_present_def KeyLength_def secret_config_def minimal_config_def zero_defs)
  then have wf: "wf_config minimal_config" "wf_config secret_config" using minimal_config_wf by simp_all
  have load: "LoadFromName (store sample_host) ''wg0'' (files (world_with c)) = Inr c"
    if "wf_config c" "Name c = ''wg0''" "fst (Save sample_env c True Map.empty) = Inr ()" for c
  proof -
    have "Save sample_env c True Map.empty = (Inr (), files (world_with c))"
      using that(3) by (simp add: world_with_def prod_eq_iff)
    then have "stored sample_env (files (world_with c)) ''wg0'' = Some c"
      using stored_Save [OF _ _ that(1)] sample_env_good that(2) by (simp add: good_env_def)
    then show ?thesis
      using stored_SomeD sample_env_good by (simp add: good_env_def sample_host_def)
  qed
  show "LoadFromName (store sample_host) ''wg0'' (files (world_with minimal_config)) = Inr minimal_config"
    "LoadFromName (store sample_host) ''wg0'' (files (world_with secret_config)) = Inr secret_config"
    using load [OF wf(1) _ saved(1)] load [OF wf(2) _ saved(2)] by (simp_all add: secret_config_def minimal_config_def)
  show "same_public minimal_config secret_config" by code_simp
qed

section \<open>The list of profiles\<close>

text \<open>What sorting needs of an order.\<close>

locale weak_order =
  fixes lt :: "'a \<Rightarrow> 'a \<Rightarrow> bool"
  assumes irrefl: "\<not> lt a a"
    and trans: "lt a b \<Longrightarrow> lt b c \<Longrightarrow> lt a c"
    and incomparable: "\<not> lt a b \<Longrightarrow> \<not> lt b a \<Longrightarrow> \<not> lt b c \<Longrightarrow> \<not> lt c b \<Longrightarrow> \<not> lt a c"
begin

lemma negatively_trans: "\<not> lt b a \<Longrightarrow> \<not> lt c b \<Longrightarrow> \<not> lt c a"
  using irrefl trans incomparable by metis

lemma set_insert_by: "set (insert_by lt x ys) = insert x (set ys)"
  by (induction ys) auto

lemma sorted_insert_by:
  "sorted_wrt (\<lambda>a b. \<not> lt b a) ys \<Longrightarrow> sorted_wrt (\<lambda>a b. \<not> lt b a) (insert_by lt x ys)"
proof (induction ys)
  case (Cons y ys)
  show ?case
  proof (cases "lt y x")
    case True
    then have "\<not> lt x y" using irrefl trans by blast
    then show ?thesis using Cons True by (simp add: set_insert_by)
  next
    case False
    then have "\<not> lt z x" if "z \<in> set ys" for z
      using negatively_trans [of y x z] Cons.prems that by simp
    then show ?thesis using Cons.prems False by simp
  qed
qed simp

lemma sorted_sort_Slice: "sorted_wrt (\<lambda>a b. \<not> lt b a) (sort_Slice lt xs)"
  unfolding sort_Slice_def by (induction xs) (simp_all add: sorted_insert_by)

lemma mset_sort_Slice: "mset (sort_Slice lt xs) = mset xs"
proof -
  have "mset (insert_by lt x ys) = add_mset x (mset ys)" for x ys
    by (induction ys) auto
  then show ?thesis
    unfolding sort_Slice_def by (induction xs) simp_all
qed

end

interpretation names: weak_order TunnelNameIsLess
proof unfold_locales
  show "\<not> TunnelNameIsLess a c"
    if "\<not> TunnelNameIsLess a b" "\<not> TunnelNameIsLess b a" "\<not> TunnelNameIsLess b c" "\<not> TunnelNameIsLess c b" for a b c
    using that tokens_incomparable same_tokens_trans unfolding tokens_of_less by metis
qed (auto simp: tokens_of_less tokens_less_irrefl intro: tokens_less_trans)

lemma keeps_state_or_unknown: "keeps files (state_or_unknown h n)"
  unfolding state_or_unknown_def by (rule keeps_files) (intro keeps_intros)

lemma returns_calls [returns_intros]: "returns (scm_call f)" "returns (load_call g)"
  by (simp_all add: returns_def scm_call_def load_call_def split: prod.split)

lemma returns_serviceManager [returns_intros]: "returns (serviceManager h)"
  by (auto simp: returns_def serviceManager_def io_run andThen_def scm_call_def split: option.splits sum.splits prod.splits)

lemma state_or_unknown_runs: "\<exists>st w'. state_or_unknown h n w = Some (Inr st, w')"
proof -
  have "returns (state_or_unknown h n)"
    unfolding state_or_unknown_def State_def service_name_def by (intro returns_intros)
  then obtain r w' where r: "state_or_unknown h n w = Some (r, w')"
    using returnsD [of "state_or_unknown h n" w] by auto
  then have "\<not> isl r"
    by (auto simp: state_or_unknown_def io_run elim!: attemptE split: sum.splits)
  with r show ?thesis by (cases r) auto
qed

lemma list_loop_runs:
  assumes "drive_path (config_dir (store h))"
  shows "\<exists>ps' w'. list_loop v h names ps w = Some (Inr (ps @ ps'), w') \<and>
    map summary_Name ps' = filter (\<lambda>n. stored (store h) (files w) n \<noteq> None) names"
proof (induction names arbitrary: ps w)
  case (Cons n names)
  show ?case
  proof (cases "LoadFromName (store h) n (files w)")
    case (Inl e)
    then have "stored (store h) (files w) n = None" by (simp add: stored_def)
    then show ?thesis
      using Cons.IH [of ps w] Inl by (simp add: attempt_def load_call_run)
  next
    case (Inr c)
    then have st: "stored (store h) (files w) n = Some c" by (simp add: stored_def)
    obtain state w1 where w1: "state_or_unknown h n w = Some (Inr state, w1)"
      using state_or_unknown_runs by blast
    then have same: "files w1 = files w" by (rule keepsD [OF keeps_state_or_unknown])
    have "Name c = n" using stored_SomeD [OF assms st] by simp
    with Cons.IH [of "ps @ [managerV1Summary v c state]" w1] show ?thesis
      using Inr st w1 same by (auto simp: attempt_def load_call_run andThen_def managerV1Summary_def)
  qed
qed (simp add: io_run)

text \<open>Listing the profiles returns, and gives exactly the names in the directory whose configuration can
  be read, each as often as it is listed and in the order of \<open>TunnelNameIsLess\<close>.\<close>

theorem listProfiles_sorted:
  assumes "good_env (store h)" "config_names h (files w) = Inr names"
  shows "\<exists>ps w'. listProfiles v h w = Some (Inr ps, w') \<and>
    mset (map summary_Name ps) = mset (filter (\<lambda>n. stored (store h) (files w) n \<noteq> None) names) \<and>
    sorted_wrt (\<lambda>a b. \<not> TunnelNameIsLess b a) (map summary_Name ps)"
proof -
  obtain ps w' where run: "list_loop v h (sort_Slice TunnelNameIsLess names) [] w = Some (Inr ps, w')"
      "map summary_Name ps = filter (\<lambda>n. stored (store h) (files w) n \<noteq> None) (sort_Slice TunnelNameIsLess names)"
    using list_loop_runs [of h v "sort_Slice TunnelNameIsLess names" "[]" w] assms(1) by (auto simp: good_env_def)
  have "listProfiles v h w = Some (Inr ps, w')"
    using run(1) assms(2) by (simp add: listProfiles_def andThen_def load_call_run)
  moreover have "mset (map summary_Name ps) = mset (filter (\<lambda>n. stored (store h) (files w) n \<noteq> None) names)"
    unfolding run(2) by (simp only: mset_filter names.mset_sort_Slice)
  moreover have "sorted_wrt (\<lambda>a b. \<not> TunnelNameIsLess b a) (map summary_Name ps)"
    unfolding run(2) by (rule sorted_wrt_filter [OF names.sorted_sort_Slice])
  ultimately show ?thesis by blast
qed

theorem listProfiles_sorted_witness:
  "\<exists>ps w'. listProfiles sample_v1 (sample_host \<lparr>ReadDir := (\<lambda>_. Inr
        [\<lparr>entry_Name = ''wg9.conf.dpapi'', entry_IsRegular = True, entry_Perm = Some 256\<rparr>,
         \<lparr>entry_Name = ''wg0.conf.dpapi'', entry_IsRegular = True, entry_Perm = Some 256\<rparr>])\<rparr>) (world_with minimal_config) = Some (Inr ps, w') \<and>
    sorted_wrt (\<lambda>a b. \<not> TunnelNameIsLess b a) (map summary_Name ps)"
    (is "\<exists>ps w'. listProfiles sample_v1 ?h _ = _ \<and> _")
proof -
  have "good_env (store ?h)"
    using sample_env_good by (simp add: sample_host_def)
  moreover have "config_names ?h (files (world_with minimal_config)) = Inr [''wg9'', ''wg0'']" by code_simp
  ultimately show ?thesis
    using listProfiles_sorted [of ?h "world_with minimal_config" _ sample_v1] by blast
qed

section \<open>Events\<close>

datatype v1_payload = ProfilesChanged "string list" | TunnelStateChanged string string "string option" | Stopping string

record managerV1Event =
  ev_Version :: int
  Sequence :: u64
  Event :: string
  Payload :: v1_payload

record managerV1Service =
  v1_events :: "sink option"
  eventSequence :: u64

definition managerV1Notify ::
  "(managerV1Event \<Rightarrow> byte list option) \<Rightarrow> sink_write \<Rightarrow> string \<times> v1_payload \<Rightarrow> managerV1Service list \<Rightarrow> managerV1Service list" where
  "managerV1Notify Marshal wr ep =
     map (\<lambda>service.
       case v1_events service of
         None \<Rightarrow> service
       | Some k \<Rightarrow>
           let q = eventSequence service + 1
           in service \<lparr>eventSequence := q,
                v1_events := Some (snd (writeManagerV1Frame Marshal wr
                  \<lparr>ev_Version = managerV1Version, Sequence = q, Event = fst ep, Payload = snd ep\<rparr> k))\<rparr>)"

definition managerV1NotifyProfilesChanged :: "'s host \<Rightarrow> 's world \<Rightarrow> (string \<times> v1_payload) option" where
  "managerV1NotifyProfilesChanged h w =
     (case config_names h (files w) of
        Inl _ \<Rightarrow> None
      | Inr names \<Rightarrow> Some (''profiles.changed'', ProfilesChanged (sort_Slice TunnelNameIsLess names)))"

definition managerV1NotifyTunnelChanged :: "string \<Rightarrow> TunnelState \<Rightarrow> 'e option \<Rightarrow> string \<times> v1_payload" where
  "managerV1NotifyTunnelChanged name state tunnelError =
     (''tunnel.stateChanged'',
      TunnelStateChanged name (managerV1State state) (map_option (\<lambda>_. ''tunnelError'') tunnelError))"

definition managerV1NotifyManagerStopping :: "string \<times> v1_payload" where
  "managerV1NotifyManagerStopping = (''manager.stopping'', Stopping ''serviceStopping'')"

text \<open>The events of a session that starts at a sequence number.\<close>

fun event_list :: "u64 \<Rightarrow> (string \<times> v1_payload) list \<Rightarrow> managerV1Event list" where
  "event_list q [] = []"
| "event_list q (ep # eps) =
     \<lparr>ev_Version = managerV1Version, Sequence = q + 1, Event = fst ep, Payload = snd ep\<rparr> # event_list (q + 1) eps"

lemma event_list_Sequence: "map Sequence (event_list q eps) = map (\<lambda>i. q + of_nat (Suc i)) [0..<length eps]"
proof (induction eps arbitrary: q)
  case (Cons ep eps)
  then show ?case
    by (auto simp: upt_conv_Cons map_Suc_upt [symmetric] simp del: upt_Suc)
qed simp

lemma event_list_increasing: "length eps < 2 ^ 64 \<Longrightarrow> sorted_wrt (<) (map Sequence (event_list 0 eps))"
  unfolding event_list_Sequence sorted_wrt_map
  by (rule sorted_wrt_mono_rel [OF _ sorted_wrt_upt]) (simp add: word_less_nat_alt unat_of_nat flip: of_nat_Suc)

lemma notify_one:
  assumes "pipe_open wr" "list_all (fits Marshal) (event_list q eps)"
  shows "\<exists>k'. fold (managerV1Notify Marshal wr) eps [\<lparr>v1_events = Some k, eventSequence = q\<rparr>] =
      [\<lparr>v1_events = Some k', eventSequence = q + of_nat (length eps)\<rparr>] \<and>
    sent k' = sent k @ concat (map (frame_of Marshal) (event_list q eps))"
  using assms(2)
proof (induction eps arbitrary: q k)
  case (Cons ep eps)
  let ?e = "\<lparr>ev_Version = managerV1Version, Sequence = q + 1, Event = fst ep, Payload = snd ep\<rparr>"
  obtain k1 where k1: "writeManagerV1Frame Marshal wr ?e k = (None, k1)" "sent k1 = sent k @ frame_of Marshal ?e"
    using writeManagerV1Frame_open [OF assms(1), of Marshal ?e k] Cons.prems by auto
  have "managerV1Notify Marshal wr ep [\<lparr>v1_events = Some k, eventSequence = q\<rparr>] = [\<lparr>v1_events = Some k1, eventSequence = q + 1\<rparr>]"
    by (simp add: managerV1Notify_def k1(1) Let_def)
  then show ?case
    using Cons.IH [of "q + 1" k1] Cons.prems k1(2) by (simp add: add.assoc)
qed simp

text \<open>The events of a connection are numbered from 1 without a gap, as long as they fit in their frames
  and the pipe takes them, so the numbers a client sees strictly increase.\<close>

theorem managerV1Notify_numbered:
  assumes "pipe_open wr" "list_all (fits Marshal) (event_list 0 eps)" "length eps < 2 ^ 64"
  shows "\<exists>k. fold (managerV1Notify Marshal wr) eps [\<lparr>v1_events = Some \<lparr>sent = [], calls = 0\<rparr>, eventSequence = 0\<rparr>] =
      [\<lparr>v1_events = Some k, eventSequence = of_nat (length eps)\<rparr>] \<and>
    sent k = concat (map (frame_of Marshal) (event_list 0 eps)) \<and> sorted_wrt (<) (map Sequence (event_list 0 eps))"
  using notify_one [OF assms(1,2), of "\<lparr>sent = [], calls = 0\<rparr>"] event_list_increasing [OF assms(3)] by auto

theorem managerV1Notify_numbered_witness:
  "\<exists>k. fold (managerV1Notify (\<lambda>e. Some [ucast (Sequence e)]) (\<lambda>i n. Inr n))
      [managerV1NotifyManagerStopping, managerV1NotifyTunnelChanged ''a'' TunnelStarted (Some ())]
      [\<lparr>v1_events = Some \<lparr>sent = [], calls = 0\<rparr>, eventSequence = 0\<rparr>] =
      [\<lparr>v1_events = Some k, eventSequence = 2\<rparr>] \<and> sent k = [1, 0, 0, 0, 1, 1, 0, 0, 0, 2]"
proof -
  let ?M = "\<lambda>e. Some [ucast (Sequence e) :: byte]" and ?eps = "[managerV1NotifyManagerStopping, managerV1NotifyTunnelChanged ''a'' TunnelStarted (Some ())]"
  have "list_all (fits ?M) (event_list 0 ?eps)"
    by (simp add: fits_def managerV1MaximumFrameLength_def)
  moreover have "concat (map (frame_of ?M) (event_list 0 ?eps)) = [1, 0, 0, 0, 1, 1, 0, 0, 0, 2]" by code_simp
  ultimately show ?thesis
    using managerV1Notify_numbered [of "\<lambda>i n. Inr n" ?M ?eps] by (auto simp: pipe_open_def)
qed

end
