(* ===== verification/Updater.thy ===== *)
theory Updater
  imports Manager_Services
begin

text \<open>
  \<open>updater\<close>: the signed list of releases (\<open>signify.go\<close>), the choice of a release (\<open>versions.go\<close>), and
  downloading, checking and running it (\<open>downloader.go\<close>, \<open>msirunner.go\<close>).  The network, the signature
  scheme, the hash, the temporary file and the installer process are parameters (\<open>platform\<close>).
\<close>

section \<open>Versions\<close>

datatype upd_error =
    EmptyVersion | EmptyVersionPart | InvalidVersionPart | VersionTooLong
  | InvalidPublicKey | TooFewLines | MissingComment | SignatureNotBase64 | SignatureMalformed | SignatureInvalid
  | TooFewComponents | HashInvalid | NoHashes
  | NotOfficial | AlreadyInProgress | NoUpdate | WrongHash | NoRandomBytes | ExitError | OsError errno

definition version_part :: "string list \<Rightarrow> upd_error + nat" where
  "version_part parts =
     (case parts of
        [] \<Rightarrow> Inr 0
      | p # _ \<Rightarrow>
          if length p = 0 then Inl EmptyVersionPart
          else case strconv_ParseUint p 16 of None \<Rightarrow> Inl InvalidVersionPart | Some n \<Rightarrow> Inr n)"

text \<open>The loop over the parts, the first ones in front.\<close>

function version_loop :: "string list \<Rightarrow> string list \<Rightarrow> upd_error + bool" where
  "version_loop candidateParts ourParts =
     (if candidateParts = [] \<and> ourParts = [] then Inr False
      else case version_part candidateParts of
        Inl err \<Rightarrow> Inl err
      | Inr cP \<Rightarrow>
          (case version_part ourParts of
             Inl err \<Rightarrow> Inl err
           | Inr oP \<Rightarrow> if cP = oP then version_loop (tl candidateParts) (tl ourParts) else Inr (oP < cP)))"
  by pat_completeness auto
termination
  by (relation "measure (\<lambda>(cs, os). length cs + length os)") (auto simp: neq_Nil_conv)

declare version_loop.simps [simp del]

text \<open>\<open>version.Number\<close> is the argument \<open>Number\<close>.\<close>

definition versionNewerThanUs :: "string \<Rightarrow> string \<Rightarrow> upd_error + bool" where
  "versionNewerThanUs Number candidate =
     (let candidateParts = strings_Split candidate (CHR ''.''); ourParts = strings_Split Number (CHR ''.'') in
      if length candidateParts = 0 \<or> length ourParts = 0 then Inl EmptyVersion else version_loop candidateParts ourParts)"

section \<open>The list of releases\<close>

definition releasePublicKeyBase64 :: string where
  "releasePublicKeyBase64 = ''RWRNqGKtBXftKTKPpBPGDMe8jHLnFQ0EdRy8Wg0apV6vTDFLAODD83G4''"

definition msiArchPrefix :: "string \<Rightarrow> string" where "msiArchPrefix arch = ''wireguard-'' @ arch @ ''-''"

definition msiSuffix :: string where "msiSuffix = ''.msi''"

definition latestVersionPath :: string where "latestVersionPath = ''/windows-client/latest.sig''"

definition msiPath :: "string \<Rightarrow> string" where "msiPath name = ''/windows-client/'' @ name"

text \<open>A map from names to hashes, as the pairs in the order in which the program visits it.\<close>

type_synonym fileList = "(string \<times> byte list) list"

record UpdateFound =
  found_name :: string
  found_hash :: "byte list"

fun findCandidate :: "string \<Rightarrow> string \<Rightarrow> fileList \<Rightarrow> upd_error + UpdateFound option" where
  "findCandidate arch Number [] = Inr None"
| "findCandidate arch Number ((name, hash) # candidates) =
     (let prefix = msiArchPrefix arch; suffix = msiSuffix in
      if strings_HasPrefix name prefix \<and> strings_HasSuffix name suffix then
        let version = strings_TrimSuffix (strings_TrimPrefix name prefix) suffix in
        if 128 < length version then Inl VersionTooLong
        else case versionNewerThanUs Number version of
          Inl err \<Rightarrow> Inl err
        | Inr newer \<Rightarrow> if newer then Inr (Some \<lparr>found_name = name, found_hash = hash\<rparr>) else findCandidate arch Number candidates
      else findCandidate arch Number candidates)"

text \<open>\<open>hex.DecodeString\<close>.\<close>

fun hex_DecodeString :: "string \<Rightarrow> byte list option" where
  "hex_DecodeString [] = Some []"
| "hex_DecodeString [_] = None"
| "hex_DecodeString (a # b # s) =
     (case (hex_value a, hex_value b) of
        (Some x, Some y) \<Rightarrow> map_option ((#) (of_nat (16 * x + y))) (hex_DecodeString s)
      | _ \<Rightarrow> None)"

text \<open>\<open>strings.Cut(line, "  ")\<close>.\<close>

fun cut_spaces :: "string \<Rightarrow> (string \<times> string) option" where
  "cut_spaces (a # b # s) =
     (if a = CHR '' '' \<and> b = CHR '' '' then Some ([], s) else map_option (apfst ((#) a)) (cut_spaces (b # s)))"
| "cut_spaces _ = None"

text \<open>A later entry for a name replaces an earlier one.\<close>

definition put_hash :: "string \<Rightarrow> byte list \<Rightarrow> fileList \<Rightarrow> fileList" where
  "put_hash name hash hashes = filter (\<lambda>(n, _). n \<noteq> name) hashes @ [(name, hash)]"

fun hash_lines :: "string list \<Rightarrow> fileList \<Rightarrow> upd_error + fileList" where
  "hash_lines [] hashes = Inr hashes"
| "hash_lines (line # ls) hashes =
     (if length line = 0 \<and> ls = [] then Inr hashes
      else case cut_spaces line of
        None \<Rightarrow> Inl TooFewComponents
      | Some (first, second) \<Rightarrow>
          (case hex_DecodeString first of
             None \<Rightarrow> Inl HashInvalid
           | Some maybeHash \<Rightarrow>
               if length maybeHash \<noteq> 32 then Inl HashInvalid else hash_lines ls (put_hash second maybeHash hashes)))"

text \<open>\<open>bytes.SplitN(input, "\n", 3)\<close> when it gives three parts.\<close>

definition split_three :: "string \<Rightarrow> (string \<times> string \<times> string) option" where
  "split_three s =
     (case strings_Cut s newline of
        (a, rest, found) \<Rightarrow>
          if \<not> found then None
          else case strings_Cut rest newline of (b, c, found) \<Rightarrow> if \<not> found then None else Some (a, b, c))"

definition readFileList :: "(byte list \<Rightarrow> string \<Rightarrow> byte list \<Rightarrow> bool) \<Rightarrow> string \<Rightarrow> upd_error + fileList" where
  "readFileList ed25519_Verify input =
     (case base64_Decode releasePublicKeyBase64 of
        None \<Rightarrow> Inl InvalidPublicKey
      | Some publicKeyBytes \<Rightarrow>
          if length publicKeyBytes \<noteq> 32 + 10 \<or> publicKeyBytes ! 0 \<noteq> 69 \<or> publicKeyBytes ! 1 \<noteq> 100 then Inl InvalidPublicKey
          else case split_three input of
            None \<Rightarrow> Inl TooFewLines
          | Some (line0, line1, line2) \<Rightarrow>
              if \<not> strings_HasPrefix line0 ''untrusted comment: '' then Inl MissingComment
              else case base64_Decode line1 of
                None \<Rightarrow> Inl SignatureNotBase64
              | Some signatureBytes \<Rightarrow>
                  if length signatureBytes \<noteq> 64 + 10 \<or> take 10 signatureBytes \<noteq> take 10 publicKeyBytes then Inl SignatureMalformed
                  else if \<not> ed25519_Verify (drop 10 publicKeyBytes) line2 (drop 10 signatureBytes) then Inl SignatureInvalid
                  else case hash_lines (strings_Split line2 newline) [] of
                    Inl err \<Rightarrow> Inl err
                  | Inr fileHashes \<Rightarrow> if length fileHashes = 0 then Inl NoHashes else Inr fileHashes)"

section \<open>The computer\<close>

text \<open>The answer to a request: the pieces its reader gives, how the reading ends, and its length header.\<close>

record response =
  pieces :: "byte list list"
  ending :: "errno option"
  Content_Length :: "errno + u64"

text \<open>What the updater calls.  A call that can fail has the error or its result; \<open>file_Write i\<close> is the
  outcome of write number \<open>i\<close>: \<^const>\<open>None\<close>, or how many bytes went out before an error.  \<open>map_order\<close> is the
  order in which a map is visited.\<close>

record platform =
  IsRunningOfficialVersion :: bool
  Arch :: string
  Number :: string
  NewSession :: "errno option"
  Connect :: "errno option"
  Get :: "string \<Rightarrow> errno + response"
  ed25519_Verify :: "byte list \<Rightarrow> string \<Rightarrow> byte list \<Rightarrow> bool"
  blake2b_Sum256 :: "byte list \<Rightarrow> byte list"
  blake2b_New256 :: "errno option"
  map_order :: "fileList \<Rightarrow> fileList"
  rand_Read :: "errno + byte list"
  SecurityDescriptor :: "errno option"
  GetWindowsDirectory :: "errno + string"
  CreateFile :: "errno option"
  file_Write :: "nat \<Rightarrow> (nat \<times> errno) option"
  GetSystemDirectory :: "errno option"
  OpenDevNull :: "errno option"
  StartProcess :: "errno option"
  process_Wait :: "errno option"
  process_Success :: bool
  delete_error :: "errno option"
  upd_as_system :: "errno option"
  Sprintf_q :: "string \<Rightarrow> string"

record DownloadProgress =
  Activity :: string
  BytesDownloaded :: u64
  BytesTotal :: u64
  dp_Error :: "upd_error option"
  Complete :: bool

text \<open>The temporary files with their contents, the installers that were started with their contents and the
  user, what went to the progress channel, and how many network objects are open.\<close>

record machine =
  updateInProgress :: bool
  temp_files :: "string \<Rightarrow> byte list option"
  handle_open :: bool
  msi_runs :: "(byte list \<times> nat) list"
  channel :: "DownloadProgress list"
  open_objects :: nat

type_synonym 'a upd = "(machine, upd_error, 'a) io"

definition zero_progress :: DownloadProgress where
  "zero_progress = \<lparr>Activity = [], BytesDownloaded = 0, BytesTotal = 0, dp_Error = None, Complete = False\<rparr>"

definition send :: "DownloadProgress \<Rightarrow> unit upd" where
  "send dp w = Some (Inr (), w \<lparr>channel := channel w @ [dp]\<rparr>)"

definition activity :: "string \<Rightarrow> unit upd" where
  "activity s = send (zero_progress \<lparr>Activity := s\<rparr>)"

definition failure :: "upd_error \<Rightarrow> unit upd" where
  "failure err = send (zero_progress \<lparr>dp_Error := Some err\<rparr>)"

definition os_call :: "errno option \<Rightarrow> unit upd" where
  "os_call e = (case e of None \<Rightarrow> ret () | Some err \<Rightarrow> raise (OsError err))"

definition open_object :: "errno option \<Rightarrow> unit upd" where
  "open_object e = andThen (os_call e) (\<lambda>_ w. Some (Inr (), w \<lparr>open_objects := Suc (open_objects w)\<rparr>))"

definition close_object :: "unit upd" where
  "close_object w = Some (Inr (), w \<lparr>open_objects := open_objects w - 1\<rparr>)"

section \<open>Checking\<close>

text \<open>\<open>io.ReadAll(io.LimitReader(response, n))\<close>: an error counts only when it comes before the limit.\<close>

definition read_limited :: "nat \<Rightarrow> response \<Rightarrow> upd_error + byte list" where
  "read_limited n r =
     (let bs = concat (pieces r) in
      if length bs < n then (case ending r of None \<Rightarrow> Inr bs | Some err \<Rightarrow> Inl (OsError err)) else Inr (take n bs))"

text \<open>\<open>defer func() { if err != nil || !keepSession { close() } }()\<close>.\<close>

definition closing_unless :: "bool \<Rightarrow> 'a upd \<Rightarrow> 'a upd" where
  "closing_unless keepSession m =
     attempt m (\<lambda>r. if isl r \<or> \<not> keepSession then ignoring close_object (lift_sum r) else lift_sum r)"

definition get :: "platform \<Rightarrow> string \<Rightarrow> response upd" where
  "get p path = (case Get p path of Inl err \<Rightarrow> raise (OsError err) | Inr r \<Rightarrow> andThen (open_object None) (\<lambda>_. ret r))"

definition checkForUpdate :: "platform \<Rightarrow> bool \<Rightarrow> UpdateFound option upd" where
  "checkForUpdate p keepSession =
     (if \<not> IsRunningOfficialVersion p then raise NotOfficial
      else andThen (open_object (NewSession p)) (\<lambda>_. closing_unless keepSession
        (andThen (open_object (Connect p)) (\<lambda>_. closing_unless keepSession
          (andThen (get p latestVersionPath) (\<lambda>response. deferring close_object
            (andThen (lift_sum (read_limited (1024 * 512) response)) (\<lambda>fileList.
             andThen (lift_sum (readFileList (ed25519_Verify p) (string_of fileList))) (\<lambda>files.
             lift_sum (findCandidate (Arch p) (Number p) (map_order p files)))))))))))"

definition CheckForUpdate :: "platform \<Rightarrow> UpdateFound option upd" where
  "CheckForUpdate p = checkForUpdate p False"

section \<open>The temporary file and the installer\<close>

definition temp_name :: "string \<Rightarrow> byte list \<Rightarrow> string" where
  "temp_name windir rnd =
     filepath_Join (filepath_Join windir ''Temp'') (concat (map (\<lambda>b. [hex_digit (unat b div 16), hex_digit (unat b mod 16)]) rnd))"

text \<open>\<open>CREATE_NEW\<close> fails when the file exists.\<close>

definition ERROR_FILE_EXISTS :: errno where "ERROR_FILE_EXISTS = 80"

definition msiTempFile :: "platform \<Rightarrow> string upd" where
  "msiTempFile p =
     andThen (lift_sum (map_sum OsError id (rand_Read p))) (\<lambda>rnd.
       if length rnd \<noteq> 32 then raise NoRandomBytes
       else andThen (os_call (SecurityDescriptor p)) (\<lambda>_.
         andThen (lift_sum (map_sum OsError id (GetWindowsDirectory p))) (\<lambda>windir.
         let name = temp_name windir rnd in
         andThen (os_call (CreateFile p)) (\<lambda>_ w.
           if temp_files w name \<noteq> None then raise (OsError ERROR_FILE_EXISTS) w
           else Some (Inr name, w \<lparr>temp_files := (temp_files w)(name := Some []), handle_open := True\<rparr>)))))"

definition ExclusivePath :: "string \<Rightarrow> string upd" where
  "ExclusivePath name w = Some (Inr name, w \<lparr>handle_open := False\<rparr>)"

text \<open>With the handle open the file is marked for deletion and goes when the handle is closed.\<close>

definition tempFile_Delete :: "platform \<Rightarrow> string \<Rightarrow> unit upd" where
  "tempFile_Delete p name w =
     (case delete_error p of
        Some err \<Rightarrow> Some (Inl (OsError err), w \<lparr>handle_open := False\<rparr>)
      | None \<Rightarrow> Some (Inr (), w \<lparr>handle_open := False, temp_files := (temp_files w)(name := None)\<rparr>))"

definition start_msi :: "platform \<Rightarrow> string \<Rightarrow> nat \<Rightarrow> unit upd" where
  "start_msi p name userToken w =
     (case StartProcess p of
        Some err \<Rightarrow> raise (OsError err) w
      | None \<Rightarrow> Some (Inr (), w \<lparr>msi_runs := msi_runs w @
          [(case temp_files w name of None \<Rightarrow> [] | Some bs \<Rightarrow> bs, userToken)]\<rparr>))"

definition runMsi :: "platform \<Rightarrow> string \<Rightarrow> nat \<Rightarrow> unit upd" where
  "runMsi p name userToken =
     andThen (os_call (GetSystemDirectory p)) (\<lambda>_.
     andThen (os_call (OpenDevNull p)) (\<lambda>_.
     andThen (ExclusivePath name) (\<lambda>msiPath.
     andThen (start_msi p msiPath userToken) (\<lambda>_.
     andThen (os_call (process_Wait p)) (\<lambda>_.
       if \<not> process_Success p then raise ExitError else ret ())))))"

section \<open>Downloading\<close>

text \<open>\<open>io.Copy\<close> from a \<open>TeeReader\<close>: every piece goes to the progress watcher and the hash, then to the file.
  \<open>seen\<close> is what the hash has taken in, \<open>limit\<close> what the \<open>LimitReader\<close> still gives.\<close>

definition append_file :: "string \<Rightarrow> byte list \<Rightarrow> machine \<Rightarrow> machine" where
  "append_file name bs w = w \<lparr>temp_files := (temp_files w)(name := map_option (\<lambda>old. old @ bs) (temp_files w name))\<rparr>"

fun copy_loop :: "platform \<Rightarrow> string \<Rightarrow> errno option \<Rightarrow> nat \<Rightarrow> nat \<Rightarrow> DownloadProgress \<Rightarrow> byte list \<Rightarrow> byte list list \<Rightarrow> byte list upd" where
  "copy_loop p name e i limit dp seen [] =
     (if limit = 0 then ret seen else case e of None \<Rightarrow> ret seen | Some err \<Rightarrow> raise (OsError err))"
| "copy_loop p name e i limit dp seen (piece # ps) =
     (if limit = 0 then ret seen
      else
        let bs = take limit piece;
            dp = dp \<lparr>BytesDownloaded := BytesDownloaded dp + of_nat (length bs)\<rparr>
        in andThen (send dp) (\<lambda>_ w.
             case file_Write p i of
               None \<Rightarrow> copy_loop p name e (Suc i) (limit - length bs) dp (seen @ bs) ps (append_file name bs w)
             | Some (n, err) \<Rightarrow> raise (OsError err) (append_file name (take n bs) w)))"

text \<open>The body of \<open>doIt\<close> from the download on; every error is sent to the channel.\<close>

definition reporting :: "'a upd \<Rightarrow> ('a \<Rightarrow> unit upd) \<Rightarrow> unit upd" where
  "reporting m k = attempt m (\<lambda>r. case r of Inl err \<Rightarrow> failure err | Inr x \<Rightarrow> k x)"

definition install :: "platform \<Rightarrow> nat \<Rightarrow> UpdateFound \<Rightarrow> string \<Rightarrow> byte list \<Rightarrow> unit upd" where
  "install p userToken update name seen =
     (if blake2b_Sum256 p seen \<noteq> found_hash update then failure WrongHash
      else andThen (activity ''Installing update'') (\<lambda>_.
           reporting (runMsi p name userToken) (\<lambda>_. send (zero_progress \<lparr>Complete := True\<rparr>))))"

definition fetch :: "platform \<Rightarrow> nat \<Rightarrow> UpdateFound \<Rightarrow> string \<Rightarrow> DownloadProgress \<Rightarrow> response \<Rightarrow> unit upd" where
  "fetch p userToken update name dp response =
     (let dp2 = (case Content_Length response of Inl _ \<Rightarrow> dp | Inr len \<Rightarrow> dp \<lparr>BytesTotal := len\<rparr>) in
      andThen (case Content_Length response of Inl _ \<Rightarrow> ret () | Inr _ \<Rightarrow> send dp2) (\<lambda>_.
      reporting (os_call (blake2b_New256 p)) (\<lambda>_.
      reporting (copy_loop p name (ending response) 0 (1024 * 1024 * 100) dp2 [] (pieces response)) (\<lambda>seen.
        install p userToken update name seen))))"

definition download :: "platform \<Rightarrow> nat \<Rightarrow> UpdateFound \<Rightarrow> string \<Rightarrow> unit upd" where
  "download p userToken update name =
     (let dp = zero_progress \<lparr>Activity := ''Downloading update''\<rparr> in
      andThen (send dp) (\<lambda>_.
      reporting (get p (msiPath (found_name update))) (\<lambda>response.
        deferring close_object (fetch p userToken update name dp response))))"

definition with_file :: "platform \<Rightarrow> nat \<Rightarrow> UpdateFound \<Rightarrow> string \<Rightarrow> unit upd" where
  "with_file p userToken update name =
     andThen (activity (''Msi destination is '' @ Sprintf_q p name)) (\<lambda>_.
       deferring (tempFile_Delete p name) (download p userToken update name))"

definition with_update :: "platform \<Rightarrow> nat \<Rightarrow> UpdateFound option \<Rightarrow> unit upd" where
  "with_update p userToken found =
     (case found of
        None \<Rightarrow> failure NoUpdate
      | Some update \<Rightarrow>
          andThen (activity ''Creating temporary file'') (\<lambda>_.
          reporting (msiTempFile p) (\<lambda>name. with_file p userToken update name)))"

definition reset_progress :: "unit upd" where
  "reset_progress w = Some (Inr (), w \<lparr>updateInProgress := False\<rparr>)"

definition doIt :: "platform \<Rightarrow> nat \<Rightarrow> unit upd" where
  "doIt p userToken =
     deferring reset_progress
       (andThen (activity ''Checking for update'') (\<lambda>_.
        reporting (checkForUpdate p True) (\<lambda>found.
        deferring close_object (deferring close_object (with_update p userToken found)))))"

text \<open>The goroutine is run to its end.\<close>

definition DownloadVerifyAndExecute :: "platform \<Rightarrow> nat \<Rightarrow> unit upd" where
  "DownloadVerifyAndExecute p userToken =
     andThen (activity ''Initializing'') (\<lambda>_ w.
       if updateInProgress w then failure AlreadyInProgress w
       else (if userToken = 0 then
               (case upd_as_system p of None \<Rightarrow> doIt p userToken | Some err \<Rightarrow> failure (OsError err))
             else doIt p userToken) (w \<lparr>updateInProgress := True\<rparr>))"

section \<open>The order of versions\<close>

definition dotted :: "nat list \<Rightarrow> string" where
  "dotted ns = strings_Join (map strconv_Itoa ns) ''.''"

text \<open>Numbers, the shorter list filled up with zeros.\<close>

definition padded :: "nat \<Rightarrow> nat list \<Rightarrow> nat list" where
  "padded n ns = ns @ replicate (n - length ns) 0"

definition version_less :: "nat list \<Rightarrow> nat list \<Rightarrow> bool" where
  "version_less ns ms = (let n = max (length ns) (length ms) in ord_class.lexordp (padded n ns) (padded n ms))"

lemma Itoa_no_dot: "CHR ''.'' \<notin> set (strconv_Itoa n)"
  using Itoa_digits by (fastforce simp: is_digit_def)

lemma Split_dotted: "ns \<noteq> [] \<Longrightarrow> strings_Split (dotted ns) (CHR ''.'') = map strconv_Itoa ns"
proof (induction ns rule: list_nonempty_induct)
  case (single n)
  then show ?case using Itoa_no_dot by (simp add: dotted_def strings_Split_notin)
next
  case (cons n ns)
  then obtain m ms where "ns = m # ms" by (cases ns) auto
  then have "dotted (n # ns) = strconv_Itoa n @ CHR ''.'' # dotted ns"
    by (simp add: dotted_def)
  then show ?case using cons Itoa_no_dot by (simp add: strings_Split_append)
qed

lemma version_part_Itoa:
  "list_all (\<lambda>n. n < 65536) ns \<Longrightarrow> version_part (map strconv_Itoa ns) = Inr (case ns of [] \<Rightarrow> 0 | n # _ \<Rightarrow> n)"
  by (cases ns) (simp_all add: version_part_def strconv_ParseUint_def dec_value_Itoa)

lemma version_less_Nil: "\<not> version_less [] []"
  by (simp add: version_less_def padded_def)

lemma version_less_tl:
  assumes "ns \<noteq> [] \<or> ms \<noteq> []"
  shows "version_less ns ms \<longleftrightarrow>
    (case ns of [] \<Rightarrow> 0 | n # _ \<Rightarrow> n) < (case ms of [] \<Rightarrow> 0 | m # _ \<Rightarrow> m) \<or>
    (case ns of [] \<Rightarrow> 0 | n # _ \<Rightarrow> n) = (case ms of [] \<Rightarrow> 0 | m # _ \<Rightarrow> m) \<and> version_less (tl ns) (tl ms)"
  using assms by (cases ns; cases ms) (auto simp: version_less_def padded_def Let_def)

lemma version_loop_numbers:
  assumes "list_all (\<lambda>n. n < 65536) cs" "list_all (\<lambda>n. n < 65536) os"
  shows "version_loop (map strconv_Itoa cs) (map strconv_Itoa os) = Inr (version_less os cs)"
  using assms
proof (induction "length cs + length os" arbitrary: cs os rule: less_induct)
  case less
  show ?case
  proof (cases "cs = [] \<and> os = []")
    case True
    then show ?thesis by (simp add: version_loop.simps version_less_Nil)
  next
    case False
    then have "length (tl cs) + length (tl os) < length cs + length os"
      by (cases cs; cases os) auto
    moreover have "list_all (\<lambda>n. n < 65536) (tl cs)" "list_all (\<lambda>n. n < 65536) (tl os)"
      using less.prems by (cases cs; cases os; simp)+
    ultimately have "version_loop (tl (map strconv_Itoa cs)) (tl (map strconv_Itoa os)) = Inr (version_less (tl os) (tl cs))"
      using less.hyps [of "tl cs" "tl os"] by (simp add: map_tl)
    then show ?thesis
      using False version_less_tl [of os cs] less.prems
      by (subst version_loop.simps) (auto simp: version_part_Itoa)
  qed
qed

text \<open>C38: \<open>versionNewerThanUs\<close> compares versions as lists of numbers, a missing part counting as zero: for
  dotted versions whose parts have 16 bits, it is the lexicographic order of the lists filled up to
  the same length.\<close>

theorem versionNewerThanUs_numbers:
  assumes "os \<noteq> []" "cs \<noteq> []" "list_all (\<lambda>n. n < 65536) os" "list_all (\<lambda>n. n < 65536) cs"
  shows "versionNewerThanUs (dotted os) (dotted cs) = Inr (version_less os cs)"
  using version_loop_numbers [OF assms(4,3)] assms(1,2) by (simp add: versionNewerThanUs_def Split_dotted)

theorem versionNewerThanUs_numbers_witness:
  "versionNewerThanUs ''1.1'' ''1.1.0.2'' = Inr (version_less [1, 1] [1, 1, 0, 2]) \<and> version_less [1, 1] [1, 1, 0, 2]"
proof -
  have "dotted [1, 1] = ''1.1''" "dotted [1, 1, 0, 2] = ''1.1.0.2''" by code_simp+
  then show ?thesis
    using versionNewerThanUs_numbers [of "[1, 1]" "[1, 1, 0, 2]"] by (simp add: version_less_def padded_def)
qed

section \<open>What a signed list says\<close>

lemma cut_spaces_SomeD: "cut_spaces s = Some (a, b) \<Longrightarrow> s = a @ ''  '' @ b"
  by (induction s arbitrary: a b rule: cut_spaces.induct) (auto split: if_splits)

lemma hash_lines_set:
  assumes "hash_lines ls hashes = Inr hashes'" "(n, h) \<in> set hashes'"
  shows "(n, h) \<in> set hashes \<or> (\<exists>x. (x @ ''  '' @ n) \<in> set ls \<and> hex_DecodeString x = Some h \<and> length h = 32)"
  using assms
proof (induction ls arbitrary: hashes)
  case (Cons line ls)
  show ?case
  proof (cases "length line = 0 \<and> ls = []")
    case False
    then obtain x y hash where cut: "cut_spaces line = Some (x, y)" and 2: "hex_DecodeString x = Some hash" "length hash = 32"
        "hash_lines ls (put_hash y hash hashes) = Inr hashes'"
      using Cons.prems(1) by (auto split: option.splits if_splits)
    note line = cut_spaces_SomeD [OF cut] 2
    show ?thesis
      using Cons.IH [OF line(4) Cons.prems(2)]
    proof
      assume "(n, h) \<in> set (put_hash y hash hashes)"
      then have "(n, h) \<in> set hashes \<or> n = y \<and> h = hash" by (auto simp: put_hash_def)
      then show ?thesis using line(1-3) by auto
    qed auto
  qed (use Cons.prems in auto)
qed simp

text \<open>A body that the release key has signed, with a line that gives the hash of a name.\<close>

definition signed_hash :: "(byte list \<Rightarrow> string \<Rightarrow> byte list \<Rightarrow> bool) \<Rightarrow> string \<Rightarrow> byte list \<Rightarrow> bool" where
  "signed_hash Verify name hash \<longleftrightarrow>
     (\<exists>key body sig x. base64_Decode releasePublicKeyBase64 = Some key \<and> Verify (drop 10 key) body sig \<and>
        (x @ ''  '' @ name) \<in> set (strings_Split body newline) \<and> hex_DecodeString x = Some hash \<and> length hash = 32)"

lemma readFileList_signed:
  assumes "readFileList Verify input = Inr flist" "(name, hash) \<in> set flist"
  shows "signed_hash Verify name hash"
proof -
  obtain key line0 line1 body sig where 1: "base64_Decode releasePublicKeyBase64 = Some key"
      "Verify (drop 10 key) body (drop 10 sig)" "hash_lines (strings_Split body newline) [] = Inr flist"
    using assms(1) by (auto simp: readFileList_def split: option.splits if_splits sum.splits)
  then show ?thesis
    using hash_lines_set [OF 1(3) assms(2)] by (auto simp: signed_hash_def)
qed

lemma findCandidate_found:
  assumes "findCandidate arch num fl = Inr (Some u)"
  shows "(found_name u, found_hash u) \<in> set fl \<and> strings_HasPrefix (found_name u) (msiArchPrefix arch) \<and>
    strings_HasSuffix (found_name u) msiSuffix \<and>
    versionNewerThanUs num (strings_TrimSuffix (strings_TrimPrefix (found_name u) (msiArchPrefix arch)) msiSuffix) = Inr True"
  using assms
proof (induction fl)
  case (Cons x fl)
  obtain name hash where "x = (name, hash)" by fastforce
  with Cons show ?case
    by (auto simp: Let_def split: if_splits sum.splits)
qed simp

section \<open>Only a signed release is run\<close>

lemma keeps_runs [keeps_intros]:
  "keeps msi_runs (send dp)" "keeps msi_runs (activity a)" "keeps msi_runs (failure err)" "keeps msi_runs (os_call e)"
  "keeps msi_runs close_object" "keeps msi_runs (tempFile_Delete p name)" "keeps msi_runs (ExclusivePath name)"
  "keeps msi_runs reset_progress"
  by (simp_all add: keeps_def send_def activity_def failure_def os_call_def close_object_def tempFile_Delete_def
      ExclusivePath_def reset_progress_def io_run split: option.split)

lemma keeps_open [keeps_intros]: "keeps msi_runs (open_object e)"
  unfolding open_object_def by (intro keeps_andThen keeps_intros) (simp add: keeps_def)

lemma keeps_get [keeps_intros]: "keeps msi_runs (get p path)"
  unfolding get_def by (intro keeps_intros)

lemma keeps_closing [keeps_intros]: "keeps msi_runs m \<Longrightarrow> keeps msi_runs (closing_unless k m)"
  unfolding closing_unless_def by (intro keeps_intros)

lemma keeps_checkForUpdate [keeps_intros]: "keeps msi_runs (checkForUpdate p k)"
  unfolding checkForUpdate_def by (intro keeps_intros)

lemma keeps_msiTempFile: "keeps msi_runs (msiTempFile p)"
  unfolding msiTempFile_def Let_def
  by (intro keeps_intros) (auto simp: keeps_def io_run split: if_splits)

lemma keeps_copy_loop [keeps_intros]: "keeps msi_runs (copy_loop p name e i limit dp seen ps)"
proof (induction ps arbitrary: i limit dp seen)
  case (Cons piece ps)
  have "keeps msi_runs (\<lambda>w. case file_Write p i of
      None \<Rightarrow> copy_loop p name e (Suc i) l dp2 seen2 ps (append_file name bs w)
    | Some (n, err) \<Rightarrow> raise (OsError err) (append_file name (take n bs) w))" for l dp2 seen2 bs
    using Cons.IH [of "Suc i" l dp2 seen2]
    by (auto simp: keeps_def append_file_def io_run split: option.split)
  then show ?case
    by (auto simp: Let_def intro!: keeps_intros)
qed (auto intro!: keeps_intros split: option.split)

lemma copy_loop_seen:
  assumes "copy_loop p name e i limit dp seen ps w = Some (Inr seen', w')" "temp_files w name = Some seen"
  shows "temp_files w' name = Some seen' \<and> length seen' \<le> length seen + limit"
  using assms
proof (induction ps arbitrary: i limit dp seen w)
  case Nil
  then show ?case by (auto simp: io_run split: if_splits option.splits)
next
  case (Cons piece ps)
  show ?case
  proof (cases "limit = 0")
    case False
    let ?bs = "take limit piece"
    obtain i2 dp2 w2 where "copy_loop p name e i2 (limit - length ?bs) dp2 (seen @ ?bs) ps w2 = Some (Inr seen', w')"
        "temp_files w2 name = Some (seen @ ?bs)"
      using Cons.prems False
      by (auto simp: Let_def andThen_def send_def append_file_def io_run split: option.splits)
    from Cons.IH [OF this] show ?thesis by auto
  qed (use Cons.prems in \<open>auto simp: io_run\<close>)
qed

lemma runMsi_runs:
  assumes "runMsi p name t w = Some (r, w')" "temp_files w name = Some content"
  shows "msi_runs w' = msi_runs w \<or> msi_runs w' = msi_runs w @ [(content, t)]"
  using assms
  by (auto simp: runMsi_def os_call_def ExclusivePath_def start_msi_def io_run elim!: andThenE split: option.splits if_splits)

lemma reportingE:
  assumes "reporting m k w = Some (r, w')"
  obtains err w1 where "m w = Some (Inl err, w1)" "failure err w1 = Some (r, w')"
  | x w1 where "m w = Some (Inr x, w1)" "k x w1 = Some (r, w')"
proof -
  obtain y w1 where y: "m w = Some (y, w1)" "(case y of Inl err \<Rightarrow> failure err | Inr x \<Rightarrow> k x) w1 = Some (r, w')"
    using assms by (auto simp: reporting_def elim!: attemptE)
  then show thesis using that by (cases y) auto
qed

lemma deferringE:
  assumes "deferring c m w = Some (r, w')"
  obtains w1 r1 where "m w = Some (r, w1)" "c w1 = Some (r1, w')"
  using assms by (auto simp: deferring_def elim!: attemptE)

definition checked :: "platform \<Rightarrow> UpdateFound \<Rightarrow> byte list \<Rightarrow> bool" where
  "checked p u content \<longleftrightarrow> blake2b_Sum256 p content = found_hash u \<and> length content \<le> 104857600"

definition ran :: "platform \<Rightarrow> UpdateFound \<Rightarrow> nat \<Rightarrow> machine \<Rightarrow> machine \<Rightarrow> bool" where
  "ran p u t w w' \<longleftrightarrow> msi_runs w' = msi_runs w \<or> (\<exists>content. checked p u content \<and> msi_runs w' = msi_runs w @ [(content, t)])"

lemma keeps_ran: "keeps msi_runs m \<Longrightarrow> m w = Some (r, w') \<Longrightarrow> ran p u t w w'"
  using keepsD [of msi_runs m w r w'] by (simp add: ran_def)

text \<open>A message goes to the channel and changes nothing else.\<close>

lemma said:
  assumes "andThen (send dp) f w = Some (r, w')"
  obtains w1 where "f () w1 = Some (r, w')" "msi_runs w1 = msi_runs w" "temp_files w1 = temp_files w"
    "channel w1 = channel w @ [dp]" "open_objects w1 = open_objects w" "updateInProgress w1 = updateInProgress w"
  using assms by (auto simp: andThen_def send_def)

lemma install_ran:
  assumes "install p t u name seen w = Some (r, w')" "temp_files w name = Some seen" "length seen \<le> 104857600"
  shows "ran p u t w w'"
proof (cases "blake2b_Sum256 p seen = found_hash u")
  case False
  then show ?thesis using assms(1) keeps_ran [OF keeps_runs(3)] by (simp add: install_def)
next
  case True
  then have c: "checked p u seen" using assms(3) by (simp add: checked_def)
  obtain w1 where w1: "reporting (runMsi p name t) (\<lambda>_. send (zero_progress \<lparr>Complete := True\<rparr>)) w1 = Some (r, w')"
      "msi_runs w1 = msi_runs w" "temp_files w1 = temp_files w"
    using assms(1) True by (auto simp: install_def activity_def elim: said)
  then obtain x w2 where x: "runMsi p name t w1 = Some (x, w2)" "msi_runs w' = msi_runs w2"
    by (elim reportingE) (auto simp: failure_def send_def)
  from runMsi_runs [OF x(1), of seen] show ?thesis
    using x(2) w1 assms(2) c by (auto simp: ran_def)
qed

lemma fetch_ran:
  assumes "fetch p t u name dp response w = Some (r, w')" "temp_files w name = Some []"
  shows "ran p u t w w'"
proof -
  obtain dp2 w1 where w1: "reporting (os_call (blake2b_New256 p)) (\<lambda>_.
      reporting (copy_loop p name (ending response) 0 (1024 * 1024 * 100) dp2 [] (pieces response)) (install p t u name)) w1 = Some (r, w')"
      "msi_runs w1 = msi_runs w" "temp_files w1 = temp_files w"
    using assms(1) by (auto simp: fetch_def Let_def io_run send_def elim!: andThenE split: sum.splits)
  from w1(1) show ?thesis
  proof (cases rule: reportingE)
    case (1 err w2)
    then show ?thesis using w1(2) keepsD [OF keeps_runs(4)] keepsD [OF keeps_runs(3)] by (metis ran_def)
  next
    case (2 x w2)
    then have w2: "w2 = w1" by (auto simp: os_call_def io_run split: option.splits)
    from 2(2) show ?thesis
    proof (cases rule: reportingE)
      case (1 err w3)
      then show ?thesis
        using w1(2) w2 keepsD [OF keeps_copy_loop 1(1)] keepsD [OF keeps_runs(3) 1(2)] by (simp add: ran_def)
    next
      case (2 seen w3)
      then have "temp_files w3 name = Some seen \<and> length seen \<le> 104857600"
        using copy_loop_seen [OF 2(1)] w2 w1(3) assms(2) by simp
      then show ?thesis
        using install_ran [OF 2(2)] keepsD [OF keeps_copy_loop 2(1)] w1(2) w2 by (simp add: ran_def)
    qed
  qed
qed

lemma download_ran:
  assumes "download p t u name w = Some (r, w')" "temp_files w name = Some []"
  shows "ran p u t w w'"
proof -
  let ?dp = "zero_progress \<lparr>Activity := ''Downloading update''\<rparr>"
  obtain w1 where w1: "reporting (get p (msiPath (found_name u))) (\<lambda>response.
        deferring close_object (fetch p t u name ?dp response)) w1 = Some (r, w')"
      "msi_runs w1 = msi_runs w" "temp_files w1 = temp_files w"
    using assms(1) by (auto simp: download_def Let_def elim: said)
  from w1(1) show ?thesis
  proof (cases rule: reportingE)
    case (1 err w2)
    then show ?thesis using w1(2) keepsD [OF keeps_get 1(1)] keepsD [OF keeps_runs(3) 1(2)] by (simp add: ran_def)
  next
    case (2 response w2)
    then have "temp_files w2 = temp_files w1"
      by (auto simp: get_def open_object_def os_call_def io_run elim!: andThenE split: sum.splits)
    moreover from 2(2) obtain w3 r1 where "fetch p t u name ?dp response w2 = Some (r, w3)" "close_object w3 = Some (r1, w')"
      by (rule deferringE)
    ultimately show ?thesis
      using fetch_ran [of p t u name ?dp response w2 r w3] keepsD [OF keeps_get 2(1)] keepsD [OF keeps_runs(5)] w1 assms(2)
      by (metis ran_def)
  qed
qed

lemma with_update_ran:
  assumes "with_update p t (Some u) w = Some (r, w')"
  shows "ran p u t w w'"
proof -
  obtain w1 where w1: "reporting (msiTempFile p) (with_file p t u) w1 = Some (r, w')" "msi_runs w1 = msi_runs w"
    using assms by (auto simp: with_update_def activity_def elim: said)
  from w1(1) show ?thesis
  proof (cases rule: reportingE)
    case (1 err w2)
    then show ?thesis
      using w1(2) keepsD [OF keeps_msiTempFile 1(1)] keepsD [OF keeps_runs(3) 1(2)] by (simp add: ran_def)
  next
    case (2 name w2)
    have t2: "temp_files w2 name = Some []"
      using 2(1) by (auto simp: msiTempFile_def Let_def io_run os_call_def elim!: andThenE split: if_splits option.splits)
    obtain w3 where w3: "deferring (tempFile_Delete p name) (download p t u name) w3 = Some (r, w')"
        "msi_runs w3 = msi_runs w2" "temp_files w3 = temp_files w2"
      using 2(2) by (auto simp: with_file_def activity_def elim: said)
    then obtain w4 r1 where "download p t u name w3 = Some (r, w4)" "tempFile_Delete p name w4 = Some (r1, w')"
      by (auto elim: deferringE)
    then show ?thesis
      using download_ran [of p t u name w3 r w4] t2 w3(2,3) w1(2) keepsD [OF keeps_msiTempFile 2(1)] keepsD [OF keeps_runs(6)]
      by (metis ran_def)
  qed
qed

lemma closing_unless_Inr: "closing_unless k m w = Some (Inr x, w') \<Longrightarrow> \<exists>w1. m w = Some (Inr x, w1)"
  by (auto simp: closing_unless_def ignoring_def io_run elim!: attemptE split: if_splits)

lemma checkForUpdate_found:
  assumes "checkForUpdate p k w = Some (Inr (Some u), w')"
  shows "\<exists>input flist. readFileList (ed25519_Verify p) input = Inr flist \<and>
    findCandidate (Arch p) (Number p) (map_order p flist) = Inr (Some u)"
proof -
  obtain response w1 w2 where "deferring close_object
      (andThen (lift_sum (read_limited (1024 * 512) response)) (\<lambda>fileList.
       andThen (lift_sum (readFileList (ed25519_Verify p) (string_of fileList))) (\<lambda>files.
       lift_sum (findCandidate (Arch p) (Number p) (map_order p files))))) w1 = Some (Inr (Some u), w2)"
    using assms unfolding checkForUpdate_def
    by (auto simp: io_run split: if_splits elim!: andThenE dest!: closing_unless_Inr)
  then obtain bs flist where "readFileList (ed25519_Verify p) (string_of bs) = Inr flist"
      "findCandidate (Arch p) (Number p) (map_order p flist) = Inr (Some u)"
    by (auto simp: io_run elim!: andThenE deferringE)
  then show ?thesis by blast
qed

lemma doIt_ran:
  assumes "doIt p t w = Some (r, w')" "\<And>flist. set (map_order p flist) \<subseteq> set flist"
  shows "msi_runs w' = msi_runs w \<or> (\<exists>content name. msi_runs w' = msi_runs w @ [(content, t)] \<and> length content \<le> 104857600 \<and>
    signed_hash (ed25519_Verify p) name (blake2b_Sum256 p content) \<and>
    strings_HasPrefix name (msiArchPrefix (Arch p)) \<and> strings_HasSuffix name msiSuffix \<and>
    versionNewerThanUs (Number p) (strings_TrimSuffix (strings_TrimPrefix name (msiArchPrefix (Arch p))) msiSuffix) = Inr True)"
proof -
  obtain w1 w0 r0 where w1: "reporting (checkForUpdate p True) (\<lambda>found.
      deferring close_object (deferring close_object (with_update p t found))) w1 = Some (r, w0)"
      "msi_runs w1 = msi_runs w" "reset_progress w0 = Some (r0, w')"
    using assms(1) by (auto simp: doIt_def activity_def elim!: deferringE said)
  have w': "msi_runs w' = msi_runs w0" using keepsD [OF keeps_runs(8) w1(3)] .
  from w1(1) show ?thesis
  proof (cases rule: reportingE)
    case (1 err w2)
    then show ?thesis
      using w1(2) w' keepsD [OF keeps_checkForUpdate 1(1)] keepsD [OF keeps_runs(3) 1(2)] by simp
  next
    case (2 found w2)
    from 2(2) obtain w3 where w3: "with_update p t found w2 = Some (r, w3)" "msi_runs w0 = msi_runs w3"
      by (auto simp: close_object_def elim!: deferringE)
    have runs: "msi_runs w2 = msi_runs w" using w1(2) keepsD [OF keeps_checkForUpdate 2(1)] by simp
    show ?thesis
    proof (cases found)
      case None
      then show ?thesis
        using w3 runs w' keepsD [OF keeps_runs(3)] by (simp add: with_update_def)
    next
      case (Some u)
      obtain input flist where l: "readFileList (ed25519_Verify p) input = Inr flist"
          "findCandidate (Arch p) (Number p) (map_order p flist) = Inr (Some u)"
        using checkForUpdate_found 2(1) Some by blast
      note f = findCandidate_found [OF l(2)]
      then have "(found_name u, found_hash u) \<in> set flist" using assms(2) by blast
      note s = readFileList_signed [OF l(1) this]
      show ?thesis
        using with_update_ran [OF w3(1) [unfolded Some]] f s runs w3(2) w' by (auto simp: ran_def checked_def)
    qed
  qed
qed

text \<open>C4: nothing but a newer, signed release is ever run: whatever the server and the network answer, and in
  whatever order the list is visited, an update runs at most one installer, for the user that asked for it;
  what it runs is at most 100 MiB and has the hash that a list signed with the release key gives for a file
  of this architecture with a version newer than ours; and it runs nothing while another update does.\<close>

theorem DownloadVerifyAndExecute_signed:
  assumes "DownloadVerifyAndExecute p t w = Some (r, w')" "\<And>flist. set (map_order p flist) \<subseteq> set flist"
    and "msi_runs w' \<noteq> msi_runs w"
  shows "\<not> updateInProgress w \<and> (\<exists>content name. msi_runs w' = msi_runs w @ [(content, t)] \<and> length content \<le> 104857600 \<and>
    signed_hash (ed25519_Verify p) name (blake2b_Sum256 p content) \<and>
    strings_HasPrefix name (msiArchPrefix (Arch p)) \<and> strings_HasSuffix name msiSuffix \<and>
    versionNewerThanUs (Number p) (strings_TrimSuffix (strings_TrimPrefix name (msiArchPrefix (Arch p))) msiSuffix) = Inr True)"
proof -
  obtain w1 where w1: "(if updateInProgress w1 then failure AlreadyInProgress w1
       else (if t = 0 then (case upd_as_system p of None \<Rightarrow> doIt p t | Some err \<Rightarrow> failure (OsError err))
             else doIt p t) (w1 \<lparr>updateInProgress := True\<rparr>)) = Some (r, w')"
      "msi_runs w1 = msi_runs w" "updateInProgress w1 = updateInProgress w"
    using assms(1) by (auto simp: DownloadVerifyAndExecute_def activity_def elim!: said)
  have quiet: "failure err v = Some (r, w') \<Longrightarrow> msi_runs w' = msi_runs v" for err v
    using keepsD [OF keeps_runs(3)] .
  have idle: "\<not> updateInProgress w"
    using w1 quiet assms(3) by auto
  then have "doIt p t (w1 \<lparr>updateInProgress := True\<rparr>) = Some (r, w')"
    using w1 quiet assms(3) by (fastforce split: if_splits option.splits)
  then show ?thesis
    using doIt_ran [OF _ assms(2)] idle assms(3) w1(2) by fastforce
qed

section \<open>Every update ends and cleans up\<close>

text \<open>A message after which the channel is not read any more.\<close>

definition final :: "DownloadProgress \<Rightarrow> bool" where
  "final dp \<longleftrightarrow> Complete dp \<or> dp_Error dp \<noteq> None"

definition view :: "machine \<Rightarrow> bool \<times> (string \<Rightarrow> byte list option) \<times> nat" where
  "view w = (updateInProgress w, temp_files w, open_objects w)"

text \<open>A part that returns and reports nothing final, and one that returns and ends with a final message.\<close>

definition quiet :: "(upd_error + 'a \<Rightarrow> _ \<Rightarrow> _ \<Rightarrow> bool) \<Rightarrow> 'a upd \<Rightarrow> bool" where
  "quiet R m \<longleftrightarrow> (\<forall>w. \<exists>r w' evs. m w = Some (r, w') \<and> R r (view w) (view w') \<and> channel w' = channel w @ evs \<and> list_all (\<lambda>dp. \<not> final dp) evs)"

definition concludes :: "(_ \<Rightarrow> _ \<Rightarrow> bool) \<Rightarrow> unit upd \<Rightarrow> bool" where
  "concludes S m \<longleftrightarrow> (\<forall>w. \<exists>w' evs dp. m w = Some (Inr (), w') \<and> S (view w) (view w') \<and>
     channel w' = channel w @ evs @ [dp] \<and> list_all (\<lambda>dp. \<not> final dp) evs \<and> final dp)"

lemma concludes_send: "final dp \<Longrightarrow> (\<And>v. S v v) \<Longrightarrow> concludes S (send dp)"
  by (auto simp: concludes_def send_def view_def)

lemma concludes_failure: "(\<And>v. S v v) \<Longrightarrow> concludes S (failure err)"
  unfolding failure_def by (rule concludes_send) (simp_all add: final_def)

lemma concludes_say:
  assumes "concludes S f" "\<not> final dp"
  shows "concludes S (andThen (send dp) (\<lambda>_. f))"
  unfolding concludes_def
proof
  fix w :: machine
  let ?w1 = "w \<lparr>channel := channel w @ [dp]\<rparr>"
  obtain w' evs dp2 where 1: "f ?w1 = Some (Inr (), w')" "S (view ?w1) (view w')" "channel w' = channel ?w1 @ evs @ [dp2]"
      "list_all (\<lambda>dp. \<not> final dp) evs" "final dp2"
    using assms(1) unfolding concludes_def by blast
  have "andThen (send dp) (\<lambda>_. f) w = Some (Inr (), w')" "S (view w) (view w')"
    using 1(1,2) by (simp_all add: andThen_def send_def view_def)
  with 1 assms(2) show "\<exists>w' evs dp'. andThen (send dp) (\<lambda>_. f) w = Some (Inr (), w') \<and> S (view w) (view w') \<and>
      channel w' = channel w @ evs @ [dp'] \<and> list_all (\<lambda>dp. \<not> final dp) evs \<and> final dp'"
    by (intro exI [of _ w'] exI [of _ "dp # evs"] exI [of _ dp2]) simp
qed

lemma concludes_reporting:
  assumes "quiet R m" "\<And>err v v'. R (Inl err) v v' \<Longrightarrow> S v v'" "\<And>x. concludes (T x) (k x)"
    and "\<And>x v v1 v2. R (Inr x) v v1 \<Longrightarrow> T x v1 v2 \<Longrightarrow> S v v2"
  shows "concludes S (reporting m k)"
  unfolding concludes_def
proof
  fix w :: machine
  obtain r w1 evs1 where 1: "m w = Some (r, w1)" "R r (view w) (view w1)" "channel w1 = channel w @ evs1" "list_all (\<lambda>dp. \<not> final dp) evs1"
    using assms(1) unfolding quiet_def by blast
  obtain w' evs dp where 2: "reporting m k w = Some (Inr (), w')" "S (view w) (view w')" "channel w' = channel w1 @ evs @ [dp]"
      "list_all (\<lambda>dp. \<not> final dp) evs" "final dp"
  proof (cases r)
    case (Inl err)
    have "concludes (=) (failure err)" by (rule concludes_failure) simp
    then show thesis
      using that 1 Inl assms(2) unfolding concludes_def reporting_def attempt_def by fastforce
  next
    case (Inr x)
    then show thesis
      using that 1 assms(3) [of x] assms(4) [of x] unfolding concludes_def reporting_def attempt_def by fastforce
  qed
  then show "\<exists>w' evs dp. reporting m k w = Some (Inr (), w') \<and> S (view w) (view w') \<and>
      channel w' = channel w @ evs @ [dp] \<and> list_all (\<lambda>dp. \<not> final dp) evs \<and> final dp"
    using 1(3,4) by (intro exI [of _ w'] exI [of _ "evs1 @ evs"] exI [of _ dp]) simp
qed

definition silent :: "(_ \<Rightarrow> _ \<Rightarrow> bool) \<Rightarrow> unit upd \<Rightarrow> bool" where
  "silent U c \<longleftrightarrow> (\<forall>w. \<exists>r w'. c w = Some (r, w') \<and> channel w' = channel w \<and> U (view w) (view w'))"

lemma concludes_deferring:
  assumes "concludes S m" "silent U c" "\<And>v v1 v2. S v v1 \<Longrightarrow> U v1 v2 \<Longrightarrow> S' v v2"
  shows "concludes S' (deferring c m)"
  unfolding concludes_def
proof
  fix w :: machine
  obtain w1 evs dp where 1: "m w = Some (Inr (), w1)" "S (view w) (view w1)" "channel w1 = channel w @ evs @ [dp]"
      "list_all (\<lambda>dp. \<not> final dp) evs" "final dp"
    using assms(1) unfolding concludes_def by blast
  obtain r w' where 2: "c w1 = Some (r, w')" "channel w' = channel w1" "U (view w1) (view w')"
    using assms(2) unfolding silent_def by blast
  show "\<exists>w' evs dp. deferring c m w = Some (Inr (), w') \<and> S' (view w) (view w') \<and>
      channel w' = channel w @ evs @ [dp] \<and> list_all (\<lambda>dp. \<not> final dp) evs \<and> final dp"
    using 1 2 assms(3) [OF 1(2) 2(3)] by (intro exI [of _ w'] exI [of _ evs] exI [of _ dp]) (simp add: deferring_def attempt_def)
qed

lemma silent_calls:
  "silent (\<lambda>(b, tf, n) v'. v' = (b, tf, n - 1)) close_object"
  "silent (\<lambda>(b, tf, n) v'. v' = (False, tf, n)) reset_progress"
  "delete_error p = None \<Longrightarrow> silent (\<lambda>(b, tf, n) v'. v' = (b, tf(name := None), n)) (tempFile_Delete p name)"
  by (auto simp: silent_def close_object_def reset_progress_def tempFile_Delete_def view_def)

text \<open>A quiet part that sends nothing at all.\<close>

lemma quietI:
  assumes "\<And>w. \<exists>r w'. m w = Some (r, w') \<and> R r (view w) (view w') \<and> channel w' = channel w"
  shows "quiet R m"
  unfolding quiet_def using assms by fastforce

lemma quiet_os_call: "quiet (\<lambda>r v v'. v' = v) (os_call e)"
  by (rule quietI) (auto simp: os_call_def io_run split: option.split)

lemma quiet_runMsi: "quiet (\<lambda>r v v'. v' = v) (runMsi p name t)"
  by (rule quietI)
    (auto simp: runMsi_def andThen_def os_call_def ExclusivePath_def start_msi_def io_run view_def split: option.split)

lemma quiet_get: "quiet (\<lambda>r (b, tf, n) v'. v' = (b, tf, case r of Inl _ \<Rightarrow> n | Inr _ \<Rightarrow> Suc n)) (get p path)"
  by (rule quietI, cases "Get p path") (auto simp: get_def andThen_def open_object_def os_call_def io_run view_def)

lemma quiet_msiTempFile:
  "quiet (\<lambda>r (b, tf, n) v'. case r of Inl _ \<Rightarrow> v' = (b, tf, n) | Inr name \<Rightarrow> tf name = None \<and> v' = (b, tf(name := Some []), n)) (msiTempFile p)"
proof (rule quietI)
  fix w
  show "\<exists>r w'. msiTempFile p w = Some (r, w') \<and>
      (case view w of (b, tf, n) \<Rightarrow> \<lambda>v'. case r of Inl _ \<Rightarrow> v' = (b, tf, n) | Inr name \<Rightarrow> tf name = None \<and> v' = (b, tf(name := Some []), n)) (view w') \<and>
      channel w' = channel w"
    by (cases "rand_Read p"; cases "SecurityDescriptor p"; cases "GetWindowsDirectory p"; cases "CreateFile p")
      (auto simp: msiTempFile_def Let_def andThen_def os_call_def io_run view_def)
qed

lemma quiet_copy_loop:
  assumes "\<not> final dp"
  shows "quiet (\<lambda>r (b, tf, n) (b', tf', n'). b' = b \<and> n' = n \<and> (\<forall>m. m \<noteq> name \<longrightarrow> tf' m = tf m)) (copy_loop p name e i limit dp seen ps)"
  using assms
proof (induction ps arbitrary: i limit dp seen)
  case Nil
  show ?case
    by (rule quietI) (auto simp: io_run view_def split: option.split)
next
  case (Cons piece ps)
  show ?case
    unfolding quiet_def
  proof
    fix w :: machine
    let ?bs = "take limit piece"
    let ?dp = "dp \<lparr>BytesDownloaded := BytesDownloaded dp + of_nat (length ?bs)\<rparr>"
    have nf: "\<not> final ?dp" using Cons.prems by (simp add: final_def)
    let ?w1 = "append_file name ?bs (w \<lparr>channel := channel w @ [?dp]\<rparr>)"
    obtain r w' evs where 1: "copy_loop p name e (Suc i) (limit - length ?bs) ?dp (seen @ ?bs) ps ?w1 = Some (r, w')"
        "updateInProgress w' = updateInProgress ?w1" "open_objects w' = open_objects ?w1"
        "\<forall>m. m \<noteq> name \<longrightarrow> temp_files w' m = temp_files ?w1 m" "channel w' = channel ?w1 @ evs" "list_all (\<lambda>dp. \<not> final dp) evs"
      using Cons.IH [OF nf, of "Suc i" "limit - length ?bs" "seen @ ?bs", unfolded quiet_def, rule_format, of ?w1]
      unfolding view_def split_conv by blast
    show "\<exists>r w' evs. copy_loop p name e i limit dp seen (piece # ps) w = Some (r, w') \<and>
        (case view w of (b, tf, n) \<Rightarrow> \<lambda>(b', tf', n'). b' = b \<and> n' = n \<and> (\<forall>m. m \<noteq> name \<longrightarrow> tf' m = tf m)) (view w') \<and>
        channel w' = channel w @ evs \<and> list_all (\<lambda>dp. \<not> final dp) evs"
    proof (cases "limit = 0 \<or> file_Write p i \<noteq> None")
      case True
      then show ?thesis
        using nf by (auto simp: Let_def andThen_def send_def io_run append_file_def view_def split: option.splits)
    next
      case False
      then have ok: "limit \<noteq> 0 \<and> file_Write p i = None" by argo
      then have "copy_loop p name e i limit dp seen (piece # ps) w = Some (r, w')"
        using 1(1) by (simp add: Let_def andThen_def send_def)
      with 1 nf show ?thesis
        by (intro exI [of _ r] exI [of _ w'] exI [of _ "?dp # evs"]) (simp add: append_file_def view_def)
    qed
  qed
qed

lemma quiet_checkForUpdate: "quiet (\<lambda>r (b, tf, n) v'. v' = (b, tf, case r of Inl _ \<Rightarrow> n | Inr _ \<Rightarrow> Suc (Suc n))) (checkForUpdate p True)"
proof (rule quietI)
  fix w
  show "\<exists>r w'. checkForUpdate p True w = Some (r, w') \<and>
      (case view w of (b, tf, n) \<Rightarrow> \<lambda>v'. v' = (b, tf, case r of Inl _ \<Rightarrow> n | Inr _ \<Rightarrow> Suc (Suc n))) (view w') \<and> channel w' = channel w"
    by (cases "NewSession p"; cases "Connect p"; cases "Get p latestVersionPath")
      (auto simp: checkForUpdate_def closing_unless_def andThen_def attempt_def ignoring_def deferring_def open_object_def
        close_object_def get_def os_call_def io_run view_def split: sum.split)
qed

text \<open>What happens to one temporary file and nothing else.\<close>

definition only :: "string \<Rightarrow> bool \<times> (string \<Rightarrow> byte list option) \<times> nat \<Rightarrow> bool \<times> (string \<Rightarrow> byte list option) \<times> nat \<Rightarrow> bool" where
  "only name v v' \<longleftrightarrow> (case v of (b, tf, n) \<Rightarrow> \<exists>x. v' = (b, tf(name := x), n))"

lemma only_refl: "only name v v"
  by (cases v) (auto simp: only_def intro: exI [of _ "fst (snd v) name"])

lemma only_trans: "only name v v1 \<Longrightarrow> only name v1 v2 \<Longrightarrow> only name v v2"
  by (auto simp: only_def split: prod.splits)

lemma not_final: "\<not> final (zero_progress \<lparr>Activity := a\<rparr>)" "\<not> final (zero_progress \<lparr>Activity := a, BytesTotal := n\<rparr>)"
  by (simp_all add: final_def zero_progress_def)

lemma install_concludes: "concludes (only name) (install p t u name seen)"
proof (cases "blake2b_Sum256 p seen = found_hash u")
  case True
  have "concludes (only name) (reporting (runMsi p name t) (\<lambda>_. send (zero_progress \<lparr>Complete := True\<rparr>)))"
    by (rule concludes_reporting [OF quiet_runMsi _ concludes_send [where S = "only name"]])
      (auto simp: only_refl final_def)
  then show ?thesis
    using True not_final by (auto simp: install_def activity_def intro!: concludes_say)
qed (simp add: install_def concludes_failure only_refl)

lemma fetch_concludes:
  assumes "dp = zero_progress \<lparr>Activity := a\<rparr>"
  shows "concludes (only name) (fetch p t u name dp response)"
proof -
  have loop: "concludes (only name) (reporting (copy_loop p name e i l dp2 [] ps) (install p t u name))" if "\<not> final dp2" for e i l dp2 ps
    by (rule concludes_reporting [OF quiet_copy_loop [OF that] _ install_concludes])
      (auto simp: only_def fun_eq_iff intro: only_trans)
  have step: "concludes (only name) (reporting (os_call (blake2b_New256 p)) (\<lambda>_.
      reporting (copy_loop p name e i l dp2 [] ps) (install p t u name)))" if "\<not> final dp2" for e i l dp2 ps
    by (rule concludes_reporting [OF quiet_os_call _ loop [OF that]]) (auto simp: only_refl)
  have skip: "andThen (ret ()) (\<lambda>_. f) = f" for f :: "unit upd"
    by (simp add: fun_eq_iff andThen_def io_run)
  show ?thesis
    using step not_final concludes_say [OF step] assms
    by (cases "Content_Length response") (auto simp: fetch_def Let_def skip)
qed

lemma download_concludes: "concludes (only name) (download p t u name)"
proof -
  let ?dp = "zero_progress \<lparr>Activity := ''Downloading update''\<rparr>"
  have fetch: "concludes (\<lambda>(b, tf, n) v'. only name (b, tf, n - 1) v') (deferring close_object (fetch p t u name ?dp response))" for response
    by (rule concludes_deferring [OF fetch_concludes [OF refl] silent_calls(1)]) (auto simp: only_def)
  have "concludes (only name) (reporting (get p (msiPath (found_name u))) (\<lambda>response. deferring close_object (fetch p t u name ?dp response)))"
    by (rule concludes_reporting [OF quiet_get _ fetch]) (auto simp: only_refl)
  from concludes_say [OF this not_final(1)] show ?thesis
    by (simp add: download_def Let_def)
qed

lemma with_update_concludes:
  assumes "delete_error p = None"
  shows "concludes (\<lambda>v v'. v' = v) (with_update p t found)"
proof (cases found)
  case None
  then show ?thesis by (simp add: with_update_def concludes_failure)
next
  case (Some u)
  have "concludes (\<lambda>(b, tf, n) v'. v' = (b, tf(name := None), n)) (deferring (tempFile_Delete p name) (download p t u name))" for name
    by (rule concludes_deferring [OF download_concludes silent_calls(3) [OF assms]]) (auto simp: only_def)
  then have with_f: "concludes (\<lambda>(b, tf, n) v'. v' = (b, tf(name := None), n)) (with_file p t u name)" for name
    unfolding with_file_def activity_def by (rule concludes_say) (rule not_final)
  have "concludes (\<lambda>v v'. v' = v) (reporting (msiTempFile p) (with_file p t u))"
    by (rule concludes_reporting [OF quiet_msiTempFile _ with_f]) (auto simp: fun_upd_idem)
  from concludes_say [OF this not_final(1)] Some show ?thesis
    by (simp add: with_update_def activity_def)
qed

lemma doIt_concludes:
  assumes "delete_error p = None"
  shows "concludes (\<lambda>(b, tf, n) v'. v' = (False, tf, n)) (doIt p t)"
proof -
  have one: "concludes (\<lambda>(b, tf, n) v'. v' = (b, tf, n - 1)) (deferring close_object (with_update p t found))" for found
    by (rule concludes_deferring [OF with_update_concludes [OF assms] silent_calls(1)]) auto
  have two: "concludes (\<lambda>(b, tf, n) v'. v' = (b, tf, n - 2)) (deferring close_object (deferring close_object (with_update p t found)))" for found
    by (rule concludes_deferring [OF one silent_calls(1)]) auto
  have "concludes (\<lambda>v v'. v' = v) (reporting (checkForUpdate p True) (\<lambda>found.
      deferring close_object (deferring close_object (with_update p t found))))"
    by (rule concludes_reporting [OF quiet_checkForUpdate _ two]) auto
  from concludes_say [OF this not_final(1)] show ?thesis
    unfolding doIt_def activity_def by (rule concludes_deferring [OF _ silent_calls(2)]) auto
qed


text \<open>When the work cannot be done as the system, the mark that an update is in progress stays, and every
  later update of the process is refused.\<close>

theorem DownloadVerifyAndExecute_stuck:
  assumes "upd_as_system p = Some err" "\<not> updateInProgress w"
  shows "\<exists>w1. DownloadVerifyAndExecute p 0 w = Some (Inr (), w1) \<and>
    (\<forall>q t. \<exists>w2. DownloadVerifyAndExecute q t w1 = Some (Inr (), w2) \<and> dp_Error (last (channel w2)) = Some AlreadyInProgress)"
  using assms by (simp add: DownloadVerifyAndExecute_def andThen_def activity_def send_def failure_def)

section \<open>A server for the witnesses\<close>

definition sample_list :: string where
  "sample_list = ''untrusted comment: x'' @ newline # ''RWRNqGKtBXftKQAAAAAAAAAAAAAAAAAAAAAAAAAAAAAAAAAAAAAAAAAAAAAAAAAAAAAAAAAAAAAAAAAAAAAAAAAAAAAAAAAAAAA='' @ newline #
     concat (replicate 32 ''01'') @ ''  wireguard-amd64-2.0.msi'' @ [newline]"

definition sample_platform :: platform where
  "sample_platform =
     \<lparr>IsRunningOfficialVersion = True, Arch = ''amd64'', Number = ''1.1'', NewSession = None, Connect = None,
      Get = (\<lambda>path. Inr \<lparr>pieces = [if path = latestVersionPath then bytes_of sample_list else [5]], ending = None, Content_Length = Inl 1\<rparr>),
      ed25519_Verify = (\<lambda>_ _ _. True), blake2b_Sum256 = (\<lambda>bs. replicate 32 (of_nat (length bs))), blake2b_New256 = None,
      map_order = (\<lambda>fl. fl), rand_Read = Inr (replicate 32 7), SecurityDescriptor = None, GetWindowsDirectory = Inr ''C:'',
      CreateFile = None, file_Write = (\<lambda>_. None), GetSystemDirectory = None, OpenDevNull = None, StartProcess = None,
      process_Wait = None, process_Success = True, delete_error = None, upd_as_system = None, Sprintf_q = id\<rparr>"

definition sample_machine :: machine where
  "sample_machine = \<lparr>updateInProgress = False, temp_files = (\<lambda>_. None), handle_open = False, msi_runs = [], channel = [], open_objects = 0\<rparr>"

lemma sample_found:
  "readFileList (\<lambda>_ _ _. True) sample_list = Inr [(''wireguard-amd64-2.0.msi'', replicate 32 1)]"
  "findCandidate ''amd64'' ''1.1'' [(''wireguard-amd64-2.0.msi'', replicate 32 1)] =
     Inr (Some \<lparr>found_name = ''wireguard-amd64-2.0.msi'', found_hash = replicate 32 1\<rparr>)"
  by code_simp+

lemma sample_check:
  "\<exists>w'. checkForUpdate sample_platform True w = Some (Inr (Some \<lparr>found_name = ''wireguard-amd64-2.0.msi'', found_hash = replicate 32 1\<rparr>), w') \<and>
    msi_runs w' = msi_runs w \<and> temp_files w' = temp_files w"
proof -
  have "length (bytes_of sample_list) < 524288"
    by (simp add: bytes_of_def sample_list_def length_concat sum_list_replicate)
  then have "read_limited (1024 * 512) \<lparr>pieces = [bytes_of sample_list], ending = None, Content_Length = Inl 1\<rparr> = Inr (bytes_of sample_list)"
    by (simp add: read_limited_def)
  then show ?thesis
    by (simp add: checkForUpdate_def closing_unless_def andThen_def attempt_def deferring_def open_object_def
        close_object_def get_def os_call_def io_run sample_platform_def sample_found latestVersionPath_def del: findCandidate.simps)
qed

lemma sample_install:
  assumes "temp_files w = (\<lambda>_. None)"
  shows "\<exists>w'. with_update sample_platform 7 (Some \<lparr>found_name = ''wireguard-amd64-2.0.msi'', found_hash = replicate 32 1\<rparr>) w = Some (Inr (), w') \<and>
    msi_runs w' = msi_runs w @ [([5], 7)]"
  using assms
  by (simp add: with_update_def activity_def send_def failure_def andThen_def reporting_def attempt_def deferring_def
      msiTempFile_def Let_def os_call_def io_run with_file_def download_def get_def open_object_def close_object_def fetch_def
      append_file_def install_def runMsi_def ExclusivePath_def start_msi_def tempFile_Delete_def sample_platform_def
      latestVersionPath_def msiPath_def)

lemma sample_run: "\<exists>r w'. DownloadVerifyAndExecute sample_platform 7 sample_machine = Some (r, w') \<and> msi_runs w' = [([5], 7)]"
proof -
  let ?w = "sample_machine \<lparr>updateInProgress := True, channel := [zero_progress \<lparr>Activity := ''Initializing''\<rparr>, zero_progress \<lparr>Activity := ''Checking for update''\<rparr>]\<rparr>"
  obtain w1 where w1: "checkForUpdate sample_platform True ?w = Some (Inr (Some \<lparr>found_name = ''wireguard-amd64-2.0.msi'', found_hash = replicate 32 1\<rparr>), w1)"
      "msi_runs w1 = []" "temp_files w1 = (\<lambda>_. None)"
    using sample_check [of ?w] by (auto simp: sample_machine_def)
  obtain w2 where w2: "with_update sample_platform 7 (Some \<lparr>found_name = ''wireguard-amd64-2.0.msi'', found_hash = replicate 32 1\<rparr>) w1 = Some (Inr (), w2)"
      "msi_runs w2 = [([5], 7)]"
    using sample_install [OF w1(3)] w1(2) by auto
  show ?thesis
    using w1(1) w2
    by (simp add: DownloadVerifyAndExecute_def doIt_def activity_def send_def andThen_def reporting_def attempt_def deferring_def
        close_object_def reset_progress_def sample_machine_def)
qed

theorem DownloadVerifyAndExecute_signed_witness:
  "\<exists>r w' content. DownloadVerifyAndExecute sample_platform 7 sample_machine = Some (r, w') \<and>
    msi_runs w' = [(content, 7)] \<and> \<not> updateInProgress sample_machine"
proof -
  obtain r w' where run: "DownloadVerifyAndExecute sample_platform 7 sample_machine = Some (r, w')" "msi_runs w' = [([5], 7)]"
    using sample_run by blast
  have "set (map_order sample_platform flist) \<subseteq> set flist" for flist
    by (simp add: sample_platform_def)
  from DownloadVerifyAndExecute_signed [OF run(1) this] run show ?thesis
    by (auto simp: sample_machine_def)
qed


end
