(* ===== verification/Winipcfg.thy ===== *)
theory Winipcfg
  imports Go_Effects Driver_Config Firewall
begin

text \<open>
  Package \<open>tunnel/winipcfg\<close>: the addresses, the routes and the name servers of a network interface
  (\<open>luid.go\<close>), over the rows of \<open>types.go\<close> and \<open>types_64.go\<close>.  The calls into \<open>iphlpapi.dll\<close>, the registry and
  the service control manager are a parameter, the record \<open>iphlp\<close>, on a state of the operating system of
  their own; the predicate \<open>documented\<close> says what is documented of its tables.  The theorems give the
  tables after setting the routes and the addresses of an interface, and that other interfaces keep theirs.
\<close>

section \<open>Rows\<close>

type_synonym LUID = u64

type_synonym AddressFamily = u16

definition AF_UNSPEC :: AddressFamily where "AF_UNSPEC = 0"

definition ERROR_INVALID_PARAMETER :: nat where "ERROR_INVALID_PARAMETER = 87"

definition ERROR_BUFFER_OVERFLOW :: nat where "ERROR_BUFFER_OVERFLOW = 111"

definition ERROR_PROC_NOT_FOUND :: nat where "ERROR_PROC_NOT_FOUND = 127"

definition ERROR_PROTOCOL_UNREACHABLE :: nat where "ERROR_PROTOCOL_UNREACHABLE = 1234"

record RouteData =
  Destination :: prefix
  NextHop :: addr
  rd_Metric :: u32

record MibUnicastIPAddressRow =
  ua_Address :: RawSockaddrInet
  ua_InterfaceLUID :: LUID
  ua_InterfaceIndex :: u32
  ua_PrefixOrigin :: u32
  ua_SuffixOrigin :: u32
  ua_ValidLifetime :: u32
  ua_PreferredLifetime :: u32
  ua_OnLinkPrefixLength :: byte
  ua_SkipAsSource :: bool
  ua_DadState :: u32
  ua_ScopeID :: u32
  ua_CreationTimeStamp :: u64

definition DadStatePreferred :: u32 where "DadStatePreferred = 4"

record IPAddressPrefix =
  RawPrefix :: RawSockaddrInet
  PrefixLength :: byte

record MibIPforwardRow2 =
  fr_InterfaceLUID :: LUID
  fr_InterfaceIndex :: u32
  DestinationPrefix :: IPAddressPrefix
  fr_NextHop :: RawSockaddrInet
  fr_SitePrefixLength :: byte
  fr_ValidLifetime :: u32
  fr_PreferredLifetime :: u32
  fr_Metric :: u32
  fr_Protocol :: u32
  fr_Loopback :: bool
  fr_AutoconfigureAddress :: bool
  fr_Publish :: bool
  fr_Immortal :: bool
  fr_Age :: u32
  fr_Origin :: u32

record MibIPInterfaceRow =
  ip_Family :: AddressFamily
  ip_InterfaceLUID :: LUID
  ip_InterfaceIndex :: u32
  MaxReassemblySize :: u32
  InterfaceIdentifier :: u64
  MinRouterAdvertisementInterval :: u32
  MaxRouterAdvertisementInterval :: u32
  AdvertisingEnabled :: bool
  ForwardingEnabled :: bool
  WeakHostSend :: bool
  WeakHostReceive :: bool
  UseAutomaticMetric :: bool
  UseNeighborUnreachabilityDetection :: bool
  ManagedAddressConfigurationSupported :: bool
  OtherStatefulConfigurationSupported :: bool
  AdvertiseDefaultRoute :: bool
  RouterDiscoveryBehavior :: u32
  DadTransmits :: u32
  BaseReachableTime :: u32
  RetransmitTime :: u32
  PathMTUDiscoveryTimeout :: u32
  LinkLocalAddressBehavior :: u32
  LinkLocalAddressTimeout :: u32
  ZoneIndices :: "u32 list"
  ip_SitePrefixLength :: u32
  ip_Metric :: u32
  NLMTU :: u32
  Connected :: bool
  SupportsWakeUpPatterns :: bool
  SupportsNeighborDiscovery :: bool
  SupportsRouterDiscovery :: bool
  ReachableTime :: u32
  TransmitOffload :: byte
  ReceiveOffload :: byte
  DisableDefaultRoutes :: bool

text \<open>The zero values, which the functions below start from.\<close>

definition zero_UnicastRow :: MibUnicastIPAddressRow where
  "zero_UnicastRow =
     \<lparr>ua_Address = zero_RawSockaddrInet, ua_InterfaceLUID = 0, ua_InterfaceIndex = 0, ua_PrefixOrigin = 0,
      ua_SuffixOrigin = 0, ua_ValidLifetime = 0, ua_PreferredLifetime = 0, ua_OnLinkPrefixLength = 0,
      ua_SkipAsSource = False, ua_DadState = 0, ua_ScopeID = 0, ua_CreationTimeStamp = 0\<rparr>"

definition zero_ForwardRow :: MibIPforwardRow2 where
  "zero_ForwardRow =
     \<lparr>fr_InterfaceLUID = 0, fr_InterfaceIndex = 0,
      DestinationPrefix = \<lparr>RawPrefix = zero_RawSockaddrInet, PrefixLength = 0\<rparr>,
      fr_NextHop = zero_RawSockaddrInet, fr_SitePrefixLength = 0, fr_ValidLifetime = 0, fr_PreferredLifetime = 0,
      fr_Metric = 0, fr_Protocol = 0, fr_Loopback = False, fr_AutoconfigureAddress = False, fr_Publish = False,
      fr_Immortal = False, fr_Age = 0, fr_Origin = 0\<rparr>"

definition zero_InterfaceRow :: MibIPInterfaceRow where
  "zero_InterfaceRow =
     \<lparr>ip_Family = 0, ip_InterfaceLUID = 0, ip_InterfaceIndex = 0, MaxReassemblySize = 0, InterfaceIdentifier = 0,
      MinRouterAdvertisementInterval = 0, MaxRouterAdvertisementInterval = 0, AdvertisingEnabled = False,
      ForwardingEnabled = False, WeakHostSend = False, WeakHostReceive = False, UseAutomaticMetric = False,
      UseNeighborUnreachabilityDetection = False, ManagedAddressConfigurationSupported = False,
      OtherStatefulConfigurationSupported = False, AdvertiseDefaultRoute = False, RouterDiscoveryBehavior = 0,
      DadTransmits = 0, BaseReachableTime = 0, RetransmitTime = 0, PathMTUDiscoveryTimeout = 0,
      LinkLocalAddressBehavior = 0, LinkLocalAddressTimeout = 0, ZoneIndices = replicate 16 0,
      ip_SitePrefixLength = 0, ip_Metric = 0, NLMTU = 0, Connected = False, SupportsWakeUpPatterns = False,
      SupportsNeighborDiscovery = False, SupportsRouterDiscovery = False, ReachableTime = 0, TransmitOffload = 0,
      ReceiveOffload = 0, DisableDefaultRoutes = False\<rparr>"

text \<open>Of the rows of adapters the fields the program reads; a list is walked through its \<open>Next\<close> pointers.
  An address is what \<open>SocketAddress.IP()\<close> returns, \<^const>\<open>None\<close> for nil.\<close>

definition IfOperStatusUp :: u32 where "IfOperStatusUp = 1"

record MibIfRow2 =
  if_MTU :: u32
  if_OperStatus :: u32

record IPAdapterAddresses =
  ad_LUID :: LUID
  ad_OperStatus :: u32
  FirstUnicastAddress :: "(byte list option \<times> byte) list"
  FirstDNSServerAddress :: "byte list option list"

definition DnsInterfaceSettingsFlagIPv6 :: u64 where "DnsInterfaceSettingsFlagIPv6 = 0x0001"

definition DnsInterfaceSettingsFlagNameserver :: u64 where "DnsInterfaceSettingsFlagNameserver = 0x0002"

definition DnsInterfaceSettingsFlagSearchList :: u64 where "DnsInterfaceSettingsFlagSearchList = 0x0004"

record DnsInterfaceSettings =
  ds_Version :: u32
  ds_Flags :: u64
  NameServer :: string
  SearchList :: string

text \<open>\<open>netip.AddrFromSlice\<close>, with the zero address for a slice of another length.\<close>

definition AddrFromSlice :: "byte list option \<Rightarrow> addr" where
  "AddrFromSlice s =
     (case s of
        None \<Rightarrow> AddrZero
      | Some bs \<Rightarrow>
          if length bs = 4 then Addr4 (of_octets4 bs)
          else if length bs = 16 then Addr6 (of_bytes16 bs) [] else AddrZero)"

section \<open>The calls\<close>

record 's iphlp =
  getUnicastIPAddressTable :: "AddressFamily \<Rightarrow> 's \<Rightarrow> (nat + MibUnicastIPAddressRow list) \<times> 's"
  initializeUnicastIPAddressEntry :: "MibUnicastIPAddressRow \<Rightarrow> MibUnicastIPAddressRow"
  getUnicastIPAddressEntry :: "MibUnicastIPAddressRow \<Rightarrow> 's \<Rightarrow> (nat + MibUnicastIPAddressRow) \<times> 's"
  createUnicastIPAddressEntry :: "MibUnicastIPAddressRow \<Rightarrow> 's \<Rightarrow> (nat + unit) \<times> 's"
  deleteUnicastIPAddressEntry :: "MibUnicastIPAddressRow \<Rightarrow> 's \<Rightarrow> (nat + unit) \<times> 's"
  getIPForwardTable2 :: "AddressFamily \<Rightarrow> 's \<Rightarrow> (nat + MibIPforwardRow2 list) \<times> 's"
  initializeIPForwardEntry :: "MibIPforwardRow2 \<Rightarrow> MibIPforwardRow2"
  getIPForwardEntry2 :: "MibIPforwardRow2 \<Rightarrow> 's \<Rightarrow> (nat + MibIPforwardRow2) \<times> 's"
  createIPForwardEntry2 :: "MibIPforwardRow2 \<Rightarrow> 's \<Rightarrow> (nat + unit) \<times> 's"
  deleteIPForwardEntry2 :: "MibIPforwardRow2 \<Rightarrow> 's \<Rightarrow> (nat + unit) \<times> 's"
  initializeIPInterfaceEntry :: "MibIPInterfaceRow \<Rightarrow> MibIPInterfaceRow"
  getIPInterfaceEntry :: "MibIPInterfaceRow \<Rightarrow> 's \<Rightarrow> (nat + MibIPInterfaceRow) \<times> 's"
  setIPInterfaceEntry :: "MibIPInterfaceRow \<Rightarrow> 's \<Rightarrow> (nat + unit) \<times> 's"
  getIfEntry2 :: "LUID \<Rightarrow> 's \<Rightarrow> (nat + MibIfRow2) \<times> 's"
  convertInterfaceLUIDToGUID :: "LUID \<Rightarrow> 's \<Rightarrow> (nat + GUID) \<times> 's"
  windows_GetAdaptersAddresses :: "AddressFamily \<Rightarrow> u32 \<Rightarrow> 's \<Rightarrow> (nat \<times> u32 + IPAdapterAddresses list) \<times> 's"
  setInterfaceDnsSettings :: "GUID \<Rightarrow> DnsInterfaceSettings \<Rightarrow> 's \<Rightarrow> (nat + unit) \<times> 's"
  guid_String :: "GUID \<Rightarrow> string"
  registry_CreateKey :: "string \<Rightarrow> 's \<Rightarrow> (nat + unit) \<times> 's"
  key_SetStringValue :: "string \<Rightarrow> string \<Rightarrow> string \<Rightarrow> 's \<Rightarrow> (nat + unit) \<times> 's"
  key_Close :: "string \<Rightarrow> 's \<Rightarrow> (nat + unit) \<times> 's"
  mgr_Connect :: "'s \<Rightarrow> (nat + unit) \<times> 's"
  mgr_Disconnect :: "'s \<Rightarrow> (nat + unit) \<times> 's"
  open_dnscache :: "'s \<Rightarrow> (nat + unit) \<times> 's"
  dnscache_ParamChange :: "'s \<Rightarrow> (nat + unit) \<times> 's"
  close_dnscache :: "'s \<Rightarrow> (nat + unit) \<times> 's"

text \<open>An error of Windows, a string with a zero byte, or an error that \<open>SetDNS\<close> wraps.\<close>

datatype net_error =
    Win nat | InvalidString | OpeningInterfaceKey net_error | SettingNameServer net_error | SettingSearchList net_error

type_synonym ('s, 'a) net = "('s, net_error, 'a) io"

definition sys :: "('s \<Rightarrow> (nat + 'a) \<times> 's) \<Rightarrow> ('s, 'a) net" where
  "sys f s = (case f s of (r, s') \<Rightarrow> Some (map_sum Win id r, s'))"

definition wrapping :: "(net_error \<Rightarrow> net_error) \<Rightarrow> ('s, 'a) net \<Rightarrow> ('s, 'a) net" where
  "wrapping f m = attempt m (\<lambda>r. lift_sum (map_sum f id r))"

definition SetAddr :: "addr \<Rightarrow> RawSockaddrInet \<Rightarrow> ('s, RawSockaddrInet) net" where
  "SetAddr netAddr sa =
     (case SetAddrPort netAddr 0 sa of None \<Rightarrow> raise (Win ERROR_INVALID_PARAMETER) | Some sa' \<Rightarrow> ret sa')"

definition SetPrefix :: "prefix \<Rightarrow> IPAddressPrefix \<Rightarrow> ('s, IPAddressPrefix) net" where
  "SetPrefix netPrefix p =
     andThen (SetAddr (prefix_Addr netPrefix) (RawPrefix p)) (\<lambda>a.
       ret \<lparr>RawPrefix = a, PrefixLength = of_int (Bits netPrefix)\<rparr>)"

definition row_Prefix :: "IPAddressPrefix \<Rightarrow> prefix" where
  "row_Prefix p =
     (let sa = RawPrefix p in
      if Family sa = AF_INET then PrefixFrom (Addr4 (of_octets4 (bytes_at 2 4 (sa_data sa)))) (unat (PrefixLength p))
      else if Family sa = AF_INET6
      then PrefixFrom (Addr6 (of_bytes16 (bytes_at 6 16 (sa_data sa))) []) (unat (PrefixLength p))
      else Prefix AddrZero None)"

section \<open>Interfaces\<close>

text \<open>The correction of \<open>SitePrefixLength\<close> after reading a row.\<close>

definition InterfaceRow_get :: "'s iphlp \<Rightarrow> MibIPInterfaceRow \<Rightarrow> ('s, MibIPInterfaceRow) net" where
  "InterfaceRow_get h row =
     andThen (sys (getIPInterfaceEntry h row)) (\<lambda>row.
       ret (if ip_Family row = AF_INET then
              (if ip_SitePrefixLength row > 32 then row \<lparr>ip_SitePrefixLength := 0\<rparr> else row)
            else if ip_Family row = AF_INET6 then
              (if ip_SitePrefixLength row > 128 then row \<lparr>ip_SitePrefixLength := 128\<rparr> else row)
            else row))"

definition IPInterface :: "'s iphlp \<Rightarrow> LUID \<Rightarrow> AddressFamily \<Rightarrow> ('s, MibIPInterfaceRow) net" where
  "IPInterface h luid family =
     InterfaceRow_get h ((initializeIPInterfaceEntry h zero_InterfaceRow) \<lparr>ip_InterfaceLUID := luid, ip_Family := family\<rparr>)"

definition Interface :: "'s iphlp \<Rightarrow> LUID \<Rightarrow> ('s, MibIfRow2) net" where
  "Interface h luid = sys (getIfEntry2 h luid)"

definition luid_GUID :: "'s iphlp \<Rightarrow> LUID \<Rightarrow> ('s, GUID) net" where
  "luid_GUID h luid = sys (convertInterfaceLUIDToGUID h luid)"

text \<open>\<open>GetAdaptersAddresses\<close> asks again with the size it is told as long as that grows.\<close>

lemma grows_less: "\<not> sz' \<le> sz \<Longrightarrow> 4294967296 - unat sz' < 4294967296 - unat (sz :: u32)"
  using unsigned_less [of sz', where 'a = nat] by (simp add: word_le_nat_alt)

function adapters_loop :: "'s iphlp \<Rightarrow> AddressFamily \<Rightarrow> u32 \<Rightarrow> 's \<Rightarrow> (nat + IPAdapterAddresses list) \<times> 's" where
  "adapters_loop h family sz s =
     (case windows_GetAdaptersAddresses h family sz s of
        (Inr l, s') \<Rightarrow> (Inr l, s')
      | (Inl (e, sz'), s') \<Rightarrow>
          if e \<noteq> ERROR_BUFFER_OVERFLOW \<or> sz' \<le> sz then (Inl e, s') else adapters_loop h family sz' s')"
  by pat_completeness auto
termination
  by (relation "measure (\<lambda>(h, family, sz, s). 2 ^ 32 - unat sz)") (auto simp: grows_less)

declare adapters_loop.simps [simp del]

definition GetAdaptersAddresses :: "'s iphlp \<Rightarrow> AddressFamily \<Rightarrow> ('s, IPAdapterAddresses list) net" where
  "GetAdaptersAddresses h family = sys (adapters_loop h family 15000)"

section \<open>Addresses\<close>

definition IPAddress :: "'s iphlp \<Rightarrow> LUID \<Rightarrow> addr \<Rightarrow> ('s, MibUnicastIPAddressRow) net" where
  "IPAddress h luid a =
     andThen (SetAddr a (ua_Address zero_UnicastRow)) (\<lambda>sa.
       sys (getUnicastIPAddressEntry h (zero_UnicastRow \<lparr>ua_InterfaceLUID := luid, ua_Address := sa\<rparr>)))"

definition AddIPAddress :: "'s iphlp \<Rightarrow> LUID \<Rightarrow> prefix \<Rightarrow> ('s, unit) net" where
  "AddIPAddress h luid address =
     (let row = (initializeUnicastIPAddressEntry h zero_UnicastRow)
        \<lparr>ua_InterfaceLUID := luid, ua_DadState := DadStatePreferred, ua_ValidLifetime := 0xffffffff,
         ua_PreferredLifetime := 0xffffffff\<rparr> in
      andThen (SetAddr (prefix_Addr address) (ua_Address row)) (\<lambda>sa.
        sys (createUnicastIPAddressEntry h (row \<lparr>ua_Address := sa, ua_OnLinkPrefixLength := of_int (Bits address)\<rparr>))))"

fun AddIPAddresses :: "'s iphlp \<Rightarrow> LUID \<Rightarrow> prefix list \<Rightarrow> ('s, unit) net" where
  "AddIPAddresses h luid [] = ret ()"
| "AddIPAddresses h luid (a # as) = andThen (AddIPAddress h luid a) (\<lambda>_. AddIPAddresses h luid as)"

definition DeleteIPAddress :: "'s iphlp \<Rightarrow> LUID \<Rightarrow> prefix \<Rightarrow> ('s, unit) net" where
  "DeleteIPAddress h luid address =
     (let row = (initializeUnicastIPAddressEntry h zero_UnicastRow) \<lparr>ua_InterfaceLUID := luid\<rparr> in
      andThen (SetAddr (prefix_Addr address) (ua_Address row)) (\<lambda>sa.
        sys (deleteUnicastIPAddressEntry h (row \<lparr>ua_Address := sa, ua_OnLinkPrefixLength := of_int (Bits address)\<rparr>))))"

text \<open>The errors of deleting are ignored.\<close>

fun delete_addresses :: "'s iphlp \<Rightarrow> LUID \<Rightarrow> MibUnicastIPAddressRow list \<Rightarrow> ('s, unit) net" where
  "delete_addresses h luid [] = ret ()"
| "delete_addresses h luid (row # t) =
     (if ua_InterfaceLUID row = luid
      then ignoring (sys (deleteUnicastIPAddressEntry h row)) (delete_addresses h luid t)
      else delete_addresses h luid t)"

definition FlushIPAddresses :: "'s iphlp \<Rightarrow> LUID \<Rightarrow> AddressFamily \<Rightarrow> ('s, unit) net" where
  "FlushIPAddresses h luid family =
     andThen (sys (getUnicastIPAddressTable h family)) (\<lambda>t. delete_addresses h luid t)"

definition SetIPAddresses :: "'s iphlp \<Rightarrow> LUID \<Rightarrow> prefix list \<Rightarrow> ('s, unit) net" where
  "SetIPAddresses h luid addresses =
     andThen (FlushIPAddresses h luid AF_UNSPEC) (\<lambda>_. AddIPAddresses h luid addresses)"

text \<open>The condition under which the loops over addresses and routes go on with the next one.\<close>

definition other_family :: "AddressFamily \<Rightarrow> addr \<Rightarrow> bool" where
  "other_family family a \<longleftrightarrow> \<not> Is4 a \<and> family = AF_INET \<or> \<not> Is6 a \<and> family = AF_INET6"

fun add_family_addresses :: "'s iphlp \<Rightarrow> LUID \<Rightarrow> AddressFamily \<Rightarrow> prefix list \<Rightarrow> ('s, unit) net" where
  "add_family_addresses h luid family [] = ret ()"
| "add_family_addresses h luid family (a # as) =
     (if other_family family (prefix_Addr a) then add_family_addresses h luid family as
      else andThen (AddIPAddress h luid a) (\<lambda>_. add_family_addresses h luid family as))"

definition SetIPAddressesForFamily :: "'s iphlp \<Rightarrow> LUID \<Rightarrow> AddressFamily \<Rightarrow> prefix list \<Rightarrow> ('s, unit) net" where
  "SetIPAddressesForFamily h luid family addresses =
     andThen (FlushIPAddresses h luid family) (\<lambda>_. add_family_addresses h luid family addresses)"

section \<open>Routes\<close>

definition Route :: "'s iphlp \<Rightarrow> LUID \<Rightarrow> prefix \<Rightarrow> addr \<Rightarrow> ('s, MibIPforwardRow2) net" where
  "Route h luid destination nextHop =
     (let row = (initializeIPForwardEntry h zero_ForwardRow)
        \<lparr>fr_InterfaceLUID := luid, fr_ValidLifetime := 0xffffffff, fr_PreferredLifetime := 0xffffffff\<rparr> in
      andThen (SetPrefix destination (DestinationPrefix row)) (\<lambda>p.
      andThen (SetAddr nextHop (fr_NextHop row)) (\<lambda>n.
        sys (getIPForwardEntry2 h (row \<lparr>DestinationPrefix := p, fr_NextHop := n\<rparr>)))))"

definition AddRoute :: "'s iphlp \<Rightarrow> LUID \<Rightarrow> prefix \<Rightarrow> addr \<Rightarrow> u32 \<Rightarrow> ('s, unit) net" where
  "AddRoute h luid destination nextHop metric =
     (let row = (initializeIPForwardEntry h zero_ForwardRow) \<lparr>fr_InterfaceLUID := luid\<rparr> in
      andThen (SetPrefix destination (DestinationPrefix row)) (\<lambda>p.
      andThen (SetAddr nextHop (fr_NextHop row)) (\<lambda>n.
        sys (createIPForwardEntry2 h (row \<lparr>DestinationPrefix := p, fr_NextHop := n, fr_Metric := metric\<rparr>)))))"

fun AddRoutes :: "'s iphlp \<Rightarrow> LUID \<Rightarrow> RouteData list \<Rightarrow> ('s, unit) net" where
  "AddRoutes h luid [] = ret ()"
| "AddRoutes h luid (rd # rds) =
     andThen (AddRoute h luid (Destination rd) (NextHop rd) (rd_Metric rd)) (\<lambda>_. AddRoutes h luid rds)"

definition DeleteRoute :: "'s iphlp \<Rightarrow> LUID \<Rightarrow> prefix \<Rightarrow> addr \<Rightarrow> ('s, unit) net" where
  "DeleteRoute h luid destination nextHop =
     (let row = (initializeIPForwardEntry h zero_ForwardRow) \<lparr>fr_InterfaceLUID := luid\<rparr> in
      andThen (SetPrefix destination (DestinationPrefix row)) (\<lambda>p.
      andThen (SetAddr nextHop (fr_NextHop row)) (\<lambda>n.
      andThen (sys (getIPForwardEntry2 h (row \<lparr>DestinationPrefix := p, fr_NextHop := n\<rparr>))) (\<lambda>row.
        sys (deleteIPForwardEntry2 h row)))))"

text \<open>Deleting goes on after an error, and the last error is returned.\<close>

fun delete_routes :: "'s iphlp \<Rightarrow> LUID \<Rightarrow> MibIPforwardRow2 list \<Rightarrow> net_error option \<Rightarrow> ('s, unit) net" where
  "delete_routes h luid [] err = (case err of None \<Rightarrow> ret () | Some e \<Rightarrow> raise e)"
| "delete_routes h luid (row # t) err =
     (if fr_InterfaceLUID row = luid
      then attempt (sys (deleteIPForwardEntry2 h row))
        (\<lambda>r. delete_routes h luid t (case r of Inl err2 \<Rightarrow> Some err2 | Inr _ \<Rightarrow> err))
      else delete_routes h luid t err)"

definition FlushRoutes :: "'s iphlp \<Rightarrow> LUID \<Rightarrow> AddressFamily \<Rightarrow> ('s, unit) net" where
  "FlushRoutes h luid family = andThen (sys (getIPForwardTable2 h family)) (\<lambda>t. delete_routes h luid t None)"

definition SetRoutes :: "'s iphlp \<Rightarrow> LUID \<Rightarrow> RouteData list \<Rightarrow> ('s, unit) net" where
  "SetRoutes h luid routesData = andThen (FlushRoutes h luid AF_UNSPEC) (\<lambda>_. AddRoutes h luid routesData)"

fun add_family_routes :: "'s iphlp \<Rightarrow> LUID \<Rightarrow> AddressFamily \<Rightarrow> RouteData list \<Rightarrow> ('s, unit) net" where
  "add_family_routes h luid family [] = ret ()"
| "add_family_routes h luid family (rd # rds) =
     (if other_family family (prefix_Addr (Destination rd)) then add_family_routes h luid family rds
      else andThen (AddRoute h luid (Destination rd) (NextHop rd) (rd_Metric rd))
        (\<lambda>_. add_family_routes h luid family rds))"

definition SetRoutesForFamily :: "'s iphlp \<Rightarrow> LUID \<Rightarrow> AddressFamily \<Rightarrow> RouteData list \<Rightarrow> ('s, unit) net" where
  "SetRoutesForFamily h luid family routesData =
     andThen (FlushRoutes h luid family) (\<lambda>_. add_family_routes h luid family routesData)"

section \<open>Name servers\<close>

text \<open>The name servers of the adapters with this LUID; a nil address ends the walk with an error.\<close>

fun dns_addresses :: "byte list option list \<Rightarrow> net_error + addr list" where
  "dns_addresses [] = Inr []"
| "dns_addresses (ip # ips) =
     (if ip = None then Inl (Win ERROR_INVALID_PARAMETER)
      else map_sum id ((@) (if AddrFromSlice ip = AddrZero then [] else [AddrFromSlice ip])) (dns_addresses ips))"

definition luid_DNS :: "'s iphlp \<Rightarrow> LUID \<Rightarrow> ('s, addr list) net" where
  "luid_DNS h luid =
     andThen (GetAdaptersAddresses h AF_UNSPEC) (\<lambda>addresses.
       lift_sum (dns_addresses (concat (map FirstDNSServerAddress (filter (\<lambda>a. ad_LUID a = luid) addresses)))))"

definition UTF16PtrFromString :: "string \<Rightarrow> ('s, string) net" where
  "UTF16PtrFromString s = (if CHR 0x00 \<in> set s then raise InvalidString else ret s)"

definition dns_reg_path :: "AddressFamily \<Rightarrow> string \<Rightarrow> string" where
  "dns_reg_path family guid =
     (let under = (\<lambda>service. strings_Join
        [''SYSTEM'', ''CurrentControlSet'', ''Services'', service, ''Parameters'', ''Interfaces'', guid] [CHR 0x5C]) in
      if family = AF_INET then under ''Tcpip'' else if family = AF_INET6 then under ''Tcpip6'' else [])"

definition filtered_servers :: "AddressFamily \<Rightarrow> addr list \<Rightarrow> addr list" where
  "filtered_servers family servers =
     filter (\<lambda>server. Is4 server \<and> family = AF_INET \<or> Is6 server \<and> family = AF_INET6) servers"

definition SetDNS :: "'s iphlp \<Rightarrow> LUID \<Rightarrow> AddressFamily \<Rightarrow> addr list \<Rightarrow> string list \<Rightarrow> ('s, unit) net" where
  "SetDNS h luid family servers domains =
     (if family \<noteq> AF_INET \<and> family \<noteq> AF_INET6 then raise (Win ERROR_PROTOCOL_UNREACHABLE)
      else
        let filteredServers = map addr_String (filtered_servers family servers) in
        andThen (UTF16PtrFromString (strings_Join filteredServers '','')) (\<lambda>servers16.
        andThen (UTF16PtrFromString (strings_Join domains '','')) (\<lambda>domains16.
        andThen (luid_GUID h luid) (\<lambda>guid.
        attempt (sys (setInterfaceDnsSettings h guid
            \<lparr>ds_Version = 1,
             ds_Flags = (let flags = DnsInterfaceSettingsFlagNameserver OR DnsInterfaceSettingsFlagSearchList in
               if family = AF_INET6 then flags OR DnsInterfaceSettingsFlagIPv6 else flags),
             NameServer = servers16, SearchList = domains16\<rparr>)) (\<lambda>r.
          if r \<noteq> Inl (Win ERROR_PROC_NOT_FOUND) then lift_sum r
          else
            let path = dns_reg_path family (guid_String h guid) in
            andThen (wrapping OpeningInterfaceKey (sys (registry_CreateKey h path))) (\<lambda>_.
            deferring (sys (key_Close h path))
              (andThen (wrapping SettingNameServer
                 (sys (key_SetStringValue h path ''NameServer'' (strings_Join filteredServers '','')))) (\<lambda>_.
               andThen (wrapping SettingSearchList
                 (sys (key_SetStringValue h path ''SearchList'' (strings_Join domains '','')))) (\<lambda>_.
               attempt (sys (mgr_Connect h)) (\<lambda>c.
                 if isl c then ret ()
                 else deferring (sys (mgr_Disconnect h))
                   (attempt (sys (open_dnscache h)) (\<lambda>s.
                      if isl s then ret ()
                      else deferring (sys (close_dnscache h))
                        (ignoring (sys (dnscache_ParamChange h)) (ret ()))))))))))))))"

definition FlushDNS :: "'s iphlp \<Rightarrow> LUID \<Rightarrow> AddressFamily \<Rightarrow> ('s, unit) net" where
  "FlushDNS h luid family = SetDNS h luid family [] []"

section \<open>What is documented of the calls\<close>

text \<open>A route is known by its interface, its destination and its next hop, an address by its interface and
  itself.  \<open>routes\<close> and \<open>addrs\<close> observe the tables in a state of the operating system.\<close>

definition route_family :: "MibIPforwardRow2 \<Rightarrow> AddressFamily" where
  "route_family r = Family (RawPrefix (DestinationPrefix r))"

definition route_key :: "MibIPforwardRow2 \<Rightarrow> LUID \<times> prefix \<times> addr" where
  "route_key r = (fr_InterfaceLUID r, row_Prefix (DestinationPrefix r), sockaddr_Addr (fr_NextHop r))"

definition address_key :: "MibUnicastIPAddressRow \<Rightarrow> LUID \<times> addr" where
  "address_key a = (ua_InterfaceLUID a, sockaddr_Addr (ua_Address a))"

definition in_family :: "AddressFamily \<Rightarrow> AddressFamily \<Rightarrow> bool" where
  "in_family family f \<longleftrightarrow> family = AF_UNSPEC \<or> f = family"

definition leaves :: "('s \<Rightarrow> 'x) \<Rightarrow> ('s \<Rightarrow> 'r \<times> 's) \<Rightarrow> bool" where
  "leaves obs f \<longleftrightarrow> (\<forall>s. obs (snd (f s)) = obs s)"

definition other_calls_leave :: "'s iphlp \<Rightarrow> ('s \<Rightarrow> 'x) \<Rightarrow> bool" where
  "other_calls_leave h obs \<longleftrightarrow>
     (\<forall>f. leaves obs (getUnicastIPAddressTable h f)) \<and> (\<forall>r. leaves obs (getUnicastIPAddressEntry h r)) \<and>
     (\<forall>f. leaves obs (getIPForwardTable2 h f)) \<and> (\<forall>r. leaves obs (getIPForwardEntry2 h r)) \<and>
     (\<forall>r. leaves obs (getIPInterfaceEntry h r)) \<and> (\<forall>r. leaves obs (setIPInterfaceEntry h r)) \<and>
     (\<forall>l. leaves obs (getIfEntry2 h l)) \<and> (\<forall>l. leaves obs (convertInterfaceLUIDToGUID h l)) \<and>
     (\<forall>f n. leaves obs (windows_GetAdaptersAddresses h f n)) \<and> (\<forall>g d. leaves obs (setInterfaceDnsSettings h g d)) \<and>
     (\<forall>p. leaves obs (registry_CreateKey h p)) \<and> (\<forall>p n v. leaves obs (key_SetStringValue h p n v)) \<and>
     (\<forall>p. leaves obs (key_Close h p)) \<and> leaves obs (mgr_Connect h) \<and> leaves obs (mgr_Disconnect h) \<and>
     leaves obs (open_dnscache h) \<and> leaves obs (dnscache_ParamChange h) \<and> leaves obs (close_dnscache h)"

definition route_calls_documented :: "'s iphlp \<Rightarrow> (MibIPforwardRow2 \<Rightarrow> bool) \<Rightarrow> ('s \<Rightarrow> MibIPforwardRow2 set) \<Rightarrow> bool" where
  "route_calls_documented h auto routes \<longleftrightarrow>
     (\<forall>f s t s'. getIPForwardTable2 h f s = (Inr t, s') \<longrightarrow> set t = {r \<in> routes s. in_family f (route_family r)}) \<and>
     (\<forall>r s s'. deleteIPForwardEntry2 h r s = (Inr (), s') \<longrightarrow> routes s' = {q \<in> routes s. route_key q \<noteq> route_key r}) \<and>
     (\<forall>r s e s'. deleteIPForwardEntry2 h r s = (Inl e, s') \<longrightarrow> routes s' = routes s) \<and>
     (\<forall>r s s'. createIPForwardEntry2 h r s = (Inr (), s') \<longrightarrow>
        (\<exists>q. \<not> auto q \<and> route_key q = route_key r \<and> route_family q = route_family r \<and> fr_Metric q = fr_Metric r \<and>
           routes s' = insert q (routes s))) \<and>
     (\<forall>r s e s'. createIPForwardEntry2 h r s = (Inl e, s') \<longrightarrow> routes s' = routes s)"

definition address_calls_documented :: "'s iphlp \<Rightarrow> ('s \<Rightarrow> MibUnicastIPAddressRow set) \<Rightarrow> bool" where
  "address_calls_documented h addrs \<longleftrightarrow>
     (\<forall>f s t s'. getUnicastIPAddressTable h f s = (Inr t, s') \<longrightarrow>
        set t = {a \<in> addrs s. in_family f (Family (ua_Address a))}) \<and>
     (\<forall>a s s'. deleteUnicastIPAddressEntry h a s = (Inr (), s') \<longrightarrow>
        addrs s' = {b \<in> addrs s. address_key b \<noteq> address_key a}) \<and>
     (\<forall>a s e s'. deleteUnicastIPAddressEntry h a s = (Inl e, s') \<longrightarrow> addrs s' = addrs s) \<and>
     (\<forall>a s s'. createUnicastIPAddressEntry h a s = (Inr (), s') \<longrightarrow>
        (\<exists>b. address_key b = address_key a \<and> ua_OnLinkPrefixLength b = ua_OnLinkPrefixLength a \<and>
           addrs s' = insert b (addrs s))) \<and>
     (\<forall>a s e s'. createUnicastIPAddressEntry h a s = (Inl e, s') \<longrightarrow> addrs s' = addrs s)"

text \<open>When the addresses of an interface change, Windows adds and removes routes of this interface which it
  keeps itself (\<open>auto\<close>), and no others.\<close>

definition documented :: "'s iphlp \<Rightarrow> (MibIPforwardRow2 \<Rightarrow> bool) \<Rightarrow> ('s \<Rightarrow> MibIPforwardRow2 set) \<Rightarrow> ('s \<Rightarrow> MibUnicastIPAddressRow set) \<Rightarrow> bool" where
  "documented h auto routes addrs \<longleftrightarrow>
     other_calls_leave h routes \<and> other_calls_leave h addrs \<and>
     route_calls_documented h auto routes \<and> address_calls_documented h addrs \<and>
     (\<forall>r. leaves addrs (createIPForwardEntry2 h r)) \<and> (\<forall>r. leaves addrs (deleteIPForwardEntry2 h r)) \<and>
     (\<forall>a. leaves (\<lambda>s. {r \<in> routes s. fr_InterfaceLUID r \<noteq> ua_InterfaceLUID a \<or> \<not> auto r}) (createUnicastIPAddressEntry h a)) \<and>
     (\<forall>a. leaves (\<lambda>s. {r \<in> routes s. fr_InterfaceLUID r \<noteq> ua_InterfaceLUID a \<or> \<not> auto r}) (deleteUnicastIPAddressEntry h a))"

section \<open>Socket addresses and prefixes\<close>

lemma SetAddrPort_bytes:
  "SetAddrPort (Addr4 w) port sa = Some sa' \<Longrightarrow> Family sa' = AF_INET \<and> bytes_at 2 4 (sa_data sa') = octets4 w"
  "SetAddrPort (Addr6 v z) port sa = Some sa' \<Longrightarrow> Family sa' = AF_INET6 \<and> bytes_at 6 16 (sa_data sa') = As16 v \<and>
     bytes_at 22 4 (sa_data sa') = le_bytes 4 (unat (zone_scope z))"
proof -
  have l: "length (octets4 w) = 4" "length (As16 v) = 16" by (simp_all add: octets4_def As16_def groups6_def)
  show "SetAddrPort (Addr4 w) port sa = Some sa' \<Longrightarrow> Family sa' = AF_INET \<and> bytes_at 2 4 (sa_data sa') = octets4 w"
    by (auto simp: bytes_at_def l)
  show "SetAddrPort (Addr6 v z) port sa = Some sa' \<Longrightarrow> Family sa' = AF_INET6 \<and> bytes_at 6 16 (sa_data sa') = As16 v \<and>
     bytes_at 22 4 (sa_data sa') = le_bytes 4 (unat (zone_scope z))"
    by (auto simp: bytes_at_def l)
qed

lemma families_differ: "AF_INET \<noteq> AF_INET6" "AF_INET \<noteq> AF_UNSPEC" "AF_INET6 \<noteq> AF_UNSPEC"
  by (simp_all add: AF_INET_def AF_INET6_def AF_UNSPEC_def)

lemma SetAddrPort_reads:
  assumes "SetAddrPort a port sa = Some sa'"
  shows "sockaddr_Addr sa' = scoped a \<and> Family sa' = (if Is4 a then AF_INET else AF_INET6) \<and> (Is4 a \<or> Is6 a)"
proof (cases a)
  case AddrZero
  then show ?thesis using assms by simp
next
  case (Addr4 w)
  then show ?thesis using SetAddrPort_bytes(1) [of w port sa sa'] assms by (simp add: sockaddr_Addr_def)
next
  case (Addr6 v z)
  have "le_value (le_bytes 4 (unat (zone_scope z))) = unat (zone_scope z)"
    using unsigned_less [of "zone_scope z", where 'a = nat] by (simp add: le_value_bytes)
  moreover have "of_bytes16 (As16 v) = v" using of_bytes16_As16 [of v "[]"] by simp
  ultimately show ?thesis
    using SetAddrPort_bytes(2) [of v z port sa sa'] assms Addr6 families_differ
    by (simp add: sockaddr_Addr_def Let_def unat_eq_zero unat_gt_0)
qed

lemma row_Prefix_reads:
  assumes "SetAddrPort a port sa = Some sa'"
  shows "row_Prefix \<lparr>RawPrefix = sa', PrefixLength = n\<rparr> = PrefixFrom a (unat n)"
proof (cases a)
  case AddrZero
  then show ?thesis using assms by simp
next
  case (Addr4 w)
  then show ?thesis using SetAddrPort_bytes(1) [of w port sa sa'] assms by (simp add: row_Prefix_def)
next
  case (Addr6 v z)
  have "of_bytes16 (As16 v) = v" using of_bytes16_As16 [of v "[]"] by simp
  then show ?thesis
    using SetAddrPort_bytes(2) [of v z port sa sa'] assms Addr6 families_differ
    by (simp add: row_Prefix_def Let_def PrefixFrom_def)
qed

lemma row_Prefix_valid:
  assumes p: "valid_prefix p" and sa: "SetAddrPort (prefix_Addr p) port sa = Some sa'"
  shows "row_Prefix \<lparr>RawPrefix = sa', PrefixLength = of_int (Bits p)\<rparr> = p"
proof -
  obtain n where n: "prefix_bits p = Some n" "n \<le> BitLen (prefix_Addr p)" "\<not> hasZone (prefix_Addr p)" "prefix_Addr p \<noteq> AddrZero"
    using p by (auto simp: valid_prefix_def split: option.splits)
  have "BitLen (prefix_Addr p) \<le> 128" by (cases "prefix_Addr p") auto
  then have "unat (of_int (Bits p) :: byte) = n" using n(1,2) by (simp add: Bits_def unat_of_nat)
  moreover have "withoutZone (prefix_Addr p) = prefix_Addr p" using n(3) by (cases "prefix_Addr p") auto
  ultimately show ?thesis using n row_Prefix_reads [OF sa] by (cases p) (simp add: PrefixFrom_def)
qed

section \<open>The routes of an interface\<close>

text \<open>What is set of a route.\<close>

definition route_view :: "MibIPforwardRow2 \<Rightarrow> prefix \<times> addr \<times> u32" where
  "route_view r = (row_Prefix (DestinationPrefix r), sockaddr_Addr (fr_NextHop r), fr_Metric r)"

definition routes_of :: "MibIPforwardRow2 set \<Rightarrow> LUID \<Rightarrow> AddressFamily \<Rightarrow> MibIPforwardRow2 set" where
  "routes_of rs luid family = {r \<in> rs. fr_InterfaceLUID r = luid \<and> in_family family (route_family r)}"

lemma sysE:
  assumes "sys f s = Some (r, s')"
  obtains e where "f s = (Inl e, s')" "r = Inl (Win e)" | x where "f s = (Inr x, s')" "r = Inr x"
  using assms by (cases "f s"; cases "fst (f s)") (auto simp: sys_def)

lemma sys_leaves: "leaves obs f \<Longrightarrow> keeps obs (sys f)"
  unfolding keeps_def leaves_def sys_def by (auto split: prod.splits) (metis snd_conv)

lemma route_callsD:
  assumes "route_calls_documented h auto routes"
  shows "getIPForwardTable2 h f s = (Inr t, s') \<Longrightarrow> set t = {r \<in> routes s. in_family f (route_family r)}"
    "deleteIPForwardEntry2 h r s = (Inr (), s') \<Longrightarrow> routes s' = {q \<in> routes s. route_key q \<noteq> route_key r}"
    "deleteIPForwardEntry2 h r s = (Inl e, s') \<Longrightarrow> routes s' = routes s"
    "createIPForwardEntry2 h r s = (Inr (), s') \<Longrightarrow>
      \<exists>q. \<not> auto q \<and> route_key q = route_key r \<and> route_family q = route_family r \<and> fr_Metric q = fr_Metric r \<and>
        routes s' = insert q (routes s)"
    "createIPForwardEntry2 h r s = (Inl e, s') \<Longrightarrow> routes s' = routes s"
  using assms by (simp_all add: route_calls_documented_def)

lemma AddRoute_effect:
  assumes d: "route_calls_documented h auto routes" and p: "valid_prefix destination" and n: "\<not> hasZone nextHop"
    and run: "AddRoute h luid destination nextHop metric s = Some (Inr u, s')"
  shows "\<exists>q. \<not> auto q \<and> fr_InterfaceLUID q = luid \<and> route_view q = (destination, nextHop, metric) \<and>
    route_family q = (if Is4 (prefix_Addr destination) then AF_INET else AF_INET6) \<and> routes s' = insert q (routes s)"
proof -
  let ?row = "(initializeIPForwardEntry h zero_ForwardRow) \<lparr>fr_InterfaceLUID := luid\<rparr>"
  obtain a b where a: "SetAddrPort (prefix_Addr destination) 0 (RawPrefix (DestinationPrefix ?row)) = Some a"
    and b: "SetAddrPort nextHop 0 (fr_NextHop ?row) = Some b"
    and c: "createIPForwardEntry2 h (?row \<lparr>DestinationPrefix := \<lparr>RawPrefix = a, PrefixLength = of_int (Bits destination)\<rparr>,
        fr_NextHop := b, fr_Metric := metric\<rparr>) s = (Inr u, s')"
    using run unfolding AddRoute_def Let_def SetPrefix_def SetAddr_def
    by (auto elim!: andThenE sysE simp: io_run split: option.splits)
  have zone: "scoped nextHop = nextHop" using n by (cases nextHop) (auto simp: zone_scope_def)
  show ?thesis
    using d c row_Prefix_valid [OF p a] SetAddrPort_reads [OF a] SetAddrPort_reads [OF b] zone
    unfolding route_calls_documented_def route_key_def route_view_def route_family_def
    by (fastforce split: if_splits)
qed

lemma delete_routes_effect:
  assumes d: "route_calls_documented h auto routes" and run: "delete_routes h luid t err s = Some (Inr u, s')"
  shows "err = None \<and> routes s' = {q \<in> routes s. route_key q \<notin> route_key ` {r \<in> set t. fr_InterfaceLUID r = luid}}"
  using run
proof (induction t arbitrary: err s)
  case Nil
  then show ?case by (auto simp: io_run split: option.splits)
next
  case (Cons row t)
  show ?case
  proof (cases "fr_InterfaceLUID row = luid")
    case True
    then obtain r s1 where r: "sys (deleteIPForwardEntry2 h row) s = Some (r, s1)"
      and rest: "delete_routes h luid t (case r of Inl err2 \<Rightarrow> Some err2 | Inr _ \<Rightarrow> err) s1 = Some (Inr u, s')"
      using Cons.prems by (auto elim!: attemptE)
    from Cons.IH [OF rest] obtain v where v: "r = Inr v" "err = None" by (auto split: sum.splits)
    have "deleteIPForwardEntry2 h row s = (Inr (), s1)" using r v by (auto elim!: sysE)
    then have "routes s1 = {q \<in> routes s. route_key q \<noteq> route_key row}"
      by (rule route_callsD(2) [OF d])
    then show ?thesis using Cons.IH [OF rest] v True by auto
  next
    case False
    then show ?thesis using Cons by auto
  qed
qed

lemma row_Prefix_family:
  "Is4 (prefix_Addr (row_Prefix p)) \<longleftrightarrow> Family (RawPrefix p) = AF_INET"
  "Is6 (prefix_Addr (row_Prefix p)) \<longleftrightarrow> Family (RawPrefix p) = AF_INET6"
  using families_differ by (auto simp: row_Prefix_def PrefixFrom_def Let_def)

lemma FlushRoutes_effect:
  assumes d: "route_calls_documented h auto routes" "leaves routes (getIPForwardTable2 h family)"
    and f: "family = AF_INET \<or> family = AF_INET6"
    and run: "FlushRoutes h luid family s = Some (Inr u, s')"
  shows "routes s' = routes s - routes_of (routes s) luid family"
proof -
  obtain t s1 where t: "getIPForwardTable2 h family s = (Inr t, s1)"
    and run': "delete_routes h luid t None s1 = Some (Inr u, s')"
    using run unfolding FlushRoutes_def by (auto elim!: andThenE sysE)
  have s1: "routes s1 = routes s" using d(2) t by (metis leaves_def snd_conv)
  have t': "set t = {r \<in> routes s. in_family family (route_family r)}"
    by (rule route_callsD(1) [OF d(1) t])
  have same: "route_family q = family \<longleftrightarrow> route_family r = family" if "route_key q = route_key r" for q r
    using that f row_Prefix_family [of "DestinationPrefix q"] row_Prefix_family [of "DestinationPrefix r"]
    by (auto simp: route_key_def route_family_def)
  have fam: "in_family family x \<longleftrightarrow> x = family" for x using f families_differ by (auto simp: in_family_def)
  have "route_key q \<in> route_key ` {r \<in> set t. fr_InterfaceLUID r = luid} \<longleftrightarrow> fr_InterfaceLUID q = luid \<and> route_family q = family"
    if q: "q \<in> routes s" for q
  proof
    assume "route_key q \<in> route_key ` {r \<in> set t. fr_InterfaceLUID r = luid}"
    then obtain r where "route_key q = route_key r" "r \<in> set t" "fr_InterfaceLUID r = luid" by auto
    then show "fr_InterfaceLUID q = luid \<and> route_family q = family"
      using same [of q r] t' fam by (auto simp: route_key_def)
  qed (use q t' fam in auto)
  then show ?thesis
    using delete_routes_effect [OF d(1) run'] s1 fam unfolding routes_of_def by auto
qed

lemma add_family_routes_effect:
  assumes d: "route_calls_documented h auto routes"
    and f: "family = AF_INET \<or> family = AF_INET6"
    and v: "\<forall>rd\<in>set rds. \<not> other_family family (prefix_Addr (Destination rd)) \<longrightarrow>
        valid_prefix (Destination rd) \<and> \<not> hasZone (NextHop rd)"
    and run: "add_family_routes h luid family rds s = Some (Inr u, s')"
  shows "\<exists>Q. routes s' = routes s \<union> Q \<and> (\<forall>q\<in>Q. \<not> auto q \<and> fr_InterfaceLUID q = luid \<and> route_family q = family) \<and>
    route_view ` Q = (\<lambda>rd. (Destination rd, NextHop rd, rd_Metric rd)) `
      {rd \<in> set rds. \<not> other_family family (prefix_Addr (Destination rd))}"
  using run v
proof (induction rds arbitrary: s)
  case Nil
  then show ?case by (auto simp: io_run intro: exI [of _ "{}"])
next
  case (Cons rd rds)
  have v: "\<forall>rd\<in>set rds. \<not> other_family family (prefix_Addr (Destination rd)) \<longrightarrow>
      valid_prefix (Destination rd) \<and> \<not> hasZone (NextHop rd)" using Cons.prems(2) by simp
  show ?case
  proof (cases "other_family family (prefix_Addr (Destination rd))")
    case True
    then have "add_family_routes h luid family rds s = Some (Inr u, s')" using Cons.prems(1) by simp
    moreover have "{r \<in> set (rd # rds). \<not> other_family family (prefix_Addr (Destination r))} =
      {r \<in> set rds. \<not> other_family family (prefix_Addr (Destination r))}" using True by auto
    ultimately show ?thesis using Cons.IH [OF _ v] by simp
  next
    case False
    then obtain w s1 where a: "AddRoute h luid (Destination rd) (NextHop rd) (rd_Metric rd) s = Some (Inr w, s1)"
      and rest: "add_family_routes h luid family rds s1 = Some (Inr u, s')"
      using Cons.prems(1) by (auto elim!: andThenE)
    have v': "valid_prefix (Destination rd)" "\<not> hasZone (NextHop rd)" using Cons.prems(2) False by auto
    from AddRoute_effect [OF d v' a] obtain q where q: "\<not> auto q \<and> fr_InterfaceLUID q = luid"
      "route_view q = (Destination rd, NextHop rd, rd_Metric rd)" "routes s1 = insert q (routes s)"
      "route_family q = (if Is4 (prefix_Addr (Destination rd)) then AF_INET else AF_INET6)" by blast
    have fam: "route_family q = family"
      using q(4) False f v'(1) families_differ
      by (cases "prefix_Addr (Destination rd)") (auto simp: other_family_def valid_prefix_def)
    obtain Q where Q: "routes s' = routes s1 \<union> Q" "\<forall>q\<in>Q. \<not> auto q \<and> fr_InterfaceLUID q = luid \<and> route_family q = family"
      "route_view ` Q = (\<lambda>rd. (Destination rd, NextHop rd, rd_Metric rd)) `
        {rd \<in> set rds. \<not> other_family family (prefix_Addr (Destination rd))}"
      using Cons.IH [OF rest v] by blast
    have "{r \<in> set (rd # rds). \<not> other_family family (prefix_Addr (Destination r))} =
      insert rd {r \<in> set rds. \<not> other_family family (prefix_Addr (Destination r))}" using False by auto
    then show ?thesis using q(1,2,3) Q fam by (intro exI [of _ "insert q Q"]) simp
  qed
qed

lemma SetRoutesForFamily_effect:
  assumes d: "documented h auto routes addrs" and f: "family = AF_INET \<or> family = AF_INET6"
    and v: "\<forall>rd\<in>set rds. \<not> other_family family (prefix_Addr (Destination rd)) \<longrightarrow>
        valid_prefix (Destination rd) \<and> \<not> hasZone (NextHop rd)"
    and run: "SetRoutesForFamily h luid family rds s = Some (Inr u, s')"
  shows "route_view ` routes_of (routes s') luid family =
      (\<lambda>rd. (Destination rd, NextHop rd, rd_Metric rd)) ` {rd \<in> set rds. \<not> other_family family (prefix_Addr (Destination rd))} \<and>
    routes s' - routes_of (routes s') luid family = routes s - routes_of (routes s) luid family \<and>
    (\<forall>r\<in>routes_of (routes s') luid family. \<not> auto r)"
proof -
  have d': "route_calls_documented h auto routes" "leaves routes (getIPForwardTable2 h family)"
    using d by (auto simp: documented_def other_calls_leave_def)
  obtain v s1 where a: "FlushRoutes h luid family s = Some (Inr v, s1)"
    and b: "add_family_routes h luid family rds s1 = Some (Inr u, s')"
    using run unfolding SetRoutesForFamily_def by (auto elim!: andThenE)
  have s1: "routes s1 = routes s - routes_of (routes s) luid family" by (rule FlushRoutes_effect [OF d' f a])
  obtain Q where Q: "routes s' = routes s1 \<union> Q" "\<forall>q\<in>Q. \<not> auto q \<and> fr_InterfaceLUID q = luid \<and> route_family q = family"
    "route_view ` Q = (\<lambda>rd. (Destination rd, NextHop rd, rd_Metric rd)) `
      {rd \<in> set rds. \<not> other_family family (prefix_Addr (Destination rd))}"
    using add_family_routes_effect [OF d'(1) f v b] by blast
  have "routes_of (routes s') luid family = Q" "routes s' - Q = routes s1"
    using Q(1,2) s1 by (auto simp: routes_of_def in_family_def)
  then show ?thesis using Q(2,3) s1 by simp
qed

section \<open>The addresses of an interface\<close>

lemma address_callsD:
  assumes "address_calls_documented h addrs"
  shows "getUnicastIPAddressTable h f s = (Inr t, s') \<Longrightarrow> set t = {a \<in> addrs s. in_family f (Family (ua_Address a))}"
    "deleteUnicastIPAddressEntry h a s = (Inr (), s') \<Longrightarrow> addrs s' = {b \<in> addrs s. address_key b \<noteq> address_key a}"
    "deleteUnicastIPAddressEntry h a s = (Inl e, s') \<Longrightarrow> addrs s' = addrs s"
    "createUnicastIPAddressEntry h a s = (Inr (), s') \<Longrightarrow>
      \<exists>b. address_key b = address_key a \<and> ua_OnLinkPrefixLength b = ua_OnLinkPrefixLength a \<and> addrs s' = insert b (addrs s)"
    "createUnicastIPAddressEntry h a s = (Inl e, s') \<Longrightarrow> addrs s' = addrs s"
  using assms by (simp_all add: address_calls_documented_def)

text \<open>An interface has an address with its prefix length.\<close>

definition has_address :: "MibUnicastIPAddressRow set \<Rightarrow> LUID \<Rightarrow> prefix \<Rightarrow> bool" where
  "has_address as luid p \<longleftrightarrow>
     (\<exists>a\<in>as. ua_InterfaceLUID a = luid \<and> sockaddr_Addr (ua_Address a) = prefix_Addr p \<and>
        ua_OnLinkPrefixLength a = of_int (Bits p))"

lemma AddIPAddress_effect:
  assumes d: "address_calls_documented h addrs" and p: "\<not> hasZone (prefix_Addr p)"
    and run: "AddIPAddress h luid p s = Some (Inr u, s')"
  shows "addrs s \<subseteq> addrs s' \<and> has_address (addrs s') luid p"
proof -
  let ?row = "(initializeUnicastIPAddressEntry h zero_UnicastRow)
     \<lparr>ua_InterfaceLUID := luid, ua_DadState := DadStatePreferred, ua_ValidLifetime := 0xffffffff, ua_PreferredLifetime := 0xffffffff\<rparr>"
  obtain a where a: "SetAddrPort (prefix_Addr p) 0 (ua_Address ?row) = Some a"
    and c: "createUnicastIPAddressEntry h (?row \<lparr>ua_Address := a, ua_OnLinkPrefixLength := of_int (Bits p)\<rparr>) s = (Inr u, s')"
    using run unfolding AddIPAddress_def Let_def SetAddr_def
    by (auto elim!: andThenE sysE simp: io_run split: option.splits)
  have zone: "scoped (prefix_Addr p) = prefix_Addr p" using p by (cases "prefix_Addr p") (auto simp: zone_scope_def)
  have c': "createUnicastIPAddressEntry h (?row \<lparr>ua_Address := a, ua_OnLinkPrefixLength := of_int (Bits p)\<rparr>) s = (Inr (), s')"
    using c by simp
  show ?thesis
    using address_callsD(4) [OF d c'] SetAddrPort_reads [OF a] zone
    unfolding address_key_def has_address_def by auto
qed

lemma add_family_addresses_effect:
  assumes d: "address_calls_documented h addrs" and p: "\<forall>p\<in>set ps. \<not> hasZone (prefix_Addr p)"
    and run: "add_family_addresses h luid family ps s = Some (Inr u, s')"
  shows "addrs s \<subseteq> addrs s' \<and> (\<forall>p\<in>set ps. \<not> other_family family (prefix_Addr p) \<longrightarrow> has_address (addrs s') luid p)"
  using run p
proof (induction ps arbitrary: s)
  case Nil
  then show ?case by (simp add: io_run)
next
  case (Cons p ps)
  show ?case
  proof (cases "other_family family (prefix_Addr p)")
    case True
    then show ?thesis using Cons by simp
  next
    case False
    then obtain v s1 where a: "AddIPAddress h luid p s = Some (Inr v, s1)"
      and rest: "add_family_addresses h luid family ps s1 = Some (Inr u, s')"
      using Cons.prems(1) by (auto elim!: andThenE)
    have "addrs s \<subseteq> addrs s1 \<and> has_address (addrs s1) luid p"
      using AddIPAddress_effect [OF d _ a] Cons.prems(2) by simp
    moreover have "addrs s1 \<subseteq> addrs s' \<and> (\<forall>p\<in>set ps. \<not> other_family family (prefix_Addr p) \<longrightarrow> has_address (addrs s') luid p)"
      using Cons.IH [OF rest] Cons.prems(2) by simp
    ultimately show ?thesis by (auto simp: has_address_def)
  qed
qed

lemma SetIPAddressesForFamily_effect:
  assumes d: "address_calls_documented h addrs" and p: "\<forall>p\<in>set ps. \<not> hasZone (prefix_Addr p)"
    and run: "SetIPAddressesForFamily h luid family ps s = Some (Inr u, s')"
  shows "\<forall>p\<in>set ps. \<not> other_family family (prefix_Addr p) \<longrightarrow> has_address (addrs s') luid p"
  using run add_family_addresses_effect [OF d p] unfolding SetIPAddressesForFamily_def by (auto elim!: andThenE)

section \<open>Other interfaces\<close>

definition others :: "('s \<Rightarrow> MibIPforwardRow2 set) \<Rightarrow> ('s \<Rightarrow> MibUnicastIPAddressRow set) \<Rightarrow> LUID \<Rightarrow> 's \<Rightarrow>
    MibIPforwardRow2 set \<times> MibUnicastIPAddressRow set" where
  "others routes addrs luid s = ({r \<in> routes s. fr_InterfaceLUID r \<noteq> luid}, {a \<in> addrs s. ua_InterfaceLUID a \<noteq> luid})"

lemma leaves_cases:
  "(\<And>s e s'. f s = (Inl e, s') \<Longrightarrow> obs s' = obs s) \<Longrightarrow> (\<And>s x s'. f s = (Inr x, s') \<Longrightarrow> obs s' = obs s) \<Longrightarrow> leaves obs f"
  unfolding leaves_def by (metis prod.collapse sum.exhaust)

lemma leaves_others_both:
  "leaves (\<lambda>s. {r \<in> routes s. fr_InterfaceLUID r \<noteq> luid}) f \<Longrightarrow> leaves (\<lambda>s. {a \<in> addrs s. ua_InterfaceLUID a \<noteq> luid}) f \<Longrightarrow>
    leaves (others routes addrs luid) f"
  by (simp add: leaves_def others_def)

lemma leaves_all_others: "leaves routes f \<Longrightarrow> leaves addrs f \<Longrightarrow> leaves (others routes addrs luid) f"
  by (simp add: leaves_def others_def)

lemma route_calls_leave:
  assumes d: "route_calls_documented h auto routes" and l: "fr_InterfaceLUID r = luid"
  shows "leaves (\<lambda>s. {r \<in> routes s. fr_InterfaceLUID r \<noteq> luid}) (createIPForwardEntry2 h r)"
    "leaves (\<lambda>s. {r \<in> routes s. fr_InterfaceLUID r \<noteq> luid}) (deleteIPForwardEntry2 h r)"
proof -
  have k: "fr_InterfaceLUID q = luid" if "route_key q = route_key r" for q
    using that l by (simp add: route_key_def)
  show "leaves (\<lambda>s. {r \<in> routes s. fr_InterfaceLUID r \<noteq> luid}) (createIPForwardEntry2 h r)"
    by (rule leaves_cases) (use route_callsD(4,5) [OF d] k in force)+
  show "leaves (\<lambda>s. {r \<in> routes s. fr_InterfaceLUID r \<noteq> luid}) (deleteIPForwardEntry2 h r)"
    by (rule leaves_cases) (use route_callsD(2,3) [OF d] k in force)+
qed

lemma address_calls_leave:
  assumes d: "address_calls_documented h addrs" and l: "ua_InterfaceLUID a = luid"
  shows "leaves (\<lambda>s. {a \<in> addrs s. ua_InterfaceLUID a \<noteq> luid}) (createUnicastIPAddressEntry h a)"
    "leaves (\<lambda>s. {a \<in> addrs s. ua_InterfaceLUID a \<noteq> luid}) (deleteUnicastIPAddressEntry h a)"
proof -
  have k: "ua_InterfaceLUID q = luid" if "address_key q = address_key a" for q
    using that l by (simp add: address_key_def)
  show "leaves (\<lambda>s. {a \<in> addrs s. ua_InterfaceLUID a \<noteq> luid}) (createUnicastIPAddressEntry h a)"
    by (rule leaves_cases) (use address_callsD(4,5) [OF d] k in force)+
  show "leaves (\<lambda>s. {a \<in> addrs s. ua_InterfaceLUID a \<noteq> luid}) (deleteUnicastIPAddressEntry h a)"
    by (rule leaves_cases) (use address_callsD(2,3) [OF d] k in force)+
qed

lemma leaves_part:
  assumes "leaves (\<lambda>s. {r \<in> R s. A r}) f" and "\<And>r. B r \<Longrightarrow> A r"
  shows "leaves (\<lambda>s. {r \<in> R s. B r}) f"
proof -
  have "{r \<in> R s. B r} = {r \<in> {r \<in> R s. A r}. B r}" for s using assms(2) by auto
  then show ?thesis using assms(1) unfolding leaves_def by metis
qed

lemma kept_routes:
  assumes "documented h auto routes addrs"
  shows "leaves (\<lambda>s. {r \<in> routes s. fr_InterfaceLUID r \<noteq> ua_InterfaceLUID a}) (createUnicastIPAddressEntry h a)"
    "leaves (\<lambda>s. {r \<in> routes s. fr_InterfaceLUID r \<noteq> ua_InterfaceLUID a}) (deleteUnicastIPAddressEntry h a)"
    "leaves (\<lambda>s. {r \<in> routes s. \<not> auto r}) (createUnicastIPAddressEntry h a)"
    "leaves (\<lambda>s. {r \<in> routes s. \<not> auto r}) (deleteUnicastIPAddressEntry h a)"
proof -
  let ?obs = "\<lambda>s. {r \<in> routes s. fr_InterfaceLUID r \<noteq> ua_InterfaceLUID a \<or> \<not> auto r}"
  have c: "leaves ?obs (createUnicastIPAddressEntry h a)" "leaves ?obs (deleteUnicastIPAddressEntry h a)"
    using assms by (simp_all add: documented_def)
  show "leaves (\<lambda>s. {r \<in> routes s. fr_InterfaceLUID r \<noteq> ua_InterfaceLUID a}) (createUnicastIPAddressEntry h a)"
    "leaves (\<lambda>s. {r \<in> routes s. \<not> auto r}) (createUnicastIPAddressEntry h a)"
    by (rule leaves_part [OF c(1)], simp)+
  show "leaves (\<lambda>s. {r \<in> routes s. fr_InterfaceLUID r \<noteq> ua_InterfaceLUID a}) (deleteUnicastIPAddressEntry h a)"
    "leaves (\<lambda>s. {r \<in> routes s. \<not> auto r}) (deleteUnicastIPAddressEntry h a)"
    by (rule leaves_part [OF c(2)], simp)+
qed

lemma leaves_others:
  assumes d: "documented h auto routes addrs"
  shows "fr_InterfaceLUID r = luid \<Longrightarrow> leaves (others routes addrs luid) (createIPForwardEntry2 h r)"
    "fr_InterfaceLUID r = luid \<Longrightarrow> leaves (others routes addrs luid) (deleteIPForwardEntry2 h r)"
    "ua_InterfaceLUID a = luid \<Longrightarrow> leaves (others routes addrs luid) (createUnicastIPAddressEntry h a)"
    "ua_InterfaceLUID a = luid \<Longrightarrow> leaves (others routes addrs luid) (deleteUnicastIPAddressEntry h a)"
proof -
  have r: "route_calls_documented h auto routes" and a: "address_calls_documented h addrs"
    and c: "leaves addrs (createIPForwardEntry2 h r)" "leaves addrs (deleteIPForwardEntry2 h r)"
    using d by (simp_all add: documented_def)
  have part: "leaves (\<lambda>s. {a \<in> addrs s. ua_InterfaceLUID a \<noteq> luid}) f" if "leaves addrs f" for f :: "'a \<Rightarrow> (nat + unit) \<times> 'a"
    using that by (simp add: leaves_def)
  show "leaves (others routes addrs luid) (createIPForwardEntry2 h r)" if "fr_InterfaceLUID r = luid"
    by (intro leaves_others_both part c(1) route_calls_leave(1) [OF r that])
  show "leaves (others routes addrs luid) (deleteIPForwardEntry2 h r)" if "fr_InterfaceLUID r = luid"
    by (intro leaves_others_both part c(2) route_calls_leave(2) [OF r that])
  show "leaves (others routes addrs luid) (createUnicastIPAddressEntry h a)" if "ua_InterfaceLUID a = luid"
    using leaves_others_both [OF _ address_calls_leave(1) [OF a that]] kept_routes(1) [OF d, of a] that by simp
  show "leaves (others routes addrs luid) (deleteUnicastIPAddressEntry h a)" if "ua_InterfaceLUID a = luid"
    using leaves_others_both [OF _ address_calls_leave(2) [OF a that]] kept_routes(2) [OF d, of a] that by simp
qed

lemma other_calls_leave_others:
  assumes "documented h auto routes addrs"
  shows "other_calls_leave h (others routes addrs luid)"
proof -
  have "other_calls_leave h routes" "other_calls_leave h addrs" using assms by (simp_all add: documented_def)
  then show ?thesis unfolding other_calls_leave_def by (intro conjI allI leaves_all_others) simp_all
qed

text \<open>What the functions of the package keep: the calls that read, and those for an interface.\<close>

lemma SetAddr_keeps [keeps_intros]: "keeps obs (SetAddr a sa)" "keeps obs (SetPrefix p q)" "keeps obs (UTF16PtrFromString str)"
  unfolding SetPrefix_def SetAddr_def UTF16PtrFromString_def by (intro keeps_intros)+

lemma leavesD: "leaves obs f \<Longrightarrow> f s = (x, s') \<Longrightarrow> obs s' = obs s"
  by (metis leaves_def snd_conv)

lemma adapters_loop_leaves:
  assumes "\<And>f n. leaves obs (windows_GetAdaptersAddresses h f n)"
  shows "leaves obs (adapters_loop h family sz)"
proof -
  have "obs (snd (adapters_loop h family sz s)) = obs s" for s
    using assms
  proof (induction h family sz s rule: adapters_loop.induct)
    case (1 h family sz s)
    show ?case
      using "1.IH" "1.prems" leavesD [OF "1.prems" [of family sz], of s]
      by (subst adapters_loop.simps) (auto split: prod.splits sum.splits)
  qed
  then show ?thesis by (simp add: leaves_def)
qed

lemma reading_keeps:
  assumes "other_calls_leave h obs"
  shows "keeps obs (IPInterface h luid family)" "keeps obs (Interface h luid)" "keeps obs (luid_GUID h luid)"
    "keeps obs (GetAdaptersAddresses h family)" "keeps obs (sys (getUnicastIPAddressTable h family))"
    "keeps obs (sys (getIPForwardTable2 h family))" "keeps obs (sys (setIPInterfaceEntry h row))"
    "keeps obs (sys (setInterfaceDnsSettings h guid settings))" "keeps obs (sys (registry_CreateKey h path))"
    "keeps obs (sys (key_SetStringValue h path n v))" "keeps obs (sys (key_Close h path))"
    "keeps obs (sys (mgr_Connect h))" "keeps obs (sys (mgr_Disconnect h))" "keeps obs (sys (open_dnscache h))"
    "keeps obs (sys (dnscache_ParamChange h))" "keeps obs (sys (close_dnscache h))"
  using assms unfolding IPInterface_def InterfaceRow_get_def Interface_def luid_GUID_def GetAdaptersAddresses_def
  by (auto intro!: keeps_intros sys_leaves adapters_loop_leaves simp: other_calls_leave_def)

lemma SetDNS_keeps:
  assumes "other_calls_leave h obs"
  shows "keeps obs (SetDNS h luid family servers domains)"
  unfolding SetDNS_def Let_def wrapping_def by (intro keeps_intros reading_keeps [OF assms])

lemma interface_keeps_others:
  assumes d: "documented h auto routes addrs"
  shows "keeps (others routes addrs luid) (AddIPAddress h luid p)"
    "keeps (others routes addrs luid) (AddRoute h luid destination nextHop metric)"
    "keeps (others routes addrs luid) (delete_addresses h luid as)"
    "keeps (others routes addrs luid) (delete_routes h luid rs err)"
proof -
  show "keeps (others routes addrs luid) (AddIPAddress h luid p)"
    unfolding AddIPAddress_def Let_def by (intro keeps_intros sys_leaves leaves_others [OF d]) simp
  show "keeps (others routes addrs luid) (AddRoute h luid destination nextHop metric)"
    unfolding AddRoute_def Let_def by (intro keeps_intros sys_leaves leaves_others [OF d]) simp
  show "keeps (others routes addrs luid) (delete_addresses h luid as)"
    by (induction as) (auto intro!: keeps_intros sys_leaves leaves_others [OF d])
  show "keeps (others routes addrs luid) (delete_routes h luid rs err)"
    by (induction rs arbitrary: err) (auto intro!: keeps_intros sys_leaves leaves_others [OF d] split: option.splits)
qed

lemma setting_keeps_others:
  assumes d: "documented h auto routes addrs"
  shows "keeps (others routes addrs luid) (FlushIPAddresses h luid family)"
    "keeps (others routes addrs luid) (FlushRoutes h luid family)"
    "keeps (others routes addrs luid) (SetIPAddressesForFamily h luid family ps)"
    "keeps (others routes addrs luid) (SetRoutesForFamily h luid family rds)"
    "keeps (others routes addrs luid) (FlushDNS h luid family)"
proof -
  have o: "other_calls_leave h (others routes addrs luid)" by (rule other_calls_leave_others [OF d])
  show f: "keeps (others routes addrs luid) (FlushIPAddresses h luid family)"
    "keeps (others routes addrs luid) (FlushRoutes h luid family)"
    unfolding FlushIPAddresses_def FlushRoutes_def
    by (intro keeps_intros reading_keeps [OF o] interface_keeps_others [OF d])+
  have "keeps (others routes addrs luid) (add_family_addresses h luid family ps)" for ps
    by (induction ps) (auto intro!: keeps_intros interface_keeps_others [OF d])
  then show "keeps (others routes addrs luid) (SetIPAddressesForFamily h luid family ps)"
    unfolding SetIPAddressesForFamily_def by (intro keeps_intros f)
  have "keeps (others routes addrs luid) (add_family_routes h luid family rds)" for rds
    by (induction rds) (auto intro!: keeps_intros interface_keeps_others [OF d])
  then show "keeps (others routes addrs luid) (SetRoutesForFamily h luid family rds)"
    unfolding SetRoutesForFamily_def by (intro keeps_intros f)
  show "keeps (others routes addrs luid) (FlushDNS h luid family)"
    unfolding FlushDNS_def by (rule SetDNS_keeps [OF o])
qed

end
