(* ===== verification/Tunnel_Address.thy ===== *)
theory Tunnel_Address
  imports Winipcfg
begin

text \<open>
  \<open>tunnel/addressconfig.go\<close>: the addresses, the routes, the name servers and the firewall of a tunnel from its
  configuration.  \<open>configureInterface\<close> may start over up to fifteen times when the system has just booted; its
  loop takes fuel, and sixteen turns are enough.
\<close>

section \<open>Stale addresses\<close>

definition ERROR_NOT_FOUND :: nat where "ERROR_NOT_FOUND = 1168"

definition ERROR_OBJECT_ALREADY_EXISTS :: nat where "ERROR_OBJECT_ALREADY_EXISTS = 5010"

fun cleanup_unicast :: "'s iphlp \<Rightarrow> addr list \<Rightarrow> LUID \<Rightarrow> (byte list option \<times> byte) list \<Rightarrow> ('s, unit) net" where
  "cleanup_unicast h addrHash luid [] = ret ()"
| "cleanup_unicast h addrHash luid ((address, OnLinkPrefixLength) # l) =
     (let ip = AddrFromSlice address in
      if ip \<in> set addrHash
      then ignoring (DeleteIPAddress h luid (PrefixFrom ip (unat OnLinkPrefixLength))) (cleanup_unicast h addrHash luid l)
      else cleanup_unicast h addrHash luid l)"

fun cleanup_interfaces :: "'s iphlp \<Rightarrow> addr list \<Rightarrow> IPAdapterAddresses list \<Rightarrow> ('s, unit) net" where
  "cleanup_interfaces h addrHash [] = ret ()"
| "cleanup_interfaces h addrHash (iface # interfaces) =
     (if ad_OperStatus iface = IfOperStatusUp then cleanup_interfaces h addrHash interfaces
      else ignoring (cleanup_unicast h addrHash (ad_LUID iface) (FirstUnicastAddress iface))
        (cleanup_interfaces h addrHash interfaces))"

definition cleanupAddressesOnDisconnectedInterfaces :: "'s iphlp \<Rightarrow> AddressFamily \<Rightarrow> prefix list \<Rightarrow> ('s, unit) net" where
  "cleanupAddressesOnDisconnectedInterfaces h family addresses =
     (if length addresses = 0 then ret ()
      else attempt (GetAdaptersAddresses h family) (\<lambda>r.
        case r of
          Inl _ \<Rightarrow> ret ()
        | Inr interfaces \<Rightarrow> cleanup_interfaces h (map prefix_Addr addresses) interfaces))"

section \<open>Configuring the interface\<close>

text \<open>Besides the calls of \<open>winipcfg\<close>, whether the service was started with the system, and the order in which the map of the
  routes is visited at each attempt.\<close>

record 's net_host =
  helper :: "'s iphlp"
  StartedAtBoot :: bool
  route_order :: "nat \<Rightarrow> RouteData list \<Rightarrow> RouteData list"

datatype cfg_error =
    UnableToSetRoutes net_error | UnableToSetIps net_error | NoIPInterface net_error
  | UnableToSetMetricAndMTU net_error | UnableToSetDNS net_error

definition failing :: "('e \<Rightarrow> 'f) \<Rightarrow> ('s, 'e, 'a) io \<Rightarrow> ('s, 'f, 'a) io" where
  "failing f m = attempt m (\<lambda>r. lift_sum (map_sum f id r))"

definition all_allowed :: "Config \<Rightarrow> prefix list" where
  "all_allowed conf = concat (map AllowedIPs (Peers conf))"

definition allowed_route :: "prefix \<Rightarrow> RouteData" where
  "allowed_route allowedip =
     \<lparr>Destination = Masked allowedip,
      NextHop = (if Is4 (prefix_Addr allowedip) then Addr4 0
        else if Is6 (prefix_Addr allowedip) then Addr6 0 [] else AddrZero),
      rd_Metric = 0\<rparr>"

definition config_routes :: "Config \<Rightarrow> RouteData list" where
  "config_routes conf = remdups (map allowed_route (all_allowed conf))"

definition found :: "AddressFamily \<Rightarrow> prefix list \<Rightarrow> bool" where
  "found family ps \<longleftrightarrow>
     list_ex (\<lambda>p. Is4 (prefix_Addr p)) ps \<and> family = AF_INET \<or> list_ex (\<lambda>p. Is6 (prefix_Addr p)) ps \<and> family = AF_INET6"

definition foundDefault :: "AddressFamily \<Rightarrow> prefix list \<Rightarrow> bool" where
  "foundDefault family ps \<longleftrightarrow> found family (filter (\<lambda>p. Bits p = 0) ps)"

definition RouterDiscoveryDisabled :: u32 where "RouterDiscoveryDisabled = 0"

definition interface_settings :: "AddressFamily \<Rightarrow> Config \<Rightarrow> MibIPInterfaceRow \<Rightarrow> MibIPInterfaceRow" where
  "interface_settings family conf ipif =
     (let ipif = ipif \<lparr>RouterDiscoveryBehavior := RouterDiscoveryDisabled, DadTransmits := 0,
            ManagedAddressConfigurationSupported := False, OtherStatefulConfigurationSupported := False\<rparr>;
          ipif = (if MTU (config_Interface conf) > 0 \<and>
              (found family (Addresses (config_Interface conf)) \<or> found family (all_allowed conf))
            then ipif \<lparr>NLMTU := ucast (MTU (config_Interface conf))\<rparr> else ipif)
      in if foundDefault family (all_allowed conf) then ipif \<lparr>UseAutomaticMetric := False, ip_Metric := 0\<rparr> else ipif)"

text \<open>One attempt, with the number of those before it.\<close>

definition configure_once :: "'s net_host \<Rightarrow> nat \<Rightarrow> AddressFamily \<Rightarrow> Config \<Rightarrow> LUID \<Rightarrow> ('s, cfg_error, unit) io" where
  "configure_once n tryTimes family conf luid =
     (let h = helper n; ic = config_Interface conf;
          set_ips = SetIPAddressesForFamily h luid family (Addresses ic) in
      andThen
        (if \<not> TableOff ic \<and> found family (all_allowed conf)
         then failing UnableToSetRoutes (SetRoutesForFamily h luid family (route_order n tryTimes (config_routes conf)))
         else ret ()) (\<lambda>_.
      andThen
        (if found family (Addresses ic)
         then failing UnableToSetIps (attempt set_ips (\<lambda>r.
           if r = Inl (Win ERROR_OBJECT_ALREADY_EXISTS)
           then ignoring (cleanupAddressesOnDisconnectedInterfaces h family (Addresses ic)) set_ips
           else lift_sum r))
         else ret ()) (\<lambda>_.
      andThen (failing NoIPInterface (IPInterface h luid family)) (\<lambda>ipif.
      andThen (failing UnableToSetMetricAndMTU (sys (setIPInterfaceEntry h (interface_settings family conf ipif)))) (\<lambda>_.
        failing UnableToSetDNS (SetDNS h luid family (DNS ic) (DNSSearch ic)))))))"

text \<open>The errors after which the code may start over; the one of \<open>IPInterface\<close> is returned as it is.\<close>

fun starts_over :: "cfg_error \<Rightarrow> bool" where
  "starts_over (UnableToSetRoutes err) = (err = Win ERROR_NOT_FOUND)"
| "starts_over (UnableToSetIps err) = (err = Win ERROR_NOT_FOUND)"
| "starts_over (NoIPInterface err) = False"
| "starts_over (UnableToSetMetricAndMTU err) = (err = Win ERROR_NOT_FOUND)"
| "starts_over (UnableToSetDNS err) = (err = Win ERROR_NOT_FOUND)"

fun configure_loop :: "nat \<Rightarrow> 's net_host \<Rightarrow> AddressFamily \<Rightarrow> Config \<Rightarrow> LUID \<Rightarrow> bool \<Rightarrow> nat \<Rightarrow> ('s, cfg_error, unit) io" where
  "configure_loop 0 n family conf luid retryOnFailure tryTimes = diverge"
| "configure_loop (Suc fuel) n family conf luid retryOnFailure tryTimes =
     (let retryOnFailure = (if tryTimes > 0 then retryOnFailure \<and> tryTimes < 15 else retryOnFailure) in
      attempt (configure_once n tryTimes family conf luid) (\<lambda>r.
        case r of
          Inl err \<Rightarrow>
            if starts_over err \<and> retryOnFailure
            then configure_loop fuel n family conf luid retryOnFailure (Suc tryTimes) else raise err
        | Inr _ \<Rightarrow> ret ()))"

definition configureInterface :: "'s net_host \<Rightarrow> AddressFamily \<Rightarrow> Config \<Rightarrow> LUID \<Rightarrow> ('s, cfg_error, unit) io" where
  "configureInterface n family conf luid = configure_loop 16 n family conf luid (StartedAtBoot n) 0"

section \<open>The firewall\<close>

definition doNotRestrict :: "Config \<Rightarrow> bool" where
  "doNotRestrict conf =
     (if length (Peers conf) = 1 \<and> \<not> TableOff (config_Interface conf)
      then \<not> list_ex (\<lambda>allowedip. Bits allowedip = 0 \<and> allowedip = Masked allowedip) (AllowedIPs (Peers conf ! 0))
      else True)"

definition enableFirewall :: "process \<Rightarrow> 'f wfp \<Rightarrow> Config \<Rightarrow> LUID \<Rightarrow> nat \<Rightarrow> 'f \<Rightarrow> (fw_error + unit) \<times> nat \<times> 'f" where
  "enableFirewall p w conf luid = EnableFirewall p w luid (doNotRestrict conf) (DNS (config_Interface conf))"

section \<open>It returns\<close>

lemma sys_returns [returns_intros]: "returns (sys f)"
  unfolding returns_def sys_def by (simp split: prod.splits)

lemma returns_let [returns_intros]: "returns (f x) \<Longrightarrow> returns (let y = x in f y)"
  by simp

lemma SetAddr_returns [returns_intros]: "returns (SetAddr a sa)" "returns (SetPrefix p q)" "returns (UTF16PtrFromString str)"
  unfolding SetPrefix_def SetAddr_def UTF16PtrFromString_def
  by (auto intro!: returns_intros split: option.split)

lemma winipcfg_returns [returns_intros]:
  "returns (AddIPAddress h luid p)" "returns (DeleteIPAddress h luid p)" "returns (AddRoute h luid d nh m)"
  "returns (IPInterface h luid family)" "returns (GetAdaptersAddresses h family)" "returns (luid_GUID h luid)"
  unfolding AddIPAddress_def DeleteIPAddress_def AddRoute_def IPInterface_def InterfaceRow_get_def GetAdaptersAddresses_def
    luid_GUID_def
  by (intro returns_intros)+

lemma loops_return [returns_intros]:
  "returns (delete_addresses h luid as)" "returns (add_family_addresses h luid family ps)"
  "returns (delete_routes h luid rs err)" "returns (add_family_routes h luid family rds)"
  "returns (cleanup_unicast h hash luid us)" "returns (cleanup_interfaces h hash ifs)"
proof -
  show "returns (delete_addresses h luid as)" by (induction as) (auto intro!: returns_intros)
  show "returns (add_family_addresses h luid family ps)" by (induction ps) (auto intro!: returns_intros)
  show "returns (delete_routes h luid rs err)"
    by (induction rs arbitrary: err) (auto intro!: returns_intros split: option.splits)
  show "returns (add_family_routes h luid family rds)" by (induction rds) (auto intro!: returns_intros)
  show u: "returns (cleanup_unicast h hash luid us)" for luid us
    by (induction us) (auto intro!: returns_intros simp: Let_def)
  show "returns (cleanup_interfaces h hash ifs)" by (induction ifs) (auto intro!: returns_intros u)
qed

lemma settings_return [returns_intros]:
  "returns (FlushIPAddresses h luid family)" "returns (FlushRoutes h luid family)"
  "returns (SetIPAddressesForFamily h luid family ps)" "returns (SetRoutesForFamily h luid family rds)"
  "returns (SetDNS h luid family servers domains)" "returns (cleanupAddressesOnDisconnectedInterfaces h family ps)"
  unfolding FlushIPAddresses_def FlushRoutes_def SetIPAddressesForFamily_def SetRoutesForFamily_def SetDNS_def
    cleanupAddressesOnDisconnectedInterfaces_def Let_def wrapping_def
  by (intro returns_intros)+

lemma failing_returns [returns_intros]: "returns m \<Longrightarrow> returns (failing f m)"
  unfolding failing_def by (intro returns_intros)

lemma configure_once_returns: "returns (configure_once n tryTimes family conf luid)"
  unfolding configure_once_def Let_def by (intro returns_intros)

text \<open>The attempt after fifteen others does not start over.\<close>

lemma configure_loop_returns:
  "tryTimes < 16 \<Longrightarrow> 16 \<le> tryTimes + fuel \<Longrightarrow> returns (configure_loop fuel n family conf luid retryOnFailure tryTimes)"
proof (induction fuel arbitrary: retryOnFailure tryTimes)
  case 0
  then show ?case by simp
next
  case (Suc fuel)
  show ?case
  proof (cases "tryTimes < 15")
    case True
    then have "returns (configure_loop fuel n family conf luid b (Suc tryTimes))" for b using Suc by simp
    then show ?thesis
      by (simp add: Let_def) (intro conjI impI returns_intros configure_once_returns)
  next
    case False
    then show ?thesis by (simp add: Let_def) (intro returns_intros configure_once_returns)
  qed
qed

section \<open>What an attempt leaves alone\<close>

lemma keeps_mono: "keeps obs m \<Longrightarrow> (\<And>s s'. obs s' = obs s \<Longrightarrow> obs' s' = obs' s) \<Longrightarrow> keeps obs' m"
  unfolding keeps_def by blast

lemma keeps_failing [keeps_intros]: "keeps obs m \<Longrightarrow> keeps obs (failing f m)"
  unfolding failing_def by (intro keeps_intros)

text \<open>Of the other interfaces: the routes of those that are up, and the addresses, save those of the
  configuration on interfaces that are not up.  \<open>down\<close> are the interfaces reported as not up.\<close>

definition reports_down :: "'s iphlp \<Rightarrow> LUID set \<Rightarrow> bool" where
  "reports_down h down \<longleftrightarrow>
     (\<forall>f n s l s' a. windows_GetAdaptersAddresses h f n s = (Inr l, s') \<longrightarrow> a \<in> set l \<longrightarrow>
        ad_OperStatus a \<noteq> IfOperStatusUp \<longrightarrow> ad_LUID a \<in> down)"

definition elsewhere :: "('s \<Rightarrow> MibIPforwardRow2 set) \<Rightarrow> ('s \<Rightarrow> MibUnicastIPAddressRow set) \<Rightarrow> LUID set \<Rightarrow> addr set \<Rightarrow> LUID \<Rightarrow> 's \<Rightarrow>
    MibIPforwardRow2 set \<times> MibUnicastIPAddressRow set" where
  "elsewhere routes addrs down ips luid s =
     ({r \<in> routes s. fr_InterfaceLUID r \<noteq> luid \<and> fr_InterfaceLUID r \<notin> down},
      {a \<in> addrs s. ua_InterfaceLUID a \<noteq> luid \<and> \<not> (ua_InterfaceLUID a \<in> down \<and> sockaddr_Addr (ua_Address a) \<in> ips)})"

lemma elsewhere_others:
  "others routes addrs luid s' = others routes addrs luid s \<Longrightarrow>
    elsewhere routes addrs down ips luid s' = elsewhere routes addrs down ips luid s"
proof -
  have "elsewhere routes addrs down ips luid s =
    ({r \<in> fst (others routes addrs luid s). fr_InterfaceLUID r \<notin> down},
     {a \<in> snd (others routes addrs luid s). \<not> (ua_InterfaceLUID a \<in> down \<and> sockaddr_Addr (ua_Address a) \<in> ips)})" for s
    by (auto simp: elsewhere_def others_def)
  then show "others routes addrs luid s' = others routes addrs luid s \<Longrightarrow> ?thesis" by simp
qed

lemma delete_leaves_part:
  assumes c: "address_calls_documented h addrs" and P: "\<And>b. address_key b = address_key a \<Longrightarrow> \<not> P b"
  shows "leaves (\<lambda>s. {b \<in> addrs s. P b}) (deleteUnicastIPAddressEntry h a)"
proof (rule leaves_cases)
  fix s u s' assume "deleteUnicastIPAddressEntry h a s = (Inr u, s')"
  then have "addrs s' = {b \<in> addrs s. address_key b \<noteq> address_key a}" using address_callsD(2) [OF c, of a s s'] by simp
  then show "{b \<in> addrs s'. P b} = {b \<in> addrs s. P b}" using P by blast
next
  fix s e s' assume "deleteUnicastIPAddressEntry h a s = (Inl e, s')"
  then show "{b \<in> addrs s'. P b} = {b \<in> addrs s. P b}" using address_callsD(3) [OF c, of a s e s'] by simp
qed

lemma delete_leaves_elsewhere:
  assumes d: "documented h auto routes addrs" and a: "ua_InterfaceLUID a \<in> down" "sockaddr_Addr (ua_Address a) \<in> ips"
  shows "leaves (elsewhere routes addrs down ips luid) (deleteUnicastIPAddressEntry h a)"
proof -
  have c: "address_calls_documented h addrs" using d by (simp add: documented_def)
  have "leaves (\<lambda>s. {r \<in> routes s. fr_InterfaceLUID r \<noteq> luid \<and> fr_InterfaceLUID r \<notin> down}) (deleteUnicastIPAddressEntry h a)"
    by (rule leaves_part [OF kept_routes(2) [OF d]]) (use a(1) in auto)
  moreover have "leaves (\<lambda>s. {b \<in> addrs s. ua_InterfaceLUID b \<noteq> luid \<and>
      \<not> (ua_InterfaceLUID b \<in> down \<and> sockaddr_Addr (ua_Address b) \<in> ips)}) (deleteUnicastIPAddressEntry h a)"
    by (rule delete_leaves_part [OF c]) (use a in \<open>simp add: address_key_def\<close>)
  ultimately show ?thesis unfolding leaves_def elsewhere_def by (simp only: prod.inject simp_thms)
qed

lemma AddrFromSlice_plain: "\<not> hasZone (AddrFromSlice s)" "scoped (AddrFromSlice s) = AddrFromSlice s"
  by (auto simp: AddrFromSlice_def zone_scope_def split: option.split)

lemma DeleteIPAddress_keeps:
  assumes d: "documented h auto routes addrs" and l: "l \<in> down" and ip: "AddrFromSlice bs \<in> ips"
  shows "keeps (elsewhere routes addrs down ips luid) (DeleteIPAddress h l (PrefixFrom (AddrFromSlice bs) n))"
proof -
  have w: "withoutZone (AddrFromSlice bs) = AddrFromSlice bs"
    using AddrFromSlice_plain(1) [of bs] by (cases "AddrFromSlice bs") auto
  have k: "keeps (elsewhere routes addrs down ips luid) (sys (deleteUnicastIPAddressEntry h
      ((initializeUnicastIPAddressEntry h zero_UnicastRow) \<lparr>ua_InterfaceLUID := l, ua_Address := sa, ua_OnLinkPrefixLength := k\<rparr>)))"
    if "SetAddrPort (AddrFromSlice bs) 0 sa0 = Some sa" for sa0 sa k
    by (rule sys_leaves, rule delete_leaves_elsewhere [OF d])
      (use l ip SetAddrPort_reads [OF that] AddrFromSlice_plain(2) [of bs] in simp_all)
  have set: "keeps obs (andThen (SetAddr a sa0) f)" if "\<And>sa. SetAddrPort a 0 sa0 = Some sa \<Longrightarrow> keeps obs (f sa)"
    for obs :: "'a \<Rightarrow> 'x" and a sa0 and f :: "RawSockaddrInet \<Rightarrow> ('a, unit) net"
    using that by (cases "SetAddrPort a 0 sa0") (simp_all add: keeps_def andThen_def SetAddr_def io_run)
  show ?thesis
    unfolding DeleteIPAddress_def Let_def by (rule set) (simp add: PrefixFrom_def w k)
qed

lemma adapters_loop_result:
  "adapters_loop h family sz s = (Inr l, s') \<Longrightarrow> \<exists>n s0. windows_GetAdaptersAddresses h family n s0 = (Inr l, s')"
proof (induction h family sz s rule: adapters_loop.induct)
  case (1 h family sz s)
  from trans [OF adapters_loop.simps [symmetric] "1.prems"] show ?case
    using "1.IH" by (auto split: prod.splits sum.splits if_splits)
qed

lemma elsewhere_keeps:
  assumes d: "documented h auto routes addrs"
  shows "keeps (others routes addrs luid) m \<Longrightarrow> keeps (elsewhere routes addrs down ips luid) m"
    "other_calls_leave h (elsewhere routes addrs down ips luid)"
proof -
  show "keeps (others routes addrs luid) m \<Longrightarrow> keeps (elsewhere routes addrs down ips luid) m"
    by (erule keeps_mono) (rule elsewhere_others)
  have l: "leaves (elsewhere routes addrs down ips luid) f" if "leaves (others routes addrs luid) f" for f :: "'a \<Rightarrow> 'r \<times> 'a"
    using that unfolding leaves_def by (intro allI elsewhere_others) simp
  show "other_calls_leave h (elsewhere routes addrs down ips luid)"
    using other_calls_leave_others [OF d, of luid] unfolding other_calls_leave_def by (intro conjI allI l) simp_all
qed

lemma cleanup_keeps:
  assumes d: "documented h auto routes addrs" and down: "reports_down h down" and ips: "ips = prefix_Addr ` set ps"
  shows "keeps (elsewhere routes addrs down ips luid) (cleanupAddressesOnDisconnectedInterfaces h family ps)"
proof -
  let ?obs = "elsewhere routes addrs down ips luid"
  have u: "keeps ?obs (cleanup_unicast h (map prefix_Addr ps) l us)" if "l \<in> down" for l us
    by (induction us) (auto simp: Let_def ips intro!: keeps_intros DeleteIPAddress_keeps [OF d that])
  have i: "keeps ?obs (cleanup_interfaces h (map prefix_Addr ps) ifs)"
    if "\<forall>a\<in>set ifs. ad_OperStatus a \<noteq> IfOperStatusUp \<longrightarrow> ad_LUID a \<in> down" for ifs
    using that by (induction ifs) (auto intro!: keeps_intros u)
  have loop: "\<forall>a\<in>set l. ad_OperStatus a \<noteq> IfOperStatusUp \<longrightarrow> ad_LUID a \<in> down"
    if "adapters_loop h family sz s = (Inr l, s')" for sz s l s'
    using adapters_loop_result [OF that] down unfolding reports_down_def by blast
  have "keeps ?obs (attempt (GetAdaptersAddresses h family) (\<lambda>r. case r of Inl _ \<Rightarrow> ret ()
      | Inr interfaces \<Rightarrow> cleanup_interfaces h (map prefix_Addr ps) interfaces))"
  proof (unfold keeps_def, intro allI impI)
    fix s r s'
    assume "attempt (GetAdaptersAddresses h family) (\<lambda>r. case r of Inl _ \<Rightarrow> ret ()
      | Inr interfaces \<Rightarrow> cleanup_interfaces h (map prefix_Addr ps) interfaces) s = Some (r, s')"
    then obtain x s1 where x: "GetAdaptersAddresses h family s = Some (x, s1)"
      and rest: "(case x of Inl _ \<Rightarrow> ret () | Inr interfaces \<Rightarrow> cleanup_interfaces h (map prefix_Addr ps) interfaces) s1 = Some (r, s')"
      by (rule attemptE)
    have "?obs s1 = ?obs s" by (rule keepsD [OF reading_keeps(4) [OF elsewhere_keeps(2) [OF d]] x])
    moreover have "?obs s' = ?obs s1"
    proof (cases x)
      case (Inr l)
      then have "adapters_loop h family 15000 s = (Inr l, s1)"
        using x unfolding GetAdaptersAddresses_def by (auto elim!: sysE)
      from keepsD [OF i [OF loop [OF this]]] rest Inr show ?thesis by simp
    qed (use rest in \<open>simp add: io_run\<close>)
    ultimately show "?obs s' = ?obs s" by simp
  qed
  then show ?thesis
    unfolding cleanupAddressesOnDisconnectedInterfaces_def by (intro keeps_if keeps_basic)
qed

lemma configure_once_keeps:
  assumes cl: "keeps obs (cleanupAddressesOnDisconnectedInterfaces (helper n) family (Addresses (config_Interface conf)))"
    and ips: "keeps obs (SetIPAddressesForFamily (helper n) luid family (Addresses (config_Interface conf)))"
    and rts: "\<not> TableOff (config_Interface conf) \<Longrightarrow> found family (all_allowed conf) \<Longrightarrow>
        keeps obs (SetRoutesForFamily (helper n) luid family (route_order n tryTimes (config_routes conf)))"
    and o: "other_calls_leave (helper n) obs"
  shows "keeps obs (configure_once n tryTimes family conf luid)"
  unfolding configure_once_def Let_def
  by (intro keeps_intros cl ips reading_keeps [OF o] SetDNS_keeps [OF o]) (simp_all add: rts keeps_failing)

lemma configure_loop_keeps:
  assumes "\<And>tryTimes. keeps obs (configure_once n tryTimes family conf luid)"
  shows "keeps obs (configure_loop fuel n family conf luid retryOnFailure tryTimes)"
proof (induction fuel arbitrary: retryOnFailure tryTimes)
  case (Suc fuel)
  show ?case unfolding configure_loop.simps Let_def by (intro keeps_intros assms Suc)
qed (simp add: keeps_basic)

text \<open>A loop that succeeds ends with an attempt that does.\<close>

lemma configure_loop_last:
  "configure_loop fuel n family conf luid retryOnFailure tryTimes s = Some (Inr u, s') \<Longrightarrow>
    \<exists>k s0 v. configure_once n k family conf luid s0 = Some (Inr v, s')"
proof (induction fuel arbitrary: retryOnFailure tryTimes s)
  case (Suc fuel)
  from Suc.prems obtain r s1 where r: "configure_once n tryTimes family conf luid s = Some (r, s1)"
    and rest: "(case r of Inl err \<Rightarrow> if starts_over err \<and> (if tryTimes > 0 then retryOnFailure \<and> tryTimes < 15 else retryOnFailure)
        then configure_loop fuel n family conf luid (if tryTimes > 0 then retryOnFailure \<and> tryTimes < 15 else retryOnFailure) (Suc tryTimes)
        else raise err | Inr _ \<Rightarrow> ret ()) s1 = Some (Inr u, s')"
    unfolding configure_loop.simps Let_def by (rule attemptE)
  show ?case
  proof (cases r)
    case (Inl err)
    then show ?thesis using rest Suc.IH by (auto simp: io_run split: if_splits)
  next
    case (Inr v)
    then have "s' = s1" using rest by (simp add: io_run)
    then show ?thesis using r Inr by blast
  qed
qed (simp add: io_run)

section \<open>The addresses and routes of the tunnel\<close>

definition family_allowed :: "AddressFamily \<Rightarrow> Config \<Rightarrow> prefix set" where
  "family_allowed family conf = {a \<in> set (all_allowed conf). \<not> other_family family (prefix_Addr a)}"

definition unspecified :: "AddressFamily \<Rightarrow> addr" where
  "unspecified family = (if family = AF_INET then Addr4 0 else Addr6 0 [])"

lemma mask_addr_family: "Is4 (mask_addr a n) = Is4 a" "Is6 (mask_addr a n) = Is6 a" "hasZone (mask_addr a n) = hasZone a"
    "BitLen (mask_addr a n) = BitLen a" "mask_addr a n = AddrZero \<longleftrightarrow> a = AddrZero"
  by (cases a; simp)+

lemma Masked_valid:
  assumes "valid_prefix p"
  shows "valid_prefix (Masked p)" "Is4 (prefix_Addr (Masked p)) = Is4 (prefix_Addr p)"
    "Is6 (prefix_Addr (Masked p)) = Is6 (prefix_Addr p)"
proof -
  obtain a n where p: "p = Prefix a (Some n)" "a \<noteq> AddrZero" "\<not> hasZone a" "n \<le> BitLen a"
    using assms by (cases p) (auto simp: valid_prefix_def split: option.splits)
  have w: "withoutZone (mask_addr a n) = mask_addr a n" using p(3) by (cases a) auto
  have m: "Masked p = Prefix (mask_addr a n) (Some n)"
    using p by (simp add: Masked_def PrefixFrom_def w mask_addr_family)
  show "valid_prefix (Masked p)" "Is4 (prefix_Addr (Masked p)) = Is4 (prefix_Addr p)"
    "Is6 (prefix_Addr (Masked p)) = Is6 (prefix_Addr p)"
    using p(2-) unfolding m by (simp_all add: p(1) valid_prefix_def mask_addr_family)
qed

lemma config_routes_family:
  assumes v: "\<forall>a\<in>set (all_allowed conf). valid_prefix a" and f: "family = AF_INET \<or> family = AF_INET6"
    and rds: "set rds = set (config_routes conf)"
  shows "(\<lambda>rd. (Destination rd, NextHop rd, rd_Metric rd)) ` {rd \<in> set rds. \<not> other_family family (prefix_Addr (Destination rd))} =
      (\<lambda>a. (Masked a, unspecified family, 0)) ` family_allowed family conf"
    "\<forall>rd\<in>set rds. \<not> other_family family (prefix_Addr (Destination rd)) \<longrightarrow> valid_prefix (Destination rd) \<and> \<not> hasZone (NextHop rd)"
proof -
  have o: "other_family family (prefix_Addr (Masked a)) = other_family family (prefix_Addr a)"
    if "a \<in> set (all_allowed conf)" for a
    using v that by (simp add: other_family_def Masked_valid)
  have n: "NextHop (allowed_route a) = unspecified family" if "\<not> other_family family (prefix_Addr a)" for a
    using that f families_differ
    by (cases "prefix_Addr a") (auto simp: allowed_route_def unspecified_def other_family_def)
  have r: "{rd \<in> set rds. \<not> other_family family (prefix_Addr (Destination rd))} = allowed_route ` family_allowed family conf"
    using o by (auto simp: rds config_routes_def family_allowed_def allowed_route_def)
  show "(\<lambda>rd. (Destination rd, NextHop rd, rd_Metric rd)) ` {rd \<in> set rds. \<not> other_family family (prefix_Addr (Destination rd))} =
      (\<lambda>a. (Masked a, unspecified family, 0)) ` family_allowed family conf"
    unfolding r image_image by (rule image_cong) (simp_all add: n family_allowed_def, simp_all add: allowed_route_def)
  show "\<forall>rd\<in>set rds. \<not> other_family family (prefix_Addr (Destination rd)) \<longrightarrow> valid_prefix (Destination rd) \<and> \<not> hasZone (NextHop rd)"
    using v by (auto simp: rds config_routes_def allowed_route_def Masked_valid)
qed

text \<open>The routes that Windows does not keep itself stay when addresses change.\<close>

lemma own_routes_keep:
  assumes d: "documented h auto routes addrs"
  shows "other_calls_leave h (\<lambda>s. {r \<in> routes s. \<not> auto r})"
    "keeps (\<lambda>s. {r \<in> routes s. \<not> auto r}) (SetIPAddressesForFamily h luid family ps)"
    "keeps (\<lambda>s. {r \<in> routes s. \<not> auto r}) (cleanupAddressesOnDisconnectedInterfaces h family qs)"
proof -
  let ?obs = "\<lambda>s. {r \<in> routes s. \<not> auto r}"
  have l: "leaves ?obs f" if "leaves routes f" for f :: "'a \<Rightarrow> 'r \<times> 'a" using that by (simp add: leaves_def)
  show o: "other_calls_leave h ?obs"
    using d unfolding documented_def other_calls_leave_def by (intro conjI allI l) simp_all
  have k: "keeps ?obs (sys (createUnicastIPAddressEntry h a))" "keeps ?obs (sys (deleteUnicastIPAddressEntry h a))" for a
    by (intro sys_leaves kept_routes(3,4) [OF d])+
  have e: "keeps ?obs (AddIPAddress h luid p)" "keeps ?obs (DeleteIPAddress h l p)" for l p
    unfolding AddIPAddress_def DeleteIPAddress_def Let_def by (intro keeps_intros k)+
  have "keeps ?obs (delete_addresses h luid as)" for as by (induction as) (auto intro!: keeps_intros k)
  moreover have "keeps ?obs (add_family_addresses h luid family ps)" for ps by (induction ps) (auto intro!: keeps_intros e)
  ultimately show "keeps ?obs (SetIPAddressesForFamily h luid family ps)"
    unfolding SetIPAddressesForFamily_def FlushIPAddresses_def by (intro keeps_intros reading_keeps [OF o])
  have u: "keeps ?obs (cleanup_unicast h hash l us)" for hash l us
    by (induction us) (auto simp: Let_def intro!: keeps_intros e)
  have "keeps ?obs (cleanup_interfaces h hash ifs)" for hash ifs by (induction ifs) (auto intro!: keeps_intros u)
  then show "keeps ?obs (cleanupAddressesOnDisconnectedInterfaces h family qs)"
    unfolding cleanupAddressesOnDisconnectedInterfaces_def by (intro keeps_intros reading_keeps [OF o])
qed

lemma failingE:
  assumes "failing f m s = Some (Inr x, s')"
  shows "m s = Some (Inr x, s')"
proof -
  from assms obtain r s1 where "m s = Some (r, s1)" "lift_sum (map_sum f id r) s1 = Some (Inr x, s')"
    unfolding failing_def by (rule attemptE)
  then show ?thesis by (cases r) (auto simp: io_run)
qed

lemma andThen_success: "andThen m f s = Some (Inr u, s') \<Longrightarrow> \<exists>x s1. m s = Some (Inr x, s1) \<and> f x s1 = Some (Inr u, s')"
  by (erule andThenE) auto

lemma configure_onceE:
  assumes doc: "documented (helper n) auto routes addrs" and run: "configure_once n k family conf luid s = Some (Inr u, s')"
  obtains s1 s2 where
    "if \<not> TableOff (config_Interface conf) \<and> found family (all_allowed conf)
     then \<exists>v. SetRoutesForFamily (helper n) luid family (route_order n k (config_routes conf)) s = Some (Inr v, s1) else s1 = s"
    "if found family (Addresses (config_Interface conf))
     then \<exists>s0 v. SetIPAddressesForFamily (helper n) luid family (Addresses (config_Interface conf)) s0 = Some (Inr v, s2) else s2 = s1"
    "{r \<in> routes s'. \<not> auto r} = {r \<in> routes s1. \<not> auto r}" "addrs s' = addrs s2"
proof -
  let ?h = "helper n" and ?ic = "config_Interface conf"
  let ?set = "SetIPAddressesForFamily ?h luid family (Addresses ?ic)"
  let ?clean = "cleanupAddressesOnDisconnectedInterfaces ?h family (Addresses ?ic)"
  let ?ips = "attempt ?set (\<lambda>r. if r = Inl (Win ERROR_OBJECT_ALREADY_EXISTS) then ignoring ?clean ?set else lift_sum r)"
  let ?rest = "andThen (failing NoIPInterface (IPInterface ?h luid family)) (\<lambda>ipif.
      andThen (failing UnableToSetMetricAndMTU (sys (setIPInterfaceEntry ?h (interface_settings family conf ipif)))) (\<lambda>_.
        failing UnableToSetDNS (SetDNS ?h luid family (DNS ?ic) (DNSSearch ?ic))))"
  obtain v1 v2 s1 s2 where r: "(if \<not> TableOff ?ic \<and> found family (all_allowed conf)
       then failing UnableToSetRoutes (SetRoutesForFamily ?h luid family (route_order n k (config_routes conf))) else ret ()) s = Some (Inr v1, s1)"
    and i: "(if found family (Addresses ?ic) then failing UnableToSetIps ?ips else ret ()) s1 = Some (Inr v2, s2)"
    and d: "?rest s2 = Some (Inr u, s')"
    using run unfolding configure_once_def Let_def by (blast dest: andThen_success)
  have rest: "keeps obs ?rest" if o: "other_calls_leave ?h obs" for obs :: "'a \<Rightarrow> 'y"
    by (intro keeps_intros reading_keeps [OF o] SetDNS_keeps [OF o])
  show ?thesis
  proof (rule that)
    show "if \<not> TableOff ?ic \<and> found family (all_allowed conf)
     then \<exists>v. SetRoutesForFamily ?h luid family (route_order n k (config_routes conf)) s = Some (Inr v, s1) else s1 = s"
      using r by (auto simp: io_run dest: failingE split: if_splits)
    show "if found family (Addresses ?ic) then \<exists>s0 v. ?set s0 = Some (Inr v, s2) else s2 = s1"
    proof (cases "found family (Addresses ?ic)")
      case True
      then have "?ips s1 = Some (Inr v2, s2)" using i by (auto dest: failingE)
      then show ?thesis using True unfolding ignoring_def by (auto elim!: attemptE simp: io_run split: if_splits)
    qed (use i in \<open>simp add: io_run\<close>)
    let ?own = "\<lambda>s. {r \<in> routes s. \<not> auto r}"
    note own = own_routes_keep [OF doc]
    have k: "keeps ?own (if found family (Addresses ?ic) then failing UnableToSetIps ?ips else ret ())"
      by (intro keeps_intros own)
    show "?own s' = ?own s1" using keepsD [OF rest [OF own(1)] d] keepsD [OF k i] by simp
    have "other_calls_leave ?h addrs" using doc by (simp add: documented_def)
    from keepsD [OF rest [OF this] d] show "addrs s' = addrs s2" .
  qed
qed

lemma found_iff: "family = AF_INET \<or> family = AF_INET6 \<Longrightarrow>
    found family ps \<longleftrightarrow> (\<exists>p\<in>set ps. \<not> other_family family (prefix_Addr p))"
  using families_differ by (auto simp: found_def other_family_def list_ex_iff)

lemma once_addresses:
  assumes d: "documented (helper n) auto routes addrs" and f: "family = AF_INET \<or> family = AF_INET6"
    and v: "\<forall>p\<in>set (Addresses (config_Interface conf)). valid_prefix p"
    and once: "configure_once n k family conf luid s = Some (Inr u, s')"
  shows "\<forall>p\<in>set (Addresses (config_Interface conf)). \<not> other_family family (prefix_Addr p) \<longrightarrow> has_address (addrs s') luid p"
proof (cases "found family (Addresses (config_Interface conf))")
  case True
  have a: "address_calls_documented (helper n) addrs" using d by (simp add: documented_def)
  have z: "\<forall>p\<in>set (Addresses (config_Interface conf)). \<not> hasZone (prefix_Addr p)"
    using v by (simp add: valid_prefix_def)
  from once obtain s0 w s2 where
    "SetIPAddressesForFamily (helper n) luid family (Addresses (config_Interface conf)) s0 = Some (Inr w, s2)"
    "addrs s' = addrs s2"
    by (rule configure_onceE [OF d]) (use True in auto)
  then show ?thesis using SetIPAddressesForFamily_effect [OF a z] by simp
qed (use found_iff [OF f] in auto)

lemma once_routes:
  assumes d: "documented (helper n) auto routes addrs" and f: "family = AF_INET \<or> family = AF_INET6"
    and order: "\<And>k rds. set (route_order n k rds) = set rds"
    and v: "\<forall>a\<in>set (all_allowed conf). valid_prefix a"
    and t: "\<not> TableOff (config_Interface conf)" "family_allowed family conf \<noteq> {}"
    and once: "configure_once n k family conf luid s = Some (Inr u, s')"
  shows "route_view ` {r \<in> routes_of (routes s') luid family. \<not> auto r} =
    (\<lambda>a. (Masked a, unspecified family, 0)) ` family_allowed family conf"
proof -
  let ?own = "\<lambda>s. {r \<in> routes s. \<not> auto r}"
  have fnd: "found family (all_allowed conf)" using t(2) found_iff [OF f] by (auto simp: family_allowed_def)
  obtain s1 w where r: "SetRoutesForFamily (helper n) luid family (route_order n k (config_routes conf)) s = Some (Inr w, s1)"
    and same: "?own s' = ?own s1"
    by (rule configure_onceE [OF d once]) (use t(1) fnd in auto)
  note c = config_routes_family [OF v f order [of k "config_routes conf"]]
  note e = SetRoutesForFamily_effect [OF d f c(2) r]
  have "{r \<in> routes_of (routes s') luid family. \<not> auto r} = {r \<in> routes_of (routes s1) luid family. \<not> auto r}"
    using same by (auto simp: routes_of_def)
  also have "\<dots> = routes_of (routes s1) luid family" using e by auto
  finally show ?thesis using e c(1) by simp
qed

section \<open>The theorems\<close>

text \<open>A table of routes and one of addresses, with calls that never fail: what is documented can be had.\<close>

record tables =
  route_rows :: "MibIPforwardRow2 list"
  address_rows :: "MibUnicastIPAddressRow list"

definition book :: "tables iphlp" where
  "book =
     \<lparr>getUnicastIPAddressTable = (\<lambda>f s. (Inr (filter (\<lambda>a. in_family f (Family (ua_Address a))) (address_rows s)), s)),
      initializeUnicastIPAddressEntry = id,
      getUnicastIPAddressEntry = (\<lambda>r s. (Inl ERROR_NOT_FOUND, s)),
      createUnicastIPAddressEntry = (\<lambda>a s. (Inr (), s \<lparr>address_rows := a # address_rows s\<rparr>)),
      deleteUnicastIPAddressEntry = (\<lambda>a s.
        (Inr (), s \<lparr>address_rows := filter (\<lambda>b. address_key b \<noteq> address_key a) (address_rows s)\<rparr>)),
      getIPForwardTable2 = (\<lambda>f s. (Inr (filter (\<lambda>r. in_family f (route_family r)) (route_rows s)), s)),
      initializeIPForwardEntry = id,
      getIPForwardEntry2 = (\<lambda>r s. (Inl ERROR_NOT_FOUND, s)),
      createIPForwardEntry2 = (\<lambda>r s. (Inr (), s \<lparr>route_rows := r # route_rows s\<rparr>)),
      deleteIPForwardEntry2 = (\<lambda>r s.
        (Inr (), s \<lparr>route_rows := filter (\<lambda>q. route_key q \<noteq> route_key r) (route_rows s)\<rparr>)),
      initializeIPInterfaceEntry = id,
      getIPInterfaceEntry = (\<lambda>r s. (Inr r, s)),
      setIPInterfaceEntry = (\<lambda>r s. (Inr (), s)),
      getIfEntry2 = (\<lambda>l s. (Inl ERROR_NOT_FOUND, s)),
      convertInterfaceLUIDToGUID = (\<lambda>l s. (Inr \<lparr>Data1 = 0, Data2 = 0, Data3 = 0, Data4 = []\<rparr>, s)),
      windows_GetAdaptersAddresses = (\<lambda>f n s. (Inr [], s)),
      setInterfaceDnsSettings = (\<lambda>g d s. (Inr (), s)),
      guid_String = (\<lambda>g. []),
      registry_CreateKey = (\<lambda>p s. (Inr (), s)),
      key_SetStringValue = (\<lambda>p n v s. (Inr (), s)),
      key_Close = (\<lambda>p s. (Inr (), s)),
      mgr_Connect = (\<lambda>s. (Inr (), s)),
      mgr_Disconnect = (\<lambda>s. (Inr (), s)),
      open_dnscache = (\<lambda>s. (Inr (), s)),
      dnscache_ParamChange = (\<lambda>s. (Inr (), s)),
      close_dnscache = (\<lambda>s. (Inr (), s))\<rparr>"

lemma book_documented: "documented book (\<lambda>_. False) (\<lambda>s. set (route_rows s)) (\<lambda>s. set (address_rows s))"
proof -
  have o: "other_calls_leave book obs" for obs :: "tables \<Rightarrow> 'x"
    by (simp add: other_calls_leave_def leaves_def book_def)
  show ?thesis
    unfolding documented_def
  proof (intro conjI o)
    show "route_calls_documented book (\<lambda>_. False) (\<lambda>s. set (route_rows s))"
      by (auto simp: route_calls_documented_def book_def)
    show "address_calls_documented book (\<lambda>s. set (address_rows s))"
      by (auto simp: address_calls_documented_def book_def)
  qed (simp_all add: leaves_def book_def)
qed

text \<open>C39: whatever the calls of Windows answer, \<open>configureInterface\<close> returns after at most sixteen attempts.\<close>

theorem configureInterface_returns: "configureInterface n family conf luid s \<noteq> None"
  using configure_loop_returns [of 0 16 n family conf luid "StartedAtBoot n"]
  by (simp add: configureInterface_def returns_def)


text \<open>C6: when \<open>configureInterface\<close> succeeds for IPv4 or IPv6, the interface has every address of the
  configuration in this family, with its prefix length; unless the table is off, its routes in this family, apart
  from those that Windows keeps for the addresses, are the allowed addresses of the peers, masked, each through
  the unspecified next hop and with metric zero, and no others; with the table off no such route has changed.\<close>

theorem configureInterface_applied:
  assumes d: "documented (helper n) auto routes addrs" and f: "family = AF_INET \<or> family = AF_INET6"
    and order: "\<And>k rds. set (route_order n k rds) = set rds"
    and v: "\<forall>a\<in>set (all_allowed conf). valid_prefix a" "\<forall>p\<in>set (Addresses (config_Interface conf)). valid_prefix p"
    and run: "configureInterface n family conf luid s = Some (Inr u, s')"
  shows "(\<forall>p\<in>set (Addresses (config_Interface conf)). \<not> other_family family (prefix_Addr p) \<longrightarrow> has_address (addrs s') luid p) \<and>
    (\<not> TableOff (config_Interface conf) \<longrightarrow> family_allowed family conf \<noteq> {} \<longrightarrow>
      route_view ` {r \<in> routes_of (routes s') luid family. \<not> auto r} =
        (\<lambda>a. (Masked a, unspecified family, 0)) ` family_allowed family conf) \<and>
    (TableOff (config_Interface conf) \<longrightarrow> {r \<in> routes s'. \<not> auto r} = {r \<in> routes s. \<not> auto r})"
proof (intro conjI impI)
  obtain k s0 w where once: "configure_once n k family conf luid s0 = Some (Inr w, s')"
    using configure_loop_last [OF run [unfolded configureInterface_def]] by blast
  show "\<forall>p\<in>set (Addresses (config_Interface conf)). \<not> other_family family (prefix_Addr p) \<longrightarrow> has_address (addrs s') luid p"
    by (rule once_addresses [OF d f v(2) once])
  show "route_view ` {r \<in> routes_of (routes s') luid family. \<not> auto r} =
      (\<lambda>a. (Masked a, unspecified family, 0)) ` family_allowed family conf"
    if "\<not> TableOff (config_Interface conf)" "family_allowed family conf \<noteq> {}"
    by (rule once_routes [OF d f order v(1) that once])
  show "{r \<in> routes s'. \<not> auto r} = {r \<in> routes s. \<not> auto r}" if off: "TableOff (config_Interface conf)"
  proof -
    have "keeps (\<lambda>s. {r \<in> routes s. \<not> auto r}) (configure_once n tryTimes family conf luid)" for tryTimes
      by (intro configure_once_keeps own_routes_keep [OF d]) (use off in simp)
    then show ?thesis
      using run configure_loop_keeps unfolding configureInterface_def by (blast dest: keepsD)
  qed
qed

section \<open>Witnesses\<close>

definition home_conf :: Config where
  "home_conf =
     \<lparr>Name = ''home'',
      config_Interface = zero_Interface \<lparr>Addresses := [Prefix (Addr4 0x0a000002) (Some 32)], DNS := [Addr4 0x01010101]\<rparr>,
      Peers = [zero_Peer \<lparr>AllowedIPs := [Prefix (Addr4 0x0a010203) (Some 8), Prefix (Addr4 0) (Some 0)]\<rparr>],
      TrailingComments = []\<rparr>"

definition book_host :: "tables net_host" where
  "book_host = \<lparr>helper = book, StartedAtBoot = True, route_order = (\<lambda>_ rds. rds)\<rparr>"

definition other_route :: MibIPforwardRow2 where
  "other_route = zero_ForwardRow \<lparr>fr_InterfaceLUID := 3, DestinationPrefix := \<lparr>RawPrefix = zero_RawSockaddrInet \<lparr>Family := AF_INET\<rparr>, PrefixLength = 0\<rparr>\<rparr>"

definition old_route :: MibIPforwardRow2 where
  "old_route = other_route \<lparr>fr_InterfaceLUID := 7\<rparr>"

lemma home_run:
  "map_option (\<lambda>(r, s). (r, map route_view (route_rows s))) (configureInterface book_host AF_INET home_conf 7 \<lparr>route_rows = [old_route, other_route], address_rows = []\<rparr>) =
   Some (Inr (), [(Prefix (Addr4 0) (Some 0), Addr4 0, 0), (Prefix (Addr4 0x0a000000) (Some 8), Addr4 0, 0), (Prefix (Addr4 0) (Some 0), AddrZero, 0)])"
  by code_simp

lemma home_valid:
  "\<forall>a\<in>set (all_allowed home_conf). valid_prefix a"
  "\<forall>p\<in>set (Addresses (config_Interface home_conf)). valid_prefix p"
  by (simp_all add: all_allowed_def home_conf_def valid_prefix_def zero_Peer_def)

lemma home_runs:
  obtains s' where "configureInterface book_host AF_INET home_conf 7
    \<lparr>route_rows = [old_route, other_route], address_rows = []\<rparr> = Some (Inr (), s')"
  using home_run by (auto simp: map_option_case split: option.splits prod.splits)


theorem configureInterface_applied_witness:
  "\<exists>s'. configureInterface book_host AF_INET home_conf 7 \<lparr>route_rows = [old_route, other_route], address_rows = []\<rparr> =
      Some (Inr (), s') \<and> has_address (set (address_rows s')) 7 (Prefix (Addr4 0x0a000002) (Some 32)) \<and>
    route_view ` routes_of (set (route_rows s')) 7 AF_INET =
      {(Prefix (Addr4 0x0a000000) (Some 8), Addr4 0, 0), (Prefix (Addr4 0) (Some 0), Addr4 0, 0)}"
proof -
  obtain s' where s': "configureInterface book_host AF_INET home_conf 7
    \<lparr>route_rows = [old_route, other_route], address_rows = []\<rparr> = Some (Inr (), s')" by (rule home_runs)
  have d: "documented (helper book_host) (\<lambda>_. False) (\<lambda>s. set (route_rows s)) (\<lambda>s. set (address_rows s))"
    using book_documented by (simp add: book_host_def)
  have o: "set (route_order book_host k rds) = set rds" for k rds by (simp add: book_host_def)
  have m: "Masked (Prefix (Addr4 0x0a010203) (Some 8)) = Prefix (Addr4 0x0a000000) (Some 8)"
    "Masked (Prefix (Addr4 0) (Some 0)) = Prefix (Addr4 0) (Some 0)" by code_simp+
  have c: "family_allowed AF_INET home_conf = {Prefix (Addr4 0x0a010203) (Some 8), Prefix (Addr4 0) (Some 0)}"
    "\<not> TableOff (config_Interface home_conf)" "Prefix (Addr4 0x0a000002) (Some 32) \<in> set (Addresses (config_Interface home_conf))"
    using families_differ
    by (auto simp: family_allowed_def all_allowed_def home_conf_def other_family_def zero_Peer_def zero_Interface_def)
  have u: "unspecified AF_INET = Addr4 0" "\<not> other_family AF_INET (Addr4 w)" for w
    using families_differ by (simp_all add: unspecified_def other_family_def)
  show ?thesis
    using configureInterface_applied [OF d disjI1 [OF refl] o home_valid s'] s' c m u by auto
qed

end
