(* ===== verification/Service_Errors.thy ===== *)
theory Service_Errors
  imports Go_Prelude
begin

text \<open>
  The errors with which a service ends (\<open>services/errors.go\<close>).  An error value is whatever the caller has; what
  \<open>errors.As\<close> finds in it for a \<open>windows.Errno\<close> is an argument.
\<close>

datatype service_error =
    ErrorSuccess | ErrorRingloggerOpen | ErrorLoadConfiguration | ErrorCreateNetworkAdapter | ErrorDNSLookup
  | ErrorFirewall | ErrorDeviceSetConfig | ErrorDeviceBringUp | ErrorBindSocketsToDefaultRoutes
  | ErrorMonitorMTUChanges | ErrorSetNetConfig | ErrorDetermineExecutablePath | ErrorTrackTunnels
  | ErrorEnumerateSessions | ErrorDropPrivileges | ErrorRunScript | ErrorWin32

text \<open>The numbers that \<open>iota\<close> gives.\<close>

definition service_errors :: "service_error list" where
  "service_errors =
     [ErrorSuccess, ErrorRingloggerOpen, ErrorLoadConfiguration, ErrorCreateNetworkAdapter, ErrorDNSLookup,
      ErrorFirewall, ErrorDeviceSetConfig, ErrorDeviceBringUp, ErrorBindSocketsToDefaultRoutes,
      ErrorMonitorMTUChanges, ErrorSetNetConfig, ErrorDetermineExecutablePath, ErrorTrackTunnels,
      ErrorEnumerateSessions, ErrorDropPrivileges, ErrorRunScript, ErrorWin32]"

fun position :: "'a \<Rightarrow> 'a list \<Rightarrow> nat" where
  "position x [] = 0"
| "position x (y # ys) = (if x = y then 0 else Suc (position x ys))"

definition error_number :: "service_error \<Rightarrow> u32" where
  "error_number e = of_nat (position e service_errors)"

fun Error_string :: "service_error \<Rightarrow> string" where
  "Error_string ErrorSuccess = ''No error''"
| "Error_string ErrorRingloggerOpen = ''Unable to open log file''"
| "Error_string ErrorDetermineExecutablePath = ''Unable to determine path of running executable''"
| "Error_string ErrorLoadConfiguration = ''Unable to load configuration from path''"
| "Error_string ErrorCreateNetworkAdapter = ''Unable to create network adapter''"
| "Error_string ErrorDNSLookup = ''Unable to resolve one or more DNS hostname endpoints''"
| "Error_string ErrorFirewall = ''Unable to enable firewall rules''"
| "Error_string ErrorDeviceSetConfig = ''Unable to set device configuration''"
| "Error_string ErrorDeviceBringUp = ''Unable to bring up adapter''"
| "Error_string ErrorBindSocketsToDefaultRoutes = ''Unable to bind sockets to default route''"
| "Error_string ErrorMonitorMTUChanges = ''Unable to monitor default route MTU for changes''"
| "Error_string ErrorSetNetConfig = ''Unable to configure adapter network settings''"
| "Error_string ErrorTrackTunnels = ''Unable to track existing tunnels''"
| "Error_string ErrorEnumerateSessions = ''Unable to enumerate current sessions''"
| "Error_string ErrorDropPrivileges = ''Unable to drop privileges''"
| "Error_string ErrorRunScript = ''An error occurred while running a configuration script command''"
| "Error_string ErrorWin32 = ''An internal Windows error has occurred''"

definition DetermineErrorCode :: "('e \<Rightarrow> u32 option) \<Rightarrow> 'e option \<Rightarrow> service_error \<Rightarrow> bool \<times> u32" where
  "DetermineErrorCode as_errno err serviceError =
     (case Option.bind err as_errno of
        Some syserr \<Rightarrow> (False, syserr)
      | None \<Rightarrow> if serviceError \<noteq> ErrorSuccess then (True, error_number serviceError) else (False, 0))"

datatype 'e combined = Wrapped service_error 'e | JustService service_error | JustError 'e

definition CombineErrors :: "'e option \<Rightarrow> service_error \<Rightarrow> 'e combined option" where
  "CombineErrors err serviceError =
     (if serviceError \<noteq> ErrorSuccess then
        (case err of Some e \<Rightarrow> Some (Wrapped serviceError e) | None \<Rightarrow> Some (JustService serviceError))
      else map_option JustError err)"

lemma error_number_inj: "error_number a = error_number b \<longleftrightarrow> a = b"
  by (cases a; cases b) (simp_all add: error_number_def service_errors_def)

text \<open>An exit code of zero that is not the service's own: there was no error, or the error is the number zero.\<close>

lemma DetermineErrorCode_success:
  "DetermineErrorCode as_errno err e = (False, 0) \<longleftrightarrow>
     (case err of None \<Rightarrow> e = ErrorSuccess | Some x \<Rightarrow> as_errno x = Some 0 \<or> as_errno x = None \<and> e = ErrorSuccess)"
  by (cases err) (auto simp: DetermineErrorCode_def split: option.splits)

lemma DetermineErrorCode_own:
  "DetermineErrorCode as_errno err e = (True, error_number f) \<longleftrightarrow> e = f \<and> e \<noteq> ErrorSuccess \<and> Option.bind err as_errno = None"
  by (auto simp: DetermineErrorCode_def error_number_inj split: option.splits)

lemma CombineErrors_None: "CombineErrors err e = None \<longleftrightarrow> err = None \<and> e = ErrorSuccess"
  by (cases err) (auto simp: CombineErrors_def)

end
