(* ===== verification/Tunnel_Watch.thy ===== *)
theory Tunnel_Watch
  imports Tunnel_Address Service_Errors
begin

text \<open>
  Watching the network: the change handlers of \<open>winipcfg\<close> (\<open>interface_change_handler.go\<close>,
  \<open>route_change_handler.go\<close>), the MTU of the default route (\<open>tunnel/mtumonitor.go\<close>) and the watcher that configures
  the tunnel's interface when it appears (\<open>tunnel/interfacewatcher.go\<close>).  A callback is run as a whole, as under
  its mutex; \<open>watcher_history\<close> are the states that the calls of the service and the notifications lead to.  The
  channels have their capacities: a send to a full one does not return.
\<close>

section \<open>Callbacks\<close>

text \<open>What is run: the callback of the watcher, or of an MTU monitor for a family and an interface.\<close>

datatype closure = Watcher | Monitor AddressFamily LUID nat

record handler =
  callbacks :: "(nat \<times> closure) list"
  handle :: nat

text \<open>A registered callback, as its holder has it.\<close>

datatype ChangeCallback = InterfaceChangeCallback nat | RouteChangeCallback nat

record 's notifier =
  notifyIPInterfaceChange :: "'s \<Rightarrow> (nat + nat) \<times> 's"
  notifyRouteChange2 :: "'s \<Rightarrow> (nat + nat) \<times> 's"
  cancelMibChangeNotify2 :: "nat \<Rightarrow> 's \<Rightarrow> (nat + unit) \<times> 's"

text \<open>What a monitor remembers.\<close>

record mtu_state =
  lastLUID :: LUID
  lastIndex :: u32
  lastMTU :: u32


datatype watch_error = NetError net_error | CfgError cfg_error | NoInterfaceAfterOneMinute | UnableToRegister watch_error

record interfaceWatcher =
  errors :: "(service_error \<times> watch_error) list"
  started :: "AddressFamily list"
  iw_luid :: LUID
  iw_conf :: Config
  interfaceChangeCallback :: "ChangeCallback option"
  changeCallbacks4 :: "ChangeCallback list"
  changeCallbacks6 :: "ChangeCallback list"
  storedEvents :: "(LUID \<times> AddressFamily) list"
  watchdog :: bool

text \<open>The operating system, the two handlers, how many callbacks were made, the monitors, the watcher and the
  handle of the firewall.\<close>

record 's watch_world =
  os :: 's
  interfaceChange :: handler
  routeChange :: handler
  made :: nat
  monitors :: "mtu_state list"
  iw :: interfaceWatcher
  wfpSession :: nat

type_synonym ('s, 'a) watch = "('s watch_world, watch_error, 'a) io"

definition on_os :: "(net_error \<Rightarrow> watch_error) \<Rightarrow> ('s, 'a) net \<Rightarrow> ('s, 'a) watch" where
  "on_os f m w = map_option (\<lambda>(r, s). (map_sum f id r, w \<lparr>os := s\<rparr>)) (m (os w))"

text \<open>Registering and unregistering, the same in both files.\<close>

definition register_handler ::
    "('s \<Rightarrow> (nat + nat) \<times> 's) \<Rightarrow> nat \<Rightarrow> closure \<Rightarrow> handler \<Rightarrow> 's \<Rightarrow> (nat option) \<times> handler \<times> 's" where
  "register_handler notify i c hdl s =
     (let hdl' = hdl \<lparr>callbacks := callbacks hdl @ [(i, c)]\<rparr> in
      if handle hdl = 0 then
        (case notify s of
           (Inl err, s') \<Rightarrow> (Some err, hdl' \<lparr>callbacks := filter (\<lambda>(j, _). j \<noteq> i) (callbacks hdl'), handle := 0\<rparr>, s')
         | (Inr n, s') \<Rightarrow> (None, hdl' \<lparr>handle := n\<rparr>, s'))
      else (None, hdl', s))"

definition unregister_handler :: "(nat \<Rightarrow> 's \<Rightarrow> (nat + unit) \<times> 's) \<Rightarrow> nat \<Rightarrow> handler \<Rightarrow> 's \<Rightarrow> (nat option) \<times> handler \<times> 's" where
  "unregister_handler cancel i hdl s =
     (let hdl' = hdl \<lparr>callbacks := filter (\<lambda>(j, _). j \<noteq> i) (callbacks hdl)\<rparr>;
          removeIt = (callbacks hdl' = [] \<and> handle hdl' \<noteq> 0) in
      if removeIt then
        (case cancel (handle hdl') s of
           (Inl err, s') \<Rightarrow> (Some err, hdl', s')
         | (Inr _, s') \<Rightarrow> (None, hdl' \<lparr>handle := 0\<rparr>, s'))
      else (None, hdl', s))"

definition RegisterInterfaceChangeCallback :: "'s notifier \<Rightarrow> closure \<Rightarrow> ('s, ChangeCallback) watch" where
  "RegisterInterfaceChangeCallback nt c w =
     (case register_handler (notifyIPInterfaceChange nt) (made w) c (interfaceChange w) (os w) of
        (err, hdl, s) \<Rightarrow> Some ((case err of None \<Rightarrow> Inr (InterfaceChangeCallback (made w)) | Some e \<Rightarrow> Inl (NetError (Win e))),
          w \<lparr>os := s, interfaceChange := hdl, made := Suc (made w)\<rparr>))"

definition RegisterRouteChangeCallback :: "'s notifier \<Rightarrow> closure \<Rightarrow> ('s, ChangeCallback) watch" where
  "RegisterRouteChangeCallback nt c w =
     (case register_handler (notifyRouteChange2 nt) (made w) c (routeChange w) (os w) of
        (err, hdl, s) \<Rightarrow> Some ((case err of None \<Rightarrow> Inr (RouteChangeCallback (made w)) | Some e \<Rightarrow> Inl (NetError (Win e))),
          w \<lparr>os := s, routeChange := hdl, made := Suc (made w)\<rparr>))"

fun Unregister :: "'s notifier \<Rightarrow> ChangeCallback \<Rightarrow> ('s, unit) watch" where
  "Unregister nt (InterfaceChangeCallback i) w =
     (case unregister_handler (cancelMibChangeNotify2 nt) i (interfaceChange w) (os w) of
        (err, hdl, s) \<Rightarrow> Some ((case err of None \<Rightarrow> Inr () | Some e \<Rightarrow> Inl (NetError (Win e))), w \<lparr>os := s, interfaceChange := hdl\<rparr>))"
| "Unregister nt (RouteChangeCallback i) w =
     (case unregister_handler (cancelMibChangeNotify2 nt) i (routeChange w) (os w) of
        (err, hdl, s) \<Rightarrow> Some ((case err of None \<Rightarrow> Inr () | Some e \<Rightarrow> Inl (NetError (Win e))), w \<lparr>os := s, routeChange := hdl\<rparr>))"

fun Unregister_all :: "'s notifier \<Rightarrow> ChangeCallback list \<Rightarrow> ('s, unit) watch" where
  "Unregister_all nt [] = ret ()"
| "Unregister_all nt (cb # cbs) = ignoring (Unregister nt cb) (Unregister_all nt cbs)"

section \<open>The MTU of the default route\<close>

text \<open>The loop over the routes, with the lowest metric, its index and its interface.\<close>

fun default_loop :: "'s iphlp \<Rightarrow> AddressFamily \<Rightarrow> LUID \<Rightarrow> MibIPforwardRow2 list \<Rightarrow> u64 \<times> u32 \<times> LUID \<Rightarrow> ('s, u64 \<times> u32 \<times> LUID) net" where
  "default_loop h family ourLUID [] best = ret best"
| "default_loop h family ourLUID (row # r) best =
     (if PrefixLength (DestinationPrefix row) \<noteq> 0 \<or> fr_InterfaceLUID row = ourLUID then default_loop h family ourLUID r best
      else attempt (Interface h (fr_InterfaceLUID row)) (\<lambda>i.
        case i of
          Inl _ \<Rightarrow> default_loop h family ourLUID r best
        | Inr ifrow \<Rightarrow>
            if if_OperStatus ifrow \<noteq> IfOperStatusUp then default_loop h family ourLUID r best
            else attempt (IPInterface h (fr_InterfaceLUID row) family) (\<lambda>f.
              case f of
                Inl _ \<Rightarrow> default_loop h family ourLUID r best
              | Inr iface \<Rightarrow>
                  let combinedMetric = ucast (fr_Metric row) + ucast (ip_Metric iface) in
                  default_loop h family ourLUID r
                    (if combinedMetric < fst best then (combinedMetric, fr_InterfaceIndex row, fr_InterfaceLUID row) else best))))"

definition findDefaultLUID :: "'s iphlp \<Rightarrow> AddressFamily \<Rightarrow> LUID \<Rightarrow> ('s, u32 \<times> LUID) net" where
  "findDefaultLUID h family ourLUID =
     andThen (sys (getIPForwardTable2 h family)) (\<lambda>r.
     andThen (default_loop h family ourLUID r (NOT 0, 0, 0)) (\<lambda>(lowestMetric, index, luid). ret (index, luid)))"

definition minMTU :: "AddressFamily \<Rightarrow> int" where
  "minMTU family = (if family = AF_INET then 576 else if family = AF_INET6 then 1280 else 0)"

text \<open>\<open>uint32(max(int(mtu)-80, minMTU))\<close>, with the \<open>int\<close> of the 64-bit targets.\<close>

definition tunnel_mtu :: "AddressFamily \<Rightarrow> u32 \<Rightarrow> u32" where
  "tunnel_mtu family mtu = of_int (max (int (unat mtu) - 80) (minMTU family))"

definition get_monitor :: "nat \<Rightarrow> ('s, mtu_state) watch" where
  "get_monitor m w = Some (Inr (monitors w ! m), w)"

definition set_monitor :: "nat \<Rightarrow> (mtu_state \<Rightarrow> mtu_state) \<Rightarrow> ('s, unit) watch" where
  "set_monitor m f w = Some (Inr (), w \<lparr>monitors := (monitors w)[m := f (monitors w ! m)]\<rparr>)"

definition doIt :: "'s iphlp \<Rightarrow> AddressFamily \<Rightarrow> LUID \<Rightarrow> nat \<Rightarrow> ('s, unit) watch" where
  "doIt h family ourLUID m =
     andThen (on_os NetError (findDefaultLUID h family ourLUID)) (\<lambda>(index, luid).
     andThen (set_monitor m (\<lambda>st. st \<lparr>lastLUID := luid, lastIndex := index\<rparr>)) (\<lambda>_.
     andThen (get_monitor m) (\<lambda>st.
     andThen (if lastLUID st \<noteq> 0
              then andThen (on_os NetError (Interface h (lastLUID st))) (\<lambda>iface. ret (if if_MTU iface > 0 then if_MTU iface else 0))
              else ret 0) (\<lambda>mtu.
       if mtu > 0 \<and> lastMTU st \<noteq> mtu then
         andThen (on_os NetError (IPInterface h ourLUID family)) (\<lambda>iface.
         andThen (on_os NetError (sys (setIPInterfaceEntry h (iface \<lparr>NLMTU := tunnel_mtu family mtu\<rparr>)))) (\<lambda>_.
           set_monitor m (\<lambda>st. st \<lparr>lastMTU := mtu\<rparr>)))
       else ret ()))))"

definition new_monitor :: "('s, nat) watch" where
  "new_monitor w = Some (Inr (length (monitors w)), w \<lparr>monitors := monitors w @ [\<lparr>lastLUID = 0, lastIndex = NOT 0, lastMTU = 0\<rparr>]\<rparr>)"

definition monitorMTU :: "'s iphlp \<Rightarrow> 's notifier \<Rightarrow> AddressFamily \<Rightarrow> LUID \<Rightarrow> ('s, ChangeCallback list) watch" where
  "monitorMTU h nt family ourLUID =
     andThen new_monitor (\<lambda>m.
     andThen (doIt h family ourLUID m) (\<lambda>_.
     andThen (RegisterRouteChangeCallback nt (Monitor family ourLUID m)) (\<lambda>cbr.
     attempt (RegisterInterfaceChangeCallback nt (Monitor family ourLUID m)) (\<lambda>r.
       case r of
         Inl err \<Rightarrow> ignoring (Unregister nt cbr) (raise err)
       | Inr cbi \<Rightarrow> ret [cbr, cbi]))))"

section \<open>The watcher\<close>

text \<open>What the watcher relies on: the calls of Windows and of the driver, on the same state.\<close>

definition AdapterStateDown :: nat where "AdapterStateDown = 0"

definition AdapterStateUp :: nat where "AdapterStateUp = 1"

record 's watch_host =
  net :: "'s net_host"
  notif :: "'s notifier"
  drv_AdapterState :: "'s \<Rightarrow> (nat + nat) \<times> 's"
  drv_SetConfiguration :: "byte list \<Rightarrow> 's \<Rightarrow> (nat + unit) \<times> 's"
  drv_SetAdapterState :: "nat \<Rightarrow> 's \<Rightarrow> (nat + unit) \<times> 's"
  engine_Close :: "nat \<Rightarrow> 's \<Rightarrow> (nat + unit) \<times> 's"

definition upd_iw :: "(interfaceWatcher \<Rightarrow> interfaceWatcher) \<Rightarrow> ('s, unit) watch" where
  "upd_iw f w = Some (Inr (), w \<lparr>iw := f (iw w)\<rparr>)"

definition with_iw :: "(interfaceWatcher \<Rightarrow> ('s, 'a) watch) \<Rightarrow> ('s, 'a) watch" where
  "with_iw f w = f (iw w) w"

text \<open>\<open>errors\<close> holds two values, \<open>started\<close> four.\<close>

definition send_error :: "service_error \<Rightarrow> watch_error \<Rightarrow> ('s, unit) watch" where
  "send_error e err w =
     (if length (errors (iw w)) < 2 then upd_iw (\<lambda>i. i \<lparr>errors := errors i @ [(e, err)]\<rparr>) w else diverge w)"

definition send_started :: "AddressFamily \<Rightarrow> ('s, unit) watch" where
  "send_started family w =
     (if length (started (iw w)) < 4 then upd_iw (\<lambda>i. i \<lparr>started := started i @ [family]\<rparr>) w else diverge w)"

definition changeCallbacks :: "AddressFamily \<Rightarrow> interfaceWatcher \<Rightarrow> ChangeCallback list" where
  "changeCallbacks family i = (if family = AF_INET then changeCallbacks4 i else changeCallbacks6 i)"

definition set_changeCallbacks :: "AddressFamily \<Rightarrow> ChangeCallback list \<Rightarrow> interfaceWatcher \<Rightarrow> interfaceWatcher" where
  "set_changeCallbacks family cbs i =
     (if family = AF_INET then i \<lparr>changeCallbacks4 := cbs\<rparr> else i \<lparr>changeCallbacks6 := cbs\<rparr>)"

definition configure_watched :: "'s watch_host \<Rightarrow> AddressFamily \<Rightarrow> Config \<Rightarrow> LUID \<Rightarrow> ('s, unit) watch" where
  "configure_watched h family conf luid w =
     map_option (\<lambda>(r, s). (map_sum CfgError id r, w \<lparr>os := s\<rparr>)) (configureInterface (net h) family conf luid (os w))"

text \<open>The part of \<open>setup\<close> before the addresses: the old callbacks go, and with no MTU given the default route is
  monitored.\<close>

definition restart_monitor :: "'s watch_host \<Rightarrow> AddressFamily \<Rightarrow> ('s, unit) watch" where
  "restart_monitor h family = with_iw (\<lambda>i.
     ignoring (Unregister_all (notif h) (changeCallbacks family i))
    (ignoring (upd_iw (set_changeCallbacks family []))
      (if MTU (config_Interface (iw_conf i)) = 0
       then attempt (monitorMTU (helper (net h)) (notif h) family (iw_luid i)) (\<lambda>r.
         ignoring (upd_iw (set_changeCallbacks family (case r of Inl _ \<Rightarrow> [] | Inr cbs \<Rightarrow> cbs)))
           (lift_sum (map_sum id (\<lambda>_. ()) r)))
       else ret ())))"

definition watcher_setup :: "'s watch_host \<Rightarrow> AddressFamily \<Rightarrow> ('s, unit) watch" where
  "watcher_setup h family =
     ignoring (upd_iw (\<lambda>i. i \<lparr>watchdog := False\<rparr>))
       (if family \<noteq> AF_INET \<and> family \<noteq> AF_INET6 then ret ()
        else attempt (restart_monitor h family) (\<lambda>r.
          case r of
            Inl err \<Rightarrow> send_error ErrorMonitorMTUChanges err
          | Inr _ \<Rightarrow> with_iw (\<lambda>i.
              attempt (configure_watched h family (iw_conf i) (iw_luid i)) (\<lambda>r.
                case r of
                  Inl err \<Rightarrow> send_error ErrorSetNetConfig err
                | Inr _ \<Rightarrow> send_started family))))"

text \<open>The callback that \<open>watchInterface\<close> registers.\<close>

definition MibParameterNotification :: nat where "MibParameterNotification = 0"

definition MibAddInstance :: nat where "MibAddInstance = 1"

definition drv :: "('s \<Rightarrow> (nat + 'a) \<times> 's) \<Rightarrow> ('s, 'a) watch" where
  "drv f = on_os NetError (sys f)"

definition interface_appeared :: "'s watch_host \<Rightarrow> nat \<Rightarrow> LUID \<Rightarrow> AddressFamily \<Rightarrow> ('s, unit) watch" where
  "interface_appeared h notificationType luid family = with_iw (\<lambda>i.
     if notificationType \<noteq> MibAddInstance then ret ()
     else if iw_luid i = 0 then upd_iw (\<lambda>i. i \<lparr>storedEvents := storedEvents i @ [(luid, family)]\<rparr>)
     else if luid \<noteq> iw_luid i then ret ()
     else ignoring (watcher_setup h family) (attempt (drv (drv_AdapterState h)) (\<lambda>r.
       if r = Inr AdapterStateDown
       then ignoring (drv (drv_SetConfiguration h (ToDriverConfiguration (iw_conf i))))
         (ignoring (drv (drv_SetAdapterState h AdapterStateUp)) (ret ()))
       else ret ())))"

definition new_watcher :: "Config \<Rightarrow> interfaceWatcher" where
  "new_watcher conf =
     \<lparr>errors = [], started = [], iw_luid = 0, iw_conf = conf, interfaceChangeCallback = None, changeCallbacks4 = [],
      changeCallbacks6 = [], storedEvents = [], watchdog = False\<rparr>"

text \<open>Until \<open>Configure\<close> the watcher has no configuration, and none is looked at; \<open>conf\<close> stands for it.\<close>

definition watchInterface :: "'s watch_host \<Rightarrow> Config \<Rightarrow> ('s, unit) watch" where
  "watchInterface h conf =
     ignoring (upd_iw (\<lambda>_. new_watcher conf)) (attempt (RegisterInterfaceChangeCallback (notif h) Watcher) (\<lambda>r.
       case r of
         Inl err \<Rightarrow> raise (UnableToRegister err)
       | Inr cb \<Rightarrow> upd_iw (\<lambda>i. i \<lparr>interfaceChangeCallback := Some cb\<rparr>)))"

fun setup_stored :: "'s watch_host \<Rightarrow> LUID \<Rightarrow> (LUID \<times> AddressFamily) list \<Rightarrow> ('s, unit) watch" where
  "setup_stored h luid [] = ret ()"
| "setup_stored h luid ((l, family) # events) =
     (if l = luid then ignoring (watcher_setup h family) (setup_stored h luid events) else setup_stored h luid events)"

definition Configure :: "'s watch_host \<Rightarrow> Config \<Rightarrow> LUID \<Rightarrow> ('s, unit) watch" where
  "Configure h conf luid =
     ignoring (upd_iw (\<lambda>i. i \<lparr>watchdog := True, iw_conf := conf, iw_luid := luid\<rparr>)) (with_iw (\<lambda>i.
       ignoring (setup_stored h luid (storedEvents i)) (upd_iw (\<lambda>i. i \<lparr>storedEvents := []\<rparr>))))"

definition flush :: "'s watch_host \<Rightarrow> LUID \<Rightarrow> AddressFamily \<Rightarrow> ('s, unit) watch" where
  "flush h luid family =
     (let hp = helper (net h) in
      ignoring (on_os NetError (FlushRoutes hp luid family))
        (ignoring (on_os NetError (FlushIPAddresses hp luid family))
          (ignoring (on_os NetError (FlushDNS hp luid family)) (ret ()))))"

definition disableFirewall :: "'s watch_host \<Rightarrow> ('s, unit) watch" where
  "disableFirewall h w =
     (if wfpSession w \<noteq> 0
      then Some (Inr (), w \<lparr>os := snd (engine_Close h (wfpSession w) (os w)), wfpSession := 0\<rparr>) else ret () w)"

text \<open>Between its two locked parts \<open>Destroy\<close> unregisters the callbacks that it has read.\<close>

definition Destroy :: "'s watch_host \<Rightarrow> ('s, unit) watch" where
  "Destroy h =
     ignoring (upd_iw (\<lambda>i. i \<lparr>watchdog := False\<rparr>)) (with_iw (\<lambda>old.
       ignoring (case interfaceChangeCallback old of None \<Rightarrow> ret () | Some cb \<Rightarrow> Unregister (notif h) cb)
      (ignoring (Unregister_all (notif h) (changeCallbacks4 old))
      (ignoring (Unregister_all (notif h) (changeCallbacks6 old))
      (ignoring (upd_iw (\<lambda>i. i
         \<lparr>interfaceChangeCallback := (if interfaceChangeCallback old = interfaceChangeCallback i then None else interfaceChangeCallback i),
          changeCallbacks4 := drop (length (changeCallbacks4 old)) (changeCallbacks4 i),
          changeCallbacks6 := drop (length (changeCallbacks6 old)) (changeCallbacks6 i)\<rparr>))
        (with_iw (\<lambda>i.
          ignoring (if iw_luid old \<noteq> 0 \<and> iw_luid i = iw_luid old
            then ignoring (flush h (iw_luid old) AF_INET) (flush h (iw_luid old) AF_INET6) else ret ())
            (disableFirewall h))))))))"

text \<open>A notification to one callback.\<close>

fun interface_changed :: "'s watch_host \<Rightarrow> closure \<Rightarrow> nat \<Rightarrow> LUID \<Rightarrow> AddressFamily \<Rightarrow> ('s, unit) watch" where
  "interface_changed h Watcher notificationType luid family = interface_appeared h notificationType luid family"
| "interface_changed h (Monitor f l m) notificationType luid family =
     (if notificationType = MibParameterNotification then ignoring (doIt (helper (net h)) f l m) (ret ()) else ret ())"

fun route_changed :: "'s watch_host \<Rightarrow> closure \<Rightarrow> byte \<Rightarrow> ('s, unit) watch" where
  "route_changed h Watcher len = ret ()"
| "route_changed h (Monitor f l m) len =
     (if len = 0 then ignoring (doIt (helper (net h)) f l m) (ret ()) else ret ())"

definition watchdog_fires :: "('s, unit) watch" where
  "watchdog_fires = ignoring (upd_iw (\<lambda>i. i \<lparr>watchdog := False\<rparr>)) (send_error ErrorCreateNetworkAdapter NoInterfaceAfterOneMinute)"

section \<open>Histories\<close>

definition ids :: "handler \<Rightarrow> nat set" where
  "ids hdl = fst ` set (callbacks hdl)"

definition registered :: "'s watch_world \<Rightarrow> ChangeCallback set" where
  "registered w = InterfaceChangeCallback ` ids (interfaceChange w) \<union> RouteChangeCallback ` ids (routeChange w)"

definition held :: "interfaceWatcher \<Rightarrow> ChangeCallback list" where
  "held i = (case interfaceChangeCallback i of None \<Rightarrow> [] | Some cb \<Rightarrow> [cb]) @ changeCallbacks4 i @ changeCallbacks6 i"

text \<open>The steps: the service configures the watcher and receives from its channels, Windows notifies a callback or
  changes on its own, the watchdog fires.\<close>

inductive watcher_history :: "'s watch_host \<Rightarrow> 's watch_world \<Rightarrow> bool" for h where
  start: "interfaceChange w0 = \<lparr>callbacks = [], handle = 0\<rparr> \<Longrightarrow> routeChange w0 = \<lparr>callbacks = [], handle = 0\<rparr> \<Longrightarrow>
     watchInterface h conf w0 = Some (Inr u, w) \<Longrightarrow> watcher_history h w"
| configure: "watcher_history h w \<Longrightarrow> Configure h conf luid w = Some (r, w') \<Longrightarrow> watcher_history h w'"
| interface_changes: "watcher_history h w \<Longrightarrow> (i, c) \<in> set (callbacks (interfaceChange w)) \<Longrightarrow>
     interface_changed h c notificationType luid family w = Some (r, w') \<Longrightarrow> watcher_history h w'"
| route_changes: "watcher_history h w \<Longrightarrow> (i, c) \<in> set (callbacks (routeChange w)) \<Longrightarrow>
     route_changed h c len w = Some (r, w') \<Longrightarrow> watcher_history h w'"
| watchdog: "watcher_history h w \<Longrightarrow> watchdog (iw w) \<Longrightarrow> watchdog_fires w = Some (r, w') \<Longrightarrow> watcher_history h w'"
| receive_started: "watcher_history h w \<Longrightarrow> started (iw w) = family # fs \<Longrightarrow>
     watcher_history h (w \<lparr>iw := (iw w) \<lparr>started := fs\<rparr>\<rparr>)"
| receive_error: "watcher_history h w \<Longrightarrow> errors (iw w) = e # es \<Longrightarrow> watcher_history h (w \<lparr>iw := (iw w) \<lparr>errors := es\<rparr>\<rparr>)"
| system: "watcher_history h w \<Longrightarrow> watcher_history h (w \<lparr>os := s\<rparr>)"

text \<open>The invariant: what is registered is held, once, a handler with callbacks is live, and new callbacks are new.\<close>

definition live :: "handler \<Rightarrow> bool" where
  "live hdl \<longleftrightarrow> (ids hdl \<noteq> {} \<longrightarrow> handle hdl \<noteq> 0)"

definition numbered :: "'s watch_world \<Rightarrow> bool" where
  "numbered w \<longleftrightarrow> (\<forall>i\<in>ids (interfaceChange w) \<union> ids (routeChange w). i < made w)"

definition handlers_ok :: "'s watch_world \<Rightarrow> bool" where
  "handlers_ok w \<longleftrightarrow> live (interfaceChange w) \<and> live (routeChange w) \<and> numbered w"

definition watcher_ok :: "'s watch_world \<Rightarrow> bool" where
  "watcher_ok w \<longleftrightarrow> handlers_ok w \<and> distinct (held (iw w)) \<and> registered w = set (held (iw w))"

definition notifies :: "'s notifier \<Rightarrow> bool" where
  "notifies nt \<longleftrightarrow> (\<forall>s n s'. notifyIPInterfaceChange nt s = (Inr n, s') \<longrightarrow> n \<noteq> 0) \<and>
     (\<forall>s n s'. notifyRouteChange2 nt s = (Inr n, s') \<longrightarrow> n \<noteq> 0)"

lemma ids_filter: "fst ` set (filter (\<lambda>(j, _). j \<noteq> i) l) = fst ` set l - {i}"
  by force

lemma register_handler_effect:
  assumes "register_handler notify i c hdl s = (err, hdl', s')" and "live hdl" and "i \<notin> ids hdl"
    and "\<And>s n s'. notify s = (Inr n, s') \<Longrightarrow> n \<noteq> 0"
  shows "live hdl' \<and> ids hdl' = (if err = None then insert i (ids hdl) else ids hdl)"
  using assms
  by (auto simp: register_handler_def live_def ids_def Let_def ids_filter split: if_splits prod.splits sum.splits)

lemma unregister_handler_effect:
  assumes run: "unregister_handler cancel i hdl s = (err, hdl', s')" and l: "live hdl"
  shows "live hdl' \<and> ids hdl' = ids hdl - {i}"
proof -
  let ?cs = "filter (\<lambda>(j, _). j \<noteq> i) (callbacks hdl)"
  have c: "callbacks hdl' = ?cs"
    using run by (auto simp: unregister_handler_def Let_def split: if_splits prod.splits sum.splits)
  have "handle hdl' = 0 \<longrightarrow> handle hdl = 0 \<or> ?cs = []"
    using run by (auto simp: unregister_handler_def Let_def split: if_splits prod.splits sum.splits)
  moreover have "ids hdl' = ids hdl - {i}" unfolding ids_def c by (rule ids_filter)
  moreover have "?cs = [] \<Longrightarrow> ids hdl' = {}" by (simp add: ids_def c)
  ultimately show ?thesis using l unfolding live_def by blast
qed

lemma notifiesD:
  assumes "notifies nt"
  shows "notifyIPInterfaceChange nt s = (Inr n, s') \<Longrightarrow> n \<noteq> 0" "notifyRouteChange2 nt s = (Inr n, s') \<Longrightarrow> n \<noteq> 0"
  using assms unfolding notifies_def by blast+

lemma Register_effect:
  assumes n: "notifies nt" and ok: "handlers_ok w"
    and run: "RegisterInterfaceChangeCallback nt c w = Some (r, w') \<or> RegisterRouteChangeCallback nt c w = Some (r, w')"
  shows "handlers_ok w' \<and> iw w' = iw w \<and> (case r of Inl _ \<Rightarrow> registered w' = registered w
    | Inr cb \<Rightarrow> cb \<notin> registered w \<and> registered w' = insert cb (registered w))"
  using run
proof
  assume run: "RegisterInterfaceChangeCallback nt c w = Some (r, w')"
  obtain err hdl s where e: "register_handler (notifyIPInterfaceChange nt) (made w) c (interfaceChange w) (os w) = (err, hdl, s)"
    by (metis prod_cases3)
  have "made w \<notin> ids (interfaceChange w)" "live (interfaceChange w)"
    using ok by (auto simp: handlers_ok_def numbered_def)
  then have "live hdl \<and> ids hdl = (if err = None then insert (made w) (ids (interfaceChange w)) else ids (interfaceChange w))"
    using register_handler_effect [OF e] notifiesD(1) [OF n] by blast
  then show ?thesis
    using ok run e
    by (cases err) (auto simp: RegisterInterfaceChangeCallback_def handlers_ok_def numbered_def registered_def less_SucI)
next
  assume run: "RegisterRouteChangeCallback nt c w = Some (r, w')"
  obtain err hdl s where e: "register_handler (notifyRouteChange2 nt) (made w) c (routeChange w) (os w) = (err, hdl, s)"
    by (metis prod_cases3)
  have "made w \<notin> ids (routeChange w)" "live (routeChange w)"
    using ok by (auto simp: handlers_ok_def numbered_def)
  then have "live hdl \<and> ids hdl = (if err = None then insert (made w) (ids (routeChange w)) else ids (routeChange w))"
    using register_handler_effect [OF e] notifiesD(2) [OF n] by blast
  then show ?thesis
    using ok run e
    by (cases err) (auto simp: RegisterRouteChangeCallback_def handlers_ok_def numbered_def registered_def less_SucI)
qed

lemma registered_without:
  "InterfaceChangeCallback ` (A - {i}) \<union> RouteChangeCallback ` B = InterfaceChangeCallback ` A \<union> RouteChangeCallback ` B - {InterfaceChangeCallback i}"
  "InterfaceChangeCallback ` A \<union> RouteChangeCallback ` (B - {i}) = InterfaceChangeCallback ` A \<union> RouteChangeCallback ` B - {RouteChangeCallback i}"
  by blast+

lemma Unregister_effect:
  assumes ok: "handlers_ok w" and run: "Unregister nt cb w = Some (r, w')"
  shows "handlers_ok w' \<and> iw w' = iw w \<and> registered w' = registered w - {cb}"
proof (cases cb)
  case (InterfaceChangeCallback i)
  obtain err hdl s where e: "unregister_handler (cancelMibChangeNotify2 nt) i (interfaceChange w) (os w) = (err, hdl, s)"
    by (metis prod_cases3)
  then have w': "w' = w \<lparr>os := s, interfaceChange := hdl\<rparr>" using run InterfaceChangeCallback by simp
  have "live hdl \<and> ids hdl = ids (interfaceChange w) - {i}"
    by (rule unregister_handler_effect [OF e]) (use ok in \<open>simp add: handlers_ok_def\<close>)
  then show ?thesis
    using ok by (simp add: w' InterfaceChangeCallback handlers_ok_def numbered_def registered_def registered_without ball_Un)
next
  case (RouteChangeCallback i)
  obtain err hdl s where e: "unregister_handler (cancelMibChangeNotify2 nt) i (routeChange w) (os w) = (err, hdl, s)"
    by (metis prod_cases3)
  then have w': "w' = w \<lparr>os := s, routeChange := hdl\<rparr>" using run RouteChangeCallback by simp
  have "live hdl \<and> ids hdl = ids (routeChange w) - {i}"
    by (rule unregister_handler_effect [OF e]) (use ok in \<open>simp add: handlers_ok_def\<close>)
  then show ?thesis
    using ok by (simp add: w' RouteChangeCallback handlers_ok_def numbered_def registered_def registered_without ball_Un)
qed

lemma Unregister_all_effect:
  "Unregister_all nt cbs w = Some (r, w') \<Longrightarrow> handlers_ok w \<Longrightarrow>
    handlers_ok w' \<and> iw w' = iw w \<and> registered w' = registered w - set cbs"
proof (induction cbs arbitrary: w)
  case (Cons cb cbs)
  from Cons.prems(1) obtain x w1 where a: "Unregister nt cb w = Some (x, w1)" and b: "Unregister_all nt cbs w1 = Some (r, w')"
    unfolding Unregister_all.simps ignoring_def by (rule attemptE)
  show ?case using Unregister_effect [OF Cons.prems(2) a] Cons.IH [OF b] by auto
qed (simp add: io_run)

text \<open>What only reads or sets the interfaces keeps the handlers and the watcher.\<close>

definition of_watch :: "'s watch_world \<Rightarrow> handler \<times> handler \<times> nat \<times> interfaceWatcher" where
  "of_watch w = (interfaceChange w, routeChange w, made w, iw w)"

lemma of_watchD: "of_watch w' = of_watch w \<Longrightarrow>
    handlers_ok w' = handlers_ok w \<and> iw w' = iw w \<and> registered w' = registered w"
  by (simp add: of_watch_def handlers_ok_def numbered_def registered_def)

lemma of_watch_keeps [keeps_intros]:
  "keeps of_watch (on_os f m)" "keeps of_watch (set_monitor k g)" "keeps of_watch (get_monitor k)"
  "keeps of_watch (configure_watched h family conf luid)" "keeps of_watch (drv c)" "keeps of_watch new_monitor"
  by (auto simp: keeps_def of_watch_def on_os_def set_monitor_def get_monitor_def configure_watched_def drv_def new_monitor_def)

lemma doIt_keeps [keeps_intros]: "keeps of_watch (doIt h family ourLUID m)"
  unfolding doIt_def case_prod_unfold by (intro keeps_intros)

lemma monitorMTU_effect:
  assumes n: "notifies nt" and ok: "handlers_ok w" and run: "monitorMTU h nt family luid w = Some (r, w')"
  shows "handlers_ok w' \<and> iw w' = iw w \<and> (case r of Inl _ \<Rightarrow> registered w' = registered w
    | Inr cbs \<Rightarrow> distinct cbs \<and> set cbs \<inter> registered w = {} \<and> registered w' = registered w \<union> set cbs)"
proof -
  let ?reg = "\<lambda>m. attempt (RegisterInterfaceChangeCallback nt (Monitor family luid m))"
  have new: "\<exists>m w1. new_monitor w = Some (Inr m, w1) \<and> of_watch w1 = of_watch w"
    by (simp add: new_monitor_def of_watch_def)
  then obtain m w1 where m: "new_monitor w = Some (Inr m, w1)" "of_watch w1 = of_watch w" by blast
  obtain x w2 where d: "doIt h family luid m w1 = Some (x, w2)"
    using run m(1) by (auto simp: monitorMTU_def andThen_def split: option.splits)
  have w2: "handlers_ok w2" "iw w2 = iw w" "registered w2 = registered w"
    using of_watchD [OF keepsD [OF doIt_keeps d]] of_watchD [OF m(2)] ok by simp_all
  show ?thesis
  proof (cases x)
    case (Inl e)
    then have "r = Inl e" "w' = w2" using run m(1) d by (simp_all add: monitorMTU_def andThen_def)
    then show ?thesis using w2 by simp
  next
    case (Inr u)
    then have "andThen (RegisterRouteChangeCallback nt (Monitor family luid m)) (\<lambda>cbr. ?reg m (\<lambda>r.
        case r of Inl err \<Rightarrow> ignoring (Unregister nt cbr) (raise err) | Inr cbi \<Rightarrow> ret [cbr, cbi])) w2 = Some (r, w')"
      using run m(1) d by (simp add: monitorMTU_def andThen_def)
    then show ?thesis
    proof (cases rule: andThenE)
      case (1 e)
      then show ?thesis using Register_effect [OF n w2(1) disjI2 [OF 1(1)]] w2 by simp
    next
      case (2 cbr w3)
      have w3: "handlers_ok w3" "iw w3 = iw w" "cbr \<notin> registered w" "registered w3 = insert cbr (registered w)"
        using Register_effect [OF n w2(1) disjI2 [OF 2(1)]] w2 by simp_all
      from 2(2) obtain y w4 where y: "RegisterInterfaceChangeCallback nt (Monitor family luid m) w3 = Some (y, w4)"
        and rest: "(case y of Inl err \<Rightarrow> ignoring (Unregister nt cbr) (raise err) | Inr cbi \<Rightarrow> ret [cbr, cbi]) w4 = Some (r, w')"
        by (rule attemptE)
      note w4 = Register_effect [OF n w3(1) disjI1 [OF y]]
      show ?thesis
      proof (cases y)
        case (Inl err)
        then obtain z where "Unregister nt cbr w4 = Some (z, w')" "r = Inl err"
          using rest by (auto simp: ignoring_def io_run elim!: attemptE)
        then show ?thesis using w4 w3 Inl Unregister_effect [of w4 nt cbr z w'] by auto
      next
        case (Inr cbi)
        then show ?thesis using rest w4 w3 by (auto simp: io_run)
      qed
    qed
  qed
qed

text \<open>Setting up an interface keeps the invariant.\<close>

lemma watcher_ok_of_watch: "of_watch w' = of_watch w \<Longrightarrow> watcher_ok w' = watcher_ok w"
  using of_watchD [of w' w] by (simp add: watcher_ok_def)

lemma watcher_ok_iw: "held (f (iw w)) = held (iw w) \<Longrightarrow> watcher_ok (w \<lparr>iw := f (iw w)\<rparr>) = watcher_ok w"
  by (simp add: watcher_ok_def handlers_ok_def numbered_def registered_def)

lemma handlers_ok_iw: "handlers_ok (w \<lparr>iw := i\<rparr>) = handlers_ok w" "registered (w \<lparr>iw := i\<rparr>) = registered w"
  by (simp_all add: handlers_ok_def numbered_def registered_def)

definition keeps_ok :: "('s, 'a) watch \<Rightarrow> bool" where
  "keeps_ok m \<longleftrightarrow> (\<forall>w r w'. watcher_ok w \<longrightarrow> m w = Some (r, w') \<longrightarrow> watcher_ok w')"

named_theorems ok_intros \<open>computations that keep the invariant of the watcher\<close>

lemma keeps_okD: "keeps_ok m \<Longrightarrow> watcher_ok w \<Longrightarrow> m w = Some (r, w') \<Longrightarrow> watcher_ok w'"
  unfolding keeps_ok_def by blast

lemma keeps_ok_basic [ok_intros]: "keeps_ok (ret x)" "keeps_ok (raise e)" "keeps_ok (lift_sum y)"
  by (simp_all add: keeps_ok_def io_run)

lemma keeps_ok_attempt [ok_intros]:
  assumes "keeps_ok m" and "\<And>r. keeps_ok (f r)"
  shows "keeps_ok (attempt m f)"
  unfolding keeps_ok_def
proof (intro allI impI)
  fix w r w' assume ok: "watcher_ok w" and "attempt m f w = Some (r, w')"
  from this(2) obtain x w1 where x: "m w = Some (x, w1)" and rest: "f x w1 = Some (r, w')" by (rule attemptE)
  have "watcher_ok w1" by (rule keeps_okD [OF assms(1) ok x])
  then show "watcher_ok w'" using rest by (rule keeps_okD [OF assms(2)])
qed

lemma keeps_ok_ignoring [ok_intros]: "keeps_ok m \<Longrightarrow> keeps_ok f \<Longrightarrow> keeps_ok (ignoring m f)"
  unfolding ignoring_def by (intro keeps_ok_attempt)

lemma keeps_ok_if [ok_intros]: "(b \<Longrightarrow> keeps_ok m) \<Longrightarrow> (\<not> b \<Longrightarrow> keeps_ok n) \<Longrightarrow> keeps_ok (if b then m else n)"
  by simp

lemma keeps_ok_case_sum [ok_intros]:
  "(\<And>a. keeps_ok (f a)) \<Longrightarrow> (\<And>b. keeps_ok (g b)) \<Longrightarrow> keeps_ok (case s of Inl a \<Rightarrow> f a | Inr b \<Rightarrow> g b)"
  by (cases s) simp_all

lemma keeps_ok_with_iw [ok_intros]: "(\<And>i. keeps_ok (f i)) \<Longrightarrow> keeps_ok (with_iw f)"
  unfolding keeps_ok_def with_iw_def by blast

lemma keeps_ok_of_watch: "keeps of_watch m \<Longrightarrow> keeps_ok m"
  unfolding keeps_ok_def by (blast dest: keepsD watcher_ok_of_watch)

lemma keeps_ok_upd_iw: "(\<And>i. held (f i) = held i) \<Longrightarrow> keeps_ok (upd_iw f)"
  unfolding keeps_ok_def upd_iw_def by (auto simp: watcher_ok_iw)

lemma keeps_ok_sends [ok_intros]: "keeps_ok (send_error e err)" "keeps_ok (send_started family)"
    "keeps_ok (upd_iw (\<lambda>i. i \<lparr>watchdog := b\<rparr>))" "keeps_ok (upd_iw (\<lambda>i. i \<lparr>storedEvents := ev i\<rparr>))"
    "keeps_ok (upd_iw (\<lambda>i. i \<lparr>watchdog := b, iw_conf := conf, iw_luid := luid\<rparr>))"
proof -
  have s: "keeps_ok (upd_iw (\<lambda>i. i \<lparr>errors := errors i @ [(e, err)]\<rparr>))"
    "keeps_ok (upd_iw (\<lambda>i. i \<lparr>started := started i @ [family]\<rparr>))"
    by (rule keeps_ok_upd_iw, simp add: held_def)+
  show "keeps_ok (send_error e err)" "keeps_ok (send_started family)"
    using s by (auto simp: keeps_ok_def send_error_def send_started_def io_run split: if_splits)
  show "keeps_ok (upd_iw (\<lambda>i. i \<lparr>watchdog := b\<rparr>))" "keeps_ok (upd_iw (\<lambda>i. i \<lparr>storedEvents := ev i\<rparr>))"
    "keeps_ok (upd_iw (\<lambda>i. i \<lparr>watchdog := b, iw_conf := conf, iw_luid := luid\<rparr>))"
    by (rule keeps_ok_upd_iw, simp add: held_def)+
qed

lemma configure_watched_ok [ok_intros]: "keeps_ok (configure_watched h family conf luid)" "keeps_ok (drv c)"
    "keeps_ok (doIt hp family luid m)"
  by (intro keeps_ok_of_watch keeps_intros)+

lemma clear_callbacks_ok:
  assumes ok: "watcher_ok w" and run: "Unregister_all nt (changeCallbacks family (iw w)) w = Some (r, w1)"
  shows "watcher_ok (w1 \<lparr>iw := set_changeCallbacks family [] (iw w1)\<rparr>)"
proof -
  have h: "handlers_ok w" "distinct (held (iw w))" "registered w = set (held (iw w))"
    using ok by (simp_all add: watcher_ok_def)
  note u = Unregister_all_effect [OF run h(1)]
  have "set (held (iw w)) - set (changeCallbacks family (iw w)) = set (held (set_changeCallbacks family [] (iw w)))"
    "distinct (held (set_changeCallbacks family [] (iw w)))"
    using h(2) by (auto simp: held_def changeCallbacks_def set_changeCallbacks_def split: option.splits)
  then show ?thesis using u h by (simp add: watcher_ok_def handlers_ok_iw)
qed

lemma store_callbacks_ok:
  assumes n: "notifies nt" and ok: "watcher_ok w" and none: "changeCallbacks family (iw w) = []"
    and run: "monitorMTU h nt family luid w = Some (r, w1)"
  shows "watcher_ok (w1 \<lparr>iw := set_changeCallbacks family (case r of Inl _ \<Rightarrow> [] | Inr cbs \<Rightarrow> cbs) (iw w1)\<rparr>)"
proof -
  have h: "handlers_ok w" "distinct (held (iw w))" "registered w = set (held (iw w))"
    using ok by (simp_all add: watcher_ok_def)
  note m = monitorMTU_effect [OF n h(1) run]
  have s: "set (held (set_changeCallbacks family cbs (iw w))) = set (held (iw w)) \<union> set cbs" for cbs
    using none by (auto simp: held_def changeCallbacks_def set_changeCallbacks_def split: if_splits)
  have d: "distinct (held (set_changeCallbacks family cbs (iw w)))"
    if "distinct cbs" "set cbs \<inter> set (held (iw w)) = {}" for cbs
    using none that h(2)
    by (auto simp: held_def changeCallbacks_def set_changeCallbacks_def split: option.splits if_splits)
  show ?thesis
    using m h s [of "case r of Inl _ \<Rightarrow> [] | Inr cbs \<Rightarrow> cbs"] d [of "case r of Inl _ \<Rightarrow> [] | Inr cbs \<Rightarrow> cbs"]
    by (cases r) (simp_all add: watcher_ok_def handlers_ok_iw)
qed

lemma upd_iw_run: "upd_iw f w = Some (Inr (), w \<lparr>iw := f (iw w)\<rparr>)"
  by (simp add: upd_iw_def)

lemma restart_monitor_ok:
  assumes n: "notifies (notif h)" and fam: "family = AF_INET \<or> family = AF_INET6"
  shows "keeps_ok (restart_monitor h family)"
  unfolding keeps_ok_def
proof (intro allI impI)
  fix w r w' assume ok: "watcher_ok w" and run: "restart_monitor h family w = Some (r, w')"
  obtain x w1 where u: "Unregister_all (notif h) (changeCallbacks family (iw w)) w = Some (x, w1)"
    using run unfolding restart_monitor_def with_iw_def ignoring_def by (auto elim!: attemptE)
  let ?w2 = "w1 \<lparr>iw := set_changeCallbacks family [] (iw w1)\<rparr>"
  have w2: "watcher_ok ?w2" by (rule clear_callbacks_ok [OF ok u])
  have none: "changeCallbacks family (iw ?w2) = []"
    using fam by (simp add: changeCallbacks_def set_changeCallbacks_def)
  show "watcher_ok w'"
  proof (cases "MTU (config_Interface (iw_conf (iw w))) = 0")
    case True
    then obtain v w4 where v: "monitorMTU (helper (net h)) (notif h) family (iw_luid (iw w)) ?w2 = Some (v, w4)"
      and w': "w' = w4 \<lparr>iw := set_changeCallbacks family (case v of Inl _ \<Rightarrow> [] | Inr cbs \<Rightarrow> cbs) (iw w4)\<rparr>"
      using run u unfolding restart_monitor_def with_iw_def ignoring_def
      by (auto simp: attempt_def upd_iw_run io_run split: option.splits)
    show ?thesis unfolding w' by (rule store_callbacks_ok [OF n w2 none v])
  next
    case False
    then have "w' = ?w2"
      using run u unfolding restart_monitor_def with_iw_def ignoring_def by (simp add: attempt_def upd_iw_run io_run)
    then show ?thesis using w2 by simp
  qed
qed

lemma watcher_setup_ok:
  assumes "notifies (notif h)"
  shows "keeps_ok (watcher_setup h family)"
  unfolding watcher_setup_def by (intro ok_intros restart_monitor_ok [OF assms]) auto

lemma steps_ok:
  assumes n: "notifies (notif h)"
  shows "keeps_ok (Configure h conf luid)" "keeps_ok (interface_changed h c notificationType luid family)"
    "keeps_ok (route_changed h c len)" "keeps_ok (watchdog_fires :: ('a, unit) watch)"
proof -
  have "keeps_ok (setup_stored h luid evs)" for evs
    by (induction evs) (auto intro!: ok_intros watcher_setup_ok [OF n])
  then show "keeps_ok (Configure h conf luid)" unfolding Configure_def by (intro ok_intros)
  show "keeps_ok (interface_changed h c notificationType luid family)"
    by (cases c) (auto simp: interface_appeared_def intro!: ok_intros watcher_setup_ok [OF n])
  show "keeps_ok (route_changed h c len)" by (cases c) (auto intro!: ok_intros)
  show "keeps_ok (watchdog_fires :: ('a, unit) watch)" unfolding watchdog_fires_def by (intro ok_intros)
qed

lemma watchInterface_ok:
  assumes n: "notifies (notif h)" and w0: "interfaceChange w0 = \<lparr>callbacks = [], handle = 0\<rparr>" "routeChange w0 = \<lparr>callbacks = [], handle = 0\<rparr>"
    and run: "watchInterface h conf w0 = Some (Inr u, w)"
  shows "watcher_ok w"
proof -
  let ?w1 = "w0 \<lparr>iw := new_watcher conf\<rparr>"
  have ok: "handlers_ok ?w1" "registered ?w1 = {}"
    by (simp_all add: handlers_ok_def live_def numbered_def registered_def ids_def w0)
  obtain cb w2 where r: "RegisterInterfaceChangeCallback (notif h) Watcher ?w1 = Some (Inr cb, w2)"
    and w: "w = w2 \<lparr>iw := (iw w2) \<lparr>interfaceChangeCallback := Some cb\<rparr>\<rparr>"
    using run unfolding watchInterface_def ignoring_def
    by (auto simp: upd_iw_run io_run elim!: attemptE split: sum.splits)
  show ?thesis
    using Register_effect [OF n ok(1) disjI1 [OF r]] ok(2)
    by (simp add: w watcher_ok_def handlers_ok_iw held_def new_watcher_def)
qed

lemma watcher_history_ok:
  assumes "watcher_history h w" and n: "notifies (notif h)"
  shows "watcher_ok w"
  using assms(1)
proof (induction rule: watcher_history.induct)
  case (start w0 conf u w)
  show ?case by (rule watchInterface_ok [OF n start])
next
  case (configure w conf luid r w')
  show ?case by (rule keeps_okD [OF steps_ok(1) [OF n] configure.IH configure.hyps(2)])
next
  case (interface_changes w i c notificationType luid family r w')
  show ?case by (rule keeps_okD [OF steps_ok(2) [OF n] interface_changes.IH interface_changes.hyps(3)])
next
  case (route_changes w i c len r w')
  show ?case by (rule keeps_okD [OF steps_ok(3) [OF n] route_changes.IH route_changes.hyps(3)])
next
  case (watchdog w r w')
  show ?case by (rule keeps_okD [OF steps_ok(4) [OF n] watchdog.IH watchdog.hyps(3)])
next
  case (receive_started w family fs)
  then show ?case by (subst watcher_ok_iw) (simp_all add: held_def)
next
  case (receive_error w e es)
  then show ?case by (subst watcher_ok_iw) (simp_all add: held_def)
next
  case (system w s)
  then show ?case by (subst watcher_ok_of_watch [of _ w]) (simp_all add: of_watch_def)
qed

section \<open>Taking the watcher down\<close>

lemma on_os_returns [returns_intros]: "returns m \<Longrightarrow> returns (on_os f m)"
  unfolding returns_def on_os_def by simp

lemma Unregister_returns [returns_intros]: "returns (Unregister nt cb)" "returns (Unregister_all nt cbs)"
proof -
  show u: "returns (Unregister nt cb)" for cb by (cases cb) (auto simp: returns_def split: prod.splits)
  show "returns (Unregister_all nt cbs)" by (induction cbs) (auto intro!: returns_intros u)
qed

lemma flush_returns [returns_intros]: "returns (flush h luid family)"
  unfolding flush_def Let_def FlushDNS_def by (intro returns_intros)

lemma flush_keeps [keeps_intros]: "keeps of_watch (flush h luid family)"
  unfolding flush_def Let_def by (intro keeps_intros)

lemma ignoring_run: "m w = Some (r, w1) \<Longrightarrow> ignoring m f w = f w1"
  by (simp add: ignoring_def attempt_def)

lemma ignoring_first: "upd_iw g w = Some (r, w1) \<Longrightarrow> ignoring (upd_iw g) f w = f w1"
  by (rule ignoring_run)

lemma unregister_held:
  assumes ok: "handlers_ok w" "iw w = old" "registered w = set (held old)"
  shows "\<exists>w'. handlers_ok w' \<and> iw w' = old \<and> registered w' = {} \<and>
    (\<forall>f :: ('s, unit) watch. ignoring (case interfaceChangeCallback old of None \<Rightarrow> ret () | Some cb \<Rightarrow> Unregister nt cb)
      (ignoring (Unregister_all nt (changeCallbacks4 old)) (ignoring (Unregister_all nt (changeCallbacks6 old)) f)) w = f w')"
proof -
  let ?u = "case interfaceChangeCallback old of None \<Rightarrow> ret () | Some cb \<Rightarrow> Unregister nt cb"
  have "returns ?u" by (cases "interfaceChangeCallback old") (simp_all add: returns_basic Unregister_returns)
  from returnsD [OF this, of w] obtain r2 w2 where 2: "?u w = Some (r2, w2)" by (elim exE)
  have w2: "handlers_ok w2" "iw w2 = old" "registered w2 = registered w - set_option (interfaceChangeCallback old)"
    using 2 ok(1,2) Unregister_effect [OF ok(1)] by (cases "interfaceChangeCallback old"; simp add: io_run)+
  obtain r3 w3 where 3: "Unregister_all nt (changeCallbacks4 old) w2 = Some (r3, w3)"
    using returnsD [OF Unregister_returns(2), of nt "changeCallbacks4 old" w2] by (elim exE)
  note w3 = Unregister_all_effect [OF 3 w2(1)]
  obtain r4 w4 where 4: "Unregister_all nt (changeCallbacks6 old) w3 = Some (r4, w4)"
    using returnsD [OF Unregister_returns(2), of nt "changeCallbacks6 old" w3] by (elim exE)
  note w4 = Unregister_all_effect [OF 4 conjunct1 [OF w3]]
  have "registered w4 = {}"
    using w2(3) w3 w4 ok(3) by (cases "interfaceChangeCallback old") (auto simp: held_def)
  then show ?thesis
    using w2(2) w3 w4 by (intro exI [of _ w4]) (simp add: ignoring_run [where m = ?u, OF 2] ignoring_run [where m = "Unregister_all nt (changeCallbacks4 old)", OF 3]
        ignoring_run [where m = "Unregister_all nt (changeCallbacks6 old)", OF 4])
qed

lemma last_part:
  "\<exists>w'. ignoring (if b then ignoring (flush h l AF_INET) (flush h l AF_INET6) else ret ()) (disableFirewall h) w = Some (Inr (), w') \<and>
    of_watch w' = of_watch w \<and> wfpSession w' = 0"
proof -
  let ?flush = "if b then ignoring (flush h l AF_INET) (flush h l AF_INET6) else ret ()"
  have "returns ?flush" and k: "keeps of_watch ?flush" by (intro returns_intros, intro keeps_intros)
  from returnsD [OF this(1), of w] obtain r w1 where 1: "?flush w = Some (r, w1)" by (elim exE)
  have "of_watch w1 = of_watch w" by (rule keepsD [OF k 1])
  then show ?thesis unfolding ignoring_run [where m = ?flush, OF 1] by (auto simp: disableFirewall_def io_run of_watch_def)
qed

lemma Destroy_effect:
  fixes w :: "'s watch_world"
  assumes ok: "watcher_ok w"
  shows "\<exists>w'. Destroy h w = Some (Inr (), w') \<and> registered w' = {} \<and> held (iw w') = [] \<and> handlers_ok w' \<and>
    wfpSession w' = 0 \<and> \<not> watchdog (iw w')"
proof -
  define old where "old = (iw w) \<lparr>watchdog := False\<rparr>"
  let ?w1 = "w \<lparr>iw := old\<rparr>"
  have "handlers_ok ?w1" "iw ?w1 = old" "registered ?w1 = set (held old)"
    using ok by (simp_all add: watcher_ok_def handlers_ok_iw held_def old_def)
  from unregister_held [OF this, of "notif h"] obtain w4 where w4: "handlers_ok w4" "iw w4 = old" "registered w4 = {}"
    and run: "\<forall>f :: ('s, unit) watch. ignoring (case interfaceChangeCallback old of None \<Rightarrow> ret () | Some cb \<Rightarrow> Unregister (notif h) cb)
      (ignoring (Unregister_all (notif h) (changeCallbacks4 old)) (ignoring (Unregister_all (notif h) (changeCallbacks6 old)) f)) ?w1 = f w4"
    by (elim exE conjE)
  define i where "i = old \<lparr>interfaceChangeCallback := None, changeCallbacks4 := [], changeCallbacks6 := []\<rparr>"
  let ?w5 = "w4 \<lparr>iw := i\<rparr>"
  have u: "upd_iw (\<lambda>i. i
         \<lparr>interfaceChangeCallback := (if interfaceChangeCallback old = interfaceChangeCallback i then None else interfaceChangeCallback i),
          changeCallbacks4 := drop (length (changeCallbacks4 old)) (changeCallbacks4 i),
          changeCallbacks6 := drop (length (changeCallbacks6 old)) (changeCallbacks6 i)\<rparr>) w4 = Some (Inr (), ?w5)"
    unfolding upd_iw_run w4(2) by (simp add: i_def)
  from last_part [of "iw_luid old \<noteq> 0 \<and> iw_luid i = iw_luid old" h "iw_luid old" ?w5]
  obtain w7 where 7: "ignoring (if iw_luid old \<noteq> 0 \<and> iw_luid i = iw_luid old
      then ignoring (flush h (iw_luid old) AF_INET) (flush h (iw_luid old) AF_INET6) else ret ()) (disableFirewall h) ?w5 = Some (Inr (), w7)"
    and w7: "of_watch w7 = of_watch ?w5" "wfpSession w7 = 0" by (elim exE conjE)
  have sel: "iw ?w1 = old" "iw ?w5 = i" by simp_all
  have first: "upd_iw (\<lambda>i. i \<lparr>watchdog := False\<rparr>) w = Some (Inr (), ?w1)" by (simp add: upd_iw_run old_def)
  have "Destroy h w = Some (Inr (), w7)"
    unfolding Destroy_def ignoring_first [OF first] with_iw_def sel run [rule_format] ignoring_first [OF u] by (rule 7)
  then show ?thesis
    using of_watchD [OF w7(1)] w4 w7(2) by (simp add: handlers_ok_iw held_def i_def old_def)
qed

section \<open>The best default route\<close>

text \<open>The metric of a route that \<open>findDefaultLUID\<close> considers.\<close>

definition default_metric :: "'s iphlp \<Rightarrow> AddressFamily \<Rightarrow> LUID \<Rightarrow> 's \<Rightarrow> MibIPforwardRow2 \<Rightarrow> nat option" where
  "default_metric h family ourLUID s row =
     (if PrefixLength (DestinationPrefix row) \<noteq> 0 \<or> fr_InterfaceLUID row = ourLUID then None
      else case Interface h (fr_InterfaceLUID row) s of
        Some (Inr ifrow, _) \<Rightarrow>
          if if_OperStatus ifrow \<noteq> IfOperStatusUp then None
          else (case IPInterface h (fr_InterfaceLUID row) family s of
            Some (Inr iface, _) \<Rightarrow> Some (unat (fr_Metric row) + unat (ip_Metric iface))
          | _ \<Rightarrow> None)
      | _ \<Rightarrow> None)"

definition read_only :: "'s iphlp \<Rightarrow> bool" where
  "read_only h \<longleftrightarrow> (\<forall>l s. snd (getIfEntry2 h l s) = s) \<and> (\<forall>r s. snd (getIPInterfaceEntry h r s) = s)"

lemma read_only_runs:
  assumes "read_only h"
  shows "\<exists>r. Interface h l s = Some (r, s)" "\<exists>r. IPInterface h l family s = Some (r, s)"
proof -
  obtain x where "getIfEntry2 h l s = (x, s)" using assms by (metis read_only_def prod.collapse)
  then show "\<exists>r. Interface h l s = Some (r, s)" by (simp add: Interface_def sys_def)
  have "\<exists>r. InterfaceRow_get h row s = Some (r, s)" for row
  proof -
    obtain x where "getIPInterfaceEntry h row s = (x, s)" using assms by (metis read_only_def prod.collapse)
    then show ?thesis by (cases x) (simp_all add: InterfaceRow_get_def sys_def andThen_def io_run)
  qed
  then show "\<exists>r. IPInterface h l family s = Some (r, s)" by (simp add: IPInterface_def)
qed

lemma metric_sum: "unat (ucast (a :: u32) + ucast (b :: u32) :: u64) = unat a + unat b"
proof -
  have l: "unat a < 2 ^ 32" "unat b < 2 ^ 32"
    using unsigned_less [of a, where 'a = nat] unsigned_less [of b, where 'a = nat] by simp_all
  have "unat (ucast a :: u64) = unat a" "unat (ucast b :: u64) = unat b"
    using l by (simp_all add: unsigned_ucast_eq take_bit_nat_eq_self)
  then show ?thesis using l by (simp add: unat_word_ariths)
qed

lemma default_step:
  assumes "read_only h"
  shows "default_loop h family ourLUID (row # r) best s =
    default_loop h family ourLUID r
      (case default_metric h family ourLUID s row of
         None \<Rightarrow> best
       | Some m \<Rightarrow> if m < unat (fst best) then (of_nat m, fr_InterfaceIndex row, fr_InterfaceLUID row) else best) s"
proof -
  obtain i where i: "Interface h (fr_InterfaceLUID row) s = Some (i, s)" using read_only_runs(1) [OF assms] by blast
  obtain f where f: "IPInterface h (fr_InterfaceLUID row) family s = Some (f, s)" using read_only_runs(2) [OF assms] by blast
  have w: "ucast a + ucast b < (fst best) \<longleftrightarrow> unat a + unat b < unat (fst best)"
    "of_nat (unat a + unat b) = (ucast a + ucast b :: u64)" for a b :: u32
    by (simp_all add: word_less_nat_alt metric_sum flip: metric_sum)
  show ?thesis
    by (cases i; cases f) (simp_all add: default_metric_def attempt_def i f Let_def w)
qed

lemma default_loop_best:
  assumes ro: "read_only h"
  shows "\<exists>best'. default_loop h family ourLUID r best s = Some (Inr best', s) \<and> unat (fst best') \<le> unat (fst best) \<and>
    (\<forall>row\<in>set r. \<forall>m. default_metric h family ourLUID s row = Some m \<longrightarrow> unat (fst best') \<le> m) \<and>
    (best' = best \<or> (\<exists>row\<in>set r. default_metric h family ourLUID s row = Some (unat (fst best')) \<and>
       snd best' = (fr_InterfaceIndex row, fr_InterfaceLUID row)))"
proof (induction r arbitrary: best)
  case Nil
  then show ?case by (simp add: io_run)
next
  case (Cons row r)
  define next_best where "next_best =
    (case default_metric h family ourLUID s row of
       None \<Rightarrow> best
     | Some m \<Rightarrow> if m < unat (fst best) then (of_nat m, fr_InterfaceIndex row, fr_InterfaceLUID row) else best)"
  have small: "unat (of_nat m :: u64) = m" if "m < unat (fst best)" for m
    using that unsigned_less [of "fst best", where 'a = nat] by (simp add: unat_of_nat)
  have n: "unat (fst next_best) \<le> unat (fst best)"
    "\<And>m. default_metric h family ourLUID s row = Some m \<Longrightarrow> unat (fst next_best) \<le> m"
    "next_best = best \<or> default_metric h family ourLUID s row = Some (unat (fst next_best)) \<and>
      snd next_best = (fr_InterfaceIndex row, fr_InterfaceLUID row)"
    by (cases "default_metric h family ourLUID s row"; simp add: next_best_def small)+
  obtain best' where b: "default_loop h family ourLUID r next_best s = Some (Inr best', s)"
    "unat (fst best') \<le> unat (fst next_best)"
    "\<forall>row\<in>set r. \<forall>m. default_metric h family ourLUID s row = Some m \<longrightarrow> unat (fst best') \<le> m"
    "best' = next_best \<or> (\<exists>row\<in>set r. default_metric h family ourLUID s row = Some (unat (fst best')) \<and>
       snd best' = (fr_InterfaceIndex row, fr_InterfaceLUID row))"
    using Cons.IH [of next_best] by (elim exE conjE)
  have "default_loop h family ourLUID (row # r) best s = Some (Inr best', s)"
    unfolding default_step [OF ro] using b(1) by (simp add: next_best_def)
  moreover have "\<forall>q\<in>set (row # r). \<forall>m. default_metric h family ourLUID s q = Some m \<longrightarrow> unat (fst best') \<le> m"
    using b(2,3) n(2) by (auto intro: order_trans)
  moreover have "best' = best \<or> (\<exists>q\<in>set (row # r). default_metric h family ourLUID s q = Some (unat (fst best')) \<and>
       snd best' = (fr_InterfaceIndex q, fr_InterfaceLUID q))"
    using b(4) n(3) by (metis list.set_intros)
  ultimately show ?case using b(2) n(1) by (intro exI [of _ best']) simp
qed

section \<open>Properties\<close>

text \<open>C40: \<open>findDefaultLUID\<close> finds the best default route: when it succeeds it returns the interface and the
  index of a route to everything, on an interface other than the tunnel's that is up, for which the sum of
  the metrics of route and interface, which does not overflow, is the least among these; it returns zeros only when
  there is no such route.\<close>

theorem findDefaultLUID_best:
  assumes ro: "read_only h" and tab: "getIPForwardTable2 h family s = (Inr r, s1)"
    and run: "findDefaultLUID h family ourLUID s = Some (Inr (index, luid), s')"
  shows "(\<exists>row\<in>set r. \<exists>m. default_metric h family ourLUID s1 row = Some m \<and> index = fr_InterfaceIndex row \<and>
      luid = fr_InterfaceLUID row \<and>
      (\<forall>q\<in>set r. \<forall>n. default_metric h family ourLUID s1 q = Some n \<longrightarrow> m \<le> n)) \<or>
    (\<forall>row\<in>set r. default_metric h family ourLUID s1 row = None) \<and> index = 0 \<and> luid = 0"
proof -
  obtain best' where b: "default_loop h family ourLUID r (NOT 0, 0, 0) s1 = Some (Inr best', s1)"
    "\<forall>row\<in>set r. \<forall>m. default_metric h family ourLUID s1 row = Some m \<longrightarrow> unat (fst best') \<le> m"
    "best' = (NOT 0, 0, 0) \<or> (\<exists>row\<in>set r. default_metric h family ourLUID s1 row = Some (unat (fst best')) \<and>
       snd best' = (fr_InterfaceIndex row, fr_InterfaceLUID row))"
    using default_loop_best [OF ro, of family ourLUID r "(NOT 0, 0, 0)" s1] by (elim exE conjE)
  have res: "snd best' = (index, luid)"
    using run tab b(1) by (auto simp: findDefaultLUID_def sys_def andThen_def io_run split: prod.splits)
  from b(3) show ?thesis
  proof
    assume z: "best' = (NOT 0, 0, 0)"
    have "default_metric h family ourLUID s1 row = None" if "row \<in> set r" for row
    proof (rule ccontr)
      assume "default_metric h family ourLUID s1 row \<noteq> None"
      then obtain m where m: "default_metric h family ourLUID s1 row = Some m" by blast
      then have "unat (NOT 0 :: u64) \<le> m" using b(2) that z by fastforce
      moreover have "m < 2 ^ 33"
      proof -
        obtain a c :: u32 where "m = unat a + unat c"
          using m by (auto simp: default_metric_def split: if_splits option.splits prod.splits sum.splits)
        then show ?thesis
          using unsigned_less [of a, where 'a = nat] unsigned_less [of c, where 'a = nat] by simp
      qed
      ultimately show False by (simp add: unsigned_minus_1_eq_mask mask_eq_exp_minus_1)
    qed
    then show ?thesis using z res by simp
  next
    assume "\<exists>row\<in>set r. default_metric h family ourLUID s1 row = Some (unat (fst best')) \<and>
       snd best' = (fr_InterfaceIndex row, fr_InterfaceLUID row)"
    then show ?thesis using b(2) res by auto
  qed
qed


section \<open>Witnesses\<close>

definition up_book :: "tables iphlp" where
  "up_book = book \<lparr>getIfEntry2 := (\<lambda>l s. (Inr \<lparr>if_MTU = 1500, if_OperStatus = IfOperStatusUp\<rparr>, s))\<rparr>"

definition two_routes :: tables where
  "two_routes = \<lparr>route_rows = [other_route \<lparr>fr_Metric := 50\<rparr>, other_route \<lparr>fr_InterfaceLUID := 4, fr_InterfaceIndex := 9, fr_Metric := 25\<rparr>, old_route],
     address_rows = []\<rparr>"

lemma up_book_read_only: "read_only up_book"
  by (simp add: read_only_def up_book_def book_def)

theorem findDefaultLUID_best_witness:
  "\<exists>s'. findDefaultLUID up_book AF_INET 7 two_routes = Some (Inr (9, 4), s') \<and>
    (\<forall>q\<in>set (route_rows two_routes). \<forall>n. default_metric up_book AF_INET 7 two_routes q = Some n \<longrightarrow> 25 \<le> n)"
proof -
  have t: "getIPForwardTable2 up_book AF_INET two_routes = (Inr (route_rows two_routes), two_routes)"
    by (simp add: up_book_def book_def two_routes_def in_family_def route_family_def other_route_def old_route_def)
  have "map_option fst (findDefaultLUID up_book AF_INET 7 two_routes) = Some (Inr (9, 4))" by code_simp
  then obtain s' where run: "findDefaultLUID up_book AF_INET 7 two_routes = Some (Inr (9, 4), s')" by auto
  have "map (default_metric up_book AF_INET 7 two_routes) (route_rows two_routes) = [Some 50, Some 25, None]" by code_simp
  then have m: "default_metric up_book AF_INET 7 two_routes q \<in> {Some 50, Some 25, None}" if "q \<in> set (route_rows two_routes)" for q
    using that by (auto simp: two_routes_def)
  have "map fr_InterfaceIndex (route_rows two_routes) = [0, 9, 0]" by code_simp
  then show ?thesis
    using findDefaultLUID_best [OF up_book_read_only t run] run m by fastforce
qed

definition calm :: "tables watch_host" where
  "calm =
     \<lparr>net = \<lparr>helper = up_book, StartedAtBoot = False, route_order = (\<lambda>_ rds. rds)\<rparr>,
      notif = \<lparr>notifyIPInterfaceChange = (\<lambda>s. (Inr 5, s)), notifyRouteChange2 = (\<lambda>s. (Inr 6, s)),
        cancelMibChangeNotify2 = (\<lambda>n s. (Inr (), s))\<rparr>,
      drv_AdapterState = (\<lambda>s. (Inr AdapterStateUp, s)), drv_SetConfiguration = (\<lambda>b s. (Inr (), s)),
      drv_SetAdapterState = (\<lambda>n s. (Inr (), s)), engine_Close = (\<lambda>n s. (Inr (), s))\<rparr>"

definition quiet :: "tables watch_world" where
  "quiet =
     \<lparr>os = two_routes, interfaceChange = \<lparr>callbacks = [], handle = 0\<rparr>, routeChange = \<lparr>callbacks = [], handle = 0\<rparr>,
      made = 0, monitors = [], iw = new_watcher home_conf, wfpSession = 3\<rparr>"

lemma quiet_run:
  "map_option (\<lambda>(r, w). (r, held (iw w), started (iw w), errors (iw w) = []))
     (ignoring (watchInterface calm home_conf) (ignoring (Configure calm home_conf 7)
       (interface_changed calm Watcher MibAddInstance 7 AF_INET)) quiet) =
   Some (Inr (), [InterfaceChangeCallback 0, RouteChangeCallback 1, InterfaceChangeCallback 2], [AF_INET], True)"
  "map_option (\<lambda>(r, w). r) (watchInterface calm home_conf quiet) = Some (Inr ())"
  "map_option (\<lambda>(r, w). callbacks (interfaceChange w))
     (ignoring (watchInterface calm home_conf) (Configure calm home_conf 7) quiet) = Some [(0, Watcher)]"
  by code_simp+


end
