(* ===== verification/Tunnel_Runtime.thy ===== *)
theory Tunnel_Runtime
  imports Go_Effects Driver_Config
begin

text \<open>
  The files that a running tunnel keeps for its owner: the log of limited size (\<open>tunnel/runtime_log.go\<close>) and the
  metrics that are read from the driver every second (\<open>tunnel/runtime_metrics.go\<close>).  An open file is its contents and its
  position; every call on it may fail, as a plan says for the number of the call.
\<close>

section \<open>Files\<close>

record os_file =
  content :: string
  pos :: nat
  calls :: nat

text \<open>The error of the call with this number, and for a write how many bytes went out before it.\<close>

type_synonym plan = "nat \<Rightarrow> (nat \<times> nat) option"

type_synonym 'a file_io = "(os_file, nat, 'a) io"

definition file_call :: "plan \<Rightarrow> (os_file \<Rightarrow> os_file) \<Rightarrow> unit file_io" where
  "file_call p f w =
     (case p (calls w) of
        Some (_, err) \<Rightarrow> Some (Inl err, w \<lparr>calls := Suc (calls w)\<rparr>)
      | None \<Rightarrow> Some (Inr (), (f w) \<lparr>calls := Suc (calls w)\<rparr>))"

definition file_Truncate :: "plan \<Rightarrow> nat \<Rightarrow> unit file_io" where
  "file_Truncate p n = file_call p (\<lambda>w. w \<lparr>content := take n (content w) @ replicate (n - length (content w)) (CHR 0x00)\<rparr>)"

definition file_Seek :: "plan \<Rightarrow> nat \<Rightarrow> unit file_io" where
  "file_Seek p n = file_call p (\<lambda>w. w \<lparr>pos := n\<rparr>)"

text \<open>Writing at the position; behind the end the gap is zeros.\<close>

definition put_at :: "nat \<Rightarrow> string \<Rightarrow> string \<Rightarrow> string" where
  "put_at i s c = take i c @ replicate (i - length c) (CHR 0x00) @ s @ drop (i + length s) c"

definition written :: "string \<Rightarrow> os_file \<Rightarrow> os_file" where
  "written s w = (if s = [] then w else w \<lparr>content := put_at (pos w) s (content w), pos := pos w + length s\<rparr>)"

text \<open>The number of bytes written is returned with the error.\<close>

definition file_Write :: "plan \<Rightarrow> string \<Rightarrow> (nat \<times> nat option) file_io" where
  "file_Write p s w =
     (case p (calls w) of
        Some (n, err) \<Rightarrow>
          Some (Inr (length (take n s), Some err), (written (take n s) w) \<lparr>calls := Suc (calls w)\<rparr>)
      | None \<Rightarrow> Some (Inr (length s, None), (written s w) \<lparr>calls := Suc (calls w)\<rparr>))"

section \<open>The log\<close>

definition maximumRuntimeLogBytes :: nat where
  "maximumRuntimeLogBytes = 2 * 1024 * 1024"

record runtimeLogWriter =
  log_file :: os_file
  log_size :: nat

text \<open>After \<open>os.OpenFile\<close> and \<open>file.Stat()\<close>, which may fail.\<close>

definition openRuntimeLog :: "plan \<Rightarrow> nat option \<Rightarrow> nat option \<Rightarrow> string \<Rightarrow> nat + runtimeLogWriter" where
  "openRuntimeLog p openErr statErr existing =
     (case openErr of
        Some err \<Rightarrow> Inl err
      | None \<Rightarrow>
          (case statErr of
             Some err \<Rightarrow> Inl err
           | None \<Rightarrow>
               let file = \<lparr>content = existing, pos = 0, calls = 0\<rparr>; sz = length existing in
               (case (if maximumRuntimeLogBytes < sz
                      then andThen (file_Truncate p 0) (\<lambda>_. ret 0) else ret sz) file of
                  Some (Inr sz, file) \<Rightarrow>
                    (case file_Seek p sz file of
                       Some (Inr _, file) \<Rightarrow> Inr \<lparr>log_file = file, log_size = sz\<rparr>
                     | Some (Inl err, _) \<Rightarrow> Inl err
                     | None \<Rightarrow> Inl 0)
                | Some (Inl err, _) \<Rightarrow> Inl err
                | None \<Rightarrow> Inl 0)))"

text \<open>The line: a time stamp and the payload, of which the end is kept when it is too long.\<close>

definition log_line :: "string \<Rightarrow> string \<Rightarrow> string" where
  "log_line timestamp payload =
     (let line = timestamp @ payload in
      if maximumRuntimeLogBytes < length line then drop (length line - maximumRuntimeLogBytes) line else line)"

definition log_Write :: "plan \<Rightarrow> string \<Rightarrow> string \<Rightarrow> runtimeLogWriter \<Rightarrow> (nat + nat) \<times> runtimeLogWriter" where
  "log_Write p timestamp payload writer =
     (let originalLength = length payload; line = log_line timestamp payload in
      case (if maximumRuntimeLogBytes < log_size writer + length line
            then andThen (file_Truncate p 0) (\<lambda>_. andThen (file_Seek p 0) (\<lambda>_. ret 0))
            else ret (log_size writer)) (log_file writer) of
        Some (Inl err, file) \<Rightarrow> (Inl err, writer \<lparr>log_file := file\<rparr>)
      | Some (Inr sz, file) \<Rightarrow>
          (case file_Write p line file of
             Some (Inr (n, err), file) \<Rightarrow>
               (case err of Some e \<Rightarrow> Inl e | None \<Rightarrow> Inr originalLength, \<lparr>log_file = file, log_size = sz + n\<rparr>)
           | _ \<Rightarrow> (Inl 0, writer))
      | None \<Rightarrow> (Inl 0, writer))"

fun log_Writes :: "plan \<Rightarrow> (string \<times> string) list \<Rightarrow> runtimeLogWriter \<Rightarrow> runtimeLogWriter" where
  "log_Writes p [] writer = writer"
| "log_Writes p ((timestamp, payload) # ls) writer = log_Writes p ls (snd (log_Write p timestamp payload writer))"

text \<open>The file is at most as long as the size that is kept, which is where the next write goes.\<close>

definition log_ok :: "runtimeLogWriter \<Rightarrow> bool" where
  "log_ok writer \<longleftrightarrow> pos (log_file writer) = log_size writer \<and> length (content (log_file writer)) \<le> log_size writer \<and>
     log_size writer \<le> maximumRuntimeLogBytes"

lemma log_line_short: "length (log_line timestamp payload) \<le> maximumRuntimeLogBytes"
  unfolding log_line_def Let_def by (simp del: drop_append length_append)

lemma written_end:
  assumes "length (content w) \<le> pos w"
  shows "pos (written s w) = pos w + length s" "length (content (written s w)) \<le> pos w + length s"
    "s \<noteq> [] \<Longrightarrow> drop (pos w) (content (written s w)) = s"
  using assms by (auto simp: written_def put_at_def)

lemma log_Write_ok:
  assumes ok: "log_ok writer"
  shows "log_ok (snd (log_Write p timestamp payload writer))"
proof -
  let ?line = "log_line timestamp payload"
  let ?file = "log_file writer"
  have rest: "log_ok \<lparr>log_file = (written s f) \<lparr>calls := c\<rparr>, log_size = sz + length s\<rparr>"
    if "pos f = sz" "length (content f) \<le> sz" "sz + length s \<le> maximumRuntimeLogBytes" for f sz s c
    using written_end(1,2) [of f s] that by (simp add: log_ok_def)
  have w: "log_ok (snd (case file_Write p ?line f of
      Some (Inr (n, err), file) \<Rightarrow> (case err of Some e \<Rightarrow> Inl e | None \<Rightarrow> Inr (length payload), \<lparr>log_file = file, log_size = sz + n\<rparr>)
    | _ \<Rightarrow> (Inl 0, writer)))"
    if "pos f = sz" "length (content f) \<le> sz" "sz + length ?line \<le> maximumRuntimeLogBytes" for f sz
  proof (cases "p (calls f)")
    case (Some a)
    then show ?thesis using rest [OF that(1,2), of "take (fst a) ?line"] that(3) by (cases a) (simp add: file_Write_def)
  qed (use rest [OF that] in \<open>simp add: file_Write_def\<close>)
  show ?thesis
  proof (cases "maximumRuntimeLogBytes < log_size writer + length ?line")
    case True
    show ?thesis
      using True ok w [where sz = 0] log_line_short [of timestamp payload]
      by (auto simp: log_Write_def Let_def andThen_def io_run file_Truncate_def file_Seek_def file_call_def log_ok_def
          split: option.split)
  next
    case False
    then show ?thesis
      using ok w [of ?file "log_size writer"] by (simp add: log_Write_def Let_def io_run log_ok_def)
  qed
qed

lemma log_Writes_ok: "log_ok writer \<Longrightarrow> log_ok (log_Writes p ls writer)"
  by (induction p ls writer rule: log_Writes.induct) (simp_all add: log_Write_ok)

lemma openRuntimeLog_ok: "openRuntimeLog p openErr statErr existing = Inr writer \<Longrightarrow> log_ok writer"
  by (auto simp: openRuntimeLog_def Let_def andThen_def io_run file_Truncate_def file_Seek_def file_call_def log_ok_def
      split: option.splits if_splits)

text \<open>What a write that succeeds leaves at the end of the file.\<close>

lemma log_Write_line:
  assumes ok: "log_ok writer" and run: "log_Write p timestamp payload writer = (Inr n, writer')"
    and line: "log_line timestamp payload \<noteq> []"
  shows "n = length payload \<and> (\<exists>before. content (log_file writer') = before @ log_line timestamp payload)"
proof -
  let ?line = "log_line timestamp payload"
  have ends: "\<exists>before. content (written ?line f) = before @ ?line" if "length (content f) \<le> pos f" for f
    using written_end(3) [OF that line] by (metis append_take_drop_id)
  show ?thesis
  proof (cases "maximumRuntimeLogBytes < log_size writer + length ?line")
    case True
    then show ?thesis
      using run ends
      by (auto simp: log_Write_def Let_def andThen_def io_run file_Truncate_def file_Seek_def file_call_def file_Write_def
          split: option.splits)
  next
    case False
    then show ?thesis
      using run ok ends [of "log_file writer"]
      by (auto simp: log_Write_def Let_def io_run file_Write_def log_ok_def split: option.splits)
  qed
qed

section \<open>The metrics\<close>

record runtimeMetricsSnapshot =
  Version :: nat
  ReceivedBytes :: u64
  SentBytes :: u64
  LastHandshakeFileTime :: u64

text \<open>The addition of \<open>write\<close>: \<open>^uint64(0)\<close> when the sum would not fit.\<close>

definition saturating_add :: "u64 \<Rightarrow> u64 \<Rightarrow> u64" where
  "saturating_add a b = (if NOT 0 - a < b then NOT 0 else a + b)"

definition add_peer :: "driver_Peer \<Rightarrow> runtimeMetricsSnapshot \<Rightarrow> runtimeMetricsSnapshot" where
  "add_peer peer snapshot = snapshot
     \<lparr>ReceivedBytes := saturating_add (ReceivedBytes snapshot) (dp_RxBytes peer),
      SentBytes := saturating_add (SentBytes snapshot) (dp_TxBytes peer),
      LastHandshakeFileTime :=
        (if dp_LastHandshake peer > LastHandshakeFileTime snapshot then dp_LastHandshake peer else LastHandshakeFileTime snapshot)\<rparr>"

text \<open>The loop over the peers in the buffer of the driver, with the number of those to come and the pointer.\<close>

fun metrics_loop :: "byte list \<Rightarrow> nat \<Rightarrow> nat \<Rightarrow> runtimeMetricsSnapshot \<Rightarrow> runtimeMetricsSnapshot option" where
  "metrics_loop mem 0 peer snapshot = Some snapshot"
| "metrics_loop mem (Suc n) peer snapshot =
     (case load_struct Peer_size dec_Peer mem peer of
        None \<Rightarrow> None
      | Some x \<Rightarrow> metrics_loop mem n (NextPeer x peer) (add_peer x snapshot))"

definition metrics_snapshot :: "byte list \<Rightarrow> runtimeMetricsSnapshot option" where
  "metrics_snapshot mem =
     (case load_struct Interface_size dec_Interface mem 0 of
        None \<Rightarrow> None
      | Some i \<Rightarrow>
          metrics_loop mem (unat (di_PeerCount i)) (FirstPeer 0)
            \<lparr>Version = 1, ReceivedBytes = 0, SentBytes = 0, LastHandshakeFileTime = 0\<rparr>)"

text \<open>\<open>json.Marshal\<close> of the snapshot.\<close>

definition json_name :: "string \<Rightarrow> string" where
  "json_name n = [CHR 0x22] @ n @ [CHR 0x22, CHR '':'']"

definition json_Marshal :: "runtimeMetricsSnapshot \<Rightarrow> string" where
  "json_Marshal s =
     ''{'' @ json_name ''version'' @ strconv_Itoa (Version s) @ '','' @
     json_name ''receivedBytes'' @ strconv_Itoa (unat (ReceivedBytes s)) @ '','' @
     json_name ''sentBytes'' @ strconv_Itoa (unat (SentBytes s)) @ '','' @
     json_name ''lastHandshakeFileTime'' @ strconv_Itoa (unat (LastHandshakeFileTime s)) @ ''}''"

datatype metrics_error = DriverError nat | FileError nat | ExceededSizeLimit

text \<open>\<open>write\<close>, with the answer of \<open>adapter.Configuration()\<close>; it does not return a value when the driver's buffer is
  shorter than it says.\<close>

definition metrics_write :: "plan \<Rightarrow> nat + byte list \<Rightarrow> (os_file, metrics_error, unit) io" where
  "metrics_write p configuration =
     (case configuration of
        Inl err \<Rightarrow> raise (DriverError err)
      | Inr mem \<Rightarrow>
          (case metrics_snapshot mem of
             None \<Rightarrow> diverge
           | Some snapshot \<Rightarrow>
               let payload = json_Marshal snapshot;
                   file = (\<lambda>m. attempt m (\<lambda>r. lift_sum (map_sum FileError id r))) in
               andThen (file (file_Seek p 0)) (\<lambda>_.
               andThen (attempt (file_Write p payload) (\<lambda>r.
                   case r of
                     Inr (_, Some err) \<Rightarrow> raise (FileError err)
                   | Inr (_, None) \<Rightarrow> ret ()
                   | Inl err \<Rightarrow> raise (FileError err))) (\<lambda>_.
               andThen (file (file_Truncate p (length payload))) (\<lambda>_.
                 if 4096 < length payload then raise ExceededSizeLimit else ret ())))))"

text \<open>\<open>run\<close>: a write for each tick and one for the stop; a failure is logged when its message is another than the
  one before.\<close>

fun metrics_run :: "plan \<Rightarrow> (metrics_error \<Rightarrow> string) \<Rightarrow> (nat + byte list) list \<Rightarrow> string \<Rightarrow> os_file \<Rightarrow> (string list \<times> os_file) option" where
  "metrics_run p message [] lastFailure w = Some ([], w)"
| "metrics_run p message (c # cs) lastFailure w =
     (case metrics_write p c w of
        None \<Rightarrow> None
      | Some (Inl err, w') \<Rightarrow>
          map_option (apfst (\<lambda>logs. if message err \<noteq> lastFailure then message err # logs else logs))
            (metrics_run p message cs (if message err \<noteq> lastFailure then message err else lastFailure) w')
      | Some (Inr _, w') \<Rightarrow> metrics_run p message cs [] w')"

lemma saturating_add_min:
  "unat (saturating_add a b) = min (unat a + unat b) (2 ^ 64 - 1)"
proof -
  have l: "unat a < 2 ^ 64" "unat b < 2 ^ 64"
    using unsigned_less [of a, where 'a = nat] unsigned_less [of b, where 'a = nat] by simp_all
  have m: "unat (NOT 0 :: u64) = 2 ^ 64 - 1" by (simp add: unsigned_minus_1_eq_mask mask_eq_exp_minus_1)
  have "a \<le> NOT 0" by simp
  then have s: "unat (NOT 0 - a) = 2 ^ 64 - 1 - unat a" using m by (simp add: unat_sub)
  show ?thesis
  proof (cases "NOT 0 - a < b")
    case True
    then have "2 ^ 64 - 1 - unat a < unat b" using s by (simp add: word_less_nat_alt)
    then have "2 ^ 64 - 1 < unat a + unat b" using l by linarith
    then show ?thesis using True m by (simp add: saturating_add_def min_def)
  next
    case False
    then have "unat b \<le> 2 ^ 64 - 1 - unat a" using s by (simp add: word_less_nat_alt)
    then have "unat a + unat b < 2 ^ 64" using l by simp
    moreover then have "unat (a + b) = unat a + unat b" by (simp add: unat_word_ariths)
    ultimately show ?thesis using False by (simp add: saturating_add_def min_def)
  qed
qed

lemma fold_peers:
  "unat (ReceivedBytes (fold add_peer ps s)) = min (unat (ReceivedBytes s) + sum_list (map (unat \<circ> dp_RxBytes) ps)) (2 ^ 64 - 1)"
  "unat (SentBytes (fold add_peer ps s)) = min (unat (SentBytes s) + sum_list (map (unat \<circ> dp_TxBytes) ps)) (2 ^ 64 - 1)"
  "LastHandshakeFileTime (fold add_peer ps s) = Max (insert (LastHandshakeFileTime s) (dp_LastHandshake ` set ps))"
proof -
  have l: "unat a \<le> 2 ^ 64 - 1" for a :: u64 using unsigned_less [of a, where 'a = nat] by simp
  show "unat (ReceivedBytes (fold add_peer ps s)) = min (unat (ReceivedBytes s) + sum_list (map (unat \<circ> dp_RxBytes) ps)) (2 ^ 64 - 1)"
  proof (induction ps arbitrary: s)
    case (Cons p ps)
    then show ?case by (simp add: add_peer_def saturating_add_min)
  qed (use l in \<open>simp add: min_def\<close>)
  show "unat (SentBytes (fold add_peer ps s)) = min (unat (SentBytes s) + sum_list (map (unat \<circ> dp_TxBytes) ps)) (2 ^ 64 - 1)"
  proof (induction ps arbitrary: s)
    case (Cons p ps)
    then show ?case by (simp add: add_peer_def saturating_add_min)
  qed (use l in \<open>simp add: min_def\<close>)
  show "LastHandshakeFileTime (fold add_peer ps s) = Max (insert (LastHandshakeFileTime s) (dp_LastHandshake ` set ps))"
  proof (induction ps arbitrary: s)
    case (Cons p ps)
    have m: "LastHandshakeFileTime (add_peer p s) = max (LastHandshakeFileTime s) (dp_LastHandshake p)"
      by (auto simp: add_peer_def max_def)
    have "Max (insert (max a b) A) = Max (insert a (insert b A))" if "finite A" for a b :: u64 and A
      using that by (cases "A = {}") (simp_all add: max.assoc)
    then show ?case using Cons [of "add_peer p s"] m by simp
  qed simp
qed

text \<open>The bytes of a peer with its allowed addresses.\<close>

definition peer_block :: "driver_Peer \<times> driver_AllowedIP list \<Rightarrow> byte list" where
  "peer_block x = enc_Peer (fst x) @ concat (map enc_AllowedIP (snd x))"

definition ok_block :: "driver_Peer \<times> driver_AllowedIP list \<Rightarrow> bool" where
  "ok_block x \<longleftrightarrow> ok_Peer (fst x) \<and> list_all ok_AllowedIP (snd x) \<and> unat (dp_AllowedIPsCount (fst x)) = length (snd x)"

lemma length_peer_block: "ok_block x \<Longrightarrow> length (peer_block x) = Peer_size + length (snd x) * AllowedIP_size"
proof -
  have "list_all ok_AllowedIP as \<Longrightarrow> length (concat (map enc_AllowedIP as)) = length as * AllowedIP_size" for as
    by (induction as) (simp_all add: AllowedIP.enc_length)
  then show "ok_block x \<Longrightarrow> length (peer_block x) = Peer_size + length (snd x) * AllowedIP_size"
    by (simp add: ok_block_def peer_block_def Peer.enc_length)
qed

lemma metrics_loop_run:
  assumes "list_all ok_block ps" "mem = pre @ concat (map peer_block ps) @ post" "off = length pre"
  shows "metrics_loop mem (length ps) off s = Some (fold add_peer (map fst ps) s)"
  using assms
proof (induction ps arbitrary: pre off s)
  case (Cons x ps)
  have ok: "ok_block x" "ok_Peer (fst x)" using Cons.prems(1) by (simp_all add: ok_block_def)
  have "load_struct Peer_size dec_Peer mem off = Some (fst x)"
    by (rule Peer.load_enc [OF ok(2), where pre = pre])
      (use Cons.prems(2,3) in \<open>simp_all add: peer_block_def [of x]\<close>)
  moreover have "metrics_loop mem (length ps) (NextPeer (fst x) off) (add_peer (fst x) s) =
      Some (fold add_peer (map fst ps) (add_peer (fst x) s))"
    by (rule Cons.IH [where pre = "pre @ peer_block x"])
      (use Cons.prems ok in \<open>simp_all add: NextPeer_def length_peer_block ok_block_def\<close>)
  ultimately show ?case by simp
qed simp

lemma length_json: "Version s = 1 \<Longrightarrow> length (json_Marshal s) \<le> 4096"
proof -
  assume v: "Version s = 1"
  have "length (strconv_Itoa (unat x)) \<le> Suc 19" for x :: u64
    using unsigned_less [of x, where 'a = nat] by (intro length_Itoa) simp
  note l = this [of "ReceivedBytes s"] this [of "SentBytes s"] this [of "LastHandshakeFileTime s"]
  have "length (strconv_Itoa 1) \<le> Suc 0" by (rule length_Itoa) simp
  then show ?thesis using v l by (simp add: json_Marshal_def json_name_def)
qed

lemma fold_peers_Version: "Version (fold add_peer ps s) = Version s"
  by (induction ps arbitrary: s) (simp_all add: add_peer_def)

lemma metrics_snapshot_run:
  assumes "ok_Interface i" "unat (di_PeerCount i) = length ps" "list_all ok_block ps"
    and mem: "mem = enc_Interface i @ concat (map peer_block ps) @ post"
  shows "metrics_snapshot mem = Some (fold add_peer (map fst ps)
    \<lparr>Version = 1, ReceivedBytes = 0, SentBytes = 0, LastHandshakeFileTime = 0\<rparr>)"
proof -
  have "load_struct Interface_size dec_Interface mem 0 = Some i"
    by (rule Interface.load_enc [OF assms(1), where pre = "[]"]) (use mem in simp_all)
  moreover have "metrics_loop mem (length ps) (FirstPeer 0) s = Some (fold add_peer (map fst ps) s)" for s
    by (rule metrics_loop_run [OF assms(3) mem]) (use assms(1) in \<open>simp add: FirstPeer_def Interface.enc_length\<close>)
  ultimately show ?thesis using assms(2) by (simp add: metrics_snapshot_def)
qed

text \<open>A write of the metrics that comes to its end leaves the document alone in the file.\<close>

lemma metrics_write_file:
  assumes "metrics_snapshot mem = Some s" "Version s = 1"
  obtains w' r where "metrics_write p (Inr mem) w = Some (r, w')" "r \<noteq> Inl ExceededSizeLimit"
    "r = Inr () \<longrightarrow> content w' = json_Marshal s"
proof -
  have j: "json_Marshal s \<noteq> []" by (simp add: json_Marshal_def)
  show thesis
    using that assms(1) length_json [OF assms(2)] j
    by (fastforce simp: metrics_write_def Let_def andThen_def attempt_def io_run file_Truncate_def file_Seek_def file_call_def
        file_Write_def written_def put_at_def split: option.splits)
qed

section \<open>What the files hold\<close>

text \<open>C18: Whatever the log held before, whatever is logged and whichever calls on the file fail in between, also in the
  middle of a line: once the log is open its file is never longer than two megabytes, and a line whose write succeeds is
  complete at the end of the file (its last two megabytes, when it is longer), with the length of the payload as the
  result.\<close>

theorem runtimeLog_bounded:
  assumes "openRuntimeLog p openErr statErr existing = Inr writer" and "timestamp \<noteq> []"
  shows "length (content (log_file (log_Writes p ls writer))) \<le> 2 * 1024 * 1024 \<and>
    (case log_Write p timestamp payload (log_Writes p ls writer) of
       (Inl _, _) \<Rightarrow> True
     | (Inr n, writer') \<Rightarrow> n = length payload \<and> (\<exists>before. content (log_file writer') = before @ log_line timestamp payload))"
proof
  have ok: "log_ok (log_Writes p ls writer)" by (intro log_Writes_ok openRuntimeLog_ok [OF assms(1)])
  then show "length (content (log_file (log_Writes p ls writer))) \<le> 2 * 1024 * 1024"
    by (simp add: log_ok_def maximumRuntimeLogBytes_def)
  have "log_line timestamp payload \<noteq> []" using assms(2) by (auto simp: log_line_def Let_def maximumRuntimeLogBytes_def)
  then show "case log_Write p timestamp payload (log_Writes p ls writer) of
       (Inl _, _) \<Rightarrow> True
     | (Inr n, writer') \<Rightarrow> n = length payload \<and> (\<exists>before. content (log_file writer') = before @ log_line timestamp payload)"
    using log_Write_line [OF ok] by (simp split: prod.split sum.split)
qed

theorem runtimeLog_bounded_witness:
  "openRuntimeLog (\<lambda>n. if n = 1 then Some (2, 5) else None) None None ''old'' =
     Inr \<lparr>log_file = \<lparr>content = ''old'', pos = 3, calls = 1\<rparr>, log_size = 3\<rparr> \<and>
   content (log_file (snd (log_Write (\<lambda>n. if n = 1 then Some (2, 5) else None) ''12:00 '' ''tunnel up''
     (log_Writes (\<lambda>n. if n = 1 then Some (2, 5) else None) [(''11:59 '', ''lost'')]
       \<lparr>log_file = \<lparr>content = ''old'', pos = 3, calls = 1\<rparr>, log_size = 3\<rparr>)))) = ''old1112:00 tunnel up'' \<and>
   length (content (log_file (log_Writes (\<lambda>n. if n = 1 then Some (2, 5) else None) [(''11:59 '', ''lost'')]
       \<lparr>log_file = \<lparr>content = ''old'', pos = 3, calls = 1\<rparr>, log_size = 3\<rparr>))) \<le> 2 * 1024 * 1024"
proof -
  let ?p = "\<lambda>n. if n = 1 then Some (2, 5) else None :: (nat \<times> nat) option"
  let ?writer = "\<lparr>log_file = \<lparr>content = ''old'', pos = 3, calls = 1\<rparr>, log_size = 3\<rparr>"
  have o: "openRuntimeLog ?p None None ''old'' = Inr ?writer"
    by (simp add: openRuntimeLog_def maximumRuntimeLogBytes_def io_run file_Seek_def file_call_def)
  have "content (log_file (snd (log_Write ?p ''12:00 '' ''tunnel up'' (log_Writes ?p [(''11:59 '', ''lost'')] ?writer)))) =
      ''old1112:00 tunnel up''"
    by (simp add: log_Write_def log_line_def maximumRuntimeLogBytes_def io_run file_Write_def written_def put_at_def)
  moreover have "length (content (log_file (log_Writes ?p [(''11:59 '', ''lost'')] ?writer))) \<le> 2 * 1024 * 1024"
    using runtimeLog_bounded [OF o, of "''12:00 ''" "[(''11:59 '', ''lost'')]" "''tunnel up''"] by simp
  ultimately show ?thesis using o by blast
qed

text \<open>C17: The metrics of a running tunnel, read from the buffer that the driver fills with the interface and its peers,
  each with its allowed addresses behind it: the write ends with success or with an error of the file, never with the
  error of the size limit, and after a success the file holds exactly the document with the bytes received and sent by all
  peers, at most the largest unsigned number of 64 bits (the sums do not wrap around), and the latest handshake.\<close>

theorem metrics_write_sums:
  assumes "ok_Interface i" "unat (di_PeerCount i) = length ps" "list_all ok_block ps"
  shows "\<exists>r w' s. metrics_write p (Inr (enc_Interface i @ concat (map peer_block ps) @ post)) w = Some (r, w') \<and>
    r \<noteq> Inl ExceededSizeLimit \<and> (r = Inr () \<longrightarrow> content w' = json_Marshal s) \<and> Version s = 1 \<and>
    unat (ReceivedBytes s) = min (\<Sum>x\<leftarrow>ps. unat (dp_RxBytes (fst x))) (2 ^ 64 - 1) \<and>
    unat (SentBytes s) = min (\<Sum>x\<leftarrow>ps. unat (dp_TxBytes (fst x))) (2 ^ 64 - 1) \<and>
    LastHandshakeFileTime s = Max (insert 0 ((dp_LastHandshake \<circ> fst) ` set ps))"
proof -
  let ?mem = "enc_Interface i @ concat (map peer_block ps) @ post"
  let ?s = "fold add_peer (map fst ps) \<lparr>Version = 1, ReceivedBytes = 0, SentBytes = 0, LastHandshakeFileTime = 0\<rparr>"
  have s: "metrics_snapshot ?mem = Some ?s" "Version ?s = 1"
    using metrics_snapshot_run [OF assms refl] by (simp_all add: fold_peers_Version)
  obtain w' r where "metrics_write p (Inr ?mem) w = Some (r, w')" "r \<noteq> Inl ExceededSizeLimit"
      "r = Inr () \<longrightarrow> content w' = json_Marshal ?s"
    by (rule metrics_write_file [OF s])
  then show ?thesis
    using s(2) by (intro exI [of _ r] exI [of _ w'] exI [of _ ?s]) (simp add: fold_peers comp_def image_image)
qed

text \<open>Two peers, of which the first has received all but one of the bytes that can be counted.\<close>

definition sample_peer :: "u64 \<Rightarrow> u64 \<Rightarrow> driver_Peer" where
  "sample_peer received handshake =
     \<lparr>dp_Flags = 0, dp_PublicKey = replicate 32 7, dp_PresharedKey = replicate 32 0, dp_PersistentKeepalive = 0,
      dp_Endpoint = \<lparr>Family = 2, sa_data = replicate 26 0\<rparr>, dp_TxBytes = 3, dp_RxBytes = received,
      dp_LastHandshake = handshake, dp_AllowedIPsCount = 1\<rparr>"

definition sample_peers :: "(driver_Peer \<times> driver_AllowedIP list) list" where
  "sample_peers =
     (let ip = \<lparr>da_Address = replicate 16 0, da_AddressFamily = 2, da_Cidr = 0, da_Flags = 0\<rparr> in
      [(sample_peer 18446744073709551614 5, [ip]), (sample_peer 40 9, [ip])])"

definition sample_interface :: driver_Interface where
  "sample_interface = \<lparr>di_Flags = 0, di_ListenPort = 51820, di_PrivateKey = replicate 32 1, di_PublicKey = replicate 32 2,
     di_PeerCount = 2\<rparr>"

theorem metrics_write_sums_witness:
  "\<exists>r w' (s :: runtimeMetricsSnapshot). metrics_write (\<lambda>_. None) (Inr (enc_Interface sample_interface @ concat (map peer_block sample_peers) @ []))
      \<lparr>content = [], pos = 0, calls = 0\<rparr> = Some (r, w') \<and> r \<noteq> Inl ExceededSizeLimit \<and> Version s = 1 \<and>
    unat (ReceivedBytes s) = 18446744073709551615 \<and> unat (SentBytes s) = 6 \<and> LastHandshakeFileTime s = 9"
proof -
  have ok: "ok_Interface sample_interface" "unat (di_PeerCount sample_interface) = length sample_peers"
      "list_all ok_block sample_peers"
    by (simp_all add: sample_interface_def sample_peers_def Let_def sample_peer_def ok_Interface_def ok_block_def ok_Peer_def
        ok_AllowedIP_def)
  have sums: "min (\<Sum>x\<leftarrow>sample_peers. unat (dp_RxBytes (fst x))) (2 ^ 64 - 1) = 18446744073709551615"
      "min (\<Sum>x\<leftarrow>sample_peers. unat (dp_TxBytes (fst x))) (2 ^ 64 - 1) = 6"
      "Max (insert 0 ((dp_LastHandshake \<circ> fst) ` set sample_peers)) = 9"
    by (simp_all add: sample_peers_def Let_def sample_peer_def)
  show ?thesis
    using metrics_write_sums [OF ok, of "\<lambda>_. None" "[]" "\<lparr>content = [], pos = 0, calls = 0\<rparr>"] unfolding sums by blast
qed

end
