(* ===== verification/Conf_Resolve.thy ===== *)
theory Conf_Resolve
  imports Winipcfg
begin

text \<open>
  The endpoints of the peers become addresses (\<open>conf/dnsresolver_windows.go\<close>).  The name service is a parameter; the
  loop over the attempts is recursion over those left.
\<close>

section \<open>One name\<close>

definition WSAHOST_NOT_FOUND :: nat where "WSAHOST_NOT_FOUND = 11001"

definition WSATRY_AGAIN :: nat where "WSATRY_AGAIN = 11002"

text \<open>A result of \<open>GetAddrInfoW\<close>: its family and its socket address.\<close>

type_synonym 's resolver = "string \<Rightarrow> 's \<Rightarrow> (nat + (u16 \<times> RawSockaddrInet) list) \<times> 's"

text \<open>The loop over the results, with the first IPv6 address so far.\<close>

fun pick_result :: "(u16 \<times> RawSockaddrInet) list \<Rightarrow> addr \<Rightarrow> string option" where
  "pick_result [] v6 = (if v6 \<noteq> AddrZero then Some (addr_String v6) else None)"
| "pick_result ((family, sa) # result) v6 =
     (if family \<noteq> AF_INET \<and> family \<noteq> AF_INET6 then pick_result result v6
      else let addr = sockaddr_Addr sa in
        if Is4 addr then Some (addr_String addr)
        else if v6 = AddrZero \<and> Is6 addr then pick_result result addr
        else pick_result result v6)"

definition resolveHostnameOnce :: "'s resolver \<Rightarrow> string \<Rightarrow> ('s, string) net" where
  "resolveHostnameOnce getAddrInfo name =
     andThen (UTF16PtrFromString name) (\<lambda>name16.
     andThen (sys (getAddrInfo name16)) (\<lambda>result.
       if result = [] then raise (Win WSAHOST_NOT_FOUND)
       else (case pick_result result AddrZero of
               Some s \<Rightarrow> ret s
             | None \<Rightarrow> raise (Win WSAHOST_NOT_FOUND))))"

text \<open>Which failures are tried again.\<close>

definition try_again :: "bool \<Rightarrow> net_error \<Rightarrow> bool" where
  "try_again atBoot err \<longleftrightarrow> err = Win WSATRY_AGAIN \<or> err = Win WSAHOST_NOT_FOUND \<and> atBoot"

fun resolve_loop :: "nat \<Rightarrow> 's resolver \<Rightarrow> bool \<Rightarrow> string \<Rightarrow> net_error + string \<Rightarrow> ('s, string) net" where
  "resolve_loop 0 getAddrInfo atBoot name last_result = lift_sum last_result"
| "resolve_loop (Suc n) getAddrInfo atBoot name last_result =
     attempt (resolveHostnameOnce getAddrInfo name) (\<lambda>r.
       case r of
         Inr s \<Rightarrow> ret s
       | Inl err \<Rightarrow> if try_again atBoot err then resolve_loop n getAddrInfo atBoot name (Inl err) else raise err)"

definition resolveHostname :: "'s resolver \<Rightarrow> bool \<Rightarrow> string \<Rightarrow> ('s, string) net" where
  "resolveHostname getAddrInfo atBoot name =
     resolve_loop (if atBoot then 10 * 3 else 10) getAddrInfo atBoot name (Inr [])"

section \<open>A configuration\<close>

text \<open>The peers with the error that ended the loop, if there was one; the host of that peer is empty then.\<close>

fun resolve_peers :: "'s resolver \<Rightarrow> bool \<Rightarrow> Peer list \<Rightarrow> ('s, net_error option \<times> Peer list) net" where
  "resolve_peers getAddrInfo atBoot [] = ret (None, [])"
| "resolve_peers getAddrInfo atBoot (p # ps) =
     (if Endpoint_IsEmpty (peer_Endpoint p)
      then andThen (resolve_peers getAddrInfo atBoot ps) (\<lambda>(err, qs). ret (err, p # qs))
      else attempt (resolveHostname getAddrInfo atBoot (Host (peer_Endpoint p))) (\<lambda>r.
        case r of
          Inl err \<Rightarrow> ret (Some err, p \<lparr>peer_Endpoint := (peer_Endpoint p) \<lparr>Host := []\<rparr>\<rparr> # ps)
        | Inr s \<Rightarrow> andThen (resolve_peers getAddrInfo atBoot ps) (\<lambda>(err, qs).
            ret (err, p \<lparr>peer_Endpoint := (peer_Endpoint p) \<lparr>Host := s\<rparr>\<rparr> # qs))))"

definition ResolveEndpoints :: "'s resolver \<Rightarrow> bool \<Rightarrow> Config \<Rightarrow> ('s, net_error option \<times> Config) net" where
  "ResolveEndpoints getAddrInfo atBoot config =
     andThen (resolve_peers getAddrInfo atBoot (Peers config)) (\<lambda>(err, ps). ret (err, config \<lparr>Peers := ps\<rparr>))"

section \<open>Which address is picked\<close>

definition usable :: "(u16 \<times> RawSockaddrInet) list \<Rightarrow> addr list" where
  "usable result = map (sockaddr_Addr \<circ> snd) (filter (\<lambda>(family, _). family = AF_INET \<or> family = AF_INET6) result)"

text \<open>The first IPv4 address, or the first IPv6 address when there is none.\<close>

definition preferred :: "addr list \<Rightarrow> addr option" where
  "preferred as = (case find Is4 as of Some a \<Rightarrow> Some a | None \<Rightarrow> find Is6 as)"

lemma pick_result_preferred:
  "pick_result result v6 = map_option addr_String
     (case find Is4 (usable result) of
        Some a \<Rightarrow> Some a
      | None \<Rightarrow> if v6 \<noteq> AddrZero then Some v6 else find Is6 (usable result))"
proof (induction result v6 rule: pick_result.induct)
  case (2 family sa result v6)
  have u: "usable ((family, sa) # result) = (if family \<noteq> AF_INET \<and> family \<noteq> AF_INET6 then usable result
      else sockaddr_Addr sa # usable result)" by (simp add: usable_def)
  have z: "Is6 a \<Longrightarrow> a \<noteq> AddrZero" for a by auto
  show ?case
  proof (cases "family \<noteq> AF_INET \<and> family \<noteq> AF_INET6")
    case False
    then show ?thesis
      using 2(2,3) [OF False refl] z [of "sockaddr_Addr sa"]
      by (cases "Is4 (sockaddr_Addr sa)"; cases "v6 = AddrZero \<and> Is6 (sockaddr_Addr sa)")
        (auto simp: u Let_def split: option.split)
  qed (use 2(1) u in \<open>simp cong: option.case_cong\<close>)
qed (simp add: usable_def)

lemma preferred_not_zero: "preferred as = Some a \<Longrightarrow> a \<noteq> AddrZero \<and> a \<in> set as"
  by (auto simp: preferred_def find_Some_iff split: option.splits)

text \<open>A call that succeeds was answered with results, of which it took the preferred address.\<close>

definition answered :: "'s resolver \<Rightarrow> string \<Rightarrow> addr \<Rightarrow> bool" where
  "answered getAddrInfo name a \<longleftrightarrow>
     (\<exists>s result s'. getAddrInfo name s = (Inr result, s') \<and> preferred (usable result) = Some a)"

lemma map_sum_InrE: "map_sum f id x = Inr y \<Longrightarrow> (x = Inr y \<Longrightarrow> P) \<Longrightarrow> P"
  by (cases x) simp_all

lemma resolveHostnameOnce_answered:
  assumes "resolveHostnameOnce g name s = Some (Inr ip, s')"
  shows "\<exists>a. ip = addr_String a \<and> a \<noteq> AddrZero \<and> answered g name a"
proof -
  obtain result where g: "g name s = (Inr result, s')" and p: "pick_result result AddrZero = Some ip"
    using assms
    by (auto simp: resolveHostnameOnce_def UTF16PtrFromString_def sys_def andThen_def io_run
        split: if_splits option.splits sum.splits prod.splits elim!: map_sum_InrE)
  from p obtain a where a: "preferred (usable result) = Some a" "ip = addr_String a"
    by (auto simp: pick_result_preferred preferred_def split: option.splits)
  with g preferred_not_zero [OF a(1)] show ?thesis by (auto simp: answered_def)
qed

lemma resolve_loop_answered:
  assumes "resolve_loop n g atBoot name l s = Some (Inr ip, s')" and "0 < n \<or> isl l"
  shows "\<exists>a. ip = addr_String a \<and> a \<noteq> AddrZero \<and> answered g name a"
  using assms
proof (induction n arbitrary: l s)
  case (Suc n)
  then show ?case
    by (auto simp: attempt_def io_run split: option.splits sum.splits if_splits dest: resolveHostnameOnce_answered)
qed (auto simp: io_run)

lemma resolveHostname_answered:
  assumes "resolveHostname g atBoot name s = Some (Inr ip, s')"
  shows "\<exists>a. ip = addr_String a \<and> a \<noteq> AddrZero \<and> answered g name a"
  using resolve_loop_answered [OF assms [unfolded resolveHostname_def]] by simp

text \<open>What becomes of one peer.\<close>

definition resolved :: "'s resolver \<Rightarrow> Peer \<Rightarrow> Peer \<Rightarrow> bool" where
  "resolved g p q \<longleftrightarrow>
     (if Endpoint_IsEmpty (peer_Endpoint p) then q = p
      else \<exists>a. answered g (Host (peer_Endpoint p)) a \<and> ParseAddr (Host (peer_Endpoint q)) = Some a \<and>
        q = p \<lparr>peer_Endpoint := (peer_Endpoint p) \<lparr>Host := addr_String a\<rparr>\<rparr>)"

lemma resolve_peers_resolved:
  "resolve_peers g atBoot ps s = Some (Inr (None, qs), s') \<Longrightarrow> list_all2 (resolved g) ps qs"
proof (induction ps arbitrary: qs s)
  case (Cons p ps)
  show ?case
  proof (cases "Endpoint_IsEmpty (peer_Endpoint p)")
    case True
    with Cons.prems obtain qs' where q: "resolve_peers g atBoot ps s = Some (Inr (None, qs'), s')" "qs = p # qs'"
      by (auto simp: andThen_def io_run split: option.splits sum.splits)
    have "resolved g p p" using True by (simp add: resolved_def)
    with q Cons.IH show ?thesis by simp
  next
    case False
    with Cons.prems obtain ip s1 qs' where
      r: "resolveHostname g atBoot (Host (peer_Endpoint p)) s = Some (Inr ip, s1)"
        "resolve_peers g atBoot ps s1 = Some (Inr (None, qs'), s')"
        "qs = p \<lparr>peer_Endpoint := (peer_Endpoint p) \<lparr>Host := ip\<rparr>\<rparr> # qs'"
      by (auto simp: andThen_def attempt_def io_run split: option.splits sum.splits)
    from resolveHostname_answered [OF r(1)] obtain a where
      "ip = addr_String a" "a \<noteq> AddrZero" "answered g (Host (peer_Endpoint p)) a" by blast
    with False r(3) Cons.IH [OF r(2)] ParseAddr_String [of a] show ?thesis by (auto simp: resolved_def)
  qed
qed (auto simp: io_run)

section \<open>It returns\<close>

lemma resolveHostnameOnce_some: "resolveHostnameOnce g name s \<noteq> None"
  by (auto simp: resolveHostnameOnce_def UTF16PtrFromString_def sys_def andThen_def io_run
      split: if_splits option.splits sum.splits prod.splits)

lemma resolve_loop_some: "resolve_loop n g atBoot name l s \<noteq> None"
  by (induction n arbitrary: l s)
    (use resolveHostnameOnce_some in \<open>auto simp: attempt_def io_run split: option.splits sum.splits if_splits\<close>)

lemma resolve_peers_some: "\<exists>r s'. resolve_peers g atBoot ps s = Some (Inr r, s')"
proof (induction ps arbitrary: s)
  case (Cons p ps)
  obtain r1 s1 where 1: "resolveHostname g atBoot (Host (peer_Endpoint p)) s = Some (r1, s1)"
    using resolve_loop_some unfolding resolveHostname_def by fastforce
  obtain r2 s2 where 2: "resolve_peers g atBoot ps s1 = Some (Inr r2, s2)" using Cons by blast
  obtain r3 s3 where 3: "resolve_peers g atBoot ps s = Some (Inr r3, s3)" using Cons by blast
  show ?case using 1 2 3 by (cases r1) (auto simp: andThen_def attempt_def io_run split: prod.split)
qed (simp add: io_run)

section \<open>The endpoints that the driver gets\<close>

text \<open>C16: \<open>ResolveEndpoints\<close> always returns.  When it returns no error, every peer is as before but for the host of
  its endpoint: where there is one, it is now the text of the first IPv4 address, or else the first IPv6 address, of an
  answer for the name that was there, and the driver's \<open>netip.ParseAddr\<close> reads this very address from it, so that no
  endpoint is dropped on the way to the driver.\<close>

theorem ResolveEndpoints_resolved:
  "\<exists>err config' s'. ResolveEndpoints g atBoot config s = Some (Inr (err, config'), s') \<and>
    (err = None \<longrightarrow> config' = config \<lparr>Peers := Peers config'\<rparr> \<and> list_all2 (resolved g) (Peers config) (Peers config'))"
proof -
  obtain err ps s' where r: "resolve_peers g atBoot (Peers config) s = Some (Inr (err, ps), s')"
    using resolve_peers_some [of g atBoot "Peers config" s] by auto
  have "list_all2 (resolved g) (Peers config) ps" if "err = None"
    by (rule resolve_peers_resolved) (use r that in simp)
  moreover have "ResolveEndpoints g atBoot config s = Some (Inr (err, config \<lparr>Peers := ps\<rparr>), s')"
    using r by (simp add: ResolveEndpoints_def andThen_def io_run)
  ultimately show ?thesis
    by (intro exI [of _ err] exI [of _ "config \<lparr>Peers := ps\<rparr>"] exI [of _ s']) simp
qed

text \<open>A name that is found at the second attempt, with an IPv6 address before the IPv4 address.\<close>

definition name_service :: "nat resolver" where
  "name_service name n =
     (if n = 0 then (Inl WSATRY_AGAIN, 1)
      else (Inr [(AF_INET6, \<lparr>Family = AF_INET6, sa_data = replicate 26 1\<rparr>),
        (AF_INET, \<lparr>Family = AF_INET, sa_data = [0, 0, 192, 0, 2, 7] @ replicate 20 0\<rparr>)], n + 1))"

definition vpn_conf :: Config where
  "vpn_conf = \<lparr>Name = ''vpn'', config_Interface = zero_Interface,
     Peers = [zero_Peer, zero_Peer \<lparr>peer_Endpoint := \<lparr>Host = ''vpn.example'', Port = 51820\<rparr>\<rparr>], TrailingComments = []\<rparr>"


lemma name_service_picks:
  "pick_result [(AF_INET6, \<lparr>Family = AF_INET6, sa_data = replicate 26 1\<rparr>),
     (AF_INET, \<lparr>Family = AF_INET, sa_data = [0, 0, 192, 0, 2, 7] @ replicate 20 0\<rparr>)] AddrZero = Some ''192.0.2.7''"
proof -
  have "sockaddr_Addr \<lparr>Family = AF_INET, sa_data = [0, 0, 192, 0, 2, 7] @ replicate 20 0\<rparr> = Addr4 0xc0000207" by code_simp
  moreover have "addr_String (Addr4 0xc0000207) = ''192.0.2.7''" by code_simp
  moreover have "Is6 (sockaddr_Addr \<lparr>Family = AF_INET6, sa_data = replicate 26 1\<rparr>)"
    "\<not> Is4 (sockaddr_Addr \<lparr>Family = AF_INET6, sa_data = replicate 26 1\<rparr>)"
    by (simp_all add: sockaddr_Addr_def AF_INET_def AF_INET6_def Let_def)
  ultimately show ?thesis by (simp only: pick_result.simps Let_def) simp
qed

lemma name_service_run: "resolveHostname name_service False ''vpn.example'' 0 = Some (Inr ''192.0.2.7'', 2)"
proof -
  have "resolveHostnameOnce name_service ''vpn.example'' 0 = Some (Inl (Win WSATRY_AGAIN), 1)"
    by (simp add: resolveHostnameOnce_def UTF16PtrFromString_def andThen_def io_run sys_def name_service_def)
  moreover have "resolveHostnameOnce name_service ''vpn.example'' 1 = Some (Inr ''192.0.2.7'', 2)"
    using name_service_picks
    by (simp add: resolveHostnameOnce_def UTF16PtrFromString_def andThen_def io_run sys_def name_service_def del: pick_result.simps)
  ultimately show ?thesis
    by (simp add: resolveHostname_def numeral_eq_Suc attempt_def io_run try_again_def)
qed

theorem ResolveEndpoints_resolved_witness:
  "\<exists>c s'. ResolveEndpoints name_service False vpn_conf 0 = Some (Inr (None, c), s') \<and>
     map (Host \<circ> peer_Endpoint) (Peers c) = [[], ''192.0.2.7''] \<and>
     list_all2 (resolved name_service) (Peers vpn_conf) (Peers c)"
proof -
  have r: "\<exists>c. ResolveEndpoints name_service False vpn_conf 0 = Some (Inr (None, c), 2) \<and>
      map (Host \<circ> peer_Endpoint) (Peers c) = [[], ''192.0.2.7'']"
    using name_service_run
    by (simp add: ResolveEndpoints_def vpn_conf_def Endpoint_IsEmpty_def zero_Peer_def zero_Endpoint_def andThen_def attempt_def io_run)
  from ResolveEndpoints_resolved [of name_service False vpn_conf 0] obtain err c s' where
    c: "ResolveEndpoints name_service False vpn_conf 0 = Some (Inr (err, c), s')"
      "err = None \<longrightarrow> list_all2 (resolved name_service) (Peers vpn_conf) (Peers c)" by blast
  with r show ?thesis by auto
qed

end
