(* ===== verification/Tunnel_Guid.thy ===== *)
theory Tunnel_Guid
  imports Conf_Config Go_Bytes "HOL-Library.Multiset"
begin

text \<open>
  The GUID of a tunnel's adapter (\<open>tunnel/deterministicguid.go\<close>): the first bytes of a hash of the configuration's
  identity.  The hash, the normal form of Unicode, the public key of a private key and \<open>sort.Slice\<close>, which is not
  stable, are parameters.
\<close>

section \<open>The order of peers and of allowed addresses\<close>

fun bytes_Compare :: "byte list \<Rightarrow> byte list \<Rightarrow> int" where
  "bytes_Compare [] [] = 0"
| "bytes_Compare [] (b # bs) = - 1"
| "bytes_Compare (a # as) [] = 1"
| "bytes_Compare (a # as) (b # bs) = (if a < b then - 1 else if b < a then 1 else bytes_Compare as bs)"

fun strings_Compare :: "string \<Rightarrow> string \<Rightarrow> int" where
  "strings_Compare [] [] = 0"
| "strings_Compare [] (b # bs) = - 1"
| "strings_Compare (a # as) [] = 1"
| "strings_Compare (a # as) (b # bs) = (if code a < code b then - 1 else if code b < code a then 1 else strings_Compare as bs)"

text \<open>\<open>netip.Addr.Compare\<close>: the length, the bits, and for IPv6 the zone.\<close>

fun addr_Compare :: "addr \<Rightarrow> addr \<Rightarrow> int" where
  "addr_Compare (Addr4 a) (Addr4 b) = (if a < b then - 1 else if b < a then 1 else 0)"
| "addr_Compare (Addr6 a z) (Addr6 b y) = (if a < b then - 1 else if b < a then 1 else strings_Compare z y)"
| "addr_Compare a b = (if BitLen a < BitLen b then - 1 else if BitLen b < BitLen a then 1 else 0)"

definition peer_less :: "Peer \<Rightarrow> Peer \<Rightarrow> bool" where
  "peer_less p q \<longleftrightarrow> bytes_Compare (PublicKey p) (PublicKey q) < 0"

definition allowed_less :: "prefix \<Rightarrow> prefix \<Rightarrow> bool" where
  "allowed_less p q \<longleftrightarrow>
     (let bi = BitLen (prefix_Addr p); bj = BitLen (prefix_Addr q) in
      if bi \<noteq> bj then bi < bj
      else if Bits p \<noteq> Bits q then Bits p < Bits q
      else addr_Compare (prefix_Addr p) (prefix_Addr q) < 0)"

section \<open>The hash\<close>

text \<open>\<open>deterministicGUIDLabel\<close> and \<open>fixedGUIDLabel\<close>.\<close>

definition deterministicGUIDLabel :: string where
  "deterministicGUIDLabel = ''Deterministic WireGuard Windows GUID v1 jason@zx2c4.com''"

definition fixedGUIDLabel :: string where
  "fixedGUIDLabel = ''Fixed WireGuard Windows GUID v1 jason@zx2c4.com''"

record guid_env =
  blake2s_Sum256 :: "byte list \<Rightarrow> byte list"
  NFC :: "string \<Rightarrow> string"
  key_Public :: "Key \<Rightarrow> Key"
  sort_peers :: "Peer list \<Rightarrow> Peer list"
  sort_allowed :: "prefix list \<Rightarrow> prefix list"
  UseFixedGUIDInsteadOfDeterministic :: bool

definition string_bytes :: "string \<Rightarrow> byte list" where
  "string_bytes = map (\<lambda>c. of_nat (code c))"

text \<open>What is written to the hash; \<^const>\<open>None\<close> is the panic of a length that does not fit.\<close>

definition b2Number :: "nat \<Rightarrow> byte list option" where
  "b2Number i = (if i > 2 ^ 32 - 1 then None else Some (le_bytes 4 i))"

definition b2String :: "guid_env \<Rightarrow> string \<Rightarrow> byte list option" where
  "b2String e s =
     (let bytes = string_bytes (NFC e s) in
      case b2Number (length bytes) of None \<Rightarrow> None | Some n \<Rightarrow> Some (n @ bytes))"

text \<open>Writes one after the other.\<close>

fun b2_all :: "byte list option list \<Rightarrow> byte list option" where
  "b2_all [] = Some []"
| "b2_all (None # ws) = None"
| "b2_all (Some w # ws) = (case b2_all ws of None \<Rightarrow> None | Some v \<Rightarrow> Some (w @ v))"

definition b2Peer :: "guid_env \<Rightarrow> Peer \<Rightarrow> byte list option" where
  "b2Peer e peer =
     b2_all (Some (PublicKey peer) # b2Number (length (AllowedIPs peer)) #
       map (\<lambda>allowedip. b2String e (prefix_String allowedip)) (sort_allowed e (AllowedIPs peer)))"

definition guid_input :: "guid_env \<Rightarrow> Config \<Rightarrow> byte list option" where
  "guid_input e c =
     b2_all (Some (string_bytes (if \<not> UseFixedGUIDInsteadOfDeterministic e then deterministicGUIDLabel else fixedGUIDLabel)) #
       b2String e (Name c) #
       (if \<not> UseFixedGUIDInsteadOfDeterministic e
        then Some (key_Public e (PrivateKey (config_Interface c))) # b2Number (length (Peers c)) #
          map (b2Peer e) (sort_peers e (Peers c))
        else []))"

text \<open>The GUID is the first sixteen bytes of the hash.\<close>

definition deterministicGUID :: "guid_env \<Rightarrow> Config \<Rightarrow> byte list option" where
  "deterministicGUID e c = map_option (\<lambda>bytes. take 16 (blake2s_Sum256 e bytes)) (guid_input e c)"

section \<open>Sorting\<close>

text \<open>What \<open>sort.Slice\<close> promises: the same elements, and none before one that is less.\<close>

definition sort_Slice :: "('a \<Rightarrow> 'a \<Rightarrow> bool) \<Rightarrow> ('a list \<Rightarrow> 'a list) \<Rightarrow> bool" where
  "sort_Slice lt f \<longleftrightarrow> (\<forall>xs. mset (f xs) = mset xs \<and> sorted_wrt (\<lambda>a b. \<not> lt b a) (f xs))"

lemma sorted_unique:
  assumes "mset xs = mset ys" "sorted_wrt R xs" "sorted_wrt R ys"
    and "\<And>a b. a \<in> set xs \<Longrightarrow> b \<in> set xs \<Longrightarrow> R a b \<Longrightarrow> R b a \<Longrightarrow> a = b"
  shows "xs = ys"
  using assms
proof (induction xs arbitrary: ys)
  case (Cons x xs)
  then obtain y ys' where y: "ys = y # ys'" by (cases ys) auto
  have s: "set (x # xs) = set ys" using Cons.prems(1) mset_eq_setD by blast
  have "x = y"
  proof (rule ccontr)
    assume "x \<noteq> y"
    with s y have "x \<in> set ys'" "y \<in> set xs" by auto
    with Cons.prems y \<open>x \<noteq> y\<close> show False by auto
  qed
  with Cons y show ?case by auto
qed simp

lemma bytes_Compare_zero: "\<not> bytes_Compare a b < 0 \<Longrightarrow> \<not> bytes_Compare b a < 0 \<Longrightarrow> a = b"
  by (induction a b rule: bytes_Compare.induct) (auto split: if_splits)

lemma strings_Compare_zero: "\<not> strings_Compare a b < 0 \<Longrightarrow> \<not> strings_Compare b a < 0 \<Longrightarrow> a = b"
  by (induction a b rule: strings_Compare.induct) (auto split: if_splits)

lemma addr_Compare_zero: "\<not> addr_Compare a b < 0 \<Longrightarrow> \<not> addr_Compare b a < 0 \<Longrightarrow> a = b"
  by (induction a b rule: addr_Compare.induct) (auto split: if_splits dest: strings_Compare_zero elim: BitLen.elims)

lemma allowed_less_total: "\<not> allowed_less a b \<Longrightarrow> \<not> allowed_less b a \<Longrightarrow> a = b"
  by (cases a; cases b)
    (auto simp: allowed_less_def Let_def Bits_def split: if_splits option.splits dest: addr_Compare_zero)

lemma sort_allowed_unique: "sort_Slice allowed_less f \<Longrightarrow> f xs = f ys \<longleftrightarrow> mset xs = mset ys"
  by (rule iffI, metis sort_Slice_def, rule sorted_unique [where R = "\<lambda>a b. \<not> allowed_less b a"])
    (auto simp: sort_Slice_def dest: allowed_less_total)

section \<open>The identity of a configuration\<close>

text \<open>What the GUID depends on, of a peer.\<close>

definition ident :: "Peer \<Rightarrow> Key \<times> prefix multiset" where
  "ident p = (PublicKey p, mset (AllowedIPs p))"

definition same_identity :: "guid_env \<Rightarrow> Config \<Rightarrow> Config \<Rightarrow> bool" where
  "same_identity e c d \<longleftrightarrow> NFC e (Name c) = NFC e (Name d) \<and>
     key_Public e (PrivateKey (config_Interface c)) = key_Public e (PrivateKey (config_Interface d)) \<and>
     image_mset ident (mset (Peers c)) = image_mset ident (mset (Peers d))"

text \<open>Peers with different keys have only one sorted order.\<close>

lemma sort_peers_unique:
  assumes f: "sort_Slice peer_less f" and d: "distinct (map PublicKey ps)"
    and e: "image_mset ident (mset ps) = image_mset ident (mset qs)"
  shows "map ident (f ps) = map ident (f qs)"
proof (rule sorted_unique [where R = "\<lambda>a b. \<not> bytes_Compare (fst b) (fst a) < 0"])
  have m: "mset (map ident (f xs)) = image_mset ident (mset xs)" for xs using f by (simp add: sort_Slice_def)
  show "mset (map ident (f ps)) = mset (map ident (f qs))" unfolding m by (rule e)
  have sorted: "sorted_wrt (\<lambda>a b. \<not> bytes_Compare (fst b) (fst a) < 0) (map ident (f xs))" for xs
    using f by (simp add: sort_Slice_def sorted_wrt_map ident_def peer_less_def)
  show "sorted_wrt (\<lambda>a b. \<not> bytes_Compare (fst b) (fst a) < 0) (map ident (f ps))"
    "sorted_wrt (\<lambda>a b. \<not> bytes_Compare (fst b) (fst a) < 0) (map ident (f qs))" by (rule sorted)+
  have "set (f ps) = set ps" using f by (metis sort_Slice_def mset_eq_setD)
  then have inj: "inj_on PublicKey (set (f ps))" using d by (simp add: distinct_map)
  show "a = b" if a: "a \<in> set (map ident (f ps))" and b: "b \<in> set (map ident (f ps))"
    and c: "\<not> bytes_Compare (fst b) (fst a) < 0" "\<not> bytes_Compare (fst a) (fst b) < 0" for a b
  proof -
    obtain p q where pq: "p \<in> set (f ps)" "q \<in> set (f ps)" "a = ident p" "b = ident q" using a b by auto
    with bytes_Compare_zero [OF c] have "PublicKey p = PublicKey q" by (simp add: ident_def)
    with inj_onD [OF inj _ pq(1,2)] pq(3,4) show ?thesis by simp
  qed
qed

section \<open>What is hashed determines the identity\<close>

text \<open>The text of what is written, without the panics.\<close>

lemma b2_all_map: "b2_all (map Some ws) = Some (concat ws)"
  by (induction ws) simp_all

lemma b2_all_Some:
  "b2_all (x # xs) = Some w \<longleftrightarrow> (\<exists>u v. x = Some u \<and> b2_all xs = Some v \<and> w = u @ v)"
  by (cases x) (auto split: option.splits)

lemma b2Number_inj:
  assumes "b2Number m = Some u" "b2Number n = Some v" "u @ x = v @ y"
  shows "m = n \<and> u = v \<and> x = y"
proof -
  have b: "m < 256 ^ 4" "n < 256 ^ 4" "u = le_bytes 4 m" "v = le_bytes 4 n"
    using assms(1,2) by (auto simp: b2Number_def split: if_splits)
  then have "u = v" "x = y" using assms(3) by auto
  moreover have "m = n" using b \<open>u = v\<close> le_value_bytes [of 4 m] le_value_bytes [of 4 n] by simp
  ultimately show ?thesis by simp
qed

lemma string_bytes_inj: "string_bytes s = string_bytes t \<longleftrightarrow> s = t"
proof -
  have "inj (\<lambda>c. of_nat (code c) :: byte)"
  proof (rule injI)
    fix c d assume "(of_nat (code c) :: byte) = of_nat (code d)"
    then have "unat (of_nat (code c) :: byte) = unat (of_nat (code d) :: byte)" by simp
    then have "of_char c = (of_char d :: nat)" by (simp add: unat_of_nat)
    then show "c = d" by simp
  qed
  then show ?thesis unfolding string_bytes_def by (simp add: inj_map_eq_map)
qed

lemma b2String_inj:
  assumes "b2String e s = Some u" "b2String e t = Some v" "u @ x = v @ y"
  shows "NFC e s = NFC e t \<and> x = y"
proof -
  obtain m n where mn: "b2Number (length (string_bytes (NFC e s))) = Some m" "u = m @ string_bytes (NFC e s)"
      "b2Number (length (string_bytes (NFC e t))) = Some n" "v = n @ string_bytes (NFC e t)"
    using assms(1,2) by (auto simp: b2String_def Let_def split: option.splits)
  with b2Number_inj [OF mn(1,3), of "string_bytes (NFC e s) @ x" "string_bytes (NFC e t) @ y"] assms(3) show ?thesis
    by (auto simp: string_bytes_inj)
qed

text \<open>Strings one after the other, as many on both sides.\<close>

lemma b2Strings_inj:
  assumes "length ss = length ts" "b2_all (map (b2String e) ss) = Some u" "b2_all (map (b2String e) ts) = Some v"
    and "u @ x = v @ y"
  shows "map (NFC e) ss = map (NFC e) ts \<and> x = y"
  using assms
proof (induction ss ts arbitrary: u v rule: list_induct2)
  case (Cons s ss t ts)
  then obtain a u' b v' where w: "b2String e s = Some a" "b2_all (map (b2String e) ss) = Some u'" "u = a @ u'"
      "b2String e t = Some b" "b2_all (map (b2String e) ts) = Some v'" "v = b @ v'"
    by (auto simp: b2_all_Some)
  with b2String_inj [OF w(1,4), of "u' @ x" "v' @ y"] Cons.prems(3) Cons.IH [OF w(2,5)] show ?case by simp
qed simp

definition peer_ok :: "Peer \<Rightarrow> bool" where
  "peer_ok p \<longleftrightarrow> length (PublicKey p) = KeyLength \<and> list_all valid_prefix (AllowedIPs p)"

text \<open>The hypotheses on what is not part of the repository: \<open>sort.Slice\<close> sorts, the normal form leaves ASCII alone, and
  public keys have the length of keys.\<close>

definition guid_env_ok :: "guid_env \<Rightarrow> bool" where
  "guid_env_ok e \<longleftrightarrow> sort_Slice peer_less (sort_peers e) \<and> sort_Slice allowed_less (sort_allowed e) \<and>
     (\<forall>s. (\<forall>c\<in>set s. code c < 128) \<longrightarrow> NFC e s = s) \<and> (\<forall>k. length (key_Public e k) = KeyLength)"

lemma NFC_prefix_String:
  assumes "guid_env_ok e" "valid_prefix p"
  shows "NFC e (prefix_String p) = prefix_String p"
proof -
  have "code c < 128" if "c \<in> set (prefix_String p)" for c
    using prefix_String_chars [OF assms(2) that] by (auto simp: addr_char_def is_digit_def)
  with assms(1) show ?thesis by (auto simp: guid_env_ok_def)
qed

lemma sort_facts:
  assumes "guid_env_ok e"
  shows "length (sort_peers e ps) = length ps" "set (sort_peers e ps) = set ps"
    "length (sort_allowed e as) = length as" "set (sort_allowed e as) = set as"
  using assms unfolding guid_env_ok_def sort_Slice_def by (metis size_mset mset_eq_setD)+

lemma b2Peer_inj:
  assumes e: "guid_env_ok e" and ok: "peer_ok p" "peer_ok q"
    and w: "b2Peer e p = Some u" "b2Peer e q = Some v" and eq: "u @ x = v @ y"
  shows "ident p = ident q \<and> x = y"
proof -
  let ?s = "\<lambda>r. map prefix_String (sort_allowed e (AllowedIPs r))"
  have split: "\<exists>n t. b2Number (length (AllowedIPs r)) = Some n \<and> b2_all (map (b2String e) (?s r)) = Some t \<and>
      z = PublicKey r @ n @ t" if "b2Peer e r = Some z" for r z
    using that by (auto simp: b2Peer_def b2_all_Some o_def simp del: b2_all.simps(3))
  obtain n t where n: "b2Number (length (AllowedIPs p)) = Some n" "b2_all (map (b2String e) (?s p)) = Some t"
    "u = PublicKey p @ n @ t" using split [OF w(1)] by blast
  obtain m t' where m: "b2Number (length (AllowedIPs q)) = Some m" "b2_all (map (b2String e) (?s q)) = Some t'"
    "v = PublicKey q @ m @ t'" using split [OF w(2)] by blast
  have k: "PublicKey p = PublicKey q" "n @ t @ x = m @ t' @ y"
    using eq n(3) m(3) ok by (auto simp: peer_ok_def)
  from b2Number_inj [OF n(1) m(1) k(2)] have l: "length (AllowedIPs p) = length (AllowedIPs q)" "t @ x = t' @ y" by auto
  have s: "map (NFC e) (?s p) = map (NFC e) (?s q) \<and> x = y"
    by (rule b2Strings_inj [OF _ n(2) m(2) l(2)]) (simp add: l(1) sort_facts [OF e])
  have N: "map (NFC e) (?s r) = ?s r" if "peer_ok r" for r
    using that NFC_prefix_String [OF e] by (auto simp: peer_ok_def list_all_iff sort_facts [OF e])
  have "?s p = ?s q" using conjunct1 [OF s] unfolding N [OF ok(1)] N [OF ok(2)] .
  moreover have "inj_on prefix_String (set (sort_allowed e (AllowedIPs p)) \<union> set (sort_allowed e (AllowedIPs q)))"
    by (rule inj_on_subset [OF prefix_String_inj]) (use ok in \<open>auto simp: sort_facts [OF e] peer_ok_def list_all_iff\<close>)
  ultimately have "sort_allowed e (AllowedIPs p) = sort_allowed e (AllowedIPs q)" by (simp add: inj_on_map_eq_map)
  then have "mset (AllowedIPs p) = mset (AllowedIPs q)"
    using e by (simp add: guid_env_ok_def sort_allowed_unique)
  with k s show ?thesis by (simp add: ident_def)
qed

lemma b2Peers_inj:
  assumes "guid_env_ok e" "length ps = length qs" "list_all peer_ok ps" "list_all peer_ok qs"
    and "b2_all (map (b2Peer e) ps) = Some u" "b2_all (map (b2Peer e) qs) = Some u"
  shows "map ident ps = map ident qs"
  using assms(2-)
proof (induction ps qs arbitrary: u rule: list_induct2)
  case (Cons p ps q qs)
  then obtain a u' b v' where w: "b2Peer e p = Some a" "b2_all (map (b2Peer e) ps) = Some u'" "u = a @ u'"
      "b2Peer e q = Some b" "b2_all (map (b2Peer e) qs) = Some v'" "u = b @ v'"
    by (auto simp: b2_all_Some)
  have ok: "peer_ok p" "peer_ok q" "list_all peer_ok ps" "list_all peer_ok qs" using Cons.prems by simp_all
  have "ident p = ident q \<and> u' = v'" by (rule b2Peer_inj [OF assms(1) ok(1,2) w(1,4)]) (use w in simp)
  with Cons.IH [OF ok(3,4) w(2)] w(5) show ?case by simp
qed simp

text \<open>And the identity determines what is hashed.\<close>

lemma b2Peer_ident:
  assumes "guid_env_ok e" "ident p = ident q"
  shows "b2Peer e p = b2Peer e q"
proof -
  have k: "PublicKey p = PublicKey q" and m: "mset (AllowedIPs p) = mset (AllowedIPs q)" using assms(2) by (simp_all add: ident_def)
  from m have "sort_allowed e (AllowedIPs p) = sort_allowed e (AllowedIPs q)"
    using assms(1) by (simp add: guid_env_ok_def sort_allowed_unique)
  moreover have "length (AllowedIPs p) = length (AllowedIPs q)" using m by (metis size_mset)
  ultimately show ?thesis using k by (simp add: b2Peer_def)
qed

lemma b2Peers_ident:
  assumes "guid_env_ok e" "map ident ps = map ident qs"
  shows "map (b2Peer e) ps = map (b2Peer e) qs"
  using assms(2)
proof (induction ps arbitrary: qs)
  case (Cons p ps)
  then obtain q qs' where "qs = q # qs'" "ident p = ident q" "map ident ps = map ident qs'" by (cases qs) auto
  with Cons.IH [of qs'] b2Peer_ident [OF assms(1), of p q] show ?case by simp
qed simp

section \<open>The GUID\<close>

text \<open>C15: Two configurations whose peers have distinct keys give the hash of \<open>deterministicGUID\<close> the same bytes exactly
  when they have the same name (in normal form), the same public key and the same peers with the same allowed addresses,
  in whatever order; with the same identity they have the same GUID, although \<open>sort.Slice\<close> is not stable, and everything
  else in them (endpoints, addresses, comments, preshared keys) has no influence.\<close>

theorem deterministicGUID_identity:
  assumes e: "guid_env_ok e" "\<not> UseFixedGUIDInsteadOfDeterministic e"
    and c: "list_all peer_ok (Peers c)" "distinct (map PublicKey (Peers c))"
    and d: "list_all peer_ok (Peers d)"
    and fits: "guid_input e c = Some u" "guid_input e d = Some v"
  shows "(u = v \<longleftrightarrow> same_identity e c d) \<and>
    (same_identity e c d \<longrightarrow> deterministicGUID e c = deterministicGUID e d)"
proof -
  let ?l = "string_bytes deterministicGUIDLabel" and ?k = "\<lambda>c. key_Public e (PrivateKey (config_Interface c))"
  have split: "\<exists>n t p. b2String e (Name c) = Some n \<and> b2Number (length (Peers c)) = Some t \<and>
      b2_all (map (b2Peer e) (sort_peers e (Peers c))) = Some p \<and> w = ?l @ n @ ?k c @ t @ p"
    if "guid_input e c = Some w" for c w
    using that e(2) by (auto simp: guid_input_def b2_all_Some simp del: b2_all.simps(3))
  obtain n t p where w: "b2String e (Name c) = Some n" "b2Number (length (Peers c)) = Some t"
      "b2_all (map (b2Peer e) (sort_peers e (Peers c))) = Some p" "u = ?l @ n @ ?k c @ t @ p" using split [OF fits(1)] by blast
  obtain n' t' p' where w': "b2String e (Name d) = Some n'" "b2Number (length (Peers d)) = Some t'"
      "b2_all (map (b2Peer e) (sort_peers e (Peers d))) = Some p'" "v = ?l @ n' @ ?k d @ t' @ p'" using split [OF fits(2)] by blast
  have image: "image_mset ident (mset (sort_peers e ps)) = image_mset ident (mset ps)" for ps
    using e(1) by (simp add: guid_env_ok_def sort_Slice_def)
  have "same_identity e c d" if "u = v"
  proof -
    from that w w' have "n @ ?k c @ t @ p = n' @ ?k d @ t' @ p'" by simp
    from b2String_inj [OF w(1) w'(1) this] have s: "NFC e (Name c) = NFC e (Name d)" "?k c @ t @ p = ?k d @ t' @ p'" by auto
    then have k: "?k c = ?k d" "t @ p = t' @ p'" using e(1) by (auto simp: guid_env_ok_def)
    from b2Number_inj [OF w(2) w'(2) k(2)] have l: "length (Peers c) = length (Peers d)" "p = p'" by auto
    have "map ident (sort_peers e (Peers c)) = map ident (sort_peers e (Peers d))"
      by (rule b2Peers_inj [OF e(1) _ _ _ w(3)]) (use l w'(3) c(1) d in \<open>simp_all add: sort_facts [OF e(1)] list_all_iff\<close>)
    then have "image_mset ident (mset (Peers c)) = image_mset ident (mset (Peers d))" by (metis image mset_map)
    with s k show ?thesis by (simp add: same_identity_def)
  qed
  moreover have "guid_input e c = guid_input e d" if i: "same_identity e c d"
  proof -
    from i have m: "image_mset ident (mset (Peers c)) = image_mset ident (mset (Peers d))" by (simp add: same_identity_def)
    have "map ident (sort_peers e (Peers c)) = map ident (sort_peers e (Peers d))"
      by (rule sort_peers_unique [OF _ c(2) m]) (use e(1) in \<open>simp add: guid_env_ok_def\<close>)
    from b2Peers_ident [OF e(1) this] have "map (b2Peer e) (sort_peers e (Peers c)) = map (b2Peer e) (sort_peers e (Peers d))" .
    moreover have "length (Peers c) = length (Peers d)" using m by (metis size_image_mset size_mset)
    ultimately show ?thesis using i e(2) by (simp add: guid_input_def same_identity_def b2String_def)
  qed
  ultimately show ?thesis using fits by (auto simp: deterministicGUID_def)
qed

text \<open>An instance of the parameters: sorting by insertion.\<close>

fun insert_by :: "('a \<Rightarrow> 'a \<Rightarrow> bool) \<Rightarrow> 'a \<Rightarrow> 'a list \<Rightarrow> 'a list" where
  "insert_by lt x [] = [x]"
| "insert_by lt x (y # ys) = (if lt y x then y # insert_by lt x ys else x # y # ys)"

lemma insert_by_sorts:
  assumes asym: "\<And>a b. lt a b \<Longrightarrow> \<not> lt b a" and trans: "\<And>a b c. lt a c \<Longrightarrow> lt a b \<or> lt b c"
  shows "sort_Slice lt (\<lambda>xs. foldr (insert_by lt) xs [])"
proof -
  have m: "mset (insert_by lt x ys) = add_mset x (mset ys)" for x ys by (induction ys) auto
  then have s: "set (insert_by lt x ys) = insert x (set ys)" for x ys by (metis set_mset_mset set_mset_add_mset_insert)
  have "sorted_wrt (\<lambda>a b. \<not> lt b a) ys \<Longrightarrow> sorted_wrt (\<lambda>a b. \<not> lt b a) (insert_by lt x ys)" for x ys
  proof (induction ys)
    case (Cons y ys)
    have "\<not> lt z x" if "\<not> lt y x" "z \<in> set ys" for z using trans [of z x y] that Cons.prems by auto
    with Cons asym [of y x] show ?case by (auto simp: s)
  qed simp
  then have "sorted_wrt (\<lambda>a b. \<not> lt b a) (foldr (insert_by lt) xs [])" for xs by (induction xs) simp_all
  moreover have "mset (foldr (insert_by lt) xs []) = mset xs" for xs by (induction xs) (simp_all add: m)
  ultimately show ?thesis by (simp add: sort_Slice_def)
qed

lemma bytes_Compare_order:
  "bytes_Compare a b < 0 \<Longrightarrow> \<not> bytes_Compare b a < 0"
  "bytes_Compare a b < 0 \<Longrightarrow> bytes_Compare a c < 0 \<or> bytes_Compare c b < 0"
proof (induction a b arbitrary: c rule: bytes_Compare.induct)
  case (4 a as b bs)
  { case 1 then show ?case using 4(1) by (auto split: if_splits) }
  { case 2 then show ?case using 4(2) by (cases c) (auto split: if_splits) }
next
  case (2 b bs)
  { case 1 show ?case by simp }
  { case 2 show ?case by (cases c) auto }
qed auto

lemma strings_Compare_order:
  "strings_Compare a b < 0 \<Longrightarrow> \<not> strings_Compare b a < 0"
  "strings_Compare a b < 0 \<Longrightarrow> strings_Compare a c < 0 \<or> strings_Compare c b < 0"
proof (induction a b arbitrary: c rule: strings_Compare.induct)
  case (4 a as b bs)
  { case 1 then show ?case using 4(1) by (auto split: if_splits) }
  { case 2 then show ?case using 4(2) by (cases c) (auto split: if_splits) }
next
  case (2 b bs)
  { case 1 show ?case by simp }
  { case 2 show ?case by (cases c) auto }
qed auto

lemma addr_Compare_order:
  "addr_Compare a b < 0 \<Longrightarrow> \<not> addr_Compare b a < 0"
  "BitLen a = BitLen c \<Longrightarrow> BitLen b = BitLen c \<Longrightarrow> addr_Compare a b < 0 \<Longrightarrow> addr_Compare a c < 0 \<or> addr_Compare c b < 0"
  by (cases a; cases b; auto split: if_splits dest: strings_Compare_order(1))
    (cases a; cases b; cases c; auto split: if_splits dest: strings_Compare_order(2))

lemma allowed_less_order:
  "allowed_less a b \<Longrightarrow> \<not> allowed_less b a"
  "allowed_less a b \<Longrightarrow> allowed_less a c \<or> allowed_less c b"
  using addr_Compare_order(1) [of "prefix_Addr a" "prefix_Addr b"]
    addr_Compare_order(2) [of "prefix_Addr a" "prefix_Addr c" "prefix_Addr b"]
  by (auto simp: allowed_less_def Let_def split: if_splits)

definition plain_env :: guid_env where
  "plain_env =
     \<lparr>blake2s_Sum256 = id, NFC = id, key_Public = (\<lambda>_. replicate 32 9), sort_peers = (\<lambda>ps. foldr (insert_by peer_less) ps []),
      sort_allowed = (\<lambda>as. foldr (insert_by allowed_less) as []), UseFixedGUIDInsteadOfDeterministic = False\<rparr>"

lemma plain_env_ok: "guid_env_ok plain_env" "\<not> UseFixedGUIDInsteadOfDeterministic plain_env"
proof -
  have "sort_Slice peer_less (sort_peers plain_env)" unfolding plain_env_def guid_env.simps peer_less_def
    by (rule insert_by_sorts) (rule bytes_Compare_order; assumption)+
  moreover have "sort_Slice allowed_less (sort_allowed plain_env)" unfolding plain_env_def guid_env.simps
    by (rule insert_by_sorts) (rule allowed_less_order; assumption)+
  ultimately show "guid_env_ok plain_env" by (simp add: guid_env_ok_def plain_env_def KeyLength_def)
qed (simp add: plain_env_def)

definition two_peers :: "Peer list \<Rightarrow> Config" where
  "two_peers ps = \<lparr>Name = ''vpn'', config_Interface = zero_Interface, Peers = ps, TrailingComments = []\<rparr>"

theorem deterministicGUID_identity_witness:
  "let p = zero_Peer \<lparr>PublicKey := replicate 32 1, AllowedIPs := [Prefix (Addr4 0) (Some 0), Prefix (Addr4 0x0a000000) (Some 8)]\<rparr>;
       p' = p \<lparr>AllowedIPs := [Prefix (Addr4 0x0a000000) (Some 8), Prefix (Addr4 0) (Some 0)], PresharedKey := replicate 32 5\<rparr>;
       q = zero_Peer \<lparr>PublicKey := replicate 32 2\<rparr>
   in deterministicGUID plain_env (two_peers [p, q]) = deterministicGUID plain_env (two_peers [q, p'])"
proof -
  let ?p = "zero_Peer \<lparr>PublicKey := replicate 32 1, AllowedIPs := [Prefix (Addr4 0) (Some 0), Prefix (Addr4 0x0a000000) (Some 8)]\<rparr>"
  let ?p' = "?p \<lparr>AllowedIPs := [Prefix (Addr4 0x0a000000) (Some 8), Prefix (Addr4 0) (Some 0)], PresharedKey := replicate 32 5\<rparr>"
  let ?q = "zero_Peer \<lparr>PublicKey := replicate 32 2\<rparr>"
  have ok: "list_all peer_ok (Peers (two_peers [?p, ?q]))" "distinct (map PublicKey (Peers (two_peers [?p, ?q])))"
      "list_all peer_ok (Peers (two_peers [?q, ?p']))" by code_simp+
  have "guid_input plain_env (two_peers [?p, ?q]) \<noteq> None" "guid_input plain_env (two_peers [?q, ?p']) \<noteq> None"
    by code_simp+
  then obtain u v where uv: "guid_input plain_env (two_peers [?p, ?q]) = Some u" "guid_input plain_env (two_peers [?q, ?p']) = Some v"
    by blast
  have "same_identity plain_env (two_peers [?p, ?q]) (two_peers [?q, ?p'])"
    by (simp add: same_identity_def two_peers_def ident_def add_mset_commute)
  with deterministicGUID_identity [OF plain_env_ok ok uv] show ?thesis by (simp add: Let_def)
qed

end
