(* ===== verification/Tunnel_Service.thy ===== *)
theory Tunnel_Service
  imports Tunnel_Watch Tunnel_Runtime Conf_Resolve Tunnel_Guid Conf_Store Firewall_Policy
begin

text \<open>
  The service of one tunnel (\<open>tunnel/service.go\<close>), with the scripts it runs (\<open>tunnel/scriptrunner.go\<close>) and the privileges
  it gives up (\<open>elevate/privileges.go\<close>).  The parts it starts are those of the other theories; the world adds the local
  variables of \<open>Execute\<close>, the status reports and a trace of what was started and stopped.
\<close>

section \<open>The host\<close>

text \<open>What \<open>DropAllPrivileges\<close> asks of Windows: the privileges of a token are their numbers with their attributes.\<close>

record 's token_api =
  LookupPrivilegeValue :: "string \<Rightarrow> 's \<Rightarrow> (nat + u64) \<times> 's"
  OpenProcessTokenRW :: "'s \<Rightarrow> (nat + unit) \<times> 's"
  bufferSizeRequired :: "'s \<Rightarrow> u32 \<times> 's"
  GetTokenPrivileges :: "u32 \<Rightarrow> 's \<Rightarrow> (nat + u32 \<times> (u64 \<times> u32) list) \<times> 's"
  AdjustTokenPrivileges :: "(u64 \<times> u32) list \<Rightarrow> 's \<Rightarrow> (nat + unit) \<times> 's"

text \<open>What \<open>runScriptCommand\<close> asks of Windows.\<close>

record 's script_api =
  DangerousScriptExecution :: bool
  GetSystemDirectory :: "'s \<Rightarrow> (nat + string) \<times> 's"
  OpenDevNull :: "'s \<Rightarrow> (nat + unit) \<times> 's"
  os_Pipe :: "'s \<Rightarrow> (nat + unit) \<times> 's"
  StartProcess :: "string \<Rightarrow> string \<Rightarrow> string \<Rightarrow> 's \<Rightarrow> (nat + unit) \<times> 's"
  process_Wait :: "'s \<Rightarrow> (nat + int) \<times> 's"

record 's service_host =
  watching :: "'s watch_host"
  tokens :: "'s token_api"
  scripts :: "'s script_api"
  fw_process :: process
  fw_engine :: "'s wfp"
  conf_env :: env
  conf_files :: fs
  store_errno :: "store_error \<Rightarrow> u32 option"
  guids :: guid_env
  getAddrInfo :: "'s resolver"
  conf_LogFile :: "'s \<Rightarrow> (nat + string) \<times> 's"
  InitGlobalLogger :: "string \<Rightarrow> 's \<Rightarrow> (nat + unit) \<times> 's"
  log_beside :: "string \<Rightarrow> plan \<times> nat option \<times> nat option \<times> string"
  syscall_EINVAL :: u32
  scm_locked :: bool
  CreateAdapter :: "string \<Rightarrow> byte list option \<Rightarrow> 's \<Rightarrow> (nat + LUID) \<times> 's"
  adapter_SetLogging :: "'s \<Rightarrow> (nat + unit) \<times> 's"
  adapter_Close :: "'s \<Rightarrow> (nat + unit) \<times> 's"
  OpenMetricsFile :: "string \<Rightarrow> 's \<Rightarrow> (nat + unit) \<times> 's"

section \<open>The world\<close>

datatype event =
    LogOpened | WatcherStarted | AdapterCreated | Script string | FirewallEnabled | PrivilegesDropped
  | ConfigurationSet | AdapterUp | MetricsStarted | WatcherConfigured
  | MetricsStopped | WatcherDestroyed | AdapterClosed | LogClosed

datatype svc_state = StartPending | Running | StopPending

datatype status = Status svc_state bool | CurrentStatus

datatype tunnel_error =
    SysError nat | StoreErr store_error | WatchErr watch_error | ResolveErr net_error | FirewallErr fw_error
  | OtherErr string

record 's service_world =
  ww :: "'s watch_world"
  changes :: "status list"
  trace :: "event list"
  serviceState :: svc_state
  v_config :: "Config option"
  v_log :: bool
  v_watcher :: bool
  v_adapter :: bool
  v_metrics :: bool

type_synonym ('s, 'a) tun = "('s service_world, tunnel_error, 'a) io"

text \<open>A call of Windows, a call of the watcher, a local effect.\<close>

definition os_call :: "('s \<Rightarrow> (nat + 'a) \<times> 's) \<Rightarrow> ('s, 'a) tun" where
  "os_call f w = (case f (os (ww w)) of (r, s) \<Rightarrow> Some (map_sum SysError id r, w \<lparr>ww := (ww w) \<lparr>os := s\<rparr>\<rparr>))"

definition on_watch :: "('s, 'a) watch \<Rightarrow> ('s, 'a) tun" where
  "on_watch m w = map_option (\<lambda>(r, x). (map_sum WatchErr id r, w \<lparr>ww := x\<rparr>)) (m (ww w))"

definition local :: "('s service_world \<Rightarrow> 's service_world) \<Rightarrow> ('s service_world, 'e, unit) io" where
  "local f w = Some (Inr (), f w)"

definition happened :: "event \<Rightarrow> ('s service_world \<Rightarrow> 's service_world) \<Rightarrow> ('s service_world, 'e, unit) io" where
  "happened x f = local (\<lambda>w. (f w) \<lparr>trace := trace w @ [x]\<rparr>)"

definition report :: "status \<Rightarrow> ('s service_world, 'e, unit) io" where
  "report st = local (\<lambda>w. w \<lparr>changes := changes w @ [st]\<rparr>)"

section \<open>Scripts\<close>

definition ERROR_GENERIC_COMMAND_FAILED :: nat where "ERROR_GENERIC_COMMAND_FAILED = 14109"

text \<open>\<open>runScriptCommand\<close>.  Its copy of the output into the log has no effect on the result.\<close>

definition runScriptCommand :: "'s service_host \<Rightarrow> string \<Rightarrow> string \<Rightarrow> ('s, unit) tun" where
  "runScriptCommand h command interfaceName =
     (let p = scripts h in
      if length command = 0 then ret ()
      else if \<not> DangerousScriptExecution p then ret ()
      else andThen (os_call (GetSystemDirectory p)) (\<lambda>system32.
        let comspec = filepath_Join system32 ''cmd.exe'' in
        andThen (os_call (OpenDevNull p)) (\<lambda>_.
        andThen (os_call (os_Pipe p)) (\<lambda>_.
        andThen (os_call (StartProcess p comspec (''cmd /c '' @ command) (''WIREGUARD_TUNNEL_NAME='' @ interfaceName))) (\<lambda>_.
        andThen (happened (Script command) id) (\<lambda>_.
        andThen (os_call (process_Wait p)) (\<lambda>exitCode.
          if exitCode = 0 then ret () else raise (SysError ERROR_GENERIC_COMMAND_FAILED))))))))"

section \<open>Privileges\<close>

definition SE_PRIVILEGE_REMOVED :: u32 where "SE_PRIVILEGE_REMOVED = 4"

text \<open>The loop over the privileges, which marks all but the retained one.\<close>

definition mark_removed :: "u64 option \<Rightarrow> (u64 \<times> u32) list \<Rightarrow> (u64 \<times> u32) list" where
  "mark_removed retained =
     map (\<lambda>(luid, attributes). if retained = Some luid then (luid, attributes) else (luid, SE_PRIVILEGE_REMOVED))"

definition DropAllPrivileges :: "'s token_api \<Rightarrow> bool \<Rightarrow> ('s, unit) tun" where
  "DropAllPrivileges t retainDriverLoading =
     andThen (if retainDriverLoading
              then andThen (os_call (LookupPrivilegeValue t ''SeLoadDriverPrivilege'')) (\<lambda>luid. ret (Some luid))
              else ret None) (\<lambda>retained.
     andThen (os_call (OpenProcessTokenRW t)) (\<lambda>_.
     andThen (os_call (\<lambda>s. case bufferSizeRequired t s of (n, s') \<Rightarrow> (Inr n, s'))) (\<lambda>size.
       if size = 0 \<or> size < 4 then raise (OtherErr ''GetTokenInformation failed to provide a buffer size'')
       else andThen (os_call (GetTokenPrivileges t size)) (\<lambda>(bytesWritten, tokenPrivileges).
         if bytesWritten \<noteq> size then raise (OtherErr ''GetTokenInformation returned incomplete data'')
         else os_call (AdjustTokenPrivileges t (mark_removed retained tokenPrivileges))))))"

section \<open>The startup\<close>

text \<open>A return with an error and the service's own number for it.\<close>

type_synonym 's stops = "('s service_world, tunnel_error option \<times> service_error, unit) io"

definition must :: "service_error \<Rightarrow> ('s, 'a) tun \<Rightarrow>
    ('s service_world, tunnel_error option \<times> service_error, 'a) io" where
  "must e m = attempt m (\<lambda>r. case r of Inl err \<Rightarrow> raise (Some err, e) | Inr x \<Rightarrow> ret x)"

text \<open>A failure that is only logged.\<close>

definition regardless :: "('s, 'a) tun \<Rightarrow> 's stops" where
  "regardless m = attempt m (\<lambda>_. ret ())"

text \<open>The runtime log is \<open>tunnel.log\<close> beside the metrics file; a failure is only logged.\<close>

definition open_log :: "'s service_host \<Rightarrow> string \<Rightarrow> ('s, unit) tun" where
  "open_log h MetricsPath =
     (if MetricsPath \<noteq> [] then
        (case log_beside h MetricsPath of (p, openErr, statErr, existing) \<Rightarrow>
           (case openRuntimeLog p openErr statErr existing of
              Inl _ \<Rightarrow> ret ()
            | Inr _ \<Rightarrow> happened LogOpened (\<lambda>w. w \<lparr>v_log := True\<rparr>)))
      else ret ())"

definition load_config :: "'s service_host \<Rightarrow> string \<Rightarrow> ('s, Config) tun" where
  "load_config h path =
     (case LoadFromPath (conf_env h) path (conf_files h) of
        Inl err \<Rightarrow> raise (StoreErr err)
      | Inr config \<Rightarrow>
          let config = DeduplicateNetworkEntries config in
          andThen (local (\<lambda>w. w \<lparr>v_config := Some config\<rparr>)) (\<lambda>_. ret config))"

text \<open>At boot the service control manager may be locked.\<close>

definition announce_boot :: "'s service_host \<Rightarrow> ('s, unit) tun" where
  "announce_boot h =
     (if StartedAtBoot (net (watching h)) \<and> scm_locked h
      then andThen (local (\<lambda>w. w \<lparr>serviceState := Running\<rparr>)) (\<lambda>_. report (Status Running False)) else ret ())"

definition start_watcher :: "'s service_host \<Rightarrow> Config \<Rightarrow> ('s, unit) tun" where
  "start_watcher h config =
     andThen (on_watch (watchInterface (watching h) config)) (\<lambda>_.
       happened WatcherStarted (\<lambda>w. w \<lparr>v_watcher := True\<rparr>))"

definition resolve :: "'s service_host \<Rightarrow> Config \<Rightarrow> ('s, Config) tun" where
  "resolve h config w =
     (case ResolveEndpoints (getAddrInfo h) (StartedAtBoot (net (watching h))) config (os (ww w)) of
        None \<Rightarrow> None
      | Some (Inl err, s) \<Rightarrow> Some (Inl (ResolveErr err), w \<lparr>ww := (ww w) \<lparr>os := s\<rparr>\<rparr>)
      | Some (Inr (err, config), s) \<Rightarrow>
          Some (case err of Some err \<Rightarrow> Inl (ResolveErr err) | None \<Rightarrow> Inr config,
            w \<lparr>ww := (ww w) \<lparr>os := s\<rparr>, v_config := Some config\<rparr>))"

text \<open>The loop of at most fifteen attempts, with the error of the one before.\<close>

fun create_loop :: "nat \<Rightarrow> 's service_host \<Rightarrow> Config \<Rightarrow> tunnel_error \<Rightarrow> ('s, LUID) tun" where
  "create_loop 0 h config err = raise err"
| "create_loop (Suc n) h config err =
     attempt (os_call (CreateAdapter h (Name config) (deterministicGUID (guids h) config))) (\<lambda>r.
       case r of
         Inr luid \<Rightarrow> andThen (happened AdapterCreated (\<lambda>w. w \<lparr>v_adapter := True\<rparr>)) (\<lambda>_. ret luid)
       | Inl err \<Rightarrow> if \<not> StartedAtBoot (net (watching h)) then raise err else create_loop n h config err)"

definition enable_firewall :: "'s service_host \<Rightarrow> Config \<Rightarrow> LUID \<Rightarrow> ('s, unit) tun" where
  "enable_firewall h config luid w =
     (case enableFirewall (fw_process h) (fw_engine h) config luid (wfpSession (ww w)) (os (ww w)) of
        (r, session, s) \<Rightarrow>
          andThen (lift_sum (map_sum FirewallErr id r)) (\<lambda>_. happened FirewallEnabled id)
            (w \<lparr>ww := (ww w) \<lparr>os := s, wfpSession := session\<rparr>\<rparr>))"

definition start_metrics :: "'s service_host \<Rightarrow> string \<Rightarrow> ('s, unit) tun" where
  "start_metrics h MetricsPath =
     (if MetricsPath = [] then ret ()
      else andThen (os_call (OpenMetricsFile h MetricsPath)) (\<lambda>_. happened MetricsStarted (\<lambda>w. w \<lparr>v_metrics := True\<rparr>)))"

text \<open>Events that arrive at the watcher before it is configured.\<close>

fun early_events :: "'s service_host \<Rightarrow> (nat \<times> LUID \<times> AddressFamily) list \<Rightarrow> ('s, unit) tun" where
  "early_events h [] = ret ()"
| "early_events h ((notificationType, luid, family) # es) =
     ignoring (on_watch (interface_changed (watching h) Watcher notificationType luid family)) (early_events h es)"

definition bring_up :: "'s service_host \<Rightarrow> string \<Rightarrow> (nat \<times> LUID \<times> AddressFamily) list \<Rightarrow> Config \<Rightarrow> LUID \<Rightarrow> 's stops" where
  "bring_up h MetricsPath early config luid =
     andThen (must ErrorCreateNetworkAdapter (os_call (adapter_SetLogging h))) (\<lambda>_.
     andThen (must ErrorRunScript (runScriptCommand h (PreUp (config_Interface config)) (Name config))) (\<lambda>_.
     andThen (must ErrorFirewall (enable_firewall h config luid)) (\<lambda>_.
     andThen (must ErrorDropPrivileges (andThen (DropAllPrivileges (tokens h) True) (\<lambda>_. happened PrivilegesDropped id))) (\<lambda>_.
     andThen (must ErrorDeviceSetConfig
       (andThen (os_call (drv_SetConfiguration (watching h) (ToDriverConfiguration config))) (\<lambda>_. happened ConfigurationSet id))) (\<lambda>_.
     andThen (must ErrorDeviceBringUp
       (andThen (os_call (drv_SetAdapterState (watching h) AdapterStateUp)) (\<lambda>_. happened AdapterUp id))) (\<lambda>_.
     andThen (regardless (start_metrics h MetricsPath)) (\<lambda>_.
     andThen (regardless (early_events h early)) (\<lambda>_.
     andThen (regardless (on_watch (Configure (watching h) config luid))) (\<lambda>_.
     andThen (happened WatcherConfigured id) (\<lambda>_.
       must ErrorRunScript (runScriptCommand h (PostUp (config_Interface config)) (Name config))))))))))))"

definition start_tunnel :: "'s service_host \<Rightarrow> string \<Rightarrow> string \<Rightarrow> (nat \<times> LUID \<times> AddressFamily) list \<Rightarrow> 's stops" where
  "start_tunnel h path MetricsPath early =
     andThen (must ErrorRingloggerOpen (os_call (conf_LogFile h))) (\<lambda>logFile.
     andThen (must ErrorRingloggerOpen (os_call (InitGlobalLogger h logFile))) (\<lambda>_.
     andThen (regardless (open_log h MetricsPath)) (\<lambda>_.
     andThen (must ErrorLoadConfiguration (load_config h path)) (\<lambda>config.
     andThen (regardless (announce_boot h)) (\<lambda>_.
     andThen (must ErrorSetNetConfig (start_watcher h config)) (\<lambda>_.
     andThen (must ErrorDNSLookup (resolve h config)) (\<lambda>config.
     andThen (must ErrorCreateNetworkAdapter (create_loop 15 h config (OtherErr []))) (\<lambda>luid.
       bring_up h MetricsPath early config luid))))))))"

section \<open>The running service\<close>

text \<open>What comes to the service: a control request, a notification of Windows for one callback or a change of its
  own, the watchdog's timer, and that the service reads from one of the watcher's channels.\<close>

datatype 's input =
    Stop | Shutdown | Interrogate | OtherRequest
  | InterfaceNotification nat nat LUID AddressFamily
  | RouteNotification nat byte
  | WatchdogTimer
  | ReadStarted
  | ReadErrors
  | SystemChanges 's

definition deliver :: "('s, unit) watch \<Rightarrow> 's stops" where
  "deliver m w = map_option (\<lambda>(_, x). (Inr (), w \<lparr>ww := x\<rparr>)) (m (ww w))"

definition input_effect :: "'s service_host \<Rightarrow> 's input \<Rightarrow> 's stops" where
  "input_effect h i w =
     (let v = ww w; hw = watching h in
      case i of
        InterfaceNotification n notificationType luid family \<Rightarrow>
          (case map_of (callbacks (interfaceChange v)) n of
             Some c \<Rightarrow> deliver (interface_changed hw c notificationType luid family) w | None \<Rightarrow> ret () w)
      | RouteNotification n len \<Rightarrow>
          (case map_of (callbacks (routeChange v)) n of
             Some c \<Rightarrow> deliver (route_changed hw c len) w | None \<Rightarrow> ret () w)
      | WatchdogTimer \<Rightarrow> if watchdog (iw v) then deliver watchdog_fires w else ret () w
      | SystemChanges s \<Rightarrow> deliver (\<lambda>x. Some (Inr (), x \<lparr>os := s\<rparr>)) w
      | Interrogate \<Rightarrow> report CurrentStatus w
      | _ \<Rightarrow> ret () w)"

text \<open>The loop of \<open>Execute\<close> over what comes; when nothing more comes the service keeps running.\<close>

fun service_loop :: "'s service_host \<Rightarrow> 's input list \<Rightarrow> bool \<Rightarrow> 's stops" where
  "service_loop h [] started_once w = None"
| "service_loop h (i # is) started_once w =
     (let v = ww w in
      case i of
        Stop \<Rightarrow> ret () w
      | Shutdown \<Rightarrow> ret () w
      | ReadStarted \<Rightarrow>
          (case started (iw v) of
             [] \<Rightarrow> service_loop h is started_once w
           | _ # fs \<Rightarrow>
               let w' = w \<lparr>ww := v \<lparr>iw := (iw v) \<lparr>started := fs\<rparr>\<rparr>\<rparr> in
               if \<not> started_once
               then service_loop h is True (w' \<lparr>serviceState := Running, changes := changes w' @ [Status Running True]\<rparr>)
               else service_loop h is True w')
      | ReadErrors \<Rightarrow>
          (case errors (iw v) of
             [] \<Rightarrow> service_loop h is started_once w
           | (e, err) # es \<Rightarrow> Some (Inl (Some (WatchErr err), e), w \<lparr>ww := v \<lparr>iw := (iw v) \<lparr>errors := es\<rparr>\<rparr>\<rparr>))
      | _ \<Rightarrow>
          (case input_effect h i w of
             None \<Rightarrow> None
           | Some (_, w') \<Rightarrow> service_loop h is started_once w'))"

definition service_body :: "'s service_host \<Rightarrow> string \<Rightarrow> string \<Rightarrow> (nat \<times> LUID \<times> AddressFamily) list \<Rightarrow> 's input list \<Rightarrow> 's stops" where
  "service_body h path MetricsPath early is =
     andThen (start_tunnel h path MetricsPath early) (\<lambda>_.
     andThen (\<lambda>w. report (Status (serviceState w) True) w) (\<lambda>_.
       service_loop h is False))"

section \<open>The deferred cleanup\<close>

text \<open>What \<open>errors.As\<close> finds for a \<open>windows.Errno\<close>; all wrapping is with \<open>%w\<close>.\<close>

fun net_errno :: "u32 \<Rightarrow> net_error \<Rightarrow> u32 option" where
  "net_errno einval (Win n) = Some (of_nat n)"
| "net_errno einval InvalidString = Some einval"
| "net_errno einval (OpeningInterfaceKey e) = net_errno einval e"
| "net_errno einval (SettingNameServer e) = net_errno einval e"
| "net_errno einval (SettingSearchList e) = net_errno einval e"

fun cfg_errno :: "u32 \<Rightarrow> cfg_error \<Rightarrow> u32 option" where
  "cfg_errno einval (UnableToSetRoutes e) = net_errno einval e"
| "cfg_errno einval (UnableToSetIps e) = net_errno einval e"
| "cfg_errno einval (NoIPInterface e) = net_errno einval e"
| "cfg_errno einval (UnableToSetMetricAndMTU e) = net_errno einval e"
| "cfg_errno einval (UnableToSetDNS e) = net_errno einval e"

fun watch_errno :: "u32 \<Rightarrow> watch_error \<Rightarrow> u32 option" where
  "watch_errno einval (NetError e) = net_errno einval e"
| "watch_errno einval (CfgError e) = cfg_errno einval e"
| "watch_errno einval NoInterfaceAfterOneMinute = None"
| "watch_errno einval (UnableToRegister e) = watch_errno einval e"

fun tunnel_errno :: "'s service_host \<Rightarrow> tunnel_error \<Rightarrow> u32 option" where
  "tunnel_errno h (SysError n) = Some (of_nat n)"
| "tunnel_errno h (StoreErr e) = store_errno h e"
| "tunnel_errno h (WatchErr e) = watch_errno (syscall_EINVAL h) e"
| "tunnel_errno h (ResolveErr e) = net_errno (syscall_EINVAL h) e"
| "tunnel_errno h (FirewallErr (Errno n)) = Some (of_nat n)"
| "tunnel_errno h (FirewallErr (FirewallError n)) = Some (of_nat n)"
| "tunnel_errno h (FirewallErr (OtherError _)) = None"
| "tunnel_errno h (OtherErr _) = None"

text \<open>A step of the cleanup for a variable that is set.\<close>

definition when_set :: "('s service_world \<Rightarrow> bool) \<Rightarrow> ('s, unit) tun \<Rightarrow> event \<Rightarrow> ('s, unit) tun" where
  "when_set v m x w = (if v w then ignoring m (happened x id) w else ret () w)"

text \<open>The scripts of the cleanup run when there was no error, an adapter and a configuration.\<close>

definition down_script :: "'s service_host \<Rightarrow> bool \<Rightarrow> (Interface \<Rightarrow> string) \<Rightarrow> ('s, unit) tun" where
  "down_script h failed script w =
     (case v_config w of
        Some config \<Rightarrow>
          if \<not> failed \<and> v_adapter w then runScriptCommand h (script (config_Interface config)) (Name config) w else ret () w
      | None \<Rightarrow> ret () w)"

definition cleanup :: "'s service_host \<Rightarrow> tunnel_error option \<times> service_error \<Rightarrow> ('s, bool \<times> u32) tun" where
  "cleanup h e =
     (let exitCode = DetermineErrorCode (tunnel_errno h) (fst e) (snd e);
          failed = (CombineErrors (fst e) (snd e) \<noteq> None) in
      ignoring (local (\<lambda>w. w \<lparr>serviceState := StopPending, changes := changes w @ [Status StopPending False]\<rparr>) :: ('s, unit) tun)
        (attempt (down_script h failed PreDown) (\<lambda>r.
         let failed = (failed \<or> isl r) in
         ignoring (when_set v_metrics (ret ()) MetricsStopped)
        (ignoring (when_set v_watcher (on_watch (Destroy (watching h))) WatcherDestroyed)
        (ignoring (when_set v_adapter (os_call (adapter_Close h)) AdapterClosed)
        (ignoring (down_script h failed PostDown)
        (ignoring (when_set v_log (ret ()) LogClosed)
          (ret exitCode))))))))"

definition Execute ::
    "'s service_host \<Rightarrow> string \<Rightarrow> string \<Rightarrow> (nat \<times> LUID \<times> AddressFamily) list \<Rightarrow> 's input list \<Rightarrow> ('s, bool \<times> u32) tun" where
  "Execute h path MetricsPath early is =
     ignoring (andThen (local (\<lambda>w. w \<lparr>serviceState := StartPending\<rparr>)) (\<lambda>_. report (Status StartPending False)) :: ('s, unit) tun)
       (attempt (service_body h path MetricsPath early is) (\<lambda>r.
          cleanup h (case r of Inl e \<Rightarrow> e | Inr _ \<Rightarrow> (None, ErrorSuccess))))"

section \<open>The stages of a service\<close>

definition fresh :: "'s watch_world \<Rightarrow> bool" where
  "fresh v \<longleftrightarrow> interfaceChange v = \<lparr>callbacks = [], handle = 0\<rparr> \<and> routeChange v = \<lparr>callbacks = [], handle = 0\<rparr> \<and> wfpSession v = 0"

text \<open>The trace is what was started, then what was stopped; the local variables say what was started; the watcher is in
  order until it is destroyed.\<close>

definition at_stage :: "event list \<Rightarrow> event list \<Rightarrow> bool \<Rightarrow> 's service_world \<Rightarrow> bool" where
  "at_stage ups downs destroyed w \<longleftrightarrow> trace w = ups @ downs \<and>
     v_log w = (LogOpened \<in> set ups) \<and> v_watcher w = (WatcherStarted \<in> set ups) \<and>
     v_adapter w = (AdapterCreated \<in> set ups) \<and> v_metrics w = (MetricsStarted \<in> set ups) \<and>
     (if destroyed then registered (ww w) = {} \<and> wfpSession (ww w) = 0
      else if WatcherStarted \<in> set ups then watcher_ok (ww w) else fresh (ww w))"

abbreviation up_to :: "event list \<Rightarrow> 's service_world \<Rightarrow> bool" where
  "up_to ups \<equiv> at_stage ups [] False"

text \<open>Everything that a service may start, in its order: the log and the metrics, and the two scripts, are optional.\<close>

definition opt_script :: "string option \<Rightarrow> event list" where
  "opt_script s = (case s of None \<Rightarrow> [] | Some c \<Rightarrow> [Script c])"

definition startup :: "bool \<Rightarrow> string option \<Rightarrow> bool \<Rightarrow> string option \<Rightarrow> event list" where
  "startup log preUp metrics postUp =
     (if log then [LogOpened] else []) @ [WatcherStarted, AdapterCreated] @ opt_script preUp @
     [FirewallEnabled, PrivilegesDropped, ConfigurationSet, AdapterUp] @ (if metrics then [MetricsStarted] else []) @
     [WatcherConfigured] @ opt_script postUp"

text \<open>What is stopped: what was started.\<close>

definition teardown :: "event list \<Rightarrow> string option \<Rightarrow> string option \<Rightarrow> event list" where
  "teardown ups preDown postDown =
     opt_script preDown @ (if MetricsStarted \<in> set ups then [MetricsStopped] else []) @
     (if WatcherStarted \<in> set ups then [WatcherDestroyed] else []) @
     (if AdapterCreated \<in> set ups then [AdapterClosed] else []) @ opt_script postDown @
     (if LogOpened \<in> set ups then [LogClosed] else [])"

definition stopped :: "'s service_world \<Rightarrow> bool" where
  "stopped w \<longleftrightarrow> (\<exists>log preUp metrics postUp ups. prefix ups (startup log preUp metrics postUp) \<and> up_to ups w)"

text \<open>A computation that takes states with one property to states with another, which depends on whether it fails.\<close>

definition spec :: "('w \<Rightarrow> bool) \<Rightarrow> ('w, 'e, 'a) io \<Rightarrow> ('a \<Rightarrow> 'w \<Rightarrow> bool) \<Rightarrow> ('w \<Rightarrow> bool) \<Rightarrow> bool" where
  "spec P m Q E \<longleftrightarrow> (\<forall>w r w'. P w \<longrightarrow> m w = Some (r, w') \<longrightarrow> (case r of Inl e \<Rightarrow> E w' | Inr x \<Rightarrow> Q x w'))"

named_theorems spec_intros \<open>rules for computations\<close>

lemma specD: "spec P m Q E \<Longrightarrow> P w \<Longrightarrow> m w = Some (r, w') \<Longrightarrow> case r of Inl e \<Rightarrow> E w' | Inr x \<Rightarrow> Q x w'"
  unfolding spec_def by blast

lemma spec_andThen:
  assumes m: "spec P m R E" and f: "\<And>x. spec (R x) (f x) Q E"
  shows "spec P (andThen m f) Q E"
  unfolding spec_def
proof (intro allI impI)
  fix w r w' assume P: "P w" and run: "andThen m f w = Some (r, w')"
  from run show "case r of Inl e \<Rightarrow> E w' | Inr x \<Rightarrow> Q x w'"
  proof (cases rule: andThenE)
    case (1 e)
    with specD [OF m P 1(1)] show ?thesis by simp
  next
    case (2 x w1)
    with specD [OF m P 2(1)] have "R x w1" by simp
    then show ?thesis by (rule specD [OF f _ 2(2)])
  qed
qed

lemma spec_attempt:
  assumes m: "spec P m (\<lambda>x. R (Inr x)) E'" and e: "\<And>e w. E' w \<Longrightarrow> R (Inl e) w" and f: "\<And>r. spec (R r) (f r) Q E"
  shows "spec P (attempt m f) Q E"
  unfolding spec_def
proof (intro allI impI)
  fix w r w' assume P: "P w" and run: "attempt m f w = Some (r, w')"
  from run obtain x w1 where x: "m w = Some (x, w1)" "f x w1 = Some (r, w')" by (rule attemptE)
  have "R x w1" using specD [OF m P x(1)] e by (cases x) auto
  then show "case r of Inl e \<Rightarrow> E w' | Inr x \<Rightarrow> Q x w'" by (rule specD [OF f _ x(2)])
qed

lemma spec_weaken: "spec P m Q E \<Longrightarrow> (\<And>x w. Q x w \<Longrightarrow> Q' x w) \<Longrightarrow> (\<And>w. E w \<Longrightarrow> E' w) \<Longrightarrow> spec P m Q' E'"
  unfolding spec_def by (fastforce split: sum.splits)

lemma spec_pre: "(\<And>w. P w \<Longrightarrow> P' w) \<Longrightarrow> spec P' m Q E \<Longrightarrow> spec P m Q E"
  unfolding spec_def by blast

lemma spec_ex: "(\<And>x. spec (P x) m Q E) \<Longrightarrow> spec (\<lambda>w. \<exists>x. P x w) m Q E"
  unfolding spec_def by blast

lemma spec_ret: "spec P (ret x) (\<lambda>_. P) E" "spec P (raise e) Q P"
  by (simp_all add: spec_def io_run)

lemma spec_if: "(b \<Longrightarrow> spec P m Q E) \<Longrightarrow> (\<not> b \<Longrightarrow> spec P n Q E) \<Longrightarrow> spec P (if b then m else n) Q E"
  by simp

lemma spec_must: "spec P m Q E \<Longrightarrow> spec P (must e m) Q E"
  unfolding must_def
  by (rule spec_attempt [where R = "\<lambda>r w. case r of Inl _ \<Rightarrow> E w | Inr x \<Rightarrow> Q x w" and E' = E])
    (auto simp: spec_def io_run split: sum.splits)

lemma spec_regardless: "spec P m (\<lambda>_. Q) Q \<Longrightarrow> spec P (regardless m) (\<lambda>_. Q) E"
  unfolding regardless_def by (rule spec_attempt [where R = "\<lambda>_. Q" and E' = Q]) (auto simp: spec_ret)

lemma spec_ignoring: "spec P m (\<lambda>_. R) R \<Longrightarrow> spec R f Q E \<Longrightarrow> spec P (ignoring m f) Q E"
  unfolding ignoring_def by (rule spec_attempt [where R = "\<lambda>_. R" and E' = R]) auto

section \<open>Each part\<close>

lemma watcher_ok_fields:
  "watcher_ok (v \<lparr>os := s\<rparr>) = watcher_ok v" "watcher_ok (v \<lparr>os := s, wfpSession := n\<rparr>) = watcher_ok v"
  by (subst watcher_ok_of_watch [of _ v]; simp add: of_watch_def)+

lemma at_stage_fields:
  "at_stage u d b (w \<lparr>ww := (ww w) \<lparr>os := s\<rparr>\<rparr>) = at_stage u d b w" "at_stage u d b (w \<lparr>changes := cs\<rparr>) = at_stage u d b w"
  "at_stage u d b (w \<lparr>serviceState := st\<rparr>) = at_stage u d b w" "at_stage u d b (w \<lparr>v_config := c\<rparr>) = at_stage u d b w"
  by (simp_all add: at_stage_def watcher_ok_fields fresh_def registered_def)

lemma os_call_stage: "spec (at_stage u d b) (os_call f) (\<lambda>_. at_stage u d b) (at_stage u d b)"
  by (auto simp: spec_def os_call_def at_stage_fields split: prod.splits sum.splits)

lemma local_stage: "(\<And>w. at_stage u d b w \<Longrightarrow> at_stage u' d' b' (f w)) \<Longrightarrow> spec (at_stage u d b) (local f) (\<lambda>_. at_stage u' d' b') E"
  by (auto simp: spec_def local_def)

lemma happened_down: "spec (at_stage u d b) (happened x id) (\<lambda>_. at_stage u (d @ [x]) b) E"
  unfolding happened_def by (rule local_stage) (simp add: at_stage_def)

text \<open>Events that have no variable.\<close>

lemma happened_up:
  "x \<notin> {LogOpened, WatcherStarted, AdapterCreated, MetricsStarted} \<Longrightarrow> spec (up_to u) (happened x id) (\<lambda>_. up_to (u @ [x])) E"
  unfolding happened_def by (rule local_stage) (auto simp: at_stage_def)

lemma on_watch_stage:
  "keeps_ok m \<Longrightarrow> WatcherStarted \<in> set u \<Longrightarrow> spec (up_to u) (on_watch m) (\<lambda>_. up_to u) (up_to u)"
  by (auto simp: spec_def on_watch_def at_stage_def dest: keeps_okD split: sum.splits)

lemma runScriptCommand_stage:
  fixes h :: "'s service_host"
  shows "spec (at_stage u d b) (runScriptCommand h c n) (\<lambda>_ w. \<exists>s. at_stage u (d @ opt_script s) b w) (\<lambda>w. \<exists>s. at_stage u (d @ opt_script s) b w)"
proof -
  let ?R = "\<lambda>w. \<exists>s. at_stage u (d @ opt_script s) b w"
  have i: "at_stage u d b w \<Longrightarrow> ?R w" "at_stage u (d @ [Script c]) b w \<Longrightarrow> ?R w" for w :: "'s service_world"
    by (rule exI [of _ None], simp add: opt_script_def) (rule exI [of _ "Some c"], simp add: opt_script_def)
  have w: "spec (at_stage u (d @ [Script c]) b) (andThen (os_call f) (\<lambda>e. if e = 0 then ret () else raise err)) (\<lambda>_. ?R) ?R"
    for f :: "'s \<Rightarrow> (nat + int) \<times> 's" and err
    by (rule spec_andThen [OF spec_weaken [OF os_call_stage], where R = "\<lambda>_. at_stage u (d @ [Script c]) b"])
      (auto intro: i spec_weaken [OF spec_ret(1)] spec_weaken [OF spec_ret(2)])
  have o: "spec (at_stage u d b) (andThen (os_call f) g) (\<lambda>_. ?R) ?R" if "\<And>x. spec (at_stage u d b) (g x) (\<lambda>_. ?R) ?R"
    for f :: "'s \<Rightarrow> (nat + 'x) \<times> 's" and g
    by (rule spec_andThen [OF spec_weaken [OF os_call_stage] that]) (assumption, erule i(1))
  have r: "spec (at_stage u d b) (ret () :: ('s, unit) tun) (\<lambda>_. ?R) ?R" by (auto simp: spec_def io_run intro!: i(1))
  show ?thesis
    unfolding runScriptCommand_def Let_def by (intro spec_if r o spec_andThen [OF happened_down w])
qed

lemma at_stage_script: "at_stage u (opt_script s) b w = at_stage (u @ opt_script s) [] b w"
  by (cases s) (simp_all add: opt_script_def at_stage_def)

lemma runScriptCommand_up:
  "spec (up_to u) (runScriptCommand h c n) (\<lambda>_ w. \<exists>s. up_to (u @ opt_script s) w) (\<lambda>w. \<exists>s. up_to (u @ opt_script s) w)"
  using runScriptCommand_stage [of u "[]" False h c n] by (simp add: at_stage_script)

definition opt_log :: "bool \<Rightarrow> event list" where
  "opt_log l = (if l then [LogOpened] else [])"

definition opt_metrics :: "bool \<Rightarrow> event list" where
  "opt_metrics m = (if m then [MetricsStarted] else [])"

lemmas startup_parts = startup_def [folded opt_log_def opt_metrics_def]

lemma opt_not [simp]:
  "WatcherStarted \<notin> set (opt_log l)" "WatcherStarted \<notin> set (opt_script s)" "WatcherStarted \<notin> set (opt_metrics m)"
  by (simp_all add: opt_log_def opt_script_def opt_metrics_def split: option.split)

lemma open_log_stage: "spec (up_to []) (open_log h mp) (\<lambda>_ w. \<exists>l. up_to (opt_log l) w) (\<lambda>w. \<exists>l. up_to (opt_log l) w)"
proof -
  have "up_to [] w \<Longrightarrow> \<exists>l. up_to (opt_log l) w" for w :: "'a service_world" by (rule exI [of _ False]) (simp add: opt_log_def)
  moreover have "up_to [] w \<Longrightarrow> \<exists>l. up_to (opt_log l) (w \<lparr>v_log := True, trace := trace w @ [LogOpened]\<rparr>)" for w :: "'a service_world"
    by (rule exI [of _ True]) (simp add: opt_log_def at_stage_def)
  ultimately show ?thesis
    by (auto simp: spec_def open_log_def happened_def local_def io_run split: if_splits prod.splits sum.splits)
qed

lemma load_config_stage: "spec (up_to u) (load_config h path) (\<lambda>_. up_to u) (up_to u)"
  by (auto simp: spec_def load_config_def Let_def andThen_def local_def io_run at_stage_fields split: sum.splits)

lemma announce_boot_stage: "spec (up_to u) (announce_boot h) (\<lambda>_. up_to u) (up_to u)"
  by (auto simp: spec_def announce_boot_def andThen_def local_def report_def io_run at_stage_fields split: if_splits)

lemma watchInterface_fresh: "fresh v \<Longrightarrow> watchInterface h c v = Some (Inl e, v') \<Longrightarrow> fresh v'"
  by (auto simp: watchInterface_def ignoring_def attempt_def upd_iw_def RegisterInterfaceChangeCallback_def register_handler_def
      fresh_def io_run Let_def split: sum.splits prod.splits option.splits if_splits)

lemma start_watcher_stage:
  assumes n: "notifies (notif (watching h))" and u: "WatcherStarted \<notin> set u"
  shows "spec (up_to u) (start_watcher h c) (\<lambda>_. up_to (u @ [WatcherStarted])) (up_to u)"
  unfolding start_watcher_def
proof (rule spec_andThen)
  let ?R = "\<lambda>_ w. trace w = u \<and> v_log w = (LogOpened \<in> set u) \<and> v_adapter w = (AdapterCreated \<in> set u) \<and>
    v_metrics w = (MetricsStarted \<in> set u) \<and> watcher_ok (ww w)"
  show "spec (up_to u) (on_watch (watchInterface (watching h) c)) ?R (up_to u)"
    unfolding spec_def
  proof (intro allI impI)
    fix w r w' assume w: "up_to u w" and "on_watch (watchInterface (watching h) c) w = Some (r, w')"
    then obtain x v where x: "watchInterface (watching h) c (ww w) = Some (x, v)" "r = map_sum WatchErr id x" "w' = w \<lparr>ww := v\<rparr>"
      by (auto simp: on_watch_def)
    have f: "fresh (ww w)" using w u by (simp add: at_stage_def)
    show "case r of Inl e \<Rightarrow> up_to u w' | Inr y \<Rightarrow> ?R y w'"
    proof (cases x)
      case (Inl e)
      then show ?thesis using watchInterface_fresh [OF f] x w u by (simp add: at_stage_def)
    next
      case (Inr y)
      have "watcher_ok v"
        by (rule watchInterface_ok [OF n, of "ww w" c y]) (use f x(1) Inr in \<open>simp_all add: fresh_def\<close>)
      then show ?thesis using Inr x w by (simp add: at_stage_def)
    qed
  qed
  show "spec (?R x) (happened WatcherStarted (v_watcher_update (\<lambda>_. True))) (\<lambda>_. up_to (u @ [WatcherStarted])) (up_to u)" for x
    by (auto simp: spec_def happened_def local_def at_stage_def)
qed

lemma resolve_stage: "spec (up_to u) (resolve h c) (\<lambda>_. up_to u) (up_to u)"
  by (auto simp: spec_def resolve_def at_stage_fields split: option.splits sum.splits prod.splits)

lemma create_loop_stage:
  "spec (up_to u) (create_loop n h c err) (\<lambda>_. up_to (u @ [AdapterCreated])) (up_to u)"
proof (induction n arbitrary: err)
  case (Suc n)
  have "spec (up_to u) (andThen (happened AdapterCreated (v_adapter_update (\<lambda>_. True))) (\<lambda>_. ret luid))
      (\<lambda>_. up_to (u @ [AdapterCreated])) (up_to u)" for luid :: LUID
    by (auto simp: spec_def happened_def local_def andThen_def io_run at_stage_def)
  with Suc show ?case
    unfolding create_loop.simps
    by (intro spec_attempt [where R = "\<lambda>_. up_to u", OF os_call_stage]) (auto split: sum.split simp: spec_ret)
qed (simp add: spec_ret)

lemma enable_firewall_stage:
  assumes "WatcherStarted \<in> set u"
  shows "spec (up_to u) (enable_firewall h c luid) (\<lambda>_. up_to (u @ [FirewallEnabled])) (up_to u)"
  using assms
  by (auto simp: spec_def enable_firewall_def andThen_def happened_def local_def io_run at_stage_def watcher_ok_fields
      split: prod.splits sum.splits)

lemma DropAllPrivileges_stage: "spec (up_to u) (DropAllPrivileges t b) (\<lambda>_. up_to u) (up_to u)"
  unfolding DropAllPrivileges_def
  by (intro spec_andThen [where R = "\<lambda>_. up_to u"] spec_if os_call_stage spec_ret | simp add: spec_ret os_call_stage split: prod.split)+

lemma start_metrics_stage:
  "spec (up_to u) (start_metrics h mp) (\<lambda>_ w. \<exists>m. up_to (u @ opt_metrics m) w) (\<lambda>w. \<exists>m. up_to (u @ opt_metrics m) w)"
proof -
  have f: "up_to u w \<Longrightarrow> \<exists>m. up_to (u @ opt_metrics m) w" for w :: "'a service_world"
    by (rule exI [of _ False]) (simp add: opt_metrics_def)
  have t: "spec (up_to u) (happened MetricsStarted (v_metrics_update (\<lambda>_. True)) :: ('a, unit) tun)
      (\<lambda>_ w. \<exists>m. up_to (u @ opt_metrics m) w) (\<lambda>w. \<exists>m. up_to (u @ opt_metrics m) w)"
    by (auto simp: spec_def happened_def local_def at_stage_def opt_metrics_def)
  show ?thesis
    unfolding start_metrics_def
    by (intro spec_if spec_andThen [OF spec_weaken [OF os_call_stage] t]) (auto simp: spec_def io_run intro!: f)
qed

lemma early_events_stage:
  assumes "notifies (notif (watching h))" "WatcherStarted \<in> set u"
  shows "spec (up_to u) (early_events h es) (\<lambda>_. up_to u) (up_to u)"
proof (induction es)
  case (Cons e es)
  then show ?case
    by (cases e) (simp add: spec_ignoring [OF on_watch_stage [OF steps_ok(2) [OF assms(1)] assms(2)]] del: interface_changed.simps)
qed (simp add: spec_ret)

section \<open>The whole startup\<close>

lemma stoppedI: "up_to u w \<Longrightarrow> prefix u (startup l a m b) \<Longrightarrow> stopped w"
  unfolding stopped_def by blast

definition running :: "'s service_world \<Rightarrow> bool" where
  "running w \<longleftrightarrow> (\<exists>log preUp metrics postUp. up_to (startup log preUp metrics postUp) w)"

lemma running_stopped: "running w \<Longrightarrow> stopped w"
  unfolding running_def stopped_def by blast

text \<open>A step of the startup that the service returns from when it fails.\<close>

lemma must_step:
  assumes "spec P m R E'" "\<And>w. E' w \<Longrightarrow> stopped w" "\<And>x. spec (R x) (f x) Q stopped"
  shows "spec P (andThen (must e m) f) Q stopped"
  by (rule spec_andThen [OF spec_must [OF spec_weaken [OF assms(1)]] assms(3)]) (use assms(2) in auto)

lemma regardless_step:
  assumes "spec P m (\<lambda>_. R) R" "\<And>x. spec R (f x) Q stopped"
  shows "spec P (andThen (regardless m) f) Q stopped"
  by (rule spec_andThen [OF spec_regardless [OF assms(1)] assms(2)])

lemma happened_step:
  assumes "x \<notin> {LogOpened, WatcherStarted, AdapterCreated, MetricsStarted}" "spec (up_to u) m (\<lambda>_. up_to u) (up_to u)"
  shows "spec (up_to u) (andThen m (\<lambda>_. happened x id)) (\<lambda>_. up_to (u @ [x])) (up_to u)"
  by (rule spec_andThen [OF assms(2) happened_up [OF assms(1)]])

text \<open>What is started behind the adapter, with the log and the script before it.\<close>

definition upto_adapter :: "bool \<Rightarrow> string option \<Rightarrow> event list" where
  "upto_adapter l a = opt_log l @ [WatcherStarted, AdapterCreated] @ opt_script a"

lemma startup_adapter:
  "startup l a m b = upto_adapter l a @ [FirewallEnabled, PrivilegesDropped, ConfigurationSet, AdapterUp] @ opt_metrics m @
     [WatcherConfigured] @ opt_script b"
  by (simp add: startup_parts upto_adapter_def)

lemma watcher_in [simp]: "WatcherStarted \<in> set (upto_adapter l a)"
  by (simp add: upto_adapter_def)

lemma last_steps:
  assumes n: "notifies (notif (watching h))"
  shows "spec (up_to (upto_adapter l a @ [FirewallEnabled, PrivilegesDropped, ConfigurationSet, AdapterUp]))
    (andThen (regardless (start_metrics h mp)) (\<lambda>_.
     andThen (regardless (early_events h early)) (\<lambda>_.
     andThen (regardless (on_watch (Configure (watching h) config luid))) (\<lambda>_.
     andThen (happened WatcherConfigured id) (\<lambda>_.
       must ErrorRunScript (runScriptCommand h c name)))))) (\<lambda>_. running) stopped"
proof -
  let ?u = "\<lambda>m. upto_adapter l a @ [FirewallEnabled, PrivilegesDropped, ConfigurationSet, AdapterUp] @ opt_metrics m"
  have s: "spec (up_to (?u m @ [WatcherConfigured])) (must ErrorRunScript (runScriptCommand h c name)) (\<lambda>_. running) stopped" for m
    by (rule spec_must [OF spec_weaken [OF runScriptCommand_up]]) (auto simp: running_def startup_adapter elim: stoppedI)
  have r: "spec (up_to (?u m)) (andThen (regardless (early_events h early)) (\<lambda>_.
     andThen (regardless (on_watch (Configure (watching h) config luid))) (\<lambda>_.
     andThen (happened WatcherConfigured id) (\<lambda>_. must ErrorRunScript (runScriptCommand h c name))))) (\<lambda>_. running) stopped" for m
    by (intro regardless_step [OF early_events_stage [OF n]] regardless_step [OF on_watch_stage [OF steps_ok(1) [OF n]]]
        spec_andThen [OF happened_up s]) simp_all
  have m: "spec (up_to (upto_adapter l a @ [FirewallEnabled, PrivilegesDropped, ConfigurationSet, AdapterUp])) (start_metrics h mp)
      (\<lambda>_ w. \<exists>m. up_to (?u m) w) (\<lambda>w. \<exists>m. up_to (?u m) w)"
    using start_metrics_stage [of "upto_adapter l a @ [FirewallEnabled, PrivilegesDropped, ConfigurationSet, AdapterUp]" h mp] by simp
  show ?thesis by (rule regardless_step [OF m spec_ex [OF r]])
qed

lemma bring_up_stage:
  assumes n: "notifies (notif (watching h))"
  shows "spec (up_to (upto_adapter l None)) (bring_up h mp early config luid) (\<lambda>_. running) stopped"
proof -
  let ?u = "upto_adapter l"
  have pre: "spec (up_to (?u None)) (runScriptCommand h c name) (\<lambda>_ w. \<exists>a. up_to (?u a) w) (\<lambda>w. \<exists>a. up_to (?u a) w)" for c name
    using runScriptCommand_up [of "?u None" h c name] by (simp add: upto_adapter_def opt_script_def)
  have stop: "up_to (?u a @ take k [FirewallEnabled, PrivilegesDropped, ConfigurationSet, AdapterUp]) w \<Longrightarrow> stopped w" for a k w
    by (erule stoppedI [of _ _ l a True None]) (unfold startup_adapter same_prefix_prefix, rule prefix_prefix [OF take_is_prefix])
  note stops = stop [of _ 0] stop [of _ 1] stop [of _ 2] stop [of _ 3]
  have d: "spec (up_to (?u a @ [FirewallEnabled])) (andThen (DropAllPrivileges (tokens h) True) (\<lambda>_. happened PrivilegesDropped id))
      (\<lambda>_. up_to (?u a @ [FirewallEnabled, PrivilegesDropped])) (up_to (?u a @ [FirewallEnabled]))" for a
    using happened_step [OF _ DropAllPrivileges_stage, of PrivilegesDropped "?u a @ [FirewallEnabled]"] by simp
  have c: "spec (up_to (?u a @ [FirewallEnabled, PrivilegesDropped])) (andThen (os_call f) (\<lambda>_. happened ConfigurationSet id))
      (\<lambda>_. up_to (?u a @ [FirewallEnabled, PrivilegesDropped, ConfigurationSet])) (up_to (?u a @ [FirewallEnabled, PrivilegesDropped]))"
    for a and f :: "'a \<Rightarrow> (nat + unit) \<times> 'a"
    using happened_step [OF _ os_call_stage, of ConfigurationSet "?u a @ [FirewallEnabled, PrivilegesDropped]"] by simp
  have p: "spec (up_to (?u a @ [FirewallEnabled, PrivilegesDropped, ConfigurationSet])) (andThen (os_call f) (\<lambda>_. happened AdapterUp id))
      (\<lambda>_. up_to (?u a @ [FirewallEnabled, PrivilegesDropped, ConfigurationSet, AdapterUp]))
      (up_to (?u a @ [FirewallEnabled, PrivilegesDropped, ConfigurationSet]))" for a and f :: "'a \<Rightarrow> (nat + unit) \<times> 'a"
    using happened_step [OF _ os_call_stage, of AdapterUp "?u a @ [FirewallEnabled, PrivilegesDropped, ConfigurationSet]"] by simp
  show ?thesis
    unfolding bring_up_def
    apply (rule must_step [OF os_call_stage])
     apply (erule stops(1) [of None, simplified])
    apply (rule must_step [OF pre])
     apply (elim exE, erule stops(1) [simplified])
    apply (rule spec_ex)
    apply (rule must_step [OF enable_firewall_stage], simp, erule stops(1) [simplified])
    apply (rule must_step [OF d], erule stops(2) [simplified])
    apply (rule must_step [OF c], erule stops(3) [simplified])
    apply (rule must_step [OF p], erule stops(4) [simplified])
    apply (rule last_steps [OF n])
    done
qed

lemma start_tunnel_stage:
  assumes n: "notifies (notif (watching h))"
  shows "spec (up_to []) (start_tunnel h path mp early) (\<lambda>_. running) stopped"
proof -
  have stop: "up_to (take k (opt_log l @ [WatcherStarted, AdapterCreated])) w \<Longrightarrow> stopped w" for k l w
    by (erule stoppedI [of _ _ l None True None])
      (unfold startup_parts append.assoc [symmetric, of "opt_log l"], rule prefix_prefix [OF take_is_prefix])
  have s0: "up_to [] w \<Longrightarrow> stopped w" for w using stop [of 0] by simp
  have s1: "up_to (opt_log l) w \<Longrightarrow> stopped w" for l w using stop [of "length (opt_log l)" l] by simp
  have s2: "up_to (opt_log l @ [WatcherStarted]) w \<Longrightarrow> stopped w" for l w using stop [of "Suc (length (opt_log l))" l] by simp
  have c: "spec (up_to (opt_log l @ [WatcherStarted])) (create_loop k h config err) (\<lambda>_. up_to (upto_adapter l None))
      (up_to (opt_log l @ [WatcherStarted]))" for l k config err
    using create_loop_stage [of "opt_log l @ [WatcherStarted]" k h config err] by (simp add: upto_adapter_def opt_script_def)
  show ?thesis
    unfolding start_tunnel_def
    apply (rule must_step [OF os_call_stage], erule s0)
    apply (rule must_step [OF os_call_stage], erule s0)
    apply (rule regardless_step [OF open_log_stage])
    apply (rule spec_ex)
    apply (rule must_step [OF load_config_stage], erule s1)
    apply (rule regardless_step [OF announce_boot_stage])
    apply (rule must_step [OF start_watcher_stage [OF n]], simp, erule s1)
    apply (rule must_step [OF resolve_stage], erule s2)
    apply (rule must_step [OF c], erule s2)
    apply (rule bring_up_stage [OF n])
    done
qed

section \<open>Running\<close>

lemma deliver_stage:
  "keeps_ok m \<Longrightarrow> WatcherStarted \<in> set u \<Longrightarrow> up_to u w \<Longrightarrow> deliver m w = Some (r, w') \<Longrightarrow> up_to u w'"
  by (auto simp: deliver_def at_stage_def dest: keeps_okD)

lemma input_effect_stage:
  assumes n: "notifies (notif (watching h))" and u: "WatcherStarted \<in> set u" "up_to u w"
    and run: "input_effect h i w = Some (r, w')"
  shows "up_to u w'"
proof -
  have "keeps_ok (\<lambda>x. Some (Inr (), x \<lparr>os := s\<rparr>) :: ((watch_error + unit) \<times> 'a watch_world) option)" for s
    by (simp add: keeps_ok_def watcher_ok_fields)
  note d = deliver_stage [OF _ u] steps_ok(2-4) [OF n] this
  show ?thesis
    using run u(2)
    by (cases i)
      (auto simp: input_effect_def Let_def io_run report_def local_def at_stage_fields split: option.splits if_splits
        intro: d(1) [OF d(2)] d(1) [OF d(3)] d(1) [OF d(4)] d(1) [OF d(5)])
qed

lemma watcher_ok_channels:
  "watcher_ok (v \<lparr>iw := (iw v) \<lparr>started := fs\<rparr>\<rparr>) = watcher_ok v" "watcher_ok (v \<lparr>iw := (iw v) \<lparr>errors := es\<rparr>\<rparr>) = watcher_ok v"
  by (rule watcher_ok_iw, simp add: held_def)+

lemma service_loop_stage:
  assumes n: "notifies (notif (watching h))" and u: "WatcherStarted \<in> set u"
  shows "up_to u w \<Longrightarrow> service_loop h is b w = Some (r, w') \<Longrightarrow> up_to u w'"
proof (induction "is" arbitrary: b w)
  case (Cons i "is")
  have c: "up_to u (w \<lparr>ww := (ww w) \<lparr>iw := (iw (ww w)) \<lparr>started := fs\<rparr>\<rparr>\<rparr>)"
      "up_to u (w \<lparr>ww := (ww w) \<lparr>iw := (iw (ww w)) \<lparr>errors := es\<rparr>\<rparr>\<rparr>)"
      "up_to u (w \<lparr>ww := (ww w) \<lparr>iw := (iw (ww w)) \<lparr>started := fs\<rparr>\<rparr>, serviceState := st, changes := cs\<rparr>)" for fs es st cs
    using Cons.prems(1) u by (simp_all add: at_stage_def watcher_ok_channels)
  show ?case
  proof (cases "i \<in> {Stop, Shutdown, ReadStarted, ReadErrors}")
    case True
    then show ?thesis
      using Cons.prems c(1,3) [THEN Cons.IH] c
      by (auto simp: Let_def io_run at_stage_fields split: list.splits if_splits intro: Cons.IH)
  next
    case False
    then obtain x w1 where "input_effect h i w = Some (x, w1)" "service_loop h is b w1 = Some (r, w')"
      using Cons.prems(2) by (cases i) (auto simp: Let_def split: option.splits)
    then show ?thesis using Cons.IH input_effect_stage [OF n u Cons.prems(1)] by blast
  qed
qed simp

lemma service_body_stage:
  assumes n: "notifies (notif (watching h))"
  shows "spec (up_to []) (service_body h path mp early is) (\<lambda>_. stopped) stopped"
proof -
  have u: "WatcherStarted \<in> set (startup l a m b)" for l a m b by (simp add: startup_parts)
  have l: "spec running (service_loop h is b) (\<lambda>_. stopped) stopped" for b
    unfolding spec_def
  proof (intro allI impI)
    fix w r w' assume "running w" and run: "service_loop h is b w = Some (r, w')"
    then obtain l a m b' where "up_to (startup l a m b') w" by (auto simp: running_def)
    from service_loop_stage [OF n u this run] have "stopped w'" by (rule stoppedI [OF _ prefix_order.order_refl])
    then show "case r of Inl e \<Rightarrow> stopped w' | Inr x \<Rightarrow> stopped w'" by (simp split: sum.split)
  qed
  have "spec running (\<lambda>w. report (Status (serviceState w) True) w) (\<lambda>_. running) stopped"
    by (auto simp: spec_def report_def local_def running_def at_stage_fields)
  then show ?thesis unfolding service_body_def by (intro spec_andThen [OF start_tunnel_stage [OF n]] spec_andThen [OF _ l])
qed

section \<open>Cleaning up\<close>

lemma when_set_stage:
  fixes v :: "'s service_world \<Rightarrow> bool"
  assumes m: "spec (at_stage u d b) m (\<lambda>_. at_stage u d b') (at_stage u d b')"
    and v: "\<And>w. at_stage u d b w \<Longrightarrow> v w = (x \<in> set u)" and unset: "\<And>w :: 's service_world. x \<notin> set u \<Longrightarrow> at_stage u d b w \<Longrightarrow> at_stage u d b' w"
  shows "spec (at_stage u d b) (when_set v m y) (\<lambda>_. at_stage u (d @ (if x \<in> set u then [y] else [])) b')
    (at_stage u (d @ (if x \<in> set u then [y] else [])) b')"
proof -
  have i: "spec (at_stage u d b) (ignoring m (happened y id)) (\<lambda>_. at_stage u (d @ [y]) b') (at_stage u (d @ [y]) b')"
    by (rule spec_ignoring [OF m happened_down])
  show ?thesis
    unfolding spec_def
  proof (intro allI impI)
    fix w r w' assume w: "at_stage u d b w" and run: "when_set v m y w = Some (r, w')"
    show "case r of Inl e \<Rightarrow> at_stage u (d @ (if x \<in> set u then [y] else [])) b' w'
      | Inr z \<Rightarrow> at_stage u (d @ (if x \<in> set u then [y] else [])) b' w'"
      using run w v [OF w] unset [OF _ w] specD [OF i w] by (auto simp: when_set_def io_run split: if_splits)
  qed
qed

lemma down_script_stage:
  "spec (at_stage u d b) (down_script h failed scr)
    (\<lambda>_ w. \<exists>s. (failed \<longrightarrow> s = None) \<and> at_stage u (d @ opt_script s) b w) (\<lambda>w. \<exists>s. (failed \<longrightarrow> s = None) \<and> at_stage u (d @ opt_script s) b w)"
proof -
  have none: "at_stage u d b w \<Longrightarrow> \<exists>s. (failed \<longrightarrow> s = None) \<and> at_stage u (d @ opt_script s) b w" for w :: "'a service_world"
    by (rule exI [of _ None]) (simp add: opt_script_def)
  show ?thesis
    unfolding spec_def
  proof (intro allI impI)
    fix w r w' assume w: "at_stage u d b w" and run: "down_script h failed scr w = Some (r, w')"
    show "case r of Inl e \<Rightarrow> \<exists>s. (failed \<longrightarrow> s = None) \<and> at_stage u (d @ opt_script s) b w'
      | Inr x \<Rightarrow> \<exists>s. (failed \<longrightarrow> s = None) \<and> at_stage u (d @ opt_script s) b w'"
    proof (cases "v_config w = None \<or> failed \<or> \<not> v_adapter w")
      case True
      then have "r = Inr ()" "w' = w" using run by (auto simp: down_script_def io_run split: option.splits if_splits)
      then show ?thesis using none [OF w] by simp
    next
      case False
      then obtain c n where "runScriptCommand h c n w = Some (r, w')" using run by (auto simp: down_script_def)
      from specD [OF runScriptCommand_stage w this] False show ?thesis by (simp split: sum.splits)
    qed
  qed
qed

lemma destroy_stage:
  "spec (at_stage u d False) (when_set v_watcher (on_watch (Destroy hw)) WatcherDestroyed)
    (\<lambda>_. at_stage u (d @ (if WatcherStarted \<in> set u then [WatcherDestroyed] else [])) True)
    (at_stage u (d @ (if WatcherStarted \<in> set u then [WatcherDestroyed] else [])) True)"
proof (cases "WatcherStarted \<in> set u")
  case True
  have "spec (at_stage u d False) (on_watch (Destroy hw)) (\<lambda>_. at_stage u d True) (at_stage u d True)"
    unfolding spec_def
  proof (intro allI impI)
    fix w r w' assume w: "at_stage u d False w" and run: "on_watch (Destroy hw) w = Some (r, w')"
    have "watcher_ok (ww w)" using w True by (simp add: at_stage_def)
    from Destroy_effect [OF this, of hw] obtain v where
      "Destroy hw (ww w) = Some (Inr (), v)" "registered v = {}" "wfpSession v = 0" by (elim exE conjE)
    with run w show "case r of Inl e \<Rightarrow> at_stage u d True w' | Inr x \<Rightarrow> at_stage u d True w'"
      by (auto simp: on_watch_def at_stage_def)
  qed
  then show ?thesis by (rule when_set_stage) (use True in \<open>simp_all add: at_stage_def\<close>)
next
  case False
  then have "at_stage u d False w \<Longrightarrow> at_stage u d True w \<and> \<not> v_watcher w" for w :: "'a service_world"
    by (simp add: at_stage_def fresh_def registered_def ids_def)
  then show ?thesis using False by (auto simp: spec_def when_set_def io_run)
qed

lemma spec_ret_of: "(\<And>w. P w \<Longrightarrow> Q x w) \<Longrightarrow> spec P (ret x) Q E"
  by (simp add: spec_def io_run)

lemma spec_conj_ex:
  "(\<And>x. p x \<Longrightarrow> spec (P x) m Q E) \<Longrightarrow> spec (\<lambda>w. \<exists>x. p x \<and> P x w) m Q E"
  unfolding spec_def by blast

lemma stop_parts:
  "spec (at_stage u d False)
    (ignoring (when_set v_metrics (ret ()) MetricsStopped)
    (ignoring (when_set v_watcher (on_watch (Destroy hw)) WatcherDestroyed)
    (ignoring (when_set v_adapter (os_call close) AdapterClosed)
    (ignoring (down_script h failed PostDown)
    (ignoring (when_set v_log (ret ()) LogClosed) (ret exitCode))))))
    (\<lambda>c w. c = exitCode \<and> (\<exists>s. (failed \<longrightarrow> s = None) \<and>
       at_stage u (d @ (if MetricsStarted \<in> set u then [MetricsStopped] else []) @
         (if WatcherStarted \<in> set u then [WatcherDestroyed] else []) @ (if AdapterCreated \<in> set u then [AdapterClosed] else []) @
         opt_script s @ (if LogOpened \<in> set u then [LogClosed] else [])) True w)) (\<lambda>_. False)"
proof -
  have metrics: "spec (at_stage u d False) (when_set v_metrics (ret ()) MetricsStopped)
      (\<lambda>_. at_stage u (d @ (if MetricsStarted \<in> set u then [MetricsStopped] else [])) False)
      (at_stage u (d @ (if MetricsStarted \<in> set u then [MetricsStopped] else [])) False)" for d
    by (rule when_set_stage [OF spec_ret(1)]) (simp_all add: at_stage_def)
  have adapter: "spec (at_stage u d True) (when_set v_adapter (os_call close) AdapterClosed)
      (\<lambda>_. at_stage u (d @ (if AdapterCreated \<in> set u then [AdapterClosed] else [])) True)
      (at_stage u (d @ (if AdapterCreated \<in> set u then [AdapterClosed] else [])) True)" for d
    by (rule when_set_stage [OF os_call_stage]) (simp_all add: at_stage_def)
  have log: "spec (at_stage u d True) (when_set v_log (ret ()) LogClosed)
      (\<lambda>_. at_stage u (d @ (if LogOpened \<in> set u then [LogClosed] else [])) True)
      (at_stage u (d @ (if LogOpened \<in> set u then [LogClosed] else [])) True)" for d
    by (rule when_set_stage [OF spec_ret(1)]) (simp_all add: at_stage_def)
  show ?thesis
    by (intro spec_ignoring [OF metrics] spec_ignoring [OF destroy_stage] spec_ignoring [OF adapter]
        spec_ignoring [OF down_script_stage] spec_conj_ex spec_ignoring [OF log] spec_ret_of) auto
qed

lemma cleanup_stage:
  fixes h :: "'s service_host"
  shows "spec (up_to u) (cleanup h e)
    (\<lambda>code w. code = DetermineErrorCode (tunnel_errno h) (fst e) (snd e) \<and>
      (\<exists>d1 d2. (CombineErrors (fst e) (snd e) \<noteq> None \<longrightarrow> d1 = None \<and> d2 = None) \<and> at_stage u (teardown u d1 d2) True w)) (\<lambda>_. False)"
proof -
  let ?failed = "CombineErrors (fst e) (snd e) \<noteq> None"
  have first: "spec (up_to u) (local (\<lambda>w. w \<lparr>serviceState := StopPending, changes := changes w @ [Status StopPending False]\<rparr>) :: ('s, unit) tun)
      (\<lambda>_. up_to u) (up_to u)"
    by (rule local_stage) (simp add: at_stage_def)
  have pre: "spec (up_to u) (down_script h ?failed PreDown) (\<lambda>_ w. \<exists>s. (?failed \<longrightarrow> s = None) \<and> at_stage u (opt_script s) False w)
      (\<lambda>w. \<exists>s. (?failed \<longrightarrow> s = None) \<and> at_stage u (opt_script s) False w)"
    using down_script_stage [of u "[]" False h ?failed PreDown] by simp
  show ?thesis
    unfolding cleanup_def Let_def
    by (rule spec_ignoring [OF first],
        rule spec_attempt [where R = "\<lambda>_ w. \<exists>s. (?failed \<longrightarrow> s = None) \<and> at_stage u (opt_script s) False w", OF pre],
        assumption, rule spec_conj_ex, rule spec_weaken [OF stop_parts [where d = "opt_script d1" for d1, folded teardown_def]]) blast+
qed

section \<open>The life of a service\<close>


text \<open>A host on which everything succeeds but for the attributes given.\<close>

definition willing :: "tables wfp" where
  "willing =
     \<lparr>fwpmEngineOpen0 = (\<lambda>_ s. (Inr 4, s)), fwpmEngineClose0 = (\<lambda>_ s. (Inr (), s)), fwpmSubLayerAdd0 = (\<lambda>_ _ s. (Inr (), s)),
      fwpmProviderAdd0 = (\<lambda>_ _ s. (Inr (), s)), fwpmFilterAdd0 = (\<lambda>_ _ s. (Inr (), s)),
      fwpmTransactionBegin0 = (\<lambda>_ s. (Inr (), s)), fwpmTransactionCommit0 = (\<lambda>_ s. (Inr (), s)),
      fwpmTransactionAbort0 = (\<lambda>_ s. (Inr (), s))\<rparr>"

definition small_host :: "nat option \<Rightarrow> tables service_host" where
  "small_host logging_error =
     \<lparr>watching = calm,
      tokens = \<lparr>LookupPrivilegeValue = (\<lambda>_ s. (Inr 10, s)), OpenProcessTokenRW = (\<lambda>s. (Inr (), s)),
        bufferSizeRequired = (\<lambda>s. (28, s)), GetTokenPrivileges = (\<lambda>n s. (Inr (n, [(10, 2), (20, 3)]), s)),
        AdjustTokenPrivileges = (\<lambda>_ s. (Inr (), s))\<rparr>,
      scripts = \<lparr>DangerousScriptExecution = False, GetSystemDirectory = (\<lambda>s. (Inr [], s)), OpenDevNull = (\<lambda>s. (Inr (), s)),
        os_Pipe = (\<lambda>s. (Inr (), s)), StartProcess = (\<lambda>_ _ _ s. (Inr (), s)), process_Wait = (\<lambda>s. (Inr 0, s))\<rparr>,
      fw_process = service_process, fw_engine = willing, conf_env = sample_env, conf_files = plain_file,
      store_errno = (\<lambda>_. None), guids = plain_env, getAddrInfo = (\<lambda>_ s. (Inr [], s)),
      conf_LogFile = (\<lambda>s. (Inr ''log.bin'', s)), InitGlobalLogger = (\<lambda>_ s. (Inr (), s)),
      log_beside = (\<lambda>_. (\<lambda>_. None, None, None, [])), syscall_EINVAL = 87, scm_locked = False,
      CreateAdapter = (\<lambda>_ _ s. (Inr 7, s)),
      adapter_SetLogging = (\<lambda>s. (case logging_error of None \<Rightarrow> Inr () | Some n \<Rightarrow> Inl n, s)),
      adapter_Close = (\<lambda>s. (Inr (), s)), OpenMetricsFile = (\<lambda>_ s. (Inr (), s))\<rparr>"

definition idle :: "tables service_world" where
  "idle =
     \<lparr>ww = quiet \<lparr>wfpSession := 0\<rparr>, changes = [], trace = [], serviceState = StartPending, v_config = None, v_log = False,
      v_watcher = False, v_adapter = False, v_metrics = False\<rparr>"

definition small_path :: string where
  "small_path = filepath_Join (config_dir sample_env) ''wg0.conf''"


section \<open>The kill switch\<close>

text \<open>When the service restricts the traffic: one peer, with routes, and exactly the default prefix of a family.\<close>

definition restricted :: "Config \<Rightarrow> bool" where
  "restricted conf \<longleftrightarrow> length (Peers conf) = 1 \<and> \<not> TableOff (config_Interface conf) \<and>
     (\<exists>a\<in>set (AllowedIPs (Peers conf ! 0)). prefix_bits a = Some 0 \<and> a = Masked a)"

lemma doNotRestrict_iff: "doNotRestrict conf \<longleftrightarrow> \<not> restricted conf"
  by (auto simp: doNotRestrict_def restricted_def list_ex_iff Bits_def split: option.splits)

text \<open>Without restriction the only filters are the permits of the service.\<close>

lemma unrestricted_hits:
  assumes "map anon fs = firewall_rules bo appID sd luid True dns" "(n, act) \<in> set (hits holds fs layer p)"
  shows "act = cFWP_ACTION_PERMIT"
proof -
  have "hits holds fs layer p = hits holds (service_rules bo 15 appID sd) layer p"
    using hits_anon [of holds fs layer p] assms(1) by (simp add: firewall_rules_def)
  then show ?thesis using assms(2) by (simp add: hits_service split: if_splits)
qed

text \<open>C7: After \<open>enableFirewall\<close> has succeeded for a configuration with one peer, routes, and the allowed prefix
  \<open>0.0.0.0/0\<close> or \<open>::/0\<close>, the engine blocks every packet that is not the service's own, on the tunnel's interface, of
  loopback, of DHCP or neighbour discovery, and every DNS packet to a server that is not in the configuration.  For any other
  configuration, one with a default prefix written with other bits included, it blocks nothing.\<close>

theorem enableFirewall_killswitch:
  assumes "wfp_engine w active pending" "wfp_arbitration holds classify"
    and "enableFirewall p w conf luid 0 s = (Inr (), session, s')" "length (DNS (config_Interface conf)) < 2 ^ 31"
    and "layer \<in> set (layersV4 @ layersV6)"
  shows "\<exists>appID sd. getCurrentProcessAppID p = Inr appID \<and> getCurrentProcessSecurityDescriptor p = Inr sd \<and>
    (if restricted conf
     then classify (active s' session) layer packet =
       Some (verdict holds appID sd luid (DNS (config_Interface conf)) layer packet)
     else classify (active s' session) layer packet \<in> {None, Some cFWP_ACTION_PERMIT})"
proof -
  let ?dns = "DNS (config_Interface conf)"
  from wfp_engine.EnableFirewall_spec [OF assms(1) assms(3) [unfolded enableFirewall_def]] obtain bo appID sd new where
    n: "getCurrentProcessAppID p = Inr appID" "getCurrentProcessSecurityDescriptor p = Inr sd"
      "active s' = (active s) (session := new)" "map anon new = firewall_rules bo appID sd luid (doNotRestrict conf) ?dns"
    by auto
  have a: "active s' session = new" using n(3) by simp
  show ?thesis
  proof (cases "restricted conf")
    case True
    then have "map anon new = firewall_rules bo appID sd luid False ?dns" using n(4) by (simp add: doNotRestrict_iff)
    from wfp_arbitration.classify_rules [OF assms(2) this assms(4,5)] True n a show ?thesis by auto
  next
    case False
    then have t: "map anon new = firewall_rules bo appID sd luid True ?dns" using n(4) by (simp add: doNotRestrict_iff)
    have "classify new layer packet \<in> {None, Some cFWP_ACTION_PERMIT}"
    proof (cases "hits holds new layer packet")
      case Nil
      then show ?thesis using wfp_arbitration.none_matches [OF assms(2)] by blast
    next
      case (Cons x xs)
      then have x: "(fst x, cFWP_ACTION_PERMIT) \<in> set (hits holds new layer packet)"
        using unrestricted_hits [OF t, of "fst x" "snd x" holds layer packet] by (cases x) simp
      have "classify new layer packet = Some cFWP_ACTION_PERMIT"
        by (rule wfp_arbitration.highest_decides [OF assms(2) x]) (auto dest: unrestricted_hits [OF t])
      then show ?thesis by simp
    qed
    with False n a show ?thesis by auto
  qed
qed

theorem enableFirewall_killswitch_witness:
  "by_weight (engine_active (snd (snd (enableFirewall service_process scripted home_conf 9
     0 (fresh_engine [])))) 1) cFWPM_LAYER_ALE_AUTH_CONNECT_V4 leak = Some cFWP_ACTION_BLOCK"
proof -
  have r: "restricted home_conf"
    by code_simp
  have dns: "DNS (config_Interface home_conf) = [Addr4 0x01010101]" by (simp add: home_conf_def)
  have "verdict satisfied [7] [2, 1] 9 [Addr4 0x01010101] cFWPM_LAYER_ALE_AUTH_CONNECT_V4 leak =
    cFWP_ACTION_BLOCK" by code_simp
  then show ?thesis
    using enableFirewall_killswitch [OF scripted.wfp_engine_axioms by_weight.wfp_arbitration_axioms
        EnableFirewall_scripted [of 9 "doNotRestrict home_conf" "DNS (config_Interface home_conf)", folded enableFirewall_def],
        of cFWPM_LAYER_ALE_AUTH_CONNECT_V4 leak] r dns
    by (simp add: layersV4_def service_process_ok)
qed

end
