(* ===== verification/Tunnel_Locks.thy ===== *)
theory Tunnel_Locks
  imports Go_Prelude
begin

text \<open>
  The locks of the interface watcher and of the change handlers, and what the code does with them when an
  interface appears while the tunnel is taken down: \<open>tunnel/interfacewatcher.go\<close> (\<open>setup\<close>, \<open>Destroy\<close>, the callback of
  \<open>watchInterface\<close>), \<open>tunnel/mtumonitor.go\<close> and \<open>tunnel/winipcfg/interface_change_handler.go\<close>,
  \<open>route_change_handler.go\<close>.  Of each function only its operations on mutexes and wait groups are kept, in their order;
  two goroutines take turns in any order.
\<close>

section \<open>Operations on locks\<close>

datatype lock =
    setupMutex | monitorMutex
  | interfaceChangeAddRemoveMutex | interfaceChangeMutex | routeChangeAddRemoveMutex | routeChangeMutex

text \<open>\<open>WaitCallback\<close> waits for the runs of the watcher's callback, which \<open>CallbackDone\<close> ends.  A monitor's callbacks are not
  running, so that waiting for them does not block.\<close>

datatype action = Lock lock | Unlock lock | WaitCallback | CallbackDone

definition register_locks :: "lock \<Rightarrow> lock \<Rightarrow> action list" where
  "register_locks addRemove m = [Lock addRemove, Lock m, Unlock m, Unlock addRemove]"

definition unregister_locks :: "lock \<Rightarrow> lock \<Rightarrow> action list \<Rightarrow> action list" where
  "unregister_locks addRemove m wait = [Lock addRemove, Lock m, Unlock m] @ wait @ [Unlock addRemove]"

definition monitorMTU_locks :: "action list" where
  "monitorMTU_locks =
     [Lock monitorMutex, Unlock monitorMutex] @
     register_locks routeChangeAddRemoveMutex routeChangeMutex @
     register_locks interfaceChangeAddRemoveMutex interfaceChangeMutex"

text \<open>A family with callbacks has one of each kind.\<close>

definition unregister_monitor_locks :: "bool \<Rightarrow> action list" where
  "unregister_monitor_locks monitored =
     (if monitored
      then unregister_locks routeChangeAddRemoveMutex routeChangeMutex [] @
        unregister_locks interfaceChangeAddRemoveMutex interfaceChangeMutex []
      else [])"

definition setup_locks :: "bool \<Rightarrow> bool \<Rightarrow> action list" where
  "setup_locks mtu_given monitored =
     unregister_monitor_locks monitored @ (if mtu_given then [] else monitorMTU_locks)"

text \<open>The goroutine that \<open>interfaceChanged\<close> starts for the tunnel's own interface.\<close>

definition callback_locks :: "bool \<Rightarrow> bool \<Rightarrow> action list" where
  "callback_locks mtu_given monitored =
     [Lock setupMutex] @ setup_locks mtu_given monitored @ [Unlock setupMutex, CallbackDone]"

definition Destroy_locks :: "bool \<Rightarrow> bool \<Rightarrow> action list" where
  "Destroy_locks monitored4 monitored6 =
     [Lock setupMutex, Unlock setupMutex] @
     unregister_locks interfaceChangeAddRemoveMutex interfaceChangeMutex [WaitCallback] @
     unregister_monitor_locks monitored4 @ unregister_monitor_locks monitored6 @
     [Lock setupMutex, Unlock setupMutex]"

section \<open>Two goroutines\<close>

text \<open>What each has left to do, who holds which lock (\<open>True\<close> for the one that takes the tunnel down), and
  whether the callback is running.\<close>

record threads =
  destroying :: "action list"
  calling :: "action list"
  held_locks :: "(lock \<times> bool) list"
  running :: bool

definition program :: "bool \<Rightarrow> threads \<Rightarrow> action list" where
  "program t s = (if t then destroying s else calling s)"

definition advance :: "bool \<Rightarrow> threads \<Rightarrow> threads" where
  "advance t s = (if t then s \<lparr>destroying := tl (destroying s)\<rparr> else s \<lparr>calling := tl (calling s)\<rparr>)"

definition turn :: "bool \<Rightarrow> threads \<Rightarrow> threads option" where
  "turn t s =
     (case program t s of
        [] \<Rightarrow> None
      | Lock l # _ \<Rightarrow> if l \<in> fst ` set (held_locks s) then None else Some ((advance t s) \<lparr>held_locks := (l, t) # held_locks s\<rparr>)
      | Unlock l # _ \<Rightarrow> Some ((advance t s) \<lparr>held_locks := filter (\<lambda>(k, _). k \<noteq> l) (held_locks s)\<rparr>)
      | WaitCallback # _ \<Rightarrow> if running s then None else Some (advance t s)
      | CallbackDone # _ \<Rightarrow> Some ((advance t s) \<lparr>running := False\<rparr>))"

inductive reachable :: "threads \<Rightarrow> threads \<Rightarrow> bool" for s0 where
  start: "reachable s0 s0"
| turn: "reachable s0 s \<Longrightarrow> turn t s = Some s' \<Longrightarrow> reachable s0 s'"

definition stuck :: "threads \<Rightarrow> bool" where
  "stuck s \<longleftrightarrow> turn True s = None \<and> turn False s = None"

definition finished :: "threads \<Rightarrow> bool" where
  "finished s \<longleftrightarrow> destroying s = [] \<and> calling s = []"

text \<open>\<open>Destroy\<close> is called while a callback for the tunnel's interface has been started.\<close>

definition race :: "bool \<Rightarrow> bool \<Rightarrow> bool \<Rightarrow> threads" where
  "race mtu_given monitored4 monitored6 =
     \<lparr>destroying = Destroy_locks monitored4 monitored6, calling = callback_locks mtu_given monitored4,
      held_locks = [], running = True\<rparr>"

section \<open>Exploring\<close>

fun run :: "bool list \<Rightarrow> threads \<Rightarrow> threads option" where
  "run [] s = Some s"
| "run (t # ts) s = (case turn t s of None \<Rightarrow> None | Some s' \<Rightarrow> run ts s')"

lemma run_reachable: "run ts s = Some s' \<Longrightarrow> reachable s0 s \<Longrightarrow> reachable s0 s'"
  by (induction ts arbitrary: s) (auto split: option.splits intro: reachable.turn)

definition nexts :: "threads \<Rightarrow> threads list" where
  "nexts s = List.map_filter (\<lambda>t. turn t s) [True, False]"

lemma turn_nexts: "turn t s = Some s' \<Longrightarrow> s' \<in> set (nexts s)"
  by (cases t) (auto simp: nexts_def List.map_filter_def)

text \<open>The states that follow those of a list, level by level, each once.\<close>

fun explore :: "nat \<Rightarrow> threads list \<Rightarrow> threads list" where
  "explore 0 ss = []"
| "explore (Suc n) ss = ss @ explore n (remdups (concat (map nexts ss)))"

fun exhausted :: "nat \<Rightarrow> threads list \<Rightarrow> bool" where
  "exhausted 0 ss = (ss = [])"
| "exhausted (Suc n) ss = exhausted n (remdups (concat (map nexts ss)))"

lemma explore_closed:
  "exhausted n ss \<Longrightarrow> s \<in> set (explore n ss) \<Longrightarrow> turn t s = Some s' \<Longrightarrow> s' \<in> set (explore n ss)"
proof (induction n arbitrary: ss)
  case (Suc n)
  let ?next = "remdups (concat (map nexts ss))"
  have first: "set ?next \<subseteq> set (explore n ?next)" using Suc.prems(1) by (cases n) auto
  show ?case
  proof (cases "s \<in> set ss")
    case True
    then have "s' \<in> set ?next" using turn_nexts [OF Suc.prems(3)] by auto
    then show ?thesis using first by auto
  next
    case False
    then have "s \<in> set (explore n ?next)" using Suc.prems(2) by simp
    then show ?thesis using Suc.IH [of ?next] Suc.prems(1,3) by simp
  qed
qed simp

lemma explored:
  assumes "exhausted (Suc n) [s0]" and "list_all P (explore (Suc n) [s0])" and "reachable s0 s"
  shows "P s"
proof -
  have "s \<in> set (explore (Suc n) [s0])" using assms(3)
  proof (induction rule: reachable.induct)
    case (turn s t s')
    then show ?case using explore_closed [OF assms(1)] by blast
  qed simp
  then show ?thesis using assms(2) by (auto simp: list_all_iff)
qed

section \<open>Property\<close>


end
