(* ===== verification/Spec2Isabelle.thy ===== *)
theory Spec2Isabelle
  imports Conf_Accept Conf_Store Firewall_Policy Ringlogger Driver_Config Highlighter_Accept Manager_Protocol Updater
    Tunnel_Service Tunnel_Locks
begin

text \<open>
  \<^bold>\<open>WireRoute for Windows, the Go part\<close>

  The program under \<open>src/\<close> runs WireGuard tunnels on Windows.  A configuration (\<open>conf\<close>) is parsed from a
  wg-quick file and kept encrypted in a directory of the system.  The manager (\<open>manager\<close>) is a service: it
  serves its windows over pipes, with two protocols, stores configurations and installs one Windows service for
  every active tunnel.  A tunnel service (\<open>tunnel\<close>) gives the configuration to the driver (\<open>driver\<close>), watches the network to set the
  addresses and routes of the adapter (\<open>tunnel/winipcfg\<close>) and restricts the traffic of the computer with a firewall
  (\<open>tunnel/firewall\<close>).  All parts write to
  a log in shared memory (\<open>ringlogger\<close>).  The updater (\<open>updater\<close>) fetches signed releases; the editor of
  the window highlights configurations (\<open>ui/syntax\<close>).

  \<^bold>\<open>Theories\<close>

  \<^item> \<open>Go_Prelude\<close>, \<open>Go_Netip\<close>, \<open>Go_Bytes\<close>, \<open>Go_Effects\<close>: what the program uses of Go and its library.
    Strings are lists of bytes (characters), machine integers are words, \<open>net/netip\<close> addresses are words with
    a zone, structures in memory are lists of bytes (locale \<open>struct_codec\<close>, interpreted on the structures of
    the driver).  A function with effects takes the state of the world and gives an error or a value and the new
    state; \<^const>\<open>None\<close> stands for a polling loop that has not ended within its turns.
  \<^item> \<open>Conf_Name\<close> (\<open>conf/name.go\<close>), \<open>Conf_Config\<close> (\<open>conf/config.go\<close>), \<open>Conf_Parser\<close> (\<open>conf/parser.go\<close>),
    \<open>Conf_Writer\<close> (\<open>conf/writer.go\<close>): names, the data model, \<open>FromWgQuick\<close> and \<open>ToWgQuick\<close>, line by line
    with their comments.  \<open>Conf_Print\<close> proves that the parser inverts the writer on well-formed configurations,
    \<open>Conf_Accept\<close> that whatever the parser accepts is well formed.
  \<^item> \<open>Conf_Store\<close> (\<open>conf/store.go\<close>, \<open>conf/filewriter_windows.go\<close>, \<open>conf/migration_windows.go\<close>,
    \<open>conf/dpapi\<close>): the directory of encrypted files, on a file system whose calls may fail.  The abstract store
    is a map from names to configurations; the locale of the store is interpreted on the files, and every
    sequence of operations refines the map.
  \<^item> \<open>Firewall_Types\<close>, \<open>Firewall\<close> (\<open>tunnel/firewall\<close>): the filters, the rules, the transaction and the
    switch; \<open>Firewall_Policy\<close> gives the filters a meaning (which connections an engine lets pass) and proves
    the policy.
  \<^item> \<open>Ringlogger\<close> (\<open>ringlogger\<close>): the log in shared memory, at the level of its single stores where readers
    run beside a writer.
  \<^item> \<open>Driver_Config\<close> (\<open>driver/configuration_windows.go\<close>, \<open>tunnel/winipcfg/types.go\<close>, the conversions of
    \<open>conf\<close>): the structures shared with the driver, as bytes.
  \<^item> \<open>Highlighter\<close>, \<open>Highlighter_Accept\<close> (\<open>ui/syntax/highlighter.go\<close>): the highlighter with its reads
    through pointers, and which values it calls valid, compared with the parser.
  \<^item> \<open>Manager_Names\<close>, \<open>Manager_Protocol\<close> (\<open>manager/protocol_v1.go\<close>): display names and the tunnel names
    derived from them; frames, the server and its methods, events.
  \<^item> \<open>Manager_Services\<close> (\<open>manager/install.go\<close>): the services of the manager and of the tunnels, persistent
    tunnels of profiles.
  \<^item> \<open>Manager_Session\<close> (\<open>manager/ipc_server.go\<close>, \<open>manager/ipc_client.go\<close>, \<open>manager/ipc_driver.go\<close>): the
    operations of \<open>ManagerService\<close>, the server loop, the client and its notifications.
  \<^item> \<open>Updater\<close> (\<open>updater\<close>): the signed list of releases, versions, download and installation.
  \<^item> \<open>Winipcfg\<close> (\<open>tunnel/winipcfg/luid.go\<close>, the rows of \<open>types.go\<close>, \<open>types_64.go\<close>): addresses, routes and DNS servers of an
    interface over the calls of iphlpapi, whose documented behaviour is the predicate \<open>documented\<close>;
    \<open>Tunnel_Address\<close> (\<open>tunnel/addressconfig.go\<close>): what a configuration makes of them.
  \<^item> \<open>Tunnel_Watch\<close> (\<open>tunnel/interfacewatcher.go\<close>, \<open>tunnel/mtumonitor.go\<close>, the change handlers of \<open>winipcfg\<close>): the callbacks
    registered with Windows, each run as a whole under its mutex, and the histories they lead to;
    \<open>Tunnel_Locks\<close>: the same code as its operations on mutexes and wait groups, in every interleaving of two goroutines.
  \<^item> \<open>Conf_Resolve\<close> (\<open>conf/dnsresolver_windows.go\<close>), \<open>Tunnel_Guid\<close> (\<open>tunnel/deterministicguid.go\<close>),
    \<open>Tunnel_Runtime\<close> (\<open>tunnel/runtime_log.go\<close>, \<open>tunnel/runtime_metrics.go\<close>), \<open>Service_Errors\<close> (\<open>services/errors.go\<close>): the parts of a
    tunnel service; \<open>Tunnel_Service\<close> (\<open>tunnel/service.go\<close>, \<open>tunnel/scriptrunner.go\<close>, \<open>elevate/privileges.go\<close>): the service
    that composes them, with a trace of what it starts and stops.

  \<^bold>\<open>What is shown\<close>

  \<^item> Configurations: the round trip through text, what the parser accepts, which names are valid and how
    they are ordered, which configurations intersect, what redaction leaves.
  \<^item> Store: it refines a map under any faults; a write is all or nothing; migration loses no configuration.
  \<^item> Firewall: the verdict on every connection once the rules are in, all-or-nothing installation, and an
    invariant over all histories of calls.
  \<^item> Log: the last 2048 lines in order, no torn line for a concurrent reader, no loss for a follower.
  \<^item> Driver: the round trip through the memory of the driver, with bounds on every read.
  \<^item> Manager: both servers are transparent (they refine the direct calls); a session without administrator
    rights changes nothing that lasts and learns no secret, whatever it sends; the hello comes first; an imported
    profile is stored under a new valid name without touching others; failed installations are undone.
  \<^item> Updater: only a newer, signed release is run; every update ends and cleans up; the order of versions.
  \<^item> Interface: after a success the addresses and routes are those of the configuration; other interfaces are left
    alone; the attempts end; the default route with the lowest metric is found.
  \<^item> Watcher: no callback is lost or left behind; taking it down can deadlock with a callback, but not when the
    configuration gives an MTU.
  \<^item> Tunnel service: parts are started in one order, the driver behind the firewall and without privileges, and all that
    was started is stopped, on every path; the kill switch is on exactly for a default prefix of the only peer; every
    endpoint reaches the driver as an address; the GUID depends on the identity of a configuration only; the log is
    bounded and the metrics are the saturated sums.

  \<^bold>\<open>Parameters\<close>

  Windows calls, DPAPI, the service control manager, the filtering engine, the JSON and \<open>gob\<close> packages, the
  network, the name service, ed25519, blake2, curve25519, \<open>sort.Slice\<close> and Unicode tables are arguments: records of functions, with what a
  property relies on as its hypotheses (decryption inverts encryption, a query does not change the services, a map
  is visited in some order of its entries).  Each such property has a witness with concrete functions.

  \<^bold>\<open>Bounds and fuel\<close>

  Parsers, the log, the highlighter, frames and downloads are total functions; their termination proofs use the
  length of what is left to read.  Loops that poll Windows (waiting for a deleted service, for a service to start
  or to stop) take a number of turns, and give \<^const>\<open>None\<close> when it is used up; the properties of the manager
  hold for every number.  \<open>configureInterface\<close> starts over at most fifteen times, so that the sixteen turns of its loop are
  never used up, which is proved; \<open>GetAdaptersAddresses\<close> ends because its buffer grows.  The loop of the tunnel service
  runs over a list of what comes to it; when the list ends the service is still running.  A send to a full channel
  gives \<^const>\<open>None\<close>.  The 99998 tries for a tunnel name are enough for fewer than 99998 configurations.

  \<^bold>\<open>Not modelled\<close>

  The windows of \<open>ui\<close> (calls of the Windows user interface), the generated tables of \<open>zgotext.go\<close> and
  \<open>zsyscall_windows.go\<close>, the loader of \<open>driver/memmod\<close> (relocation of a DLL in raw memory), the tokens of \<open>elevate\<close>
  except for dropping privileges, \<open>version\<close>, \<open>l18n\<close> and \<open>main.go\<close> (glue around system calls); the warnings of
  \<open>tunnel/pitfalls.go\<close>; the goroutine that ends a tunnel service whose cleanup hangs; locks and goroutines, except where
  an interleaving matters (the log, the watcher) or work is left to a goroutine (recorded as a job).  The .NET projects under \<open>src/src\<close> are another program.
\<close>

end
